(* ===== verification/JS_Prelude.thy ===== *)
theory JS_Prelude
  imports Main "HOL-Library.Char_ord"
begin

text \<open>
  The shared base of the development.

  It holds what the modelled JavaScript uses of its language and standard library: strings as
  character lists (one \<open>char\<close> per code unit below 256), \<open>indexOf\<close>, \<open>substr\<close>, \<open>slice\<close>,
  \<open>split\<close>, \<open>join\<close>, \<open>trim\<close>, \<open>toLowerCase\<close>, \<open>parseInt\<close>, decimal printing, objects as association
  lists in insertion order, and a generic locale for state machines whose steps keep an
  invariant. The lemmas here are the ones several components share.
\<close>

named_theorems js_defs "definitions of the string and object primitives"
named_theorems js_str "rewrite rules for splitting, joining and searching"

section \<open>Splitting and joining\<close>

text \<open>\<open>s.split(c)\<close> for a one-character separator: never empty, \<open>"".split(c)\<close> is \<open>[""]\<close>.\<close>

fun split_on :: "'a \<Rightarrow> 'a list \<Rightarrow> 'a list list" where
  "split_on c [] = [[]]"
| "split_on c (x # xs) =
     (if x = c then [] # split_on c xs
      else (case split_on c xs of [] \<Rightarrow> [[x]] | w # ws \<Rightarrow> (x # w) # ws))"

text \<open>\<open>ws.join(sep)\<close>.\<close>

fun join_with :: "'a list \<Rightarrow> 'a list list \<Rightarrow> 'a list" where
  "join_with sep [] = []"
| "join_with sep [w] = w"
| "join_with sep (w # v # ws) = w @ sep @ join_with sep (v # ws)"

lemma split_on_nonempty [simp]: "split_on c xs \<noteq> []"
  by (induction xs) (auto split: list.splits)

lemma split_on_no_sep [js_str]: "c \<notin> set xs \<Longrightarrow> split_on c xs = [xs]"
  by (induction xs) auto

lemma split_on_append_sep [js_str]:
  "c \<notin> set w \<Longrightarrow> split_on c (w @ c # xs) = w # split_on c xs"
  by (induction w) (auto split: list.splits)

lemma join_split_on [js_str]: "join_with [c] (split_on c xs) = xs"
proof (induction xs)
  case Nil
  then show ?case by simp
next
  case (Cons x xs)
  then show ?case
    by (cases "split_on c xs"; cases "tl (split_on c xs)") auto
qed

lemma split_on_parts: "w \<in> set (split_on c xs) \<Longrightarrow> c \<notin> set w"
proof (induction xs arbitrary: w)
  case Nil
  then show ?case by simp
next
  case (Cons x xs)
  then show ?case
    by (cases "split_on c xs") (auto split: if_splits)
qed

lemma split_on_join_with [js_str]:
  "ws \<noteq> [] \<Longrightarrow> (\<And>w. w \<in> set ws \<Longrightarrow> c \<notin> set w) \<Longrightarrow> split_on c (join_with [c] ws) = ws"
proof (induction "[c]" ws rule: join_with.induct)
  case 1
  then show ?case by simp
next
  case (2 w)
  then show ?case by (simp add: split_on_no_sep)
next
  case (3 w v ws)
  then show ?case by (simp add: split_on_append_sep)
qed

lemma length_split_on: "length (split_on c xs) = Suc (count_list xs c)"
  by (induction xs) (auto split: list.splits)

lemma join_with_Cons:
  "ws \<noteq> [] \<Longrightarrow> join_with sep (w # ws) = w @ sep @ join_with sep ws"
  by (cases ws) auto

section \<open>Searching\<close>

text \<open>
  \<open>find_sub pat s\<close> is the first position at which \<open>pat\<close> occurs in \<open>s\<close>; \<open>index_of\<close> is
  \<open>s.indexOf(pat)\<close> with its \<open>-1\<close>.
\<close>

fun starts_with :: "'a list \<Rightarrow> 'a list \<Rightarrow> bool" where
  "starts_with [] s = True"
| "starts_with (p # ps) [] = False"
| "starts_with (p # ps) (x # xs) = (p = x \<and> starts_with ps xs)"

fun find_sub :: "'a list \<Rightarrow> 'a list \<Rightarrow> nat option" where
  "find_sub pat s =
     (if starts_with pat s then Some 0
      else (case s of [] \<Rightarrow> None | _ # xs \<Rightarrow> map_option Suc (find_sub pat xs)))"

declare find_sub.simps [simp del]

definition index_of :: "'a list \<Rightarrow> 'a list \<Rightarrow> int" where
  "index_of s pat = (case find_sub pat s of None \<Rightarrow> -1 | Some n \<Rightarrow> int n)"

lemma starts_with_iff: "starts_with p s \<longleftrightarrow> (\<exists>t. s = p @ t)"
  by (induction p s rule: starts_with.induct) auto

lemma starts_with_append [simp]: "starts_with p (p @ t)"
  by (induction p) auto

lemma starts_with_take: "starts_with p s \<longleftrightarrow> take (length p) s = p"
  by (induction p s rule: starts_with.induct) auto

lemma find_sub_Some:
  "find_sub pat s = Some n \<Longrightarrow> starts_with pat (drop n s) \<and> n + length pat \<le> length s"
proof (induction s arbitrary: n)
  case Nil
  then show ?case
    by (cases pat) (auto simp: find_sub.simps)
next
  case (Cons x s)
  show ?case
  proof (cases "starts_with pat (x # s)")
    case True
    with Cons.prems have "n = 0" by (simp add: find_sub.simps)
    with True show ?thesis
      using starts_with_take[of pat "x # s"] by (metis drop0 add_0 length_take min.absorb_iff1 min.commute)
  next
    case False
    with Cons.prems obtain m where "find_sub pat s = Some m" "n = Suc m"
      by (auto simp: find_sub.simps[of pat "x # s"])
    with Cons.IH[of m] show ?thesis by simp
  qed
qed

lemma find_sub_None: "find_sub pat s = None \<longleftrightarrow> (\<forall>n \<le> length s. \<not> starts_with pat (drop n s))"
proof (induction s)
  case Nil
  then show ?case by (simp add: find_sub.simps)
next
  case (Cons x s)
  show ?case (is "?L \<longleftrightarrow> ?R")
  proof
    assume ?L
    then have "\<not> starts_with pat (x # s)" "find_sub pat s = None"
      by (auto simp: find_sub.simps[of pat "x # s"] split: if_splits)
    with Cons.IH show ?R by (auto simp: drop_Cons split: nat.splits)
  next
    assume R: ?R
    have "\<forall>n\<le>length s. \<not> starts_with pat (drop n s)"
    proof (intro allI impI)
      fix n assume "n \<le> length s"
      with R[rule_format, of "Suc n"] show "\<not> starts_with pat (drop n s)" by simp
    qed
    with Cons.IH R[rule_format, of 0] show ?L
      by (simp add: find_sub.simps[of pat "x # s"])
  qed
qed

lemma index_of_ge: "- 1 \<le> index_of s pat"
  by (auto simp: index_of_def split: option.splits)

lemma index_of_zero: "index_of s pat = 0 \<longleftrightarrow> starts_with pat s"
proof -
  have "find_sub pat s = Some 0 \<longleftrightarrow> starts_with pat s"
    by (cases s) (auto simp: find_sub.simps)
  then show ?thesis
    by (auto simp: index_of_def split: option.splits)
qed

lemma find_sub_char:
  "find_sub [c] s = (if c \<in> set s then Some (length (takeWhile (\<lambda>x. x \<noteq> c) s)) else None)"
  by (induction s) (auto simp: find_sub.simps)

lemma index_of_char_none: "c \<notin> set s \<Longrightarrow> index_of s [c] = -1"
  by (simp add: index_of_def find_sub_char)

lemma index_of_char_append: "c \<notin> set s \<Longrightarrow> index_of (s @ c # t) [c] = int (length s)"
  by (induction s) (auto simp: index_of_def find_sub_char)

section \<open>Substrings\<close>

text \<open>
  \<open>s.substr(a, n)\<close> and \<open>s.substr(a)\<close> for \<open>a \<ge> 0\<close>; \<open>s.slice(a, b)\<close> with JavaScript's negative
  indices, which count from the end.
\<close>

definition js_substr :: "'a list \<Rightarrow> nat \<Rightarrow> nat \<Rightarrow> 'a list" where [js_defs]:
  "js_substr s a n = take n (drop a s)"

definition js_substr_from :: "'a list \<Rightarrow> nat \<Rightarrow> 'a list" where [js_defs]:
  "js_substr_from s a = drop a s"

definition js_clamp :: "nat \<Rightarrow> int \<Rightarrow> nat" where [js_defs]:
  "js_clamp len i = (if i < 0 then nat (max 0 (int len + i)) else min len (nat i))"

definition js_slice :: "'a list \<Rightarrow> int \<Rightarrow> int \<Rightarrow> 'a list" where [js_defs]:
  "js_slice s a b =
     (let i = js_clamp (length s) a; j = js_clamp (length s) b in take (j - i) (drop i s))"

definition js_slice_from :: "'a list \<Rightarrow> int \<Rightarrow> 'a list" where [js_defs]:
  "js_slice_from s a = drop (js_clamp (length s) a) s"

text \<open>\<open>s[i]\<close>: \<open>undefined\<close> out of range.\<close>

definition js_at :: "'a list \<Rightarrow> nat \<Rightarrow> 'a option" where [js_defs]:
  "js_at s i = (if i < length s then Some (s ! i) else None)"

section \<open>Characters, case and trimming\<close>

definition is_upper :: "char \<Rightarrow> bool" where
  "is_upper c \<longleftrightarrow> 65 \<le> (of_char c :: nat) \<and> (of_char c :: nat) \<le> 90"

definition is_lower :: "char \<Rightarrow> bool" where
  "is_lower c \<longleftrightarrow> 97 \<le> (of_char c :: nat) \<and> (of_char c :: nat) \<le> 122"

definition is_digit :: "char \<Rightarrow> bool" where
  "is_digit c \<longleftrightarrow> 48 \<le> (of_char c :: nat) \<and> (of_char c :: nat) \<le> 57"

text \<open>JavaScript's white space and line terminators below 256 (\<open>trim\<close>, \<open>\s\<close>).\<close>

definition is_space :: "char \<Rightarrow> bool" where
  "is_space c \<longleftrightarrow> (of_char c :: nat) \<in> {9, 10, 11, 12, 13, 32, 160}"

definition lower_char :: "char \<Rightarrow> char" where
  "lower_char c = (if is_upper c then char_of ((of_char c :: nat) + 32) else c)"

definition upper_char :: "char \<Rightarrow> char" where
  "upper_char c = (if is_lower c then char_of ((of_char c :: nat) - 32) else c)"

definition to_lower :: "string \<Rightarrow> string" where
  "to_lower s = map lower_char s"

definition to_upper :: "string \<Rightarrow> string" where
  "to_upper s = map upper_char s"

lemma to_lower_append [simp]: "to_lower (s @ t) = to_lower s @ to_lower t"
  by (simp add: to_lower_def)

lemma length_to_lower [simp]: "length (to_lower s) = length s"
  by (simp add: to_lower_def)

lemma to_lower_Nil [simp]: "to_lower [] = []"
  by (simp add: to_lower_def)

lemma lower_char_idem [simp]: "lower_char (lower_char c) = lower_char c"
proof -
  have "\<not> is_upper (lower_char c)"
    by (auto simp: lower_char_def is_upper_def)
  then show ?thesis by (simp add: lower_char_def)
qed

lemma to_lower_idem [simp]: "to_lower (to_lower s) = to_lower s"
  by (simp add: to_lower_def)

definition trim_left :: "string \<Rightarrow> string" where
  "trim_left s = dropWhile is_space s"

definition trim_str :: "string \<Rightarrow> string" where
  "trim_str s = rev (dropWhile is_space (rev (dropWhile is_space s)))"

lemma dropWhile_hd: "\<not> P (hd xs) \<Longrightarrow> dropWhile P xs = xs"
  by (cases xs) auto

text \<open>Trimming on the right never touches a block that ends in a kept element.\<close>

lemma rev_dropWhile_keeps:
  "b \<noteq> [] \<Longrightarrow> \<not> P (last b) \<Longrightarrow> \<exists>k. rev (dropWhile P (rev (b @ t))) = b @ take k t"
proof (induction t rule: rev_induct)
  case Nil
  then have "dropWhile P (rev b) = rev b"
    by (intro dropWhile_hd) (simp add: hd_rev)
  then show ?case by simp
next
  case (snoc x t)
  then obtain k where k: "rev (dropWhile P (rev (b @ t))) = b @ take k t" by blast
  show ?case
  proof (cases "P x")
    case True
    then have "rev (dropWhile P (rev (b @ t @ [x]))) = b @ take (min k (length t)) (t @ [x])"
      using k by (simp add: min_def)
    then show ?thesis by blast
  next
    case False
    then have "rev (dropWhile P (rev (b @ t @ [x]))) = b @ take (Suc (length t)) (t @ [x])"
      by simp
    then show ?thesis by blast
  qed
qed

lemma trim_str_id:
  "s = [] \<or> \<not> is_space (hd s) \<and> \<not> is_space (last s) \<Longrightarrow> trim_str s = s"
proof (cases "s = []")
  case True
  then show ?thesis by (simp add: trim_str_def)
next
  case False
  moreover assume "s = [] \<or> \<not> is_space (hd s) \<and> \<not> is_space (last s)"
  ultimately have h: "\<not> is_space (hd s)" "\<not> is_space (hd (rev s))"
    by (auto simp: hd_rev)
  show ?thesis using h by (simp add: trim_str_def dropWhile_hd)
qed

section \<open>Decimal numbers\<close>

definition digit_val :: "char \<Rightarrow> nat" where
  "digit_val c = (of_char c :: nat) - 48"

definition digit_char :: "nat \<Rightarrow> char" where
  "digit_char n = char_of (n + 48)"

fun digits_val :: "nat \<Rightarrow> string \<Rightarrow> nat" where
  "digits_val acc [] = acc"
| "digits_val acc (c # cs) = digits_val (10 * acc + digit_val c) cs"

text \<open>
  \<open>parseInt(s, 10)\<close>: leading white space, an optional sign, then the longest run of digits;
  \<open>NaN\<close> (here \<open>None\<close>) when there is no digit.
\<close>

definition parse_nat_prefix :: "string \<Rightarrow> nat option" where
  "parse_nat_prefix s =
     (let ds = takeWhile is_digit s in if ds = [] then None else Some (digits_val 0 ds))"

definition parse_int :: "string \<Rightarrow> int option" where
  "parse_int s =
     (case trim_left s of
        [] \<Rightarrow> None
      | c # cs \<Rightarrow>
          if c = CHR ''-'' then map_option (\<lambda>n. - int n) (parse_nat_prefix cs)
          else if c = CHR ''+'' then map_option int (parse_nat_prefix cs)
          else map_option int (parse_nat_prefix (c # cs)))"

fun show_nat :: "nat \<Rightarrow> string" where
  "show_nat n = (if n < 10 then [digit_char n] else show_nat (n div 10) @ [digit_char (n mod 10)])"

declare show_nat.simps [simp del]

definition show_int :: "int \<Rightarrow> string" where
  "show_int i = (if i < 0 then CHR ''-'' # show_nat (nat (- i)) else show_nat (nat i))"

lemma of_char_digit_char [simp]: "n < 10 \<Longrightarrow> (of_char (digit_char n) :: nat) = n + 48"
  by (simp add: digit_char_def)

lemma is_digit_digit_char [simp]: "n < 10 \<Longrightarrow> is_digit (digit_char n)"
  by (simp add: is_digit_def)

lemma digit_val_digit_char [simp]: "n < 10 \<Longrightarrow> digit_val (digit_char n) = n"
  by (simp add: digit_val_def)

lemma digits_val_append: "digits_val acc (s @ t) = digits_val (digits_val acc s) t"
  by (induction s arbitrary: acc) auto

lemma show_nat_digits: "\<forall>c \<in> set (show_nat n). is_digit c"
proof (induction n rule: show_nat.induct)
  case (1 n)
  then show ?case by (subst show_nat.simps) auto
qed

lemma show_nat_nonempty [simp]: "show_nat n \<noteq> []"
  by (subst show_nat.simps) simp

lemma digits_val_show_nat: "digits_val 0 (show_nat n) = n"
proof (induction n rule: show_nat.induct)
  case (1 n)
  then show ?case
    by (subst show_nat.simps) (simp add: digits_val_append)
qed

lemma parse_nat_prefix_show_nat:
  "t = [] \<or> \<not> is_digit (hd t) \<Longrightarrow> parse_nat_prefix (show_nat n @ t) = Some n"
proof -
  assume t: "t = [] \<or> \<not> is_digit (hd t)"
  have "takeWhile is_digit t = []"
    using t by (cases t) auto
  then have "takeWhile is_digit (show_nat n @ t) = show_nat n"
    using show_nat_digits[of n] by (simp add: takeWhile_append2)
  then show ?thesis
    by (simp add: parse_nat_prefix_def Let_def digits_val_show_nat)
qed

lemma digit_facts: "is_digit c \<Longrightarrow> \<not> is_space c \<and> c \<noteq> CHR ''-'' \<and> c \<noteq> CHR ''+'' \<and> c \<noteq> CHR ''.''"
  by (auto simp: is_digit_def is_space_def)

lemma parse_int_show_nat:
  "t = [] \<or> \<not> is_digit (hd t) \<Longrightarrow> parse_int (show_nat n @ t) = Some (int n)"
proof -
  assume t: "t = [] \<or> \<not> is_digit (hd t)"
  obtain c cs where s: "show_nat n = c # cs"
    by (cases "show_nat n") auto
  then have "is_digit c"
    using show_nat_digits[of n] by simp
  then show ?thesis
    using parse_nat_prefix_show_nat[OF t, of n] s digit_facts[of c]
    by (simp add: parse_int_def trim_left_def)
qed

section \<open>Objects\<close>

text \<open>
  A plain object with string keys, as an association list in insertion order: \<open>o[k]\<close>,
  \<open>o[k] = v\<close> (in place when the key is there, else at the end), \<open>delete o[k]\<close>.
\<close>

type_synonym 'v obj = "(string \<times> 'v) list"

fun obj_set :: "'k \<Rightarrow> 'v \<Rightarrow> ('k \<times> 'v) list \<Rightarrow> ('k \<times> 'v) list" where
  "obj_set k v [] = [(k, v)]"
| "obj_set k v ((k', v') # o') = (if k' = k then (k, v) # o' else (k', v') # obj_set k v o')"

definition obj_del :: "'k \<Rightarrow> ('k \<times> 'v) list \<Rightarrow> ('k \<times> 'v) list" where
  "obj_del k o' = filter (\<lambda>(k', _). k' \<noteq> k) o'"

lemma map_of_obj_set [simp]: "map_of (obj_set k v o') = (map_of o')(k \<mapsto> v)"
  by (induction o') (auto simp: fun_upd_twist)

lemma map_of_obj_del [simp]: "map_of (obj_del k o') = (map_of o')(k := None)"
proof (induction o')
  case Nil
  then show ?case by (simp add: obj_del_def)
next
  case (Cons p o')
  then show ?case by (cases p) (auto simp: obj_del_def fun_eq_iff)
qed

lemma set_keys_obj_set [simp]: "fst ` set (obj_set k v o') = insert k (fst ` set o')"
  using map_of_obj_set[of k v o'] by (metis dom_fun_upd dom_map_of_conv_image_fst option.distinct(1))

lemma distinct_obj_set [simp]: "distinct (map fst o') \<Longrightarrow> distinct (map fst (obj_set k v o'))"
proof (induction o')
  case Nil
  then show ?case by simp
next
  case (Cons p o')
  then show ?case
    using set_keys_obj_set[of k v o'] by (cases p) auto
qed

lemma distinct_obj_del [simp]: "distinct (map fst o') \<Longrightarrow> distinct (map fst (obj_del k o'))"
  by (induction o') (auto simp: obj_del_def image_iff)

section \<open>State machines with an invariant\<close>

text \<open>
  Many of the modelled components are a state and a set of event handlers. The locale collects
  what their proofs share: if every step keeps the invariant, every run does.
\<close>

fun run_events :: "('e \<Rightarrow> 's \<Rightarrow> 's) \<Rightarrow> 'e list \<Rightarrow> 's \<Rightarrow> 's" where
  "run_events step [] s = s"
| "run_events step (e # es) s = run_events step es (step e s)"

lemma run_events_append: "run_events step (es @ fs) s = run_events step fs (run_events step es s)"
  by (induction es arbitrary: s) auto

locale invariant_machine =
  fixes step :: "'e \<Rightarrow> 's \<Rightarrow> 's"
    and inv :: "'s \<Rightarrow> bool"
  assumes step_keeps: "inv s \<Longrightarrow> inv (step e s)"
begin

lemma run_keeps: "inv s \<Longrightarrow> inv (run_events step es s)"
  by (induction es arbitrary: s) (auto intro: step_keeps)

end

end
