(* ===== verification/Node_Path.thy ===== *)
theory Node_Path
  imports JS_Prelude
begin

text \<open>
  The part of Node's \<open>path\<close> module (POSIX) the web tool calls: \<open>path.normalize\<close> and
  \<open>path.resolve\<close>. A path is a string; its segments are the nonempty parts between slashes.
  \<open>norm_segs\<close> is the normalisation of a segment list with a stack: \<open>"."\<close> is dropped and \<open>".."\<close>
  cancels the segment before it, or is kept (relative paths) or dropped (absolute paths) when
  there is none.
\<close>

definition segs :: "string \<Rightarrow> string list" where
  "segs p = filter (\<lambda>w. w \<noteq> []) (split_on CHR ''/'' p)"

fun norm_step :: "bool \<Rightarrow> string list \<Rightarrow> string \<Rightarrow> string list" where
  "norm_step allow_up st w =
     (if w = ''.'' then st
      else if w = ''..'' then
        (case st of
           [] \<Rightarrow> (if allow_up then [w] else [])
         | t # st' \<Rightarrow> (if t = ''..'' then w # st else st'))
      else w # st)"

definition norm_segs :: "bool \<Rightarrow> string list \<Rightarrow> string list" where
  "norm_segs allow_up ws = rev (foldl (norm_step allow_up) [] ws)"

definition is_abs :: "string \<Rightarrow> bool" where
  "is_abs p \<longleftrightarrow> starts_with ''/'' p"

text \<open>\<open>path.normalize(p)\<close>.\<close>

definition path_normalize :: "string \<Rightarrow> string" where
  "path_normalize p =
     (let ab = is_abs p;
          trailing = (p \<noteq> [] \<and> last p = CHR ''/'');
          q = join_with [CHR ''/''] (norm_segs (\<not> ab) (segs p));
          q1 = (if q = [] \<and> \<not> ab then ''.'' else q);
          q2 = (if q1 \<noteq> [] \<and> trailing then q1 @ ''/'' else q1)
      in (if ab then ''/'' else []) @ q2)"

text \<open>
  \<open>path.resolve(a, b)\<close> in a process whose working directory is the absolute path \<open>cwd\<close>: the
  arguments are taken from the right until the path is absolute.
\<close>

definition path_resolve2 :: "string \<Rightarrow> string \<Rightarrow> string \<Rightarrow> string" where
  "path_resolve2 cwd a b =
     (let full = (if is_abs b then b else if is_abs a then a @ ''/'' @ b else cwd @ ''/'' @ a @ ''/'' @ b)
      in ''/'' @ join_with [CHR ''/''] (norm_segs False (segs full)))"

section \<open>Segments\<close>

definition plain_seg :: "string \<Rightarrow> bool" where
  "plain_seg w \<longleftrightarrow> w \<noteq> [] \<and> w \<noteq> ''.'' \<and> w \<noteq> ''..'' \<and> CHR ''/'' \<notin> set w"

text \<open>An absolute path with plain segments, as it is written.\<close>

definition abs_path :: "string list \<Rightarrow> string" where
  "abs_path ws = ''/'' @ join_with [CHR ''/''] ws"

lemma split_on_append:
  "split_on c (xs @ c # ys) = split_on c xs @ split_on c ys"
  by (induction xs) (auto split: list.splits simp: Cons_eq_append_conv)

lemma segs_append: "segs (p @ ''/'' @ q) = segs p @ segs q"
  by (simp add: segs_def split_on_append)

lemma segs_Nil [simp]: "segs [] = []"
  by (simp add: segs_def)

lemma segs_slash [simp]: "segs (CHR ''/'' # p) = segs p"
  by (simp add: segs_def)

lemma plain_segD: "plain_seg w \<Longrightarrow> w \<noteq> [] \<and> w \<noteq> ''.'' \<and> w \<noteq> ''..'' \<and> CHR ''/'' \<notin> set w"
  by (simp add: plain_seg_def)

lemma segs_join:
  "(\<And>w. w \<in> set ws \<Longrightarrow> w \<noteq> [] \<and> CHR ''/'' \<notin> set w) \<Longrightarrow> segs (join_with [CHR ''/''] ws) = ws"
proof (cases "ws = []")
  case True
  then show ?thesis by simp
next
  case False
  assume a: "\<And>w. w \<in> set ws \<Longrightarrow> w \<noteq> [] \<and> CHR ''/'' \<notin> set w"
  then have "split_on CHR ''/'' (join_with [CHR ''/''] ws) = ws"
    using False by (intro split_on_join_with) auto
  then show ?thesis
    using a by (auto simp: segs_def filter_id_conv)
qed

lemma segs_abs_path: "list_all plain_seg ws \<Longrightarrow> segs (abs_path ws) = ws"
  using segs_join[of ws] by (auto simp: abs_path_def list_all_iff dest: plain_segD)

lemma is_abs_abs_path [simp]: "is_abs (abs_path ws)"
  by (simp add: is_abs_def abs_path_def)

section \<open>Normalisation\<close>

lemma foldl_norm_plain:
  "list_all plain_seg ws \<Longrightarrow> foldl (norm_step ab) st ws = rev ws @ st"
  by (induction ws arbitrary: st) (auto dest: plain_segD)

lemma norm_plain: "list_all plain_seg ws \<Longrightarrow> norm_segs ab ws = ws"
  by (simp add: norm_segs_def foldl_norm_plain)

text \<open>\<open>n\<close> parent segments after at least \<open>n\<close> plain ones remove exactly the last \<open>n\<close>.\<close>

lemma foldl_norm_up:
  "list_all plain_seg st \<Longrightarrow> n \<le> length st \<Longrightarrow>
   foldl (norm_step ab) st (replicate n ''..'') = drop n st"
proof (induction n arbitrary: st)
  case 0
  then show ?case by simp
next
  case (Suc n)
  then obtain t st' where st: "st = t # st'" by (cases st) auto
  have "norm_step ab st ''..'' = st'"
    using Suc.prems st by (auto dest: plain_segD)
  moreover have "list_all plain_seg st'" "n \<le> length st'"
    using Suc.prems st by auto
  ultimately show ?case
    using Suc.IH[of st'] st by simp
qed

lemma norm_up:
  "list_all plain_seg ws \<Longrightarrow> n \<le> length ws \<Longrightarrow>
   norm_segs ab (ws @ replicate n ''..'') = take (length ws - n) ws"
  by (simp add: norm_segs_def foldl_norm_plain foldl_norm_up list_all_rev rev_drop)

text \<open>The normal form never holds a \<open>"."\<close>, and an absolute one no \<open>".."\<close>.\<close>

lemma norm_step_absolute:
  "list_all plain_seg st \<Longrightarrow> w \<noteq> [] \<Longrightarrow> CHR ''/'' \<notin> set w \<Longrightarrow> list_all plain_seg (norm_step False st w)"
  by (auto simp: plain_seg_def split: list.splits)

lemma norm_absolute_plain:
  "(\<And>w. w \<in> set ws \<Longrightarrow> w \<noteq> [] \<and> CHR ''/'' \<notin> set w) \<Longrightarrow> list_all plain_seg (norm_segs False ws)"
proof -
  assume a: "\<And>w. w \<in> set ws \<Longrightarrow> w \<noteq> [] \<and> CHR ''/'' \<notin> set w"
  have "list_all plain_seg st \<Longrightarrow> list_all plain_seg (foldl (norm_step False) st ws)" for st
    using a by (induction ws arbitrary: st) (auto intro!: norm_step_absolute simp del: norm_step.simps)
  then show ?thesis by (simp add: norm_segs_def list_all_rev)
qed

lemma segs_parts: "w \<in> set (segs p) \<Longrightarrow> w \<noteq> [] \<and> CHR ''/'' \<notin> set w"
  by (auto simp: segs_def dest: split_on_parts)

end
