(* ===== verification/Web_Helper.thy ===== *)
theory Web_Helper
  imports Node_Path
begin

text \<open>
  \<open>web/helper.js\<close> and \<open>web/config.js\<close>: finding the directory the server was started from, and
  reading its configuration file of \<open>key=value\<close> lines.
\<close>

definition BINDIR :: string where
  "BINDIR = ''../bin''"

section \<open>resolve\_pwd\<close>

text \<open>
  \<open>layer\<close> is the number of slashes of the normalised executable path; the result is \<open>layer\<close>
  parents above \<open>dir\<close>. The loop that fills \<open>tmp\<close> is \<open>push_parents\<close>.
\<close>

fun push_parents :: "nat \<Rightarrow> string list \<Rightarrow> string list" where
  "push_parents 0 tmp = tmp"
| "push_parents (Suc n) tmp = push_parents n (tmp @ [''..''])"

definition resolve_pwd :: "string \<Rightarrow> string \<Rightarrow> string \<Rightarrow> string" where
  "resolve_pwd cwd dir exep =
     (let layer = length (split_on CHR ''/'' (path_normalize exep)) - 1;
          tmp = push_parents layer []
      in path_resolve2 cwd dir (join_with [CHR ''/''] tmp))"

lemma push_parents_replicate: "push_parents n tmp = tmp @ replicate n ''..''"
  by (induction n arbitrary: tmp) (auto simp: replicate_app_Cons_same)

section \<open>read\_cfg\<close>

text \<open>
  The contents of the file (\<open>fs.readFileSync(cfg).toString("utf8")\<close>) are the argument; a line
  without \<open>=\<close> stores \<open>undefined\<close> (here \<open>None\<close>) under the whole line, and only the part up to a
  second \<open>=\<close> is kept as the value. The key \<open>__proto__\<close> is lost: assigning a string or undefined to it
  changes nothing.
\<close>

definition cfg_entry :: "string option obj \<Rightarrow> string \<Rightarrow> string option obj" where
  "cfg_entry tmp line =
     (let v = split_on CHR ''='' line
      in if hd v = ''__proto__'' then tmp else obj_set (hd v) (js_at v 1) tmp)"

definition read_cfg :: "string \<Rightarrow> string option obj" where
  "read_cfg text = foldl cfg_entry [] (split_on CHR ''\<newline>'' (trim_str text))"

text \<open>The file the tool expects: one \<open>key=value\<close> line per entry.\<close>

definition cfg_line :: "string \<times> string \<Rightarrow> string" where
  "cfg_line kv = fst kv @ ''='' @ snd kv"

definition show_cfg :: "(string \<times> string) list \<Rightarrow> string" where
  "show_cfg kvs = join_with [CHR ''\<newline>''] (map cfg_line kvs)"

definition cfg_ok :: "string \<times> string \<Rightarrow> bool" where
  "cfg_ok kv \<longleftrightarrow>
     fst kv \<noteq> ''__proto__'' \<and> CHR ''='' \<notin> set (fst kv) \<and> CHR ''='' \<notin> set (snd kv) \<and>
     CHR ''\<newline>'' \<notin> set (fst kv) \<and> CHR ''\<newline>'' \<notin> set (snd kv)"


section \<open>The directory recovered from the start command\<close>

lemma normalize_relative:
  assumes "norm_segs True (segs exep) = ws" "ws \<noteq> []" "list_all plain_seg ws"
    and "\<not> is_abs exep" "exep \<noteq> []" "last exep \<noteq> CHR ''/''"
  shows "split_on CHR ''/'' (path_normalize exep) = ws"
proof -
  have "join_with [CHR ''/''] ws \<noteq> []"
    using assms(2,3) by (cases ws; cases "tl ws") (auto dest: plain_segD)
  then have "path_normalize exep = join_with [CHR ''/''] ws"
    using assms by (simp add: path_normalize_def)
  then show ?thesis
    using assms(2,3) by (auto intro!: split_on_join_with simp: list_all_iff dest: plain_segD)
qed

lemma segs_join_parents: "segs (join_with [CHR ''/''] (replicate n ''..'')) = replicate n ''..''"
  by (rule segs_join) auto

lemma not_abs_join_parents: "\<not> is_abs (join_with [CHR ''/''] (replicate n ''..''))"
  by (cases n; cases "n - 1") (auto simp: is_abs_def)

lemma norm_bin_up:
  assumes "list_all plain_seg (root @ [w])" "plain_seg b" "n \<le> Suc (length root)"
  shows "norm_segs False ((root @ [w]) @ [''..'', b] @ replicate n ''..'') =
         take (Suc (length root) - n) (root @ [b])"
proof -
  have "foldl (norm_step False) [] ((root @ [w]) @ [''..'', b] @ replicate n ''..'') =
        foldl (norm_step False) (b # rev root) (replicate n ''..'')"
    using assms(1,2) foldl_norm_plain[of "root @ [w]" False "[]"]
    by (auto dest: plain_segD)
  also have "\<dots> = drop n (b # rev root)"
    using assms by (intro foldl_norm_up) (auto simp: list_all_rev)
  finally show ?thesis
    using assms(3) by (simp only: norm_segs_def rev_drop) simp
qed

lemma resolve_pwd_start_dir:
  assumes "list_all plain_seg (root @ [web])" and "list_all plain_seg (ds @ [name])"
    and "root @ [''bin''] = pwd @ ds"
    and "norm_segs True (segs exep) = ds @ [name]"
    and "\<not> is_abs exep" "exep \<noteq> []" "last exep \<noteq> CHR ''/''"
  shows "resolve_pwd (abs_path (root @ [web])) BINDIR exep = abs_path pwd"
proof -
  have len: "length ds \<le> Suc (length root)" "Suc (length root) - length ds = length pwd"
    using arg_cong[OF assms(3), of length] by auto
  have layer: "length (split_on CHR ''/'' (path_normalize exep)) - 1 = length ds"
    using normalize_relative[OF assms(4) _ assms(2,5,6,7)] by simp
  have bin: "segs ''../bin'' = [''..'', ''bin'']" "\<not> is_abs ''../bin''" "plain_seg ''bin''"
    by (simp_all add: segs_def is_abs_def plain_seg_def)
  have "segs (abs_path (root @ [web]) @ ''/'' @ ''../bin'' @ ''/'' @
          join_with [CHR ''/''] (replicate (length ds) ''..'')) =
        (root @ [web]) @ [''..'', ''bin''] @ replicate (length ds) ''..''"
    using segs_append[of "abs_path (root @ [web])"] segs_append[of "''../bin''"] bin(1)
      segs_abs_path[OF assms(1)] segs_join_parents by metis
  then have "resolve_pwd (abs_path (root @ [web])) BINDIR exep =
      abs_path (take (Suc (length root) - length ds) (root @ [''bin'']))"
    using norm_bin_up[OF assms(1) bin(3) len(1)] bin(2)
    by (simp only: resolve_pwd_def layer push_parents_replicate path_resolve2_def Let_def BINDIR_def
        not_abs_join_parents if_False append_Nil abs_path_def)
  then show ?thesis
    using assms(3) len by simp
qed

text \<open>
  C18. When the server binary stands in the project's \<open>bin\<close> directory beside the web directory and
  was started by a relative path (with or without \<open>./\<close>) from a directory above or at \<open>bin\<close>,
  \<open>resolve_pwd\<close> returns exactly the directory it was started from.
\<close>

theorem resolve_pwd_recovers_start_dir:
  assumes "list_all plain_seg (root @ [web])" and "list_all plain_seg (ds @ [name])"
    and "root @ [''bin''] = pwd @ ds"
    and "norm_segs True (segs exep) = ds @ [name]"
    and "\<not> is_abs exep" "exep \<noteq> []" "last exep \<noteq> CHR ''/''"
  shows "resolve_pwd (abs_path (root @ [web])) BINDIR exep = abs_path pwd"
  using assms by (rule resolve_pwd_start_dir)

theorem resolve_pwd_recovers_start_dir_witness:
  "resolve_pwd (abs_path [''home'', ''sp'', ''web'']) BINDIR ''./bin/csiebox_server'' =
   abs_path [''home'', ''sp'']"
proof -
  have "resolve_pwd (abs_path ([''home'', ''sp''] @ [''web''])) BINDIR ''./bin/csiebox_server'' =
      abs_path [''home'', ''sp'']"
    by (rule resolve_pwd_recovers_start_dir[where ds = "[''bin'']" and name = "''csiebox_server''"])
       (simp_all add: plain_seg_def segs_def is_abs_def norm_segs_def)
  then show ?thesis by simp
qed

section \<open>The configuration file\<close>

lemma proto_key_is_lost: "read_cfg ''__proto__=x\<newline>path=y'' = [(''path'', Some ''y'')]"
  by code_simp

lemma cfg_entry_line:
  "cfg_ok kv \<Longrightarrow> cfg_entry tmp (cfg_line kv) = obj_set (fst kv) (Some (snd kv)) tmp"
  by (simp add: cfg_ok_def cfg_line_def cfg_entry_def Let_def split_on_append_sep split_on_no_sep js_at_def)

lemma cfg_foldl:
  "list_all cfg_ok kvs \<Longrightarrow>
   map_of (foldl cfg_entry tmp (map cfg_line kvs)) k =
     (case map_of (rev kvs) k of Some v \<Rightarrow> Some (Some v) | None \<Rightarrow> map_of tmp k)"
proof (induction kvs arbitrary: tmp)
  case Nil
  then show ?case by simp
next
  case (Cons kv kvs)
  then show ?case
    by (cases kv) (auto simp: cfg_entry_line map_add_def split: option.splits)
qed

lemma cfg_lines_split:
  assumes "kvs \<noteq> []" "list_all cfg_ok kvs"
  shows "split_on CHR ''\<newline>'' (show_cfg kvs) = map cfg_line kvs"
  unfolding show_cfg_def using assms
  by (intro split_on_join_with) (auto simp: list_all_iff cfg_ok_def cfg_line_def)

text \<open>
  C19. Reading a file of \<open>key=value\<close> lines (no key is \<open>__proto__\<close>, no equals sign or line end inside a key or
  value), whatever blank space surrounds it, gives back exactly the written bindings: every key has its last
  value, and no other key is there.
\<close>

theorem read_cfg_round_trip:
  assumes "kvs \<noteq> []" "list_all cfg_ok kvs" "trim_str text = show_cfg kvs"
  shows "map_of (read_cfg text) k = map_option Some (map_of (rev kvs) k)"
  unfolding read_cfg_def assms(3) cfg_lines_split[OF assms(1,2)] cfg_foldl[OF assms(2)]
  by (simp split: option.splits)

theorem read_cfg_round_trip_witness:
  "map_of (read_cfg ''path=../sdir\<newline>run_path=/tmp2\<newline>'') ''run_path'' = Some (Some ''/tmp2'')"
proof -
  have "map_of (read_cfg ''path=../sdir\<newline>run_path=/tmp2\<newline>'') ''run_path'' =
      map_option Some (map_of (rev [(''path'', ''../sdir''), (''run_path'', ''/tmp2'')]) ''run_path'')"
    by (rule read_cfg_round_trip)
       (simp_all add: cfg_ok_def show_cfg_def cfg_line_def trim_str_def is_space_def)
  then show ?thesis by simp
qed

text \<open>
  A value that itself holds an equals sign is cut at it: of the line \<open>k=v=w\<close> only \<open>v\<close> is
  kept, where the server's own parser (\<open>getdelim\<close> up to the first \<open>=\<close>, then the rest of the
  line) reads \<open>v=w\<close>.
\<close>

theorem read_cfg_cuts_values:
  assumes "CHR ''='' \<notin> set k" "k \<noteq> ''__proto__''" "CHR ''='' \<notin> set v"
    and "CHR ''\<newline>'' \<notin> set (k @ v @ w)"
    and "trim_str text = k @ ''='' @ v @ ''='' @ w"
  shows "read_cfg text = [(k, Some v)]"
proof -
  have "CHR ''\<newline>'' \<notin> set (k @ ''='' @ v @ ''='' @ w)"
    using assms(4) by simp
  then have "split_on CHR ''\<newline>'' (trim_str text) = [k @ ''='' @ v @ ''='' @ w]"
    unfolding assms(5) by (rule split_on_no_sep)
  then show ?thesis
    using assms(1-3)
    by (simp add: read_cfg_def cfg_entry_def Let_def split_on_append_sep js_at_def)
qed

theorem read_cfg_cuts_values_witness:
  "read_cfg ''run_path=/tmp/a=b'' = [(''run_path'', Some ''/tmp/a'')]"
  by (rule read_cfg_cuts_values[where w = "''b''"]) (simp_all add: trim_str_def is_space_def)

end
