(* ===== verification/Web_Controller.thy ===== *)
theory Web_Controller
  imports Web_Helper
begin

text \<open>
  \<open>web/controller.js\<close>: the pages that list the running servers and remember the chosen one in
  the session. Starting a child process and reading a file are the environment: a handler is
  split at \<open>exec\<close> into the command it runs and the callback on its result, and the file system
  is a function from paths to contents. The views a callback renders or the redirects it sends
  are values in the order the code issues them.
\<close>

section \<open>Responses\<close>

text \<open>
  A chosen server. Its process id is what \<open>parseInt\<close> gives for the first word of the listing (ids are small
  enough to be exact), or null after JSON has kept a \<open>NaN\<close>; a key of its configuration can be undefined.
\<close>

datatype js_pid = NotANumber | NullPid | Pid int

definition parse_pid :: "string \<Rightarrow> js_pid" where
  "parse_pid s = (case parse_int s of None \<Rightarrow> NotANumber | Some n \<Rightarrow> Pid n)"

record server_proc =
  p_pid :: js_pid
  p_cmd :: string
  p_cfg :: string
  p_args :: "string option obj"

datatype response =
    Redirect string
  | RenderIndex server_proc
  | RenderChoose "string option" "(string \<times> string) list option"

text \<open>
  What one HTTP exchange makes of the pages a handler issues in one turn. The first
  \<open>res.send\<close> sets the type and the length of its page and calls the session's \<open>res.end\<close>, which
  puts the original \<open>end\<close> back and starts saving the session, so nothing is on the wire yet. The
  second \<open>res.send\<close> finds both headers set, keeps them and ends the response at once with its own
  body. The client gets the length of the first page and the body of the second; the \<open>end\<close> of
  the first, when the session is saved, finds the response finished.
\<close>

datatype exchange = Unanswered | Answered response | MixedAnswer response response

fun exchange_of :: "response list \<Rightarrow> exchange" where
  "exchange_of [] = Unanswered"
| "exchange_of [r] = Answered r"
| "exchange_of (r # r' # _) = MixedAnswer r r'"

section \<open>index\<close>

definition index_handler :: "server_proc option \<Rightarrow> response list" where
  "index_handler proc =
     (case proc of
        None \<Rightarrow> [Redirect ''/choose'']
      | Some p \<Rightarrow> [RenderIndex p])"

section \<open>choose\<close>

definition choose_command :: string where
  "choose_command = ''ps x -o pid,command | grep csiebox_server | grep -v grep''"

definition choose_line :: "(string \<times> string) list \<Rightarrow> string \<Rightarrow> (string \<times> string) list" where
  "choose_line pids v =
     (let arr = split_on CHR '' '' (trim_str v)
      in if length arr = 1 then pids
         else pids @ [(hd arr, join_with '' '' (tl arr))])"

definition choose_callback :: "bool \<Rightarrow> string \<Rightarrow> response list" where
  "choose_callback err stdout =
     (let first = (if err then [RenderChoose (Some ''ps error'') None] else []);
          pids = foldl choose_line [] (split_on CHR ''\<newline>'' stdout);
          error = (if length pids = 0 then Some ''cannot find csiebox_server'' else None)
      in first @ [RenderChoose error (Some pids)])"

section \<open>choose\_post\<close>

text \<open>The command is \<open>None\<close> when the body has no \<open>pid\<close> (then \<open>/choose\<close> is sent at once).\<close>

definition choose_post_command :: "string obj \<Rightarrow> string option" where
  "choose_post_command body =
     (case map_of body ''pid'' of
        None \<Rightarrow> None
      | Some pid \<Rightarrow>
          Some (''ps x -o pid,command | grep csiebox_server | grep '' @ pid @ '' | grep -v grep''))"

datatype choose_error = MissingArgument | CannotRead string

text \<open>
  The callback: the redirect sent and the new \<open>req.session.proc\<close>, or the exception it leaves
  uncaught (\<open>path.normalize(undefined)\<close>, or a configuration file that cannot be read).
\<close>

definition choose_post_callback ::
  "string \<Rightarrow> (string \<Rightarrow> string option) \<Rightarrow> bool \<Rightarrow> string \<Rightarrow> server_proc option \<Rightarrow>
   choose_error + (response \<times> server_proc option)" where
  "choose_post_callback cwd read_file err stdout proc =
     (if err then Inr (Redirect ''/choose'', proc)
      else
        let arr = split_on CHR '' '' (trim_str stdout)
        in case (js_at arr 1, js_at arr 2) of
             (Some exep, Some rel) \<Rightarrow>
               let pwd = resolve_pwd cwd BINDIR exep;
                   cfg = path_resolve2 cwd pwd rel
               in (case read_file cfg of
                     None \<Rightarrow> Inl (CannotRead cfg)
                   | Some text \<Rightarrow>
                       Inr (Redirect ''/'',
                            Some \<lparr>p_pid = parse_pid (hd arr), p_cmd = join_with '' '' (tl arr),
                                  p_cfg = cfg, p_args = read_cfg text\<rparr>))
           | _ \<Rightarrow> Inl MissingArgument)"

section \<open>The listing of ps\<close>

text \<open>
  One line of \<open>ps x -o pid,command\<close>: the process id, padded on the left, a blank and the command.
\<close>

definition ps_line :: "nat \<times> nat \<times> string \<Rightarrow> string" where
  "ps_line e = (case e of (pad, pid, cmd) \<Rightarrow> replicate pad CHR '' '' @ show_nat pid @ '' '' @ cmd)"

definition ps_output :: "(nat \<times> nat \<times> string) list \<Rightarrow> string" where
  "ps_output es = concat (map (\<lambda>e. ps_line e @ [CHR ''\<newline>'']) es)"

definition cmd_ok :: "string \<Rightarrow> bool" where
  "cmd_ok cmd \<longleftrightarrow> cmd \<noteq> [] \<and> CHR ''\<newline>'' \<notin> set cmd \<and> \<not> is_space (hd cmd) \<and> \<not> is_space (last cmd)"

lemma dropWhile_pad: "\<not> is_space (hd t) \<Longrightarrow> dropWhile is_space (replicate n CHR '' '' @ t) = dropWhile is_space t"
  by (induction n) (auto simp: is_space_def)

lemma show_nat_no_space: "CHR '' '' \<notin> set (show_nat n)" "CHR ''\<newline>'' \<notin> set (show_nat n)"
  using show_nat_digits[of n] by (auto simp: is_digit_def)

lemma hd_show_nat: "is_digit (hd (show_nat n))"
  using show_nat_digits[of n] by simp

lemma trim_ps_line:
  assumes "cmd_ok cmd"
  shows "trim_str (ps_line (pad, pid, cmd)) = show_nat pid @ '' '' @ cmd"
proof -
  have hd: "\<not> is_space (hd (show_nat pid @ '' '' @ cmd))"
    using hd_show_nat[of pid] digit_facts[of "hd (show_nat pid)"] by simp
  have "\<not> is_space (last (show_nat pid @ '' '' @ cmd))"
    using assms by (auto simp: cmd_ok_def)
  then show ?thesis
    using hd trim_str_id[of "show_nat pid @ '' '' @ cmd"]
    by (simp add: ps_line_def trim_str_def dropWhile_pad)
qed

lemma split_ps_line:
  "split_on CHR '' '' (show_nat pid @ '' '' @ cmd) = show_nat pid # split_on CHR '' '' cmd"
  using split_on_append_sep[of "CHR '' ''" "show_nat pid" cmd] show_nat_no_space by simp

lemma choose_line_ps:
  assumes "cmd_ok cmd"
  shows "choose_line pids (ps_line (pad, pid, cmd)) = pids @ [(show_nat pid, cmd)]"
  unfolding choose_line_def trim_ps_line[OF assms] split_ps_line Let_def
  by (simp add: join_split_on length_split_on)

lemma choose_line_blank: "choose_line pids [] = pids"
  by (simp add: choose_line_def trim_str_def)

lemma ps_line_no_newline: "cmd_ok (snd (snd e)) \<Longrightarrow> CHR ''\<newline>'' \<notin> set (ps_line e)"
  using show_nat_no_space by (auto simp: ps_line_def cmd_ok_def split: prod.splits)

lemma split_ps_output:
  "list_all (\<lambda>e. cmd_ok (snd (snd e))) es \<Longrightarrow>
   split_on CHR ''\<newline>'' (ps_output es) = map ps_line es @ [[]]"
  by (induction es) (auto simp: ps_output_def split_on_append_sep ps_line_no_newline)

lemma foldl_choose_lines:
  "list_all (\<lambda>e. cmd_ok (snd (snd e))) es \<Longrightarrow>
   foldl choose_line pids (map ps_line es) = pids @ map (\<lambda>(_, pid, cmd). (show_nat pid, cmd)) es"
  by (induction es arbitrary: pids) (auto simp: choose_line_ps)

text \<open>
  When \<open>ps\<close> finds servers, the page lists every one of them, in order, with its process id
  and its whole command line, and the request is answered exactly once.
\<close>

theorem choose_lists_all_servers:
  assumes "es \<noteq> []" "list_all (\<lambda>e. cmd_ok (snd (snd e))) es"
  shows "exchange_of (choose_callback False (ps_output es)) =
         Answered (RenderChoose None (Some (map (\<lambda>(_, pid, cmd). (show_nat pid, cmd)) es)))"
  using assms
  by (simp add: choose_callback_def split_ps_output foldl_choose_lines choose_line_blank)

theorem choose_lists_all_servers_witness:
  "exchange_of (choose_callback False (ps_output [(2, 731, ''./csiebox_server ../config/server.cfg'')])) =
   Answered (RenderChoose None (Some [(''731'', ''./csiebox_server ../config/server.cfg'')]))"
proof -
  have "show_nat 731 = ''731''"
    by code_simp
  then show ?thesis
    using choose_lists_all_servers[of "[(2, 731, ''./csiebox_server ../config/server.cfg'')]"]
    by (simp add: cmd_ok_def is_space_def)
qed

text \<open>
  When the \<open>ps\<close> pipeline fails, as it does whenever no server runs and \<open>grep\<close> finds nothing,
  the callback renders the page twice (there is no \<open>return\<close> after the first): the page of a
  successful run goes out under the length of the page that says ``ps error'', whatever the
  output was.
\<close>

theorem choose_answers_twice_on_error:
  "exchange_of (choose_callback True stdout) =
   MixedAnswer (RenderChoose (Some ''ps error'') None) (hd (choose_callback False stdout))"
  by (simp add: choose_callback_def Let_def)

section \<open>The chosen server\<close>

text \<open>\<open>grep pat\<close> on a listing keeps the lines that hold the pattern (here: a plain string).\<close>

definition grep_lines :: "string \<Rightarrow> (nat \<times> nat \<times> string) list \<Rightarrow> (nat \<times> nat \<times> string) list" where
  "grep_lines pat es = filter (\<lambda>e. find_sub pat (ps_line e) \<noteq> None) es"

lemma trim_ps_output:
  assumes "list_all (\<lambda>e. cmd_ok (snd (snd e))) ((pad, pid, cmd) # es)"
  shows "\<exists>rest. trim_str (ps_output ((pad, pid, cmd) # es)) = show_nat pid @ '' '' @ cmd @ rest \<and>
           (rest = [] \<or> hd rest = CHR ''\<newline>'')"
proof -
  let ?b = "show_nat pid @ '' '' @ cmd"
  let ?t = "[CHR ''\<newline>''] @ ps_output es"
  have hd: "\<not> is_space (hd (?b @ ?t))"
    using hd_show_nat[of pid] digit_facts[of "hd (show_nat pid)"] by simp
  have "dropWhile is_space (ps_output ((pad, pid, cmd) # es)) = ?b @ ?t"
    using dropWhile_pad[OF hd, of pad] dropWhile_hd[of is_space, OF hd]
    by (simp add: ps_output_def ps_line_def)
  moreover have "?b \<noteq> []" "\<not> is_space (last ?b)"
    using assms by (auto simp: cmd_ok_def)
  ultimately obtain k where "trim_str (ps_output ((pad, pid, cmd) # es)) = ?b @ take k ?t"
    using rev_dropWhile_keeps[of ?b is_space ?t] by (auto simp: trim_str_def)
  moreover have "take k ?t = [] \<or> hd (take k ?t) = CHR ''\<newline>''"
    by (cases k) auto
  ultimately show ?thesis by (metis append.assoc)
qed

lemma choose_post_callback_args:
  assumes "split_on CHR '' '' (trim_str out) = a # e # r # rest"
    and "read_file (path_resolve2 cwd (resolve_pwd cwd BINDIR e) r) = Some text"
  shows "choose_post_callback cwd read_file False out old =
    Inr (Redirect ''/'',
      Some \<lparr>p_pid = parse_pid a, p_cmd = join_with '' '' (e # r # rest),
            p_cfg = path_resolve2 cwd (resolve_pwd cwd BINDIR e) r, p_args = read_cfg text\<rparr>)"
  using assms by (simp add: choose_post_callback_def js_at_def Let_def)

text \<open>
  On a listing with one server, started as \<open>exep cfgarg\<close> from the directory \<open>pwd\<close> by a
  relative path through \<open>bin\<close>, the session remembers that process: its process id, its command,
  its configuration file at the place the server itself opened it (\<open>cfgarg\<close> from \<open>pwd\<close>) and
  the bindings of that file.
\<close>

theorem choose_post_remembers_server:
  assumes "cmd_ok (exep @ '' '' @ rel)" "CHR '' '' \<notin> set exep" "CHR '' '' \<notin> set rel"
    and "list_all plain_seg (root @ [web])" and "list_all plain_seg (ds @ [name])"
    and "root @ [''bin''] = pwd @ ds"
    and "norm_segs True (segs exep) = ds @ [name]"
    and "\<not> is_abs exep" "exep \<noteq> []" "last exep \<noteq> CHR ''/''"
    and "read_file (path_resolve2 cwd (abs_path pwd) rel) = Some text"
    and "cwd = abs_path (root @ [web])"
  shows "choose_post_callback cwd read_file False (ps_output [(pad, pid, exep @ '' '' @ rel)]) old =
    Inr (Redirect ''/'',
      Some \<lparr>p_pid = Pid (int pid), p_cmd = exep @ '' '' @ rel,
            p_cfg = path_resolve2 cwd (abs_path pwd) rel, p_args = read_cfg text\<rparr>)"
proof -
  have "trim_str (ps_line (pad, pid, exep @ '' '' @ rel) @ [CHR ''\<newline>'']) =
      show_nat pid @ '' '' @ exep @ '' '' @ rel"
  proof -
    let ?b = "show_nat pid @ '' '' @ exep @ '' '' @ rel"
    have "?b \<noteq> []" "\<not> is_space (last ?b)"
      using assms(1) by (auto simp: cmd_ok_def)
    moreover have "\<not> is_space (hd (?b @ [CHR ''\<newline>'']))"
      using hd_show_nat[of pid] digit_facts[of "hd (show_nat pid)"] by simp
    then have "dropWhile is_space (replicate pad CHR '' '' @ ?b @ [CHR ''\<newline>'']) = ?b @ [CHR ''\<newline>'']"
      using dropWhile_pad dropWhile_hd by metis
    moreover have "is_space CHR ''\<newline>''" by (simp add: is_space_def)
    moreover have "dropWhile is_space (rev ?b) = rev ?b"
      using calculation by (intro dropWhile_hd) (simp only: hd_rev, simp)
    ultimately show ?thesis
      by (simp add: trim_str_def ps_line_def)
  qed
  then have arr: "split_on CHR '' '' (trim_str (ps_output [(pad, pid, exep @ '' '' @ rel)])) =
      [show_nat pid, exep, rel]"
    using assms(2,3) show_nat_no_space[of pid]
    by (simp add: ps_output_def split_on_append_sep split_on_no_sep)
  have "resolve_pwd cwd BINDIR exep = abs_path pwd"
    unfolding assms(12) by (rule resolve_pwd_start_dir[OF assms(4-10)])
  then show ?thesis
    using choose_post_callback_args[OF arr] assms(11) parse_int_show_nat[of "[]" pid] by (simp add: parse_pid_def)
qed

theorem choose_post_remembers_server_witness:
  "choose_post_callback (abs_path [''sp'', ''web''])
     (\<lambda>p. if p = ''/sp/config/server.cfg'' then Some ''run_path=/tmp2'' else None)
     False (ps_output [(1, 42, ''./csiebox_server ../config/server.cfg'')]) None =
   Inr (Redirect ''/'',
     Some \<lparr>p_pid = Pid 42, p_cmd = ''./csiebox_server ../config/server.cfg'',
           p_cfg = ''/sp/config/server.cfg'', p_args = read_cfg ''run_path=/tmp2''\<rparr>)"
proof -
  let ?files = "\<lambda>p. if p = ''/sp/config/server.cfg'' then Some ''run_path=/tmp2'' else None"
  have cfg: "path_resolve2 (abs_path [''sp'', ''web'']) (abs_path [''sp'', ''bin'']) ''../config/server.cfg'' =
      ''/sp/config/server.cfg''"
    by code_simp
  have "choose_post_callback (abs_path [''sp'', ''web'']) ?files False
      (ps_output [(1, 42, ''./csiebox_server'' @ '' '' @ ''../config/server.cfg'')]) None =
    Inr (Redirect ''/'',
      Some \<lparr>p_pid = Pid (int 42), p_cmd = ''./csiebox_server'' @ '' '' @ ''../config/server.cfg'',
            p_cfg = path_resolve2 (abs_path [''sp'', ''web'']) (abs_path [''sp'', ''bin'']) ''../config/server.cfg'',
            p_args = read_cfg ''run_path=/tmp2''\<rparr>)"
  proof (rule choose_post_remembers_server[where root = "[''sp'']" and web = "''web''" and ds = "[]"
        and name = "''csiebox_server''"])
    show "norm_segs True (segs ''./csiebox_server'') = [] @ [''csiebox_server'']"
      by code_simp
  qed (simp_all add: cfg cmd_ok_def is_space_def plain_seg_def is_abs_def)
  then show ?thesis by (simp add: cfg)
qed

text \<open>
  The process remembered is the one of the first listed line that holds the requested id as a
  substring, wherever in the line it stands; it is the requested process only if no earlier
  line (a longer id, or a command that mentions the digits) holds those digits.
\<close>

theorem choose_post_takes_first_match:
  assumes "list_all (\<lambda>e. cmd_ok (snd (snd e))) es"
    and "grep_lines (show_nat pid) es = (pad, pid', cmd) # rest"
    and "choose_post_callback cwd read_file False (ps_output (grep_lines (show_nat pid) es)) old =
         Inr (r, Some p)"
  shows "p_pid p = Pid (int pid')"
proof -
  have "list_all (\<lambda>e. cmd_ok (snd (snd e))) ((pad, pid', cmd) # rest)"
    using assms(1) unfolding assms(2)[symmetric] by (auto simp: grep_lines_def list_all_iff)
  from trim_ps_output[OF this] obtain t where
    t: "trim_str (ps_output ((pad, pid', cmd) # rest)) = show_nat pid' @ '' '' @ cmd @ t" by blast
  have "hd (split_on CHR '' '' (trim_str (ps_output (grep_lines (show_nat pid) es)))) = show_nat pid'"
    using split_on_append_sep[of "CHR '' ''" "show_nat pid'" "cmd @ t"] show_nat_no_space
    by (simp add: assms(2) t)
  then show ?thesis
    using assms(3) parse_int_show_nat[of "[]" pid']
    by (auto simp: choose_post_callback_def parse_pid_def Let_def split: option.splits)
qed

theorem choose_post_takes_first_match_witness:
  "\<exists>r p. choose_post_callback ''/w'' (\<lambda>_. Some ''a=b'') False
      (ps_output (grep_lines (show_nat 12) [(0, 112, ''s c''), (1, 12, ''s d'')])) None = Inr (r, Some p)
    \<and> p_pid p = Pid 112"
proof -
  let ?es = "[(0, 112, ''s c''), (1, 12, ''s d'')] :: (nat \<times> nat \<times> string) list"
  have g: "grep_lines (show_nat 12) ?es = (0, 112, ''s c'') # [(1, 12, ''s d'')]"
    by (simp add: grep_lines_def ps_line_def show_nat.simps digit_char_def find_sub.simps)
  have out: "ps_output (grep_lines (show_nat 12) ?es) = ''112 s c\<newline> 12 s d\<newline>''"
    unfolding g by code_simp
  have arr: "split_on CHR '' '' (trim_str ''112 s c\<newline> 12 s d\<newline>'') = [''112'', ''s'', ''c\<newline>'', ''12'', ''s'', ''d'']"
    by code_simp
  obtain r p where rp: "choose_post_callback ''/w'' (\<lambda>_. Some ''a=b'') False
      (ps_output (grep_lines (show_nat 12) ?es)) None = Inr (r, Some p)"
    unfolding out choose_post_callback_def arr by (simp add: js_at_def Let_def)
  have "p_pid p = Pid (int 112)"
    by (rule choose_post_takes_first_match[OF _ g rp]) (simp add: cmd_ok_def is_space_def)
  then show ?thesis using rp by auto
qed

end
