(* ===== verification/Node_Buffer.thy ===== *)
theory Node_Buffer
  imports JS_Prelude "HOL-Library.Word"
begin

text \<open>
  Node's byte buffers as lists of \<open>8 word\<close>: reading a signed big-endian 32-bit integer
  (\<open>buf.readInt32BE(0)\<close>) and the byte sequences a C program writes for an \<open>int\<close>, in network and in
  little-endian host order.
\<close>

type_synonym byte = "8 word"

definition be32_val :: "byte list \<Rightarrow> int" where
  "be32_val bs = foldl (\<lambda>acc b. 256 * acc + uint b) 0 (take 4 bs)"

definition to_signed32 :: "int \<Rightarrow> int" where
  "to_signed32 v = (if v \<ge> 2 ^ 31 then v - 2 ^ 32 else v)"

text \<open>\<open>readInt32BE(0)\<close>; \<open>None\<close> is the exception for a buffer shorter than four bytes.\<close>

definition read_int32_be :: "byte list \<Rightarrow> int option" where
  "read_int32_be bs = (if length bs < 4 then None else Some (to_signed32 (be32_val bs)))"

definition be32_bytes :: "int \<Rightarrow> byte list" where
  "be32_bytes n = [word_of_int (n div 2 ^ 24), word_of_int (n div 2 ^ 16),
                   word_of_int (n div 2 ^ 8), word_of_int n]"

definition le32_bytes :: "int \<Rightarrow> byte list" where
  "le32_bytes n = rev (be32_bytes n)"

lemma uint_byte: "uint (word_of_int n :: byte) = n mod 256"
  by (simp add: uint_word_of_int)

lemma be32_val_bytes: "be32_val (be32_bytes n) = n mod 2 ^ 32"
proof -
  have "be32_val (be32_bytes n) =
      256 * (256 * (256 * (n div 16777216 mod 256) + n div 65536 mod 256) + n div 256 mod 256) + n mod 256"
    by (simp add: be32_val_def be32_bytes_def uint_byte)
  also have "\<dots> = n mod 4294967296"
  proof -
    have c: "256 * 16777216 = (4294967296::int)" "256 * 65536 = (16777216::int)" "256 * 256 = (65536::int)"
      "65536 * 256 = (16777216::int)"
      by simp_all
    have d: "n div 65536 = n div 256 div 256" "n div 16777216 = n div 65536 div 256"
      using zdiv_zmult2_eq[of 256 n 256] zdiv_zmult2_eq[of 256 n 65536] unfolding c by simp_all
    have e1: "n mod (256 * 16777216) = 256 * (n div 256 mod 16777216) + n mod 256"
      by (rule zmod_zmult2_eq) simp
    have e2: "n div 256 mod (256 * 65536) = 256 * (n div 256 div 256 mod 65536) + n div 256 mod 256"
      by (rule zmod_zmult2_eq) simp
    have e3: "n div 65536 mod (256 * 256) = 256 * (n div 65536 div 256 mod 256) + n div 65536 mod 256"
      by (rule zmod_zmult2_eq) simp
    note e = e1[unfolded c] e2[unfolded c, folded d(1)] e3[unfolded c, folded d(2)]
    show ?thesis by (simp only: e)
  qed
  finally show ?thesis by simp
qed

lemma read_int32_be_bytes:
  "- (2 ^ 31) \<le> n \<Longrightarrow> n < 2 ^ 31 \<Longrightarrow> read_int32_be (be32_bytes n) = Some n"
proof -
  assume r: "- (2 ^ 31) \<le> n" "n < 2 ^ 31"
  have "read_int32_be (be32_bytes n) = Some (to_signed32 (n mod 2 ^ 32))"
    by (simp add: read_int32_be_def be32_val_bytes) (simp add: be32_bytes_def)
  also have "to_signed32 (n mod 2 ^ 32) = n"
  proof (cases "0 \<le> n")
    case True
    then show ?thesis using r by (simp add: to_signed32_def)
  next
    case False
    have "(n + 2 ^ 32) mod 2 ^ 32 = n + 2 ^ 32"
      using r False by (intro mod_pos_pos_trivial) simp_all
    then have "n mod 2 ^ 32 = n + 2 ^ 32" by simp
    then show ?thesis using r False by (simp add: to_signed32_def)
  qed
  finally show ?thesis .
qed

lemma to_signed32_range: "0 \<le> v \<Longrightarrow> v < 2 ^ 32 \<Longrightarrow> - (2 ^ 31) \<le> to_signed32 v \<and> to_signed32 v < 2 ^ 31"
  unfolding to_signed32_def by (cases "v \<ge> 2 ^ 31") simp_all

lemma read_int32_be_range: "read_int32_be bs = Some n \<Longrightarrow> - (2 ^ 31) \<le> n \<and> n < 2 ^ 31"
proof -
  assume a: "read_int32_be bs = Some n"
  then obtain b0 b1 b2 b3 r where bs: "bs = b0 # b1 # b2 # b3 # r"
    by (cases bs; cases "tl bs"; cases "tl (tl bs)"; cases "tl (tl (tl bs))")
       (auto simp: read_int32_be_def split: if_splits)
  have lt: "uint b < 256" for b :: byte
    using uint_lt2p[of b] by simp
  note b = lt[of b0] lt[of b1] lt[of b2] lt[of b3]
  have "0 \<le> 16777216 * uint b0 + 65536 * uint b1 + 256 * uint b2 + uint b3"
    by simp
  moreover have "16777216 * uint b0 + 65536 * uint b1 + 256 * uint b2 + uint b3 < 2 ^ 32"
    using b by simp
  ultimately have "- (2 ^ 31) \<le> to_signed32 (16777216 * uint b0 + 65536 * uint b1 + 256 * uint b2 + uint b3) \<and>
      to_signed32 (16777216 * uint b0 + 65536 * uint b1 + 256 * uint b2 + uint b3) < 2 ^ 31"
    by (rule to_signed32_range)
  moreover have "n = to_signed32 (16777216 * uint b0 + 65536 * uint b1 + 256 * uint b2 + uint b3)"
    using a by (simp add: read_int32_be_def be32_val_def bs)
  ultimately show ?thesis by blast
qed

end
