(* ===== verification/Web_Api.thy ===== *)
theory Web_Api
  imports Web_Controller Node_Buffer
begin

text \<open>
  \<open>web/api.js\<close>, the endpoint that asks a server for its number of active threads, and
  \<open>web/register.js\<close>, the client of the port register (with the reply of
  \<open>mp5/src/port_register.c\<close> to it). Both wait for events of the environment; the model is the
  state their callbacks share and one step per callback.
\<close>

section \<open>threads\_active: before waiting\<close>

datatype api_reply = Success int | Failure string

definition js_undefined_or :: "string option option \<Rightarrow> string" where
  "js_undefined_or v = (case v of Some (Some s) \<Rightarrow> s | _ \<Rightarrow> ''undefined'')"

definition show_pid :: "js_pid \<Rightarrow> string" where
  "show_pid p = (case p of NotANumber \<Rightarrow> ''NaN'' | NullPid \<Rightarrow> ''null'' | Pid i \<Rightarrow> show_int i)"

definition fifo_path :: "server_proc \<Rightarrow> string" where
  "fifo_path p = js_undefined_or (map_of (p_args p) ''run_path'') @ ''/csiebox_server.'' @ show_pid (p_pid p)"

text \<open>Either the replies sent at once, or the path whose opening is awaited.\<close>

definition threads_active_start :: "server_proc option \<Rightarrow> bool \<Rightarrow> api_reply list + string" where
  "threads_active_start proc kill_ok =
     (case proc of
        None \<Rightarrow> Inl [Failure ''authorization fail'']
      | Some p \<Rightarrow>
          if \<not> kill_ok then Inl [Failure ''kill process error'']
          else Inr (fifo_path p))"

section \<open>threads\_active: waiting\<close>

datatype fifo_result = OpenError | ReadError | ReadBytes "byte list"

datatype api_event = TimerFires | FifoOpened fifo_result

record api_state =
  replies :: "api_reply list"
  timer_armed :: bool
  fifo_done :: bool

definition api_wait :: api_state where
  "api_wait = \<lparr>replies = [], timer_armed = True, fifo_done = False\<rparr>"

text \<open>
  \<open>fs.readSync\<close> overwrites the first bytes of the fresh buffer \<open>buf0\<close>, which \<open>new Buffer(4)\<close>
  leaves uninitialised.
\<close>

definition fifo_reply :: "byte list \<Rightarrow> fifo_result \<Rightarrow> api_reply" where
  "fifo_reply buf0 r =
     (case r of
        OpenError \<Rightarrow> Failure ''open error''
      | ReadError \<Rightarrow> Failure ''read fifo error''
      | ReadBytes bs \<Rightarrow>
          let got = take 4 bs; buf = got @ drop (length got) buf0
          in (case read_int32_be buf of
                None \<Rightarrow> Failure ''read fifo error''
              | Some n \<Rightarrow> Success n))"

text \<open>The timer fires at most once, and \<open>fs.open\<close> calls back at most once.\<close>

fun api_step :: "byte list \<Rightarrow> api_event \<Rightarrow> api_state \<Rightarrow> api_state" where
  "api_step buf0 TimerFires s =
     (if timer_armed s
      then s\<lparr>replies := replies s @ [Failure ''open timeout''], timer_armed := False\<rparr>
      else s)"
| "api_step buf0 (FifoOpened r) s =
     (if fifo_done s then s
      else s\<lparr>timer_armed := False, fifo_done := True, replies := replies s @ [fifo_reply buf0 r]\<rparr>)"

definition api_inv :: "api_state \<Rightarrow> bool" where
  "api_inv s \<longleftrightarrow>
     length (replies s) \<le> 2 \<and>
     (timer_armed s \<longrightarrow> \<not> fifo_done s \<and> replies s = []) \<and>
     (\<not> timer_armed s \<and> \<not> fifo_done s \<longrightarrow> replies s = [Failure ''open timeout'']) \<and>
     (fifo_done s \<longrightarrow> replies s \<noteq> [] \<and> (length (replies s) = 2 \<longrightarrow> hd (replies s) = Failure ''open timeout''))"

lemma api_step_inv: "api_inv s \<Longrightarrow> api_inv (api_step buf0 e s)"
  by (cases e) (auto simp: api_inv_def)

interpretation api_machine: invariant_machine "api_step buf0" api_inv
  by unfold_locales (rule api_step_inv)

lemma api_done_stays: "fifo_done s \<Longrightarrow> \<not> timer_armed s \<Longrightarrow> run_events (api_step buf0) es s = s"
proof (induction es)
  case Nil
  then show ?case by simp
next
  case (Cons e es)
  then show ?case by (cases e) auto
qed

definition opened_late :: "api_event list \<Rightarrow> bool" where
  "opened_late es \<longleftrightarrow>
     (\<exists>us r vs. es = us @ FifoOpened r # vs \<and> us \<noteq> [] \<and> set us = {TimerFires})"

lemma api_run_waiting:
  "run_events (api_step buf0) (replicate (Suc n) TimerFires) api_wait =
   \<lparr>replies = [Failure ''open timeout''], timer_armed = False, fifo_done = False\<rparr>"
proof -
  have "run_events (api_step buf0) (replicate m TimerFires) s = s" if "\<not> timer_armed s" for m s
    using that by (induction m) auto
  then show ?thesis by (simp add: api_wait_def)
qed

lemma events_split:
  "es = replicate n TimerFires \<or> (\<exists>m r vs. es = replicate m TimerFires @ FifoOpened r # vs)" if "n = length es"
  using that
proof (induction es arbitrary: n)
  case Nil
  then show ?case by simp
next
  case (Cons e es)
  show ?case
  proof (cases e)
    case (FifoOpened r)
    then have "e # es = replicate 0 TimerFires @ FifoOpened r # es" by simp
    then show ?thesis by blast
  next
    case TimerFires
    from Cons.IH[OF refl] show ?thesis
    proof
      assume "es = replicate (length es) TimerFires"
      then show ?thesis using TimerFires Cons.prems by (metis length_Cons replicate_Suc)
    next
      assume "\<exists>m r vs. es = replicate m TimerFires @ FifoOpened r # vs"
      then obtain m r vs where "es = replicate m TimerFires @ FifoOpened r # vs" by blast
      then have "e # es = replicate (Suc m) TimerFires @ FifoOpened r # vs"
        using TimerFires by simp
      then show ?thesis by blast
    qed
  qed
qed

text \<open>
  C17. Over every order of events the endpoint sends at most two replies, and it sends two, the
  second one after the first has ended the response, exactly when the timer fires before the fifo opens:
  the timeout does not cancel the pending \<open>fs.open\<close>.
\<close>

theorem threads_active_reply_count:
  "length (replies (run_events (api_step buf0) es api_wait)) \<le> 2 \<and>
   (length (replies (run_events (api_step buf0) es api_wait)) = 2 \<longleftrightarrow> opened_late es)"
proof
  have "api_inv api_wait" by (simp add: api_inv_def api_wait_def)
  then show "length (replies (run_events (api_step buf0) es api_wait)) \<le> 2"
    using api_machine.run_keeps by (simp add: api_inv_def)
  consider (timers) "es = replicate (length es) TimerFires"
    | (opened) m r vs where "es = replicate m TimerFires @ FifoOpened r # vs"
    using events_split[OF refl, of es] by blast
  then show "length (replies (run_events (api_step buf0) es api_wait)) = 2 \<longleftrightarrow> opened_late es"
  proof cases
    case timers
    have "length (replies (run_events (api_step buf0) es api_wait)) \<noteq> 2"
      using timers api_run_waiting[of buf0 "length es - 1"]
      by (cases es) (simp_all add: api_wait_def)
    moreover have "\<not> opened_late es"
      unfolding opened_late_def
      by (metis api_event.distinct(1) in_set_conv_decomp in_set_replicate timers)
    ultimately show ?thesis by simp
  next
    case opened
    have late: "opened_late es \<longleftrightarrow> m \<noteq> 0"
    proof
      assume "opened_late es"
      then obtain us q ws where u: "es = us @ FifoOpened q # ws" "us \<noteq> []" "set us = {TimerFires}"
        by (auto simp: opened_late_def)
      then have "hd es = TimerFires" by (cases us) auto
      then show "m \<noteq> 0" using opened by (cases m) auto
    next
      assume "m \<noteq> 0"
      then show "opened_late es"
        unfolding opened_late_def opened by (intro exI[of _ "replicate m TimerFires"]) auto
    qed
    have "length (replies (run_events (api_step buf0) es api_wait)) = (if m = 0 then 1 else 2)"
    proof (cases m)
      case 0
      then show ?thesis
        using opened by (simp add: api_wait_def api_done_stays)
    next
      case (Suc k)
      then show ?thesis
        using opened api_run_waiting[of buf0 k]
        by (simp add: run_events_append api_done_stays del: replicate_Suc)
    qed
    then show ?thesis using late by simp
  qed
qed

text \<open>
  When the fifo opens before the timer and the server has written its counter in network
  order, the one reply carries that counter.
\<close>

theorem threads_active_reports_counter:
  assumes "0 \<le> n" "n < 2 ^ 31"
  shows "replies (run_events (api_step buf0) (FifoOpened (ReadBytes (be32_bytes n)) # es) api_wait) = [Success n]"
proof -
  have "take 4 (be32_bytes n) = be32_bytes n" "length (be32_bytes n) = 4"
    by (simp_all add: be32_bytes_def)
  moreover have "length buf0 \<ge> 0" by simp
  moreover have "read_int32_be (be32_bytes n @ drop 4 buf0) = read_int32_be (be32_bytes n)"
    by (simp add: read_int32_be_def be32_val_def be32_bytes_def)
  ultimately show ?thesis
    using read_int32_be_bytes[of n] assms
    by (simp add: api_wait_def api_done_stays fifo_reply_def)
qed

theorem threads_active_reports_counter_witness:
  "replies (run_events (api_step [1, 2, 3, 4]) [FifoOpened (ReadBytes (be32_bytes 16)), TimerFires] api_wait) =
   [Success 16]"
  using threads_active_reports_counter[of 16 "[1, 2, 3, 4]" "[TimerFires]"] by simp

text \<open>
  A configuration without \<open>run_path\<close> is not noticed: no exception is raised, the path is built
  from the word \<open>undefined\<close>, and the reply ``no found run_path in config'' is never sent.
\<close>

theorem missing_run_path_not_detected:
  assumes "map_of (p_args p) ''run_path'' = None" "p_pid p = Pid i"
  shows "threads_active_start (Some p) True = Inr (''undefined/csiebox_server.'' @ show_int i)"
  using assms by (simp add: threads_active_start_def fifo_path_def js_undefined_or_def show_pid_def)

theorem missing_run_path_not_detected_witness:
  "threads_active_start (Some \<lparr>p_pid = Pid 7, p_cmd = [], p_cfg = [], p_args = []\<rparr>) True =
   Inr (''undefined/csiebox_server.'' @ show_int 7)"
  by (rule missing_run_path_not_detected) simp_all

section \<open>register\<close>

definition register_request :: "string \<Rightarrow> string" where
  "register_request user = ''2web'' @ user"

datatype net_event = Data "byte list" | End | ConnError

datatype reg_outcome = Started int | RegisterFail | Uncaught

record reg_state =
  reg_result :: "int option"
  reg_log :: "reg_outcome list"

definition reg_init :: reg_state where
  "reg_init = \<lparr>reg_result = None, reg_log = []\<rparr>"

text \<open>
  The empty string \<open>result\<close> starts with is \<open>None\<close>: it is not greater than 0 either. A failed
  connection is an \<open>error\<close> event nobody listens to, which the \<open>try\<close> around \<open>connect\<close> cannot catch.
\<close>

fun reg_step :: "net_event \<Rightarrow> reg_state \<Rightarrow> reg_state" where
  "reg_step (Data bs) s =
     (case read_int32_be bs of
        None \<Rightarrow> s\<lparr>reg_log := reg_log s @ [Uncaught]\<rparr>
      | Some n \<Rightarrow> s\<lparr>reg_result := Some n\<rparr>)"
| "reg_step End s =
     (case reg_result s of
        Some n \<Rightarrow> if n > 0 then s\<lparr>reg_log := reg_log s @ [Started n]\<rparr>
                   else s\<lparr>reg_log := reg_log s @ [RegisterFail]\<rparr>
      | None \<Rightarrow> s\<lparr>reg_log := reg_log s @ [RegisterFail]\<rparr>)"
| "reg_step ConnError s = s\<lparr>reg_log := reg_log s @ [Uncaught]\<rparr>"

definition reg_inv :: "reg_state \<Rightarrow> bool" where
  "reg_inv s \<longleftrightarrow>
     (\<forall>n. Started n \<in> set (reg_log s) \<longrightarrow> 0 < n \<and> n < 2 ^ 31) \<and>
     (\<forall>n. reg_result s = Some n \<longrightarrow> n < 2 ^ 31)"

interpretation reg_machine: invariant_machine reg_step reg_inv
proof
  fix s e
  assume "reg_inv s"
  then show "reg_inv (reg_step e s)"
    by (cases e) (auto simp: reg_inv_def dest: read_int32_be_range split: option.splits)
qed

text \<open>
  Whatever the register sends, the web server is started only with a positive port below
  \<open>2 ^ 31\<close>, never with the empty initial result.
\<close>

theorem register_starts_with_positive_port:
  assumes "Started n \<in> set (reg_log (run_events reg_step es reg_init))"
  shows "0 < n \<and> n < 2 ^ 31"
proof -
  have "reg_inv reg_init" by (simp add: reg_inv_def reg_init_def)
  then have "reg_inv (run_events reg_step es reg_init)"
    by (rule reg_machine.run_keeps)
  then show ?thesis using assms by (simp add: reg_inv_def)
qed

theorem register_starts_with_positive_port_witness: "0 < (10091::int) \<and> (10091::int) < 2 ^ 31"
proof (rule register_starts_with_positive_port)
  show "Started 10091 \<in> set (reg_log (run_events reg_step [Data (be32_bytes 10091), End] reg_init))"
    using read_int32_be_bytes[of 10091] by (simp add: reg_init_def)
qed

section \<open>The port register's side\<close>

text \<open>
  \<open>handle_request\<close> of \<open>port_register.c\<close> on a message: its first byte selects the action, and
  \<open>write(conn, &info_ret, sizeof(int))\<close> sends the answer in the byte order of the host (little
  endian on the x86 machines the binaries are built for). Booking and looking up a port are
  parameters here. \<open>None\<close> is the early return that writes nothing.
\<close>

definition port_reply :: "(string \<Rightarrow> int) \<Rightarrow> (string \<Rightarrow> int) \<Rightarrow> string \<Rightarrow> byte list option" where
  "port_reply book_port get_port msg =
     (case msg of
        [] \<Rightarrow> None
      | act # buf \<Rightarrow>
          if buf = [] then None
          else if act = CHR ''0'' then Some (le32_bytes (book_port buf))
          else if act = CHR ''1'' then Some (le32_bytes (get_port buf))
          else None)"

definition register_events :: "byte list option \<Rightarrow> net_event list" where
  "register_events reply = (case reply of None \<Rightarrow> [End] | Some bs \<Rightarrow> [Data bs, End])"

text \<open>
  Against the port register of this repository the web tool never gets a port: the request
  starts with \<open>2\<close>, which the register does not know, so the connection closes unanswered and the
  tool reports ``register fail'' without starting.
\<close>

theorem register_rejected_by_port_register:
  "reg_log (run_events reg_step (register_events (port_reply book_port get_port (register_request user))) reg_init) =
   [RegisterFail]"
  by (simp add: port_reply_def register_request_def register_events_def reg_init_def)

end
