(* ===== verification/JS_Uri.thy ===== *)
theory JS_Uri
  imports JS_Prelude
begin

text \<open>
  JavaScript's \<open>encodeURIComponent\<close> and \<open>decodeURIComponent\<close> on strings whose code units are
  below 256. \<open>None\<close> is the \<open>URIError\<close> of a malformed escape; an escape of three or four bytes
  denotes a code unit outside this range and is rejected too.
\<close>

definition hex_digit :: "nat \<Rightarrow> char" where
  "hex_digit n = (if n < 10 then char_of (n + 48) else char_of (n + 55))"

definition hex_val :: "char \<Rightarrow> nat option" where
  "hex_val c =
     (let n = (of_char c :: nat) in
      if 48 \<le> n \<and> n \<le> 57 then Some (n - 48)
      else if 65 \<le> n \<and> n \<le> 70 then Some (n - 55)
      else if 97 \<le> n \<and> n \<le> 102 then Some (n - 87)
      else None)"

definition percent :: "nat \<Rightarrow> string" where
  "percent b = [CHR ''%'', hex_digit (b div 16), hex_digit (b mod 16)]"

definition unreserved :: "char \<Rightarrow> bool" where
  "unreserved c \<longleftrightarrow> is_upper c \<or> is_lower c \<or> is_digit c \<or> c \<in> set ''-_.!~*()'' \<or> (of_char c :: nat) = 39"

definition encode_char :: "char \<Rightarrow> string" where
  "encode_char c =
     (if unreserved c then [c]
      else let n = (of_char c :: nat) in
        if n < 128 then percent n
        else percent (192 + n div 64) @ percent (128 + n mod 64))"

definition encode_uri :: "string \<Rightarrow> string" where
  "encode_uri s = concat (map encode_char s)"

definition hex2 :: "char \<Rightarrow> char \<Rightarrow> nat option" where
  "hex2 h l =
     (case (hex_val h, hex_val l) of (Some a, Some b) \<Rightarrow> Some (16 * a + b) | _ \<Rightarrow> None)"

definition read_hex2 :: "string \<Rightarrow> (nat \<times> string) option" where
  "read_hex2 s =
     (case s of
        h # l # r \<Rightarrow> map_option (\<lambda>b. (b, r)) (hex2 h l)
      | _ \<Rightarrow> None)"

lemma read_hex2_length: "read_hex2 s = Some (b, r) \<Longrightarrow> length r < length s"
  by (auto simp: read_hex2_def split: list.splits)

text \<open>The second byte of a two-byte sequence, after its percent sign.\<close>

definition read_cont :: "string \<Rightarrow> (nat \<times> string) option" where
  "read_cont s =
     (case s of
        [] \<Rightarrow> None
      | c # r \<Rightarrow>
          if c = CHR ''%'' then
            (case read_hex2 r of
               Some (b, r') \<Rightarrow> if 128 \<le> b \<and> b < 192 then Some (b, r') else None
             | None \<Rightarrow> None)
          else None)"

lemma read_cont_length: "read_cont s = Some (b, r) \<Longrightarrow> length r < length s"
  by (auto simp: read_cont_def dest: read_hex2_length split: list.splits if_splits option.splits)

function decode_uri :: "string \<Rightarrow> string option" where
  "decode_uri [] = Some []"
| "decode_uri (c # s) =
     (if c \<noteq> CHR ''%'' then map_option ((#) c) (decode_uri s)
      else (case read_hex2 s of
              None \<Rightarrow> None
            | Some (b, r) \<Rightarrow>
                if b < 128 then map_option ((#) (char_of b)) (decode_uri r)
                else if b = 194 \<or> b = 195 then
                  (case read_cont r of
                     None \<Rightarrow> None
                   | Some (b2, r2) \<Rightarrow>
                       map_option ((#) (char_of (64 * (b - 192) + (b2 - 128)))) (decode_uri r2))
                else None))"
  by pat_completeness auto
termination
  by (relation "measure length") (auto dest!: read_hex2_length read_cont_length)

lemma hex_val_digit [simp]: "n < 16 \<Longrightarrow> hex_val (hex_digit n) = Some n"
  by (auto simp: hex_val_def hex_digit_def Let_def)

lemma hex2_percent [simp]: "b < 256 \<Longrightarrow> hex2 (hex_digit (b div 16)) (hex_digit (b mod 16)) = Some b"
  by (simp add: hex2_def)

lemma read_hex2_percent [simp]:
  "b < 256 \<Longrightarrow> read_hex2 (hex_digit (b div 16) # hex_digit (b mod 16) # r) = Some (b, r)"
  by (simp add: read_hex2_def)

lemma of_char_less_256 [simp]: "(of_char c :: nat) < 256"
  by (simp add: of_char_def nat_of_char_less_256)

lemma unreserved_not_percent: "unreserved c \<Longrightarrow> c \<noteq> CHR ''%''"
  by (auto simp: unreserved_def is_upper_def is_lower_def is_digit_def)

lemma decode_encode_char: "decode_uri (encode_char c @ s) = map_option ((#) c) (decode_uri s)"
proof (cases "unreserved c")
  case True
  then show ?thesis
    using unreserved_not_percent[of c] by (simp add: encode_char_def)
next
  case False
  let ?n = "of_char c :: nat"
  show ?thesis
  proof (cases "?n < 128")
    case True
    with False show ?thesis
      by (simp add: encode_char_def percent_def Let_def)
  next
    case big: False
    have n: "?n < 256" by simp
    let ?b = "192 + ?n div 64" and ?b2 = "128 + ?n mod 64"
    have b: "?b = 194 \<or> ?b = 195" "?b < 256" "\<not> ?b < 128" "?b2 < 256" "128 \<le> ?b2" "?b2 < 192"
      using big n less_mult_imp_div_less[of ?n 4 64] div_le_mono[of 128 ?n 64] by auto
    have "64 * (?b - 192) + (?b2 - 128) = ?n"
      by simp
    then show ?thesis
      using False big b
      by (simp add: encode_char_def percent_def Let_def read_cont_def del: div_mult_self1)
  qed
qed

lemma decode_encode_uri: "decode_uri (encode_uri s) = Some s"
  by (induction s) (auto simp: encode_uri_def decode_encode_char)

lemma decode_uri_plain: "CHR ''%'' \<notin> set s \<Longrightarrow> decode_uri s = Some s"
  by (induction s) auto

text \<open>Encoded text holds none of the characters that delimit cookies, queries and paths.\<close>

lemma hex_digit_chars:
  "n < 16 \<Longrightarrow> is_digit (hex_digit n) \<or> is_upper (hex_digit n)"
  by (auto simp: hex_digit_def is_digit_def is_upper_def)

lemma encode_char_safe:
  "d \<in> set (encode_char c) \<Longrightarrow> unreserved d \<or> d = CHR ''%''"
proof -
  have p: "unreserved d \<or> d = CHR ''%''" if "d \<in> set (percent b)" "b < 256" for b
    using that hex_digit_chars[of "b div 16"] hex_digit_chars[of "b mod 16"] less_mult_imp_div_less[of b 16 16]
    by (auto simp: percent_def unreserved_def)
  have n: "(of_char c :: nat) < 256" by simp
  then have "192 + (of_char c :: nat) div 64 < 256" "128 + (of_char c :: nat) mod 64 < 256"
    using less_mult_imp_div_less[of "of_char c" 4 64] by auto
  then show "d \<in> set (encode_char c) \<Longrightarrow> unreserved d \<or> d = CHR ''%''"
    using p n by (auto simp: encode_char_def Let_def split: if_splits)
qed

lemma encode_uri_safe: "d \<in> set (encode_uri s) \<Longrightarrow> unreserved d \<or> d = CHR ''%''"
  by (auto simp: encode_uri_def dest: encode_char_safe)

end
