(* ===== verification/Cookies.thy ===== *)
theory Cookies
  imports JS_Uri
begin

text \<open>
  Cookies as the stack under the web tool handles them: \<open>cookie-signature/index.js\<close> (signing),
  \<open>cookie/index.js\<close> (parsing and serialising a header), the cookie functions of
  \<open>connect/lib/utils.js\<close> and the \<open>cookieParser\<close> middleware. Node's \<open>crypto\<close> is a parameter:
  \<open>hmac secret val\<close> is the base64 digest; \<open>JSON.parse\<close> and the printing of dates are parameters
  as well.
\<close>

section \<open>Signing\<close>

definition strip_equals :: "string \<Rightarrow> string" where
  "strip_equals s = rev (dropWhile (\<lambda>c. c = CHR ''='') (rev s))"

definition last_index_of :: "char \<Rightarrow> string \<Rightarrow> int" where
  "last_index_of c s =
     (if c \<in> set s then int (length s) - 1 - int (length (takeWhile (\<lambda>x. x \<noteq> c) (rev s))) else -1)"

definition sign :: "(string \<Rightarrow> string \<Rightarrow> string) \<Rightarrow> string \<Rightarrow> string \<Rightarrow> string" where
  "sign hmac val secret = val @ ''.'' @ strip_equals (hmac secret val)"

definition unsign :: "(string \<Rightarrow> string \<Rightarrow> string) \<Rightarrow> string \<Rightarrow> string \<Rightarrow> string option" where
  "unsign hmac val secret =
     (let str = js_slice val 0 (last_index_of CHR ''.'' val)
      in if sign hmac str secret = val then Some str else None)"

text \<open>The functions \<open>sign\<close> and \<open>unsign\<close> of \<open>connect/lib/utils.js\<close>; \<open>None\<close> is \<open>false\<close>.\<close>

definition deprecated_sign :: "(string \<Rightarrow> string \<Rightarrow> string) \<Rightarrow> string \<Rightarrow> string \<Rightarrow> string" where
  "deprecated_sign hmac val secret = val @ ''.'' @ strip_equals (hmac secret val)"

definition deprecated_unsign :: "(string \<Rightarrow> string \<Rightarrow> string) \<Rightarrow> string \<Rightarrow> string \<Rightarrow> string option" where
  "deprecated_unsign hmac val secret =
     (let str = js_slice val 0 (last_index_of CHR ''.'' val)
      in if deprecated_sign hmac str secret = val then Some str else None)"

lemma deprecated_same: "deprecated_sign = sign" "deprecated_unsign = unsign"
  by (simp_all add: fun_eq_iff deprecated_sign_def sign_def deprecated_unsign_def unsign_def)

text \<open>Documented behaviour of the digest: base64 text has no dot.\<close>

definition base64_digest :: "(string \<Rightarrow> string \<Rightarrow> string) \<Rightarrow> bool" where
  "base64_digest hmac \<longleftrightarrow> (\<forall>k v. CHR ''.'' \<notin> set (hmac k v))"

lemma set_strip_equals: "set (strip_equals s) \<subseteq> set s"
  using set_dropWhileD by (fastforce simp: strip_equals_def)

lemma last_index_of_append:
  "c \<notin> set t \<Longrightarrow> last_index_of c (s @ c # t) = int (length s)"
proof -
  assume "c \<notin> set t"
  then have "takeWhile (\<lambda>x. x \<noteq> c) (rev (s @ c # t)) = rev t"
    by (auto simp: takeWhile_tail takeWhile_append2)
  then show ?thesis by (simp add: last_index_of_def)
qed

lemma unsign_sign: "base64_digest hmac \<Longrightarrow> unsign hmac (sign hmac v secret) secret = Some v"
proof -
  assume b: "base64_digest hmac"
  then have "CHR ''.'' \<notin> set (strip_equals (hmac secret v))"
    using set_strip_equals unfolding base64_digest_def by blast
  then have "last_index_of CHR ''.'' (sign hmac v secret) = int (length v)"
    using last_index_of_append[of _ "strip_equals (hmac secret v)" v] by (simp add: sign_def)
  then have "js_slice (sign hmac v secret) 0 (last_index_of CHR ''.'' (sign hmac v secret)) = v"
    by (simp add: js_slice_def js_clamp_def Let_def) (simp add: sign_def)
  then show ?thesis by (simp add: unsign_def Let_def)
qed

lemma unsign_Some: "unsign hmac x secret = Some v \<Longrightarrow> x = sign hmac v secret"
  by (auto simp: unsign_def Let_def split: if_splits)

text \<open>
  A signed value verifies exactly when it is the signature of the value returned: signing
  and then verifying gives the value back, and nothing but its own signed form is accepted.
\<close>

theorem unsign_accepts_exactly_signed:
  assumes "base64_digest hmac"
  shows "unsign hmac x secret = Some v \<longleftrightarrow> x = sign hmac v secret"
  using unsign_sign[OF assms] unsign_Some by blast

theorem unsign_accepts_exactly_signed_witness:
  "unsign (\<lambda>k v. filter (\<lambda>c. c \<noteq> CHR ''.'') (rev v @ k @ ''='')) ''a.b.bakey'' ''key'' = Some ''a.b''"
proof -
  let ?h = "\<lambda>k v. filter (\<lambda>c. c \<noteq> CHR ''.'') (rev v @ k @ ''='')"
  have "base64_digest ?h" by (simp add: base64_digest_def)
  then show ?thesis
    by (rule unsign_accepts_exactly_signed[THEN iffD2]) code_simp
qed

section \<open>Signed cookies\<close>

definition parse_signed_cookie ::
  "(string \<Rightarrow> string \<Rightarrow> string) \<Rightarrow> string \<Rightarrow> string \<Rightarrow> string option" where
  "parse_signed_cookie hmac str secret =
     (if index_of str ''s:'' = 0 then unsign hmac (drop 2 str) secret else Some str)"

definition signed_step ::
  "(string \<Rightarrow> string \<Rightarrow> string) \<Rightarrow> string \<Rightarrow> string obj \<times> string obj \<Rightarrow> string \<Rightarrow> string obj \<times> string obj" where
  "signed_step hmac secret st key =
     (case st of (ret, ob) \<Rightarrow>
        (case map_of ob key of
           None \<Rightarrow> (ret, ob)
         | Some val \<Rightarrow>
             if index_of val ''s:'' = 0 then
               (case unsign hmac (drop 2 val) secret of
                  Some v \<Rightarrow> if v \<noteq> [] then (obj_set key v ret, obj_del key ob) else (ret, ob)
                | None \<Rightarrow> (ret, ob))
             else (ret, ob)))"

text \<open>The signed cookies found, and the object without them.\<close>

definition parse_signed_cookies ::
  "(string \<Rightarrow> string \<Rightarrow> string) \<Rightarrow> string obj \<Rightarrow> string \<Rightarrow> string obj \<times> string obj" where
  "parse_signed_cookies hmac ob secret = foldl (signed_step hmac secret) ([], ob) (map fst ob)"

datatype 'j cookie_val = CStr string | CJson 'j

definition parse_json_cookie :: "(string \<Rightarrow> 'j option) \<Rightarrow> string \<Rightarrow> 'j option" where
  "parse_json_cookie json_parse str =
     (if index_of str ''j:'' = 0 then json_parse (drop 2 str) else None)"

definition parse_json_cookies ::
  "(string \<Rightarrow> 'j option) \<Rightarrow> ('j \<Rightarrow> bool) \<Rightarrow> string obj \<Rightarrow> 'j cookie_val obj" where
  "parse_json_cookies json_parse truthy ob =
     map (\<lambda>(k, v). (k, case parse_json_cookie json_parse v of
                         Some j \<Rightarrow> if truthy j then CJson j else CStr v
                       | None \<Rightarrow> CStr v)) ob"

section \<open>The Cookie header\<close>

record cookie_opts =
  co_max_age :: "int option"
  co_domain :: "string option"
  co_path :: "string option"
  co_expires :: "int option"
  co_http_only :: bool
  co_secure :: bool

definition nonempty_str :: "string option \<Rightarrow> bool" where
  "nonempty_str v \<longleftrightarrow> v \<noteq> None \<and> v \<noteq> Some []"

text \<open>\<open>utc\<close> is \<open>Date.prototype.toUTCString\<close>.\<close>

definition cookie_attrs :: "(int \<Rightarrow> string) \<Rightarrow> cookie_opts \<Rightarrow> string list" where
  "cookie_attrs utc opt =
     (case co_max_age opt of Some n \<Rightarrow> if n \<noteq> 0 then [''Max-Age='' @ show_int n] else [] | None \<Rightarrow> []) @
     (if nonempty_str (co_domain opt) then [''Domain='' @ the (co_domain opt)] else []) @
     (if nonempty_str (co_path opt) then [''Path='' @ the (co_path opt)] else []) @
     (case co_expires opt of Some t \<Rightarrow> [''Expires='' @ utc t] | None \<Rightarrow> []) @
     (if co_http_only opt then [''HttpOnly''] else []) @
     (if co_secure opt then [''Secure''] else [])"

definition cookie_serialize :: "(int \<Rightarrow> string) \<Rightarrow> string \<Rightarrow> string \<Rightarrow> cookie_opts \<Rightarrow> string" where
  "cookie_serialize utc name val opt =
     join_with ''; '' ((name @ ''='' @ encode_uri val) # cookie_attrs utc opt)"

text \<open>\<open>str.split(/[;,] */)\<close>.\<close>

function split_pairs :: "string \<Rightarrow> string list" where
  "split_pairs [] = [[]]"
| "split_pairs (c # cs) =
     (if c = CHR '';'' \<or> c = CHR '','' then [] # split_pairs (dropWhile (\<lambda>x. x = CHR '' '') cs)
      else (case split_pairs cs of [] \<Rightarrow> [[c]] | w # ws \<Rightarrow> (c # w) # ws))"
  by pat_completeness auto
termination
  by (relation "measure length") (auto simp: length_dropWhile_le le_imp_less_Suc)

text \<open>
  The names every plain object inherits; \<open>obj[key]\<close> is defined for them without an own binding,
  so \<open>parse\<close> never assigns them.
\<close>

definition inherited_names :: "string list" where
  "inherited_names = [''constructor'', ''toString'', ''toLocaleString'', ''valueOf'', ''hasOwnProperty'',
     ''isPrototypeOf'', ''propertyIsEnumerable'', ''__defineGetter__'', ''__defineSetter__'',
     ''__lookupGetter__'', ''__lookupSetter__'', ''__proto__'']"

definition cookie_unquote :: "string \<Rightarrow> string" where
  "cookie_unquote val = (if js_at val 0 = Some (CHR 0x22) then js_slice val 1 (-1) else val)"

definition parse_pair :: "string obj \<Rightarrow> string \<Rightarrow> string obj" where
  "parse_pair ob pair =
     (let eq_idx = index_of pair ''='' in
      if eq_idx < 0 then ob
      else
        let key = trim_str (js_substr pair 0 (nat eq_idx));
            val = cookie_unquote (trim_str (js_substr pair (nat eq_idx + 1) (length pair)))
        in if map_of ob key = None \<and> key \<notin> set inherited_names
           then obj_set key (case decode_uri val of Some d \<Rightarrow> d | None \<Rightarrow> val) ob
           else ob)"

definition cookie_parse :: "string \<Rightarrow> string obj" where
  "cookie_parse str = foldl parse_pair [] (split_pairs str)"

section \<open>The cookieParser middleware\<close>

record 'j cookie_req =
  cr_header :: "string option"
  cr_secret :: "string option"
  cr_cookies :: "'j cookie_val obj option"
  cr_signed :: "'j cookie_val obj"

definition cookie_parser ::
  "(string \<Rightarrow> string \<Rightarrow> string) \<Rightarrow> (string \<Rightarrow> 'j option) \<Rightarrow> ('j \<Rightarrow> bool) \<Rightarrow>
   string option \<Rightarrow> 'j cookie_req \<Rightarrow> 'j cookie_req" where
  "cookie_parser hmac json_parse truthy secret req =
     (if cr_cookies req \<noteq> None then req
      else
        let req0 = req\<lparr>cr_secret := secret, cr_cookies := Some [], cr_signed := []\<rparr>
        in if nonempty_str (cr_header req) then
             let cookies = cookie_parse (the (cr_header req));
                 (signed, rest) =
                   (if nonempty_str secret then parse_signed_cookies hmac cookies (the secret) else ([], cookies))
             in req0\<lparr>cr_signed := parse_json_cookies json_parse truthy signed,
                     cr_cookies := Some (parse_json_cookies json_parse truthy rest)\<rparr>
           else req0)"

section \<open>Parsing a header\<close>

definition plain_name :: "string \<Rightarrow> bool" where
  "plain_name s \<longleftrightarrow> s \<noteq> [] \<and> (\<forall>c \<in> set s. c \<noteq> CHR '';'' \<and> c \<noteq> CHR '','' \<and> c \<noteq> CHR ''='' \<and> \<not> is_space c)"

lemma split_pairs_nonempty [simp]: "split_pairs s \<noteq> []"
  by (induction s rule: split_pairs.induct) (auto split: list.splits)

lemma split_pairs_plain:
  "CHR '';'' \<notin> set w \<Longrightarrow> CHR '','' \<notin> set w \<Longrightarrow> split_pairs w = [w]"
  by (induction w) auto

lemma split_pairs_sep:
  "CHR '';'' \<notin> set w \<Longrightarrow> CHR '','' \<notin> set w \<Longrightarrow>
   split_pairs (w @ CHR '';'' # s) = w # split_pairs (dropWhile (\<lambda>x. x = CHR '' '') s)"
  by (induction w) auto

lemma trim_no_space: "(\<forall>c \<in> set s. \<not> is_space c) \<Longrightarrow> trim_str s = s"
  by (rule trim_str_id) (cases "s = []"; simp)

lemma encode_uri_chars:
  "c \<in> set (encode_uri s) \<Longrightarrow>
   \<not> is_space c \<and> c \<noteq> CHR '';'' \<and> c \<noteq> CHR '','' \<and> c \<noteq> CHR ''='' \<and> c \<noteq> CHR 0x22"
  by (drule encode_uri_safe)
     (auto simp: unreserved_def is_space_def is_upper_def is_lower_def is_digit_def)

lemma cookie_unquote_encoded: "cookie_unquote (encode_uri s) = encode_uri s"
  using encode_uri_chars[of "hd (encode_uri s)" s]
  by (cases "encode_uri s") (auto simp: cookie_unquote_def js_at_def)

lemma parse_pair_encoded:
  assumes "plain_name name" "map_of ob name = None" "name \<notin> set inherited_names"
  shows "parse_pair ob (name @ ''='' @ encode_uri val) = obj_set name val ob"
proof -
  have n: "CHR ''='' \<notin> set name" "\<forall>c \<in> set name. \<not> is_space c"
    using assms(1) by (auto simp: plain_name_def)
  have v: "trim_str (encode_uri val) = encode_uri val"
    using encode_uri_chars by (intro trim_no_space) blast
  have "index_of (name @ ''='' @ encode_uri val) ''='' = int (length name)"
    using index_of_char_append[OF n(1), of "encode_uri val"] by simp
  then show ?thesis
    using assms(2,3) n(2) v
    by (simp add: parse_pair_def Let_def js_substr_def trim_no_space cookie_unquote_encoded decode_encode_uri)
qed

lemma parse_pair_keeps: "map_of ob k = Some v \<Longrightarrow> map_of (parse_pair ob pair) k = Some v"
  by (auto simp: parse_pair_def Let_def)

lemma foldl_parse_keeps: "map_of ob k = Some v \<Longrightarrow> map_of (foldl parse_pair ob ps) k = Some v"
  by (induction ps arbitrary: ob) (auto intro: parse_pair_keeps)

lemma set_cookie_pair:
  assumes "plain_name name"
  shows "CHR '';'' \<notin> set (name @ ''='' @ encode_uri val)" "CHR '','' \<notin> set (name @ ''='' @ encode_uri val)"
  using assms encode_uri_chars by (fastforce simp: plain_name_def)+

text \<open>What a browser sends back of a \<open>Set-Cookie\<close> value: the name and value before the attributes.\<close>

lemma set_cookie_sent_back:
  assumes "plain_name name"
  shows "takeWhile (\<lambda>c. c \<noteq> CHR '';'') (cookie_serialize utc name val opt) = name @ ''='' @ encode_uri val"
proof (cases "cookie_attrs utc opt")
  case Nil
  then show ?thesis using set_cookie_pair(1)[OF assms, of val] by (auto simp: cookie_serialize_def takeWhile_eq_all_conv)
next
  case (Cons a as)
  have "takeWhile (\<lambda>c. c \<noteq> CHR '';'') ((name @ ''='' @ encode_uri val) @ CHR '';'' # t) = name @ ''='' @ encode_uri val" for t
    using set_cookie_pair(1)[OF assms, of val] by (subst takeWhile_append2) auto
  then show ?thesis using Cons by (simp add: cookie_serialize_def)
qed

lemma cookie_parse_pair:
  assumes "plain_name name" "name \<notin> set inherited_names"
  shows "map_of (cookie_parse (name @ ''='' @ encode_uri val)) name = Some val"
  using split_pairs_plain[OF set_cookie_pair[OF assms(1)]] parse_pair_encoded[OF assms(1) _ assms(2), of "[]" val]
  by (simp add: cookie_parse_def)

text \<open>
  C20. A value set by \<open>serialize\<close>, whatever its characters and whatever attributes follow it, is
  the value \<open>parse\<close> reads back under that name.
\<close>

theorem cookie_round_trip:
  assumes "plain_name name" "name \<notin> set inherited_names"
  shows "map_of (cookie_parse (cookie_serialize utc name val opt)) name = Some val"
proof -
  let ?p = "name @ ''='' @ encode_uri val"
  have p: "CHR '';'' \<notin> set ?p" "CHR '','' \<notin> set ?p"
    using set_cookie_pair[OF assms(1)] by auto
  obtain ps where "split_pairs (cookie_serialize utc name val opt) = ?p # ps"
  proof (cases "cookie_attrs utc opt")
    case Nil
    then show ?thesis
      using that split_pairs_plain[OF p] by (simp add: cookie_serialize_def)
  next
    case (Cons a as)
    then have "cookie_serialize utc name val opt = ?p @ CHR '';'' # CHR '' '' # join_with ''; '' (a # as)"
      by (simp add: cookie_serialize_def)
    then show ?thesis
      using that split_pairs_sep[OF p] by metis
  qed
  then show ?thesis
    using parse_pair_encoded[OF assms(1) _ assms(2), of "[]" val]
    by (simp add: cookie_parse_def foldl_parse_keeps)
qed

theorem cookie_round_trip_witness:
  "map_of (cookie_parse (cookie_serialize (\<lambda>_. ''Thu, 01 Jan 1970 00:00:00 GMT'') ''connect.sid'' ''s:a b;c,d=''
     \<lparr>co_max_age = None, co_domain = None, co_path = Some ''/'', co_expires = Some 0,
      co_http_only = True, co_secure = False\<rparr>)) ''connect.sid'' = Some ''s:a b;c,d=''"
  by (rule cookie_round_trip) (simp_all add: plain_name_def inherited_names_def is_space_def)

section \<open>What the signature check lets through\<close>

lemma signed_prefix: "index_of val ''s:'' = 0 \<Longrightarrow> val = CHR ''s'' # CHR '':'' # drop 2 val"
  by (auto simp: index_of_zero starts_with_iff)

lemma signed_step_cases:
  "signed_step hmac secret (ret, ob) key = (ret, ob) \<or>
   (\<exists>v. map_of ob key = Some (''s:'' @ sign hmac v secret) \<and>
        signed_step hmac secret (ret, ob) key = (obj_set key v ret, obj_del key ob))"
proof (cases "map_of ob key")
  case None
  then show ?thesis by (simp add: signed_step_def)
next
  case (Some val)
  show ?thesis
  proof (cases "index_of val ''s:'' = 0")
    case True
    then show ?thesis
      using Some signed_prefix[OF True] unsign_Some[of hmac "drop 2 val" secret]
      by (cases "unsign hmac (drop 2 val) secret") (auto simp: signed_step_def)
  next
    case False
    then show ?thesis using Some by (simp add: signed_step_def)
  qed
qed

lemma signed_step_inv:
  assumes "\<And>k v. map_of ret k = Some v \<Longrightarrow> map_of ob0 k = Some (''s:'' @ sign hmac v secret)"
    and "\<And>k v. map_of ob k = Some v \<Longrightarrow> map_of ob0 k = Some v"
    and "signed_step hmac secret (ret, ob) key = (ret', ob')"
  shows "(map_of ret' k = Some v \<longrightarrow> map_of ob0 k = Some (''s:'' @ sign hmac v secret)) \<and>
         (map_of ob' k = Some v \<longrightarrow> map_of ob0 k = Some v)"
  using signed_step_cases[of hmac secret ret ob key] assms by (auto split: if_splits)

lemma parse_signed_foldl:
  assumes "\<And>k v. map_of ret k = Some v \<Longrightarrow> map_of ob0 k = Some (''s:'' @ sign hmac v secret)"
    and "\<And>k v. map_of ob k = Some v \<Longrightarrow> map_of ob0 k = Some v"
    and "map_of (fst (foldl (signed_step hmac secret) (ret, ob) ks)) k = Some v"
  shows "map_of ob0 k = Some (''s:'' @ sign hmac v secret)"
  using assms
proof (induction ks arbitrary: ret ob)
  case Nil
  then show ?case by simp
next
  case (Cons key ks)
  obtain ret' ob' where s: "signed_step hmac secret (ret, ob) key = (ret', ob')"
    by (cases "signed_step hmac secret (ret, ob) key") simp
  note inv = signed_step_inv[OF Cons.prems(1,2) s]
  show ?case
    by (rule Cons.IH[of ret' ob']) (use inv Cons.prems(3) s in auto)
qed

text \<open>
  Every cookie \<open>parseSignedCookies\<close> reports as signed was sent as \<open>s:\<close> followed by the
  signature of its value under the secret.
\<close>

theorem parse_signed_cookies_sound:
  assumes "map_of (fst (parse_signed_cookies hmac ob secret)) k = Some v"
  shows "map_of ob k = Some (''s:'' @ sign hmac v secret)"
  using assms parse_signed_foldl[of "[]" ob hmac secret ob "map fst ob" k v]
  by (simp add: parse_signed_cookies_def)

theorem parse_signed_cookies_sound_witness:
  "map_of [(''sid'', ''s:ab.abkey'')] ''sid'' = Some (''s:'' @ sign (\<lambda>k v. v @ k) ''ab'' ''key'')"
  by (rule parse_signed_cookies_sound) code_simp

end
