(* ===== verification/Session_Cookie.thy ===== *)
theory Session_Cookie
  imports Cookies
begin

text \<open>
  \<open>connect/lib/middleware/session/cookie.js\<close>, \<open>session.js\<close> and \<open>store.js\<close>: the cookie of a
  session with its accessor properties, the session object, and how a stored session becomes a
  live one. Times are in milliseconds. An operation reads the clock twice when it sets a maximal
  age (once for the date, once in the accessor that recomputes the original age), so operations
  take a \<open>clock\<close>, the pair of what \<open>Date.now()\<close> gives first and later.

  A property value is a \<open>jval\<close>; \<open>JIso t\<close> is the string that \<open>JSON.stringify\<close> makes of the date
  \<open>t\<close> and that \<open>new Date\<close> reads back.
\<close>

section \<open>Values\<close>

datatype jval =
    JUndef
  | JNull
  | JNum int
  | JBool bool
  | JStr string
  | JIso int
  | JDate int

fun is_nullish :: "jval \<Rightarrow> bool" where
  "is_nullish JUndef = True"
| "is_nullish JNull = True"
| "is_nullish _ = False"

fun js_truthy :: "jval \<Rightarrow> bool" where
  "js_truthy JUndef = False"
| "js_truthy JNull = False"
| "js_truthy (JNum n) = (n \<noteq> 0)"
| "js_truthy (JBool b) = b"
| "js_truthy (JStr s) = (s \<noteq> [])"
| "js_truthy (JIso t) = True"
| "js_truthy (JDate t) = True"

section \<open>The session cookie\<close>

record sess_cookie =
  sc_path :: jval
  sc_expires :: jval
  sc_original :: jval
  sc_http_only :: jval
  sc_secure :: jval
  sc_domain :: jval

definition get_max_age :: "int \<Rightarrow> sess_cookie \<Rightarrow> jval" where
  "get_max_age now c = (case sc_expires c of JDate t \<Rightarrow> JNum (t - now) | v \<Rightarrow> v)"

definition set_expires :: "int \<Rightarrow> jval \<Rightarrow> sess_cookie \<Rightarrow> sess_cookie" where
  "set_expires now date c =
     (let c1 = c\<lparr>sc_expires := date\<rparr> in c1\<lparr>sc_original := get_max_age now c1\<rparr>)"

type_synonym clock = "int \<times> int"

definition set_max_age :: "clock \<Rightarrow> jval \<Rightarrow> sess_cookie \<Rightarrow> sess_cookie" where
  "set_max_age now ms c =
     set_expires (snd now) (case ms of JNum n \<Rightarrow> JDate (fst now + n) | v \<Rightarrow> v) c"

text \<open>Assigning a property of the cookie object, accessors included.\<close>

definition put_field :: "clock \<Rightarrow> string \<times> jval \<Rightarrow> sess_cookie \<Rightarrow> sess_cookie" where
  "put_field now kv c =
     (case kv of (k, v) \<Rightarrow>
        if k = ''path'' then c\<lparr>sc_path := v\<rparr>
        else if k = ''expires'' then set_expires (snd now) v c
        else if k = ''maxAge'' then set_max_age now v c
        else if k = ''_expires'' then c\<lparr>sc_expires := v\<rparr>
        else if k = ''originalMaxAge'' then c\<lparr>sc_original := v\<rparr>
        else if k = ''httpOnly'' then c\<lparr>sc_http_only := v\<rparr>
        else if k = ''secure'' then c\<lparr>sc_secure := v\<rparr>
        else if k = ''domain'' then c\<lparr>sc_domain := v\<rparr>
        else c)"

lemma put_field_simps [simp]:
  "put_field now (''path'', v) c = c\<lparr>sc_path := v\<rparr>"
  "put_field now (''expires'', v) c = set_expires (snd now) v c"
  "put_field now (''maxAge'', v) c = set_max_age now v c"
  "put_field now (''originalMaxAge'', v) c = c\<lparr>sc_original := v\<rparr>"
  "put_field now (''httpOnly'', v) c = c\<lparr>sc_http_only := v\<rparr>"
  "put_field now (''secure'', v) c = c\<lparr>sc_secure := v\<rparr>"
  "put_field now (''domain'', v) c = c\<lparr>sc_domain := v\<rparr>"
  by (simp_all add: put_field_def)

definition blank_cookie :: sess_cookie where
  "blank_cookie = \<lparr>sc_path = JUndef, sc_expires = JUndef, sc_original = JUndef,
     sc_http_only = JUndef, sc_secure = JUndef, sc_domain = JUndef\<rparr>"

definition new_cookie :: "clock \<Rightarrow> jval obj \<Rightarrow> sess_cookie" where
  "new_cookie now options =
     (let c1 = blank_cookie\<lparr>sc_path := JStr ''/''\<rparr>;
          c2 = set_max_age now JNull c1;
          c3 = c2\<lparr>sc_http_only := JBool True\<rparr>;
          c4 = fold (put_field now) options c3
      in c4\<lparr>sc_original := (if is_nullish (sc_original c4) then get_max_age (snd now) c4 else sc_original c4)\<rparr>)"

definition cookie_data :: "sess_cookie \<Rightarrow> jval obj" where
  "cookie_data c =
     [(''originalMaxAge'', sc_original c), (''expires'', sc_expires c), (''secure'', sc_secure c),
      (''httpOnly'', sc_http_only c), (''domain'', sc_domain c), (''path'', sc_path c)]"

definition has_long_expires :: "int \<Rightarrow> sess_cookie \<Rightarrow> bool" where
  "has_long_expires now c = (case get_max_age now c of JNum n \<Rightarrow> n > 4 * 604800000 | _ \<Rightarrow> False)"

text \<open>
  \<open>JSON.parse(JSON.stringify(data))\<close>, property by property: \<open>js\<close> says what a value comes back as, or
  that its property is left out. For the values of a cookie: an undefined one is left out, and a
  date becomes a string.
\<close>

fun json_data :: "('d \<Rightarrow> 'd option) \<Rightarrow> 'd obj \<Rightarrow> 'd obj" where
  "json_data js [] = []"
| "json_data js ((k, v) # ob) = (case js v of None \<Rightarrow> json_data js ob | Some v' \<Rightarrow> (k, v') # json_data js ob)"

fun json_val :: "jval \<Rightarrow> jval option" where
  "json_val JUndef = None"
| "json_val (JDate t) = Some (JIso t)"
| "json_val v = Some v"

definition json_obj :: "jval obj \<Rightarrow> jval obj" where
  "json_obj ob = json_data json_val ob"

lemma json_data_same: "list_all (\<lambda>(k, v). js v = Some v) ob \<Longrightarrow> json_data js ob = ob"
  by (induction js ob rule: json_data.induct) auto

lemma json_data_again: "(\<And>v v'. js v = Some v' \<Longrightarrow> js v' = Some v') \<Longrightarrow> json_data js (json_data js ob) = json_data js ob"
  by (induction js ob rule: json_data.induct) (auto split: option.split)

section \<open>Sessions\<close>

text \<open>
  A live session; \<open>se_data\<close> are its enumerable properties other than \<open>cookie\<close> (none has the name of
  one of the session's own functions, none refers back to itself). A stored session is what
  \<open>JSON.parse\<close> makes of \<open>JSON.stringify(session)\<close>, the text the store keeps; \<open>js\<close> is what becomes of the
  application's values on the way.
\<close>

record 'd session =
  se_id :: string
  se_cookie :: sess_cookie
  se_data :: "'d obj"

record 'd stored =
  st_cookie :: "jval obj"
  st_data :: "'d obj"

definition stringify :: "('d \<Rightarrow> 'd option) \<Rightarrow> 'd session \<Rightarrow> 'd stored" where
  "stringify js se = \<lparr>st_cookie = json_obj (cookie_data (se_cookie se)), st_data = json_data js (se_data se)\<rparr>"

text \<open>A session as it is when it comes back from its store.\<close>

definition json_session :: "('d \<Rightarrow> 'd option) \<Rightarrow> 'd session \<Rightarrow> 'd session" where
  "json_session js se = se\<lparr>se_data := json_data js (se_data se)\<rparr>"

definition reset_max_age :: "clock \<Rightarrow> 'd session \<Rightarrow> 'd session" where
  "reset_max_age now se = se\<lparr>se_cookie := set_max_age now (sc_original (se_cookie se)) (se_cookie se)\<rparr>"

definition touch :: "clock \<Rightarrow> 'd session \<Rightarrow> 'd session" where
  "touch now se = reset_max_age now se"

text \<open>\<open>Store.prototype.createSession\<close>: \<open>sess\<close> is a parsed stored session.\<close>

definition obj_get :: "string \<Rightarrow> jval obj \<Rightarrow> jval" where
  "obj_get k ob = (case map_of ob k of None \<Rightarrow> JUndef | Some v \<Rightarrow> v)"

definition create_session :: "clock \<Rightarrow> string \<Rightarrow> 'd stored \<Rightarrow> 'd session" where
  "create_session now sid sess =
     (let expires = obj_get ''expires'' (st_cookie sess);
          orig = obj_get ''originalMaxAge'' (st_cookie sess);
          c1 = new_cookie now (st_cookie sess);
          c2 = (case expires of JIso t \<Rightarrow> set_expires (snd now) (JDate t) c1 | _ \<Rightarrow> c1)
      in \<lparr>se_id = sid, se_cookie = c2\<lparr>sc_original := orig\<rparr>, se_data = st_data sess\<rparr>)"

section \<open>Storing and reading back\<close>

text \<open>The cookies the middleware works with: set up from options without raw strings or clock values.\<close>

definition storable :: "sess_cookie \<Rightarrow> bool" where
  "storable c \<longleftrightarrow>
     (sc_expires c = JNull \<or> (\<exists>t. sc_expires c = JDate t)) \<and>
     (sc_original c = JNull \<or> (\<exists>n. sc_original c = JNum n)) \<and>
     (\<exists>p. sc_path c = JStr p) \<and> (\<exists>b. sc_http_only c = JBool b) \<and>
     (sc_secure c = JUndef \<or> (\<exists>b. sc_secure c = JBool b)) \<and>
     (sc_domain c = JUndef \<or> (\<exists>d. sc_domain c = JStr d))"

lemmas cookie_ops =
  get_max_age_def set_expires_def set_max_age_def new_cookie_def blank_cookie_def
  cookie_data_def json_obj_def obj_get_def Let_def

lemma create_of_stored_shape:
  "e = JNull \<or> e = JDate t \<Longrightarrow> g = JNull \<or> g = JNum n \<Longrightarrow> s = JUndef \<or> s = JBool b \<Longrightarrow>
   d = JUndef \<or> d = JStr x \<Longrightarrow>
   se = \<lparr>se_id = sid, se_cookie = \<lparr>sc_path = JStr p, sc_expires = e, sc_original = g,
     sc_http_only = JBool h, sc_secure = s, sc_domain = d\<rparr>, se_data = dat\<rparr> \<Longrightarrow>
   create_session now sid (stringify js se) = json_session js se"
  by (elim disjE; simp add: create_session_def stringify_def json_session_def cookie_ops)

lemma create_of_stored:
  assumes "storable (se_cookie se)"
  shows "create_session now (se_id se) (stringify js se) = json_session js se"
proof (cases se)
  case (fields sid c dat)
  show ?thesis
  proof (cases c)
    case c: (fields p e g h s d)
    from assms obtain t n b x p' h' where sh: "e = JNull \<or> e = JDate t" "g = JNull \<or> g = JNum n" "s = JUndef \<or> s = JBool b"
      "d = JUndef \<or> d = JStr x" "p = JStr p'" "h = JBool h'"
      unfolding storable_def fields c sess_cookie.simps session.simps by blast
    have "se = \<lparr>se_id = sid, se_cookie = \<lparr>sc_path = JStr p', sc_expires = e, sc_original = g,
        sc_http_only = JBool h', sc_secure = s, sc_domain = d\<rparr>, se_data = dat\<rparr>"
      using fields c sh(5,6) by simp
    from create_of_stored_shape[OF sh(1-4) this] show ?thesis by (simp add: fields)
  qed
qed

lemma storable_reset: "storable (se_cookie se) \<Longrightarrow> storable (se_cookie (reset_max_age now se))"
  by (auto simp: storable_def reset_max_age_def cookie_ops)

lemma st_data_stringify [simp]: "st_data (stringify js se) = json_data js (se_data se)"
  by (simp add: stringify_def)

lemma json_session_facts [simp]:
  "se_id (json_session js se) = se_id se" "se_cookie (json_session js se) = se_cookie se"
  "se_data (json_session js se) = json_data js (se_data se)"
  by (simp_all add: json_session_def)

lemma reset_facts [simp]:
  "se_id (reset_max_age now se) = se_id se" "se_data (reset_max_age now se) = se_data se"
  by (simp_all add: reset_max_age_def)

lemma reset_expires:
  "sc_original (se_cookie se) = JNum n \<Longrightarrow> sc_expires (se_cookie (reset_max_age now se)) = JDate (fst now + n)"
  "sc_original (se_cookie se) = JNull \<Longrightarrow> sc_expires (se_cookie (reset_max_age now se)) = JNull"
  by (auto simp: reset_max_age_def cookie_ops)

text \<open>
  C13. A session survives its store: the session object made from the stored form of a session has
  its name and its whole cookie, expiry date, original age and every attribute included, although the
  dates pass through strings and the accessors overwrite each other while the options are merged;
  its data are what JSON makes of them (\<open>js\<close>), so it is exactly the session again when JSON keeps
  each of its values.
\<close>

theorem stored_session_round_trip:
  assumes "storable (se_cookie se)"
  shows "create_session now (se_id se) (stringify js se) = se\<lparr>se_data := json_data js (se_data se)\<rparr> \<and>
    (list_all (\<lambda>(k, v). js v = Some v) (se_data se) \<longrightarrow> create_session now (se_id se) (stringify js se) = se)"
  using create_of_stored[OF assms, of now js] json_data_same[of js "se_data se"] by (simp add: json_session_def)

definition sample_session :: "jval session" where
  "sample_session = \<lparr>se_id = ''sid'', se_cookie = \<lparr>sc_path = JStr ''/'', sc_expires = JDate 61000,
     sc_original = JNum 60000, sc_http_only = JBool True, sc_secure = JUndef, sc_domain = JUndef\<rparr>,
     se_data = [(''x'', JNum 1), (''gone'', JUndef), (''seen'', JDate 7)]\<rparr>"

lemma sample_storable: "storable (se_cookie sample_session)"
  by (auto simp: sample_session_def storable_def)

theorem stored_session_round_trip_witness:
  "create_session (5000, 5001) ''sid'' (stringify json_val sample_session) =
     sample_session\<lparr>se_data := [(''x'', JNum 1), (''seen'', JIso 7)]\<rparr>"
  using stored_session_round_trip[OF sample_storable, of "(5000, 5001)" json_val] by (simp add: sample_session_def)

fun touches :: "clock list \<Rightarrow> 'd session \<Rightarrow> 'd session" where
  "touches [] se = se"
| "touches (t # ts) se = touches ts (touch t se)"

text \<open>
  What touching does to the age of a session. The expiry date is the original age from the moment
  of the touch, and the original age itself loses exactly the time that passed between the two
  readings of the clock inside each touch; it is kept when the clock did not advance in between.
\<close>

theorem touch_age:
  assumes "sc_original (se_cookie se) = JNum n"
  shows "sc_original (se_cookie (touches ts se)) = JNum (n - sum_list (map (\<lambda>(t1, t2). t2 - t1) ts)) \<and>
         (ts \<noteq> [] \<longrightarrow> sc_expires (se_cookie (touches ts se)) =
            JDate (fst (last ts) + n - sum_list (map (\<lambda>(t1, t2). t2 - t1) (butlast ts))))"
  using assms
proof (induction ts arbitrary: se n)
  case (Cons t ts)
  obtain t1 t2 where t: "t = (t1, t2)" by (cases t)
  have o: "sc_original (se_cookie (touch t se)) = JNum (n - (t2 - t1))"
    and e: "sc_expires (se_cookie (touch t se)) = JDate (t1 + n)"
    using Cons.prems t by (simp_all add: touch_def reset_max_age_def cookie_ops)
  show ?case
    using Cons.IH[OF o] e t by (cases "ts = []") (simp_all add: algebra_simps)
qed simp

theorem touch_age_witness:
  "sc_original (se_cookie (touches [(70000, 70001), (80000, 80002)] sample_session)) = JNum 59997 \<and>
   sc_expires (se_cookie (touches [(70000, 70001), (80000, 80002)] sample_session)) = JDate 139999"
proof -
  have "sc_original (se_cookie sample_session) = JNum 60000" by (simp add: sample_session_def)
  from touch_age[OF this, of "[(70000, 70001), (80000, 80002)]"] show ?thesis by simp
qed

end
