(* ===== verification/Session_Store.thy ===== *)
theory Session_Store
  imports Session_Cookie
begin

text \<open>
  \<open>connect/lib/middleware/session/memory.js\<close>: the store the web tool uses, and what the session
  middleware relies on in a store, as a locale. Every operation of the store does its work in one
  callback of \<open>process.nextTick\<close>; the functions here are those callbacks.
\<close>

section \<open>The interface\<close>

text \<open>
  The outcome of \<open>get\<close>: a session, none, an error given to the callback, or an exception thrown
  inside \<open>nextTick\<close>, where nothing catches it.
\<close>

datatype 'd got = Got "'d stored" | GotNothing | GotErr string | GotThrow string

text \<open>\<open>!expires || new Date < expires\<close>.\<close>

fun alive :: "int \<Rightarrow> jval \<Rightarrow> bool" where
  "alive now JUndef = True"
| "alive now JNull = True"
| "alive now (JNum n) = (n = 0 \<or> now < n)"
| "alive now (JBool b) = (\<not> b \<or> now < 1)"
| "alive now (JStr s) = False"
| "alive now (JIso t) = (now < t)"
| "alive now (JDate t) = (now < t)"

definition stored_alive :: "int \<Rightarrow> 'd stored \<Rightarrow> bool" where
  "stored_alive now sess = alive now (obj_get ''expires'' (st_cookie sess))"

text \<open>Saving (\<open>Some\<close>) or destroying (\<open>None\<close>) the session of an id.\<close>

fun store_op :: "(string \<Rightarrow> 'd session \<Rightarrow> 's \<Rightarrow> 's) \<Rightarrow> (string \<Rightarrow> 's \<Rightarrow> 's) \<Rightarrow>
    string \<times> 'd session option \<Rightarrow> 's \<Rightarrow> 's" where
  "store_op set_op destroy_op (sid, Some se) s = set_op sid se s"
| "store_op set_op destroy_op (sid, None) s = destroy_op sid s"

locale session_store =
  fixes get_op :: "int \<Rightarrow> string \<Rightarrow> 's \<Rightarrow> 'd got \<times> 's"
    and set_op :: "string \<Rightarrow> 'd session \<Rightarrow> 's \<Rightarrow> 's"
    and destroy_op :: "string \<Rightarrow> 's \<Rightarrow> 's"
    and js :: "'d \<Rightarrow> 'd option"
    and keeps :: "string \<Rightarrow> bool"
    and usable :: "string \<Rightarrow> bool"
  assumes get_set: "keeps sid \<Longrightarrow> stored_alive now (stringify js se) \<Longrightarrow>
      get_op now sid (set_op sid se s) = (Got (stringify js se), set_op sid se s)"
    and get_set_expired: "keeps sid \<Longrightarrow> \<not> stored_alive now (stringify js se) \<Longrightarrow>
      fst (get_op now sid (set_op sid se s)) = GotNothing"
    and get_set_other: "sid' \<noteq> sid \<Longrightarrow> fst (get_op now sid' (set_op sid se s)) = fst (get_op now sid' s)"
    and get_destroy: "usable sid \<Longrightarrow> fst (get_op now sid (destroy_op sid s)) = GotNothing"
    and get_destroy_other: "sid' \<noteq> sid \<Longrightarrow> fst (get_op now sid' (destroy_op sid s)) = fst (get_op now sid' s)"
    and get_get_other: "sid' \<noteq> sid \<Longrightarrow> fst (get_op now' sid' (snd (get_op now sid s))) = fst (get_op now' sid' s)"
begin

lemma others_untouched:
  "sid \<notin> fst ` set ops \<Longrightarrow> fst (get_op now sid (fold (store_op set_op destroy_op) ops s)) = fst (get_op now sid s)"
proof (induction ops arbitrary: s)
  case (Cons op ops)
  then show ?case
    by (cases op; cases "snd op") (auto simp: get_set_other get_destroy_other)
qed simp

lemma saved_session_found:
  "keeps sid \<Longrightarrow> stored_alive now (stringify js se) \<Longrightarrow> sid \<notin> fst ` set ops \<Longrightarrow>
   fst (get_op now sid (fold (store_op set_op destroy_op) ops (set_op sid se s))) = Got (stringify js se)"
  by (simp add: others_untouched get_set)

end

section \<open>MemoryStore\<close>

type_synonym 'd memory = "'d stored obj"

definition new_memory :: "'d memory" where
  "new_memory = []"

text \<open>
  \<open>self.sessions[sid]\<close> also finds what a plain object inherits; \<open>JSON.parse\<close> of such a function
  or object throws. Under the name \<open>__proto__\<close> nothing is ever saved: assigning a string to it does
  nothing.
\<close>

definition memory_destroy :: "string \<Rightarrow> 'd memory \<Rightarrow> 'd memory" where
  "memory_destroy sid m = obj_del sid m"

definition memory_get :: "int \<Rightarrow> string \<Rightarrow> 'd memory \<Rightarrow> 'd got \<times> 'd memory" where
  "memory_get now sid m =
     (case map_of m sid of
        Some sess \<Rightarrow>
          if stored_alive now sess then (Got sess, m) else (GotNothing, memory_destroy sid m)
      | None \<Rightarrow>
          if sid \<in> set inherited_names then (GotThrow ''SyntaxError'', m) else (GotNothing, m))"

definition memory_set :: "('d \<Rightarrow> 'd option) \<Rightarrow> string \<Rightarrow> 'd session \<Rightarrow> 'd memory \<Rightarrow> 'd memory" where
  "memory_set js sid sess m = (if sid = ''__proto__'' then m else obj_set sid (stringify js sess) m)"

definition memory_all :: "'d memory \<Rightarrow> 'd stored list" where
  "memory_all m = map snd m"

definition memory_clear :: "'d memory \<Rightarrow> 'd memory" where
  "memory_clear m = []"

definition memory_length :: "'d memory \<Rightarrow> nat" where
  "memory_length m = length m"

interpretation mem: session_store memory_get "memory_set js" memory_destroy js "\<lambda>sid. sid \<noteq> ''__proto__''"
  "\<lambda>sid. sid \<notin> set inherited_names" for js
  by unfold_locales
     (auto simp: memory_get_def memory_set_def memory_destroy_def split: option.splits)


lemma proto_session_is_lost:
  "memory_get now ''__proto__'' (memory_set js ''__proto__'' se new_memory) = (GotThrow ''SyntaxError'', new_memory)"
  by (simp add: memory_get_def memory_set_def new_memory_def inherited_names_def)


end
