(* ===== verification/Crc32.thy ===== *)
theory Crc32
  imports JS_Prelude "HOL-Library.Word"
begin

unbundle bit_operations_syntax

text \<open>
  \<open>buffer-crc32/index.js\<close>: the checksum the session middleware uses to see whether a session
  changed. JavaScript's 32-bit operators are those of \<open>32 word\<close>: \<open>^\<close> is \<open>XOR\<close>, \<open>>>> 8\<close> is
  \<open>drop_bit 8\<close>, the signed result is \<open>sint\<close>, \<open>>>> 0\<close> is \<open>uint\<close>. The table is the source's, entry by
  entry; the reference below is the bitwise definition of the reflected polynomial \<open>0xedb88320\<close>.
\<close>

definition crc_table :: "32 word list" where
  "crc_table = [
     0x00000000, 0x77073096, 0xee0e612c, 0x990951ba, 0x076dc419, 0x706af48f, 0xe963a535, 0x9e6495a3,
     0x0edb8832, 0x79dcb8a4, 0xe0d5e91e, 0x97d2d988, 0x09b64c2b, 0x7eb17cbd, 0xe7b82d07, 0x90bf1d91,
     0x1db71064, 0x6ab020f2, 0xf3b97148, 0x84be41de, 0x1adad47d, 0x6ddde4eb, 0xf4d4b551, 0x83d385c7,
     0x136c9856, 0x646ba8c0, 0xfd62f97a, 0x8a65c9ec, 0x14015c4f, 0x63066cd9, 0xfa0f3d63, 0x8d080df5,
     0x3b6e20c8, 0x4c69105e, 0xd56041e4, 0xa2677172, 0x3c03e4d1, 0x4b04d447, 0xd20d85fd, 0xa50ab56b,
     0x35b5a8fa, 0x42b2986c, 0xdbbbc9d6, 0xacbcf940, 0x32d86ce3, 0x45df5c75, 0xdcd60dcf, 0xabd13d59,
     0x26d930ac, 0x51de003a, 0xc8d75180, 0xbfd06116, 0x21b4f4b5, 0x56b3c423, 0xcfba9599, 0xb8bda50f,
     0x2802b89e, 0x5f058808, 0xc60cd9b2, 0xb10be924, 0x2f6f7c87, 0x58684c11, 0xc1611dab, 0xb6662d3d,
     0x76dc4190, 0x01db7106, 0x98d220bc, 0xefd5102a, 0x71b18589, 0x06b6b51f, 0x9fbfe4a5, 0xe8b8d433,
     0x7807c9a2, 0x0f00f934, 0x9609a88e, 0xe10e9818, 0x7f6a0dbb, 0x086d3d2d, 0x91646c97, 0xe6635c01,
     0x6b6b51f4, 0x1c6c6162, 0x856530d8, 0xf262004e, 0x6c0695ed, 0x1b01a57b, 0x8208f4c1, 0xf50fc457,
     0x65b0d9c6, 0x12b7e950, 0x8bbeb8ea, 0xfcb9887c, 0x62dd1ddf, 0x15da2d49, 0x8cd37cf3, 0xfbd44c65,
     0x4db26158, 0x3ab551ce, 0xa3bc0074, 0xd4bb30e2, 0x4adfa541, 0x3dd895d7, 0xa4d1c46d, 0xd3d6f4fb,
     0x4369e96a, 0x346ed9fc, 0xad678846, 0xda60b8d0, 0x44042d73, 0x33031de5, 0xaa0a4c5f, 0xdd0d7cc9,
     0x5005713c, 0x270241aa, 0xbe0b1010, 0xc90c2086, 0x5768b525, 0x206f85b3, 0xb966d409, 0xce61e49f,
     0x5edef90e, 0x29d9c998, 0xb0d09822, 0xc7d7a8b4, 0x59b33d17, 0x2eb40d81, 0xb7bd5c3b, 0xc0ba6cad,
     0xedb88320, 0x9abfb3b6, 0x03b6e20c, 0x74b1d29a, 0xead54739, 0x9dd277af, 0x04db2615, 0x73dc1683,
     0xe3630b12, 0x94643b84, 0x0d6d6a3e, 0x7a6a5aa8, 0xe40ecf0b, 0x9309ff9d, 0x0a00ae27, 0x7d079eb1,
     0xf00f9344, 0x8708a3d2, 0x1e01f268, 0x6906c2fe, 0xf762575d, 0x806567cb, 0x196c3671, 0x6e6b06e7,
     0xfed41b76, 0x89d32be0, 0x10da7a5a, 0x67dd4acc, 0xf9b9df6f, 0x8ebeeff9, 0x17b7be43, 0x60b08ed5,
     0xd6d6a3e8, 0xa1d1937e, 0x38d8c2c4, 0x4fdff252, 0xd1bb67f1, 0xa6bc5767, 0x3fb506dd, 0x48b2364b,
     0xd80d2bda, 0xaf0a1b4c, 0x36034af6, 0x41047a60, 0xdf60efc3, 0xa867df55, 0x316e8eef, 0x4669be79,
     0xcb61b38c, 0xbc66831a, 0x256fd2a0, 0x5268e236, 0xcc0c7795, 0xbb0b4703, 0x220216b9, 0x5505262f,
     0xc5ba3bbe, 0xb2bd0b28, 0x2bb45a92, 0x5cb36a04, 0xc2d7ffa7, 0xb5d0cf31, 0x2cd99e8b, 0x5bdeae1d,
     0x9b64c2b0, 0xec63f226, 0x756aa39c, 0x026d930a, 0x9c0906a9, 0xeb0e363f, 0x72076785, 0x05005713,
     0x95bf4a82, 0xe2b87a14, 0x7bb12bae, 0x0cb61b38, 0x92d28e9b, 0xe5d5be0d, 0x7cdcefb7, 0x0bdbdf21,
     0x86d3d2d4, 0xf1d4e242, 0x68ddb3f8, 0x1fda836e, 0x81be16cd, 0xf6b9265b, 0x6fb077e1, 0x18b74777,
     0x88085ae6, 0xff0f6a70, 0x66063bca, 0x11010b5c, 0x8f659eff, 0xf862ae69, 0x616bffd3, 0x166ccf45,
     0xa00ae278, 0xd70dd2ee, 0x4e048354, 0x3903b3c2, 0xa7672661, 0xd06016f7, 0x4969474d, 0x3e6e77db,
     0xaed16a4a, 0xd9d65adc, 0x40df0b66, 0x37d83bf0, 0xa9bcae53, 0xdebb9ec5, 0x47b2cf7f, 0x30b5ffe9,
     0xbdbdf21c, 0xcabac28a, 0x53b39330, 0x24b4a3a6, 0xbad03605, 0xcdd70693, 0x54de5729, 0x23d967bf,
     0xb3667a2e, 0xc4614ab8, 0x5d681b02, 0x2a6f2b94, 0xb40bbe37, 0xc30c8ea1, 0x5a05df1b, 0x2d02ef8d]"

definition crc_step :: "32 word \<Rightarrow> 8 word \<Rightarrow> 32 word" where
  "crc_step crc b = crc_table ! unat ((crc XOR ucast b) AND 0xff) XOR drop_bit 8 crc"

definition crc32_raw :: "32 word \<Rightarrow> 8 word list \<Rightarrow> 32 word" where
  "crc32_raw previous buf = foldl crc_step (previous XOR (- 1)) buf XOR (- 1)"

text \<open>\<open>previous\<close> as a number: \<open>~~previous\<close> wraps it to 32 bits, \<open>undefined\<close> is 0.\<close>

definition crc32_signed :: "8 word list \<Rightarrow> int option \<Rightarrow> int" where
  "crc32_signed buf previous = sint (crc32_raw (case previous of None \<Rightarrow> 0 | Some p \<Rightarrow> word_of_int p) buf)"

definition crc32_unsigned :: "8 word list \<Rightarrow> int option \<Rightarrow> int" where
  "crc32_unsigned buf previous = uint (crc32_raw (case previous of None \<Rightarrow> 0 | Some p \<Rightarrow> word_of_int p) buf)"

section \<open>The bitwise reference\<close>

definition bit_step :: "32 word \<Rightarrow> 32 word" where
  "bit_step c = (if bit c 0 then drop_bit 1 c XOR 0xedb88320 else drop_bit 1 c)"

definition byte_step :: "32 word \<Rightarrow> 8 word \<Rightarrow> 32 word" where
  "byte_step c b = (bit_step ^^ 8) (c XOR ucast b)"

definition crc32_reference :: "32 word \<Rightarrow> 8 word list \<Rightarrow> 32 word" where
  "crc32_reference previous buf = NOT (foldl byte_step (NOT previous) buf)"

text \<open>The same step on unsigned integers, for evaluation.\<close>

definition int_step :: "int \<Rightarrow> int" where
  "int_step c = (if c mod 2 = 1 then (c div 2) XOR 0xedb88320 else c div 2)"

lemma uint_bit_step: "uint (bit_step c) = int_step (uint c)"
proof -
  have "bit c 0 \<longleftrightarrow> uint c mod 2 = 1"
    using bit_uint_iff[of c 0] by (simp add: bit_0 odd_iff_mod_2_eq_one)
  moreover have "uint (drop_bit (Suc 0) c) = uint c div 2"
    by (simp add: drop_bit_Suc uint_div)
  ultimately show ?thesis
    by (simp add: bit_step_def int_step_def unsigned_xor_eq)
qed

lemma uint_bit_steps: "uint ((bit_step ^^ n) c) = (int_step ^^ n) (uint c)"
  by (induction n) (simp_all add: uint_bit_step)

fun table_from :: "int \<Rightarrow> 32 word list \<Rightarrow> bool" where
  "table_from i [] = True"
| "table_from i (x # xs) = ((int_step ^^ 8) i = uint x \<and> table_from (i + 1) xs)"

lemma table_from_nth: "table_from i xs \<Longrightarrow> n < length xs \<Longrightarrow> uint (xs ! n) = (int_step ^^ 8) (i + int n)"
proof (induction i xs arbitrary: n rule: table_from.induct)
  case (2 i x xs)
  then show ?case by (cases n) (auto simp: ac_simps)
qed simp

lemma int_step8: "(int_step ^^ 8) i =
    int_step (int_step (int_step (int_step (int_step (int_step (int_step (int_step i)))))))"
  by (simp add: eval_nat_numeral)

lemma table_ok: "table_from 0 crc_table"
  by (simp add: crc_table_def int_step8 int_step_def)

lemma bit_step_xor: "bit_step (a XOR b) = bit_step a XOR bit_step b"
  by (simp add: bit_step_def bit_xor_iff ac_simps)

lemma bit_steps_xor: "(bit_step ^^ n) (a XOR b) = (bit_step ^^ n) a XOR (bit_step ^^ n) b"
  by (induction n) (simp_all add: bit_step_xor)

lemma bit_steps_drop: "(\<forall>i<n. \<not> bit c i) \<Longrightarrow> (bit_step ^^ n) c = drop_bit n c"
proof (induction n)
  case (Suc n)
  then have "\<not> bit (drop_bit n c) 0" "(bit_step ^^ n) c = drop_bit n c" by (simp_all add: bit_drop_bit_eq)
  then show ?case using Suc \<open>(bit_step ^^ n) c = drop_bit n c\<close> by (simp add: bit_step_def ac_simps)
qed simp


lemma length_crc_table: "length crc_table = 256"
  by (simp add: crc_table_def)

lemma crc_table_nth: "i < 256 \<Longrightarrow> crc_table ! i = (bit_step ^^ 8) (of_nat i)"
proof -
  assume i: "i < 256"
  have "uint (crc_table ! i) = (int_step ^^ 8) (0 + int i)"
    using table_ok by (rule table_from_nth) (simp add: length_crc_table i)
  also have "0 + int i = uint (of_nat i :: 32 word)"
    using i by (simp add: unsigned_of_nat take_bit_nat_eq_self)
  also have "(int_step ^^ 8) \<dots> = uint ((bit_step ^^ 8) (of_nat i :: 32 word))"
    by (rule uint_bit_steps[symmetric])
  finally show ?thesis by (simp only: word_uint_eq_iff)
qed

text \<open>One table look-up is eight bit steps.\<close>

lemma split_mask: "x = (x AND m) XOR (x AND NOT m)" for x :: "32 word"
  by (rule bit_word_eqI) (auto simp: bit_simps)

lemma low_byte: "(0xff :: 32 word) = mask 8"
  by (simp add: mask_eq_exp_minus_1)

lemma crc_step_eq: "crc_step c b = byte_step c b"
proof -
  let ?x = "c XOR ucast b :: 32 word"
  have lt: "unat (?x AND mask 8) < 256"
    using take_bit_nat_less_exp[of 8 "unat ?x"]
    by (simp del: take_bit_xor add: take_bit_eq_mask[symmetric] unsigned_take_bit_eq)
  have "(bit_step ^^ 8) (?x AND mask 8) = crc_table ! unat (?x AND mask 8)"
    using crc_table_nth[OF lt] by simp
  moreover have "(bit_step ^^ 8) (?x AND NOT (mask 8)) = drop_bit 8 c"
  proof -
    have "(bit_step ^^ 8) (?x AND NOT (mask 8)) = drop_bit 8 (?x AND NOT (mask 8))"
      by (rule bit_steps_drop) (simp add: bit_simps)
    also have "\<dots> = drop_bit 8 c"
      by (rule bit_word_eqI) (auto simp: bit_simps dest: bit_imp_le_length)
    finally show ?thesis .
  qed
  ultimately show ?thesis
    unfolding byte_step_def crc_step_def low_byte
    by (subst (3) split_mask[where m = "mask 8"]) (simp only: bit_steps_xor)
qed

lemma foldl_crc_step: "foldl crc_step c buf = foldl byte_step c buf"
  by (induction buf arbitrary: c) (simp_all add: crc_step_eq)

text \<open>
  C11. The table-driven loop computes the bitwise CRC-32 of the buffer, for every start value.
\<close>

theorem crc32_is_bitwise_crc: "crc32_raw previous buf = crc32_reference previous buf"
proof -
  have "x XOR (- 1) = NOT x" for x :: "32 word" by simp
  then show ?thesis by (simp add: crc32_raw_def crc32_reference_def foldl_crc_step)
qed

section \<open>What a checksum tells about a change\<close>

lemma xor_cancel: "(x :: 32 word) XOR y = x XOR z \<longleftrightarrow> y = z" "(y :: 32 word) XOR x = z XOR x \<longleftrightarrow> y = z"
  by (metis xor.assoc xor.left_neutral xor_self_eq, metis xor.assoc xor.right_neutral xor_self_eq)

lemma bit_step_inj: "bit_step a = bit_step b \<Longrightarrow> a = b"
proof -
  assume eq: "bit_step a = bit_step b"
  have poly: "bit (0xedb88320 :: 32 word) 31" by simp
  have top: "bit (bit_step c) 31 = bit c 0" for c
    using bit_imp_le_length[of c 32] by (auto simp: bit_step_def bit_simps poly)
  then have b0: "bit a 0 = bit b 0" using eq by metis
  then have "drop_bit 1 a = drop_bit 1 b"
    using eq by (auto simp: bit_step_def xor_cancel split: if_splits)
  then have d: "bit a (Suc n) = bit b (Suc n)" for n
    by (metis bit_drop_bit_eq plus_1_eq_Suc o_apply)
  show ?thesis
  proof (rule bit_word_eqI)
    fix n
    show "bit a n \<longleftrightarrow> bit b n"
      using b0 d by (cases n) auto
  qed
qed

lemma bit_steps_inj: "(bit_step ^^ n) a = (bit_step ^^ n) b \<longleftrightarrow> a = b"
  by (induction n) (auto dest: bit_step_inj)

lemma crc_step_inj: "crc_step c b = crc_step c' b' \<longleftrightarrow> c XOR ucast b = c' XOR ucast b'"
  by (simp add: crc_step_eq byte_step_def bit_steps_inj)

lemma crc_fold_inj: "foldl crc_step c buf = foldl crc_step c' buf \<longleftrightarrow> c = c'"
proof (induction buf arbitrary: c c')
  case (Cons b buf)
  then show ?case
    by (simp add: crc_step_inj xor_cancel)
qed simp

lemma byte_inj: "(ucast b :: 32 word) = ucast b' \<longleftrightarrow> b = b'" for b :: "8 word"
proof
  assume a: "(ucast b :: 32 word) = ucast b'"
  show "b = b'"
  proof (rule bit_word_eqI)
    fix n assume "n < LENGTH(8)"
    then show "bit b n \<longleftrightarrow> bit b' n"
      using arg_cong[OF a, of "\<lambda>w. bit w n"] by (simp add: bit_simps)
  qed
qed simp

lemma sint_eq_iff: "sint (a :: 32 word) = sint b \<longleftrightarrow> a = b"
  by (auto intro: signed_word_eqI)

text \<open>
  Two buffers that differ in one byte have different checksums, whatever comes before and after
  it, so a session whose serialised form changed in one byte is never taken for unmodified.
\<close>

theorem crc32_detects_byte_change:
  "crc32_signed (pre @ b # post) previous = crc32_signed (pre @ b' # post) previous \<longleftrightarrow> b = b'"
proof -
  have "foldl crc_step (crc_step c b) post = foldl crc_step (crc_step c b') post \<longleftrightarrow> b = b'" for c
    by (simp add: crc_fold_inj crc_step_inj xor_cancel byte_inj)
  then show ?thesis
    by (simp add: crc32_signed_def crc32_raw_def sint_eq_iff)
qed

end
