(* ===== verification/Session_Middleware.thy ===== *)
theory Session_Middleware
  imports Session_Store Crc32
begin

text \<open>
  \<open>connect/lib/middleware/session.js\<close>: what the middleware does when a request arrives
  (\<open>session_begin\<close>), when the headers of the answer are written (\<open>session_header\<close>) and when the
  answer ends (\<open>session_end\<close>); between the first and the others the application changes
  \<open>req.session\<close>. The store's operations are arguments. \<open>hmac\<close> is the digest of \<open>crypto\<close>, \<open>uid\<close>
  the new identifier \<open>uid(24)\<close> gives, \<open>ser\<close> the bytes of \<open>JSON.stringify\<close> of a session without its
  cookie, \<open>utc\<close> is \<open>Date.prototype.toUTCString\<close>.
\<close>

record sess_options =
  so_key :: string
  so_cookie :: "jval obj"
  so_proxy :: bool
  so_rolling :: bool
  so_secret :: "string option"

record 'd sess_req =
  sq_path :: string
  sq_cookies :: "string obj"
  sq_signed :: "string obj"
  sq_secret :: "string option"
  sq_proto :: string
  sq_encrypted :: bool
  sq_sid :: "string option"
  sq_session :: "'d session option"

text \<open>The variables the callbacks of one request share.\<close>

record sess_ctx =
  cx_unsigned :: "string option"
  cx_secret :: string
  cx_orig_id :: "string option"
  cx_orig_hash :: "int option"

text \<open>
  The outcome: the request passed on without a session, an exception, an error passed to \<open>next\<close>,
  or the request passed on with the session in place.
\<close>

datatype ('d, 's) begun =
    Bypassed
  | Threw string
  | Failed string "'d sess_req" 's
  | Began sess_ctx "'d sess_req" 's

definition truthy_str :: "string option \<Rightarrow> bool" where
  "truthy_str v \<longleftrightarrow> v \<noteq> None \<and> v \<noteq> Some []"

definition sess_hash :: "('d obj \<Rightarrow> 8 word list) \<Rightarrow> 'd obj \<Rightarrow> int" where
  "sess_hash ser dat = crc32_signed (ser dat) None"

definition generate :: "sess_options \<Rightarrow> clock \<Rightarrow> string \<Rightarrow> 'd sess_req \<Rightarrow> 'd sess_req" where
  "generate opts now uid req =
     req\<lparr>sq_sid := Some uid,
         sq_session := Some \<lparr>se_id = uid, se_cookie = new_cookie now (so_cookie opts), se_data = []\<rparr>\<rparr>"

definition cookie_path :: "sess_options \<Rightarrow> string" where
  "cookie_path opts = (case obj_get ''path'' (so_cookie opts) of JStr s \<Rightarrow> if s = [] then ''/'' else s | _ \<Rightarrow> ''/'')"

definition session_begin ::
  "(string \<Rightarrow> string \<Rightarrow> string) \<Rightarrow> ('d obj \<Rightarrow> 8 word list) \<Rightarrow> (int \<Rightarrow> string \<Rightarrow> 's \<Rightarrow> 'd got \<times> 's) \<Rightarrow>
   sess_options \<Rightarrow> bool \<Rightarrow> clock \<Rightarrow> string \<Rightarrow> 'd sess_req \<Rightarrow> 's \<Rightarrow> ('d, 's) begun" where
  "session_begin hmac ser get_op opts store_ready now uid req st =
     (if sq_session req \<noteq> None then Bypassed
      else if \<not> store_ready then Bypassed
      else if index_of (sq_path req) (cookie_path opts) \<noteq> 0 then Bypassed
      else
        let secret = (if truthy_str (so_secret opts) then so_secret opts else sq_secret req) in
        if \<not> truthy_str secret then Threw ''`secret` option required for sessions''
        else
          let raw = map_of (sq_cookies req) (so_key opts);
              signed = map_of (sq_signed req) (so_key opts);
              unsigned = (if \<not> truthy_str signed \<and> truthy_str raw
                          then parse_signed_cookie hmac (the raw) (the secret) else signed);
              cx = \<lparr>cx_unsigned = unsigned, cx_secret = the secret, cx_orig_id = None, cx_orig_hash = None\<rparr>;
              req1 = req\<lparr>sq_sid := unsigned\<rparr>
          in if \<not> truthy_str unsigned then Began cx (generate opts now uid req1) st
             else
               (case get_op (fst now) (the unsigned) st of
                  (GotThrow e, st1) \<Rightarrow> Threw e
                | (GotErr e, st1) \<Rightarrow>
                    if e = ''ENOENT'' then Began cx (generate opts now uid req1) st1 else Failed e req1 st1
                | (GotNothing, st1) \<Rightarrow> Began cx (generate opts now uid req1) st1
                | (Got sess, st1) \<Rightarrow>
                    Began (cx\<lparr>cx_orig_id := unsigned, cx_orig_hash := Some (sess_hash ser (st_data sess))\<rparr>)
                      (req1\<lparr>sq_session := Some (create_session now (the unsigned) sess)\<rparr>) st1))"

text \<open>The \<open>header\<close> event: the \<open>Set-Cookie\<close> value, if one is sent.\<close>

definition opt_str :: "jval \<Rightarrow> string option" where
  "opt_str v = (case v of JStr s \<Rightarrow> Some s | _ \<Rightarrow> None)"

definition serialize_cookie :: "(int \<Rightarrow> string) \<Rightarrow> string \<Rightarrow> string \<Rightarrow> sess_cookie \<Rightarrow> string" where
  "serialize_cookie utc name val c =
     cookie_serialize utc name val
       \<lparr>co_max_age = None, co_domain = opt_str (sc_domain c), co_path = opt_str (sc_path c),
        co_expires = (case sc_expires c of JDate t \<Rightarrow> Some t | _ \<Rightarrow> None),
        co_http_only = js_truthy (sc_http_only c), co_secure = js_truthy (sc_secure c)\<rparr>"

definition session_header ::
  "(string \<Rightarrow> string \<Rightarrow> string) \<Rightarrow> ('d obj \<Rightarrow> 8 word list) \<Rightarrow> (int \<Rightarrow> string) \<Rightarrow>
   sess_options \<Rightarrow> int \<Rightarrow> sess_ctx \<Rightarrow> 'd sess_req \<Rightarrow> string option" where
  "session_header hmac ser utc opts now cx req =
     (case sq_session req of
        None \<Rightarrow> None
      | Some se \<Rightarrow>
          let c = se_cookie se;
              proto = trim_str (to_lower (hd (split_on (CHR '','') (sq_proto req))));
              tls = (sq_encrypted req \<or> so_proxy opts \<and> proto = ''https'');
              is_new = (cx_unsigned cx \<noteq> sq_sid req)
          in if js_truthy (sc_secure c) \<and> \<not> tls then None
             else if \<not> so_rolling opts \<and>
                (\<not> is_new \<and> has_long_expires now c \<or>
                 (if is_nullish (sc_expires c) then \<not> is_new
                  else cx_orig_hash cx = Some (sess_hash ser (se_data se)) \<and> cx_orig_id cx = Some (se_id se)))
             then None
             else Some (serialize_cookie utc (so_key opts)
                          (''s:'' @ sign hmac (the (sq_sid req)) (cx_secret cx)) c))"

text \<open>\<open>res.end\<close>: the session is touched and saved under its own id.\<close>

definition session_end :: "(string \<Rightarrow> 'd session \<Rightarrow> 's \<Rightarrow> 's) \<Rightarrow> clock \<Rightarrow> 'd sess_req \<Rightarrow> 's \<Rightarrow> 's" where
  "session_end set_op now req st =
     (case sq_session req of
        None \<Rightarrow> st
      | Some se \<Rightarrow> let se1 = reset_max_age now se in set_op (se_id se1) se1 st)"

section \<open>The session object's other operations\<close>

definition session_destroy :: "(string \<Rightarrow> 's \<Rightarrow> 's) \<Rightarrow> 'd session \<Rightarrow> 'd sess_req \<Rightarrow> 's \<Rightarrow> 'd sess_req \<times> 's" where
  "session_destroy destroy_op se req st = (req\<lparr>sq_session := None\<rparr>, destroy_op (se_id se) st)"

definition session_regenerate ::
  "(string \<Rightarrow> 's \<Rightarrow> 's) \<Rightarrow> sess_options \<Rightarrow> clock \<Rightarrow> string \<Rightarrow> 'd sess_req \<Rightarrow> 's \<Rightarrow> 'd sess_req \<times> 's" where
  "session_regenerate destroy_op opts now uid req st =
     (generate opts now uid req, destroy_op (the (sq_sid req)) st)"

text \<open>\<open>reload\<close> and \<open>Store.prototype.load\<close>: the error of the callback, or the request.\<close>

definition session_reload ::
  "(int \<Rightarrow> string \<Rightarrow> 's \<Rightarrow> 'd got \<times> 's) \<Rightarrow> clock \<Rightarrow> 'd session \<Rightarrow> 'd sess_req \<Rightarrow> 's \<Rightarrow> (string + 'd sess_req) \<times> 's" where
  "session_reload get_op now se req st =
     (case get_op (fst now) (se_id se) st of
        (GotThrow e, st1) \<Rightarrow> (Inl e, st1)
      | (GotErr e, st1) \<Rightarrow> (Inl e, st1)
      | (GotNothing, st1) \<Rightarrow> (Inl ''failed to load session'', st1)
      | (Got sess, st1) \<Rightarrow> (Inr (req\<lparr>sq_session := Some (create_session now (the (sq_sid req)) sess)\<rparr>), st1))"

definition store_load ::
  "(int \<Rightarrow> string \<Rightarrow> 's \<Rightarrow> 'd got \<times> 's) \<Rightarrow> clock \<Rightarrow> string \<Rightarrow> 's \<Rightarrow> (string + 'd session option) \<times> 's" where
  "store_load get_op now sid st =
     (case get_op (fst now) sid st of
        (GotThrow e, st1) \<Rightarrow> (Inl e, st1)
      | (GotErr e, st1) \<Rightarrow> (Inl e, st1)
      | (GotNothing, st1) \<Rightarrow> (Inr None, st1)
      | (Got sess, st1) \<Rightarrow> (Inr (Some (create_session now sid sess)), st1))"


section \<open>What the middleware guarantees\<close>

lemma begin_secret:
  "session_begin hmac ser get_op opts ready now uid req st = Began cx r st' \<Longrightarrow> so_secret opts = Some secret \<Longrightarrow>
   secret \<noteq> [] \<Longrightarrow> cx_secret cx = secret"
  by (auto simp: session_begin_def Let_def truthy_str_def split: if_splits got.splits prod.splits)

lemma signed_cookie_value: "base64_digest hmac \<Longrightarrow> parse_signed_cookie hmac (''s:'' @ sign hmac v secret) secret = Some v"
  using unsign_sign by (simp add: parse_signed_cookie_def index_of_zero)

lemma header_value:
  "session_header hmac ser utc opts now cx req = Some hdr \<Longrightarrow> sq_session req = Some se \<Longrightarrow>
   hdr = serialize_cookie utc (so_key opts) (''s:'' @ sign hmac (the (sq_sid req)) (cx_secret cx)) (se_cookie se)"
  by (auto simp: session_header_def Let_def split: if_splits)

text \<open>A request that enters the middleware, and the cookie a browser sends back.\<close>

definition enters :: "sess_options \<Rightarrow> 'd sess_req \<Rightarrow> bool" where
  "enters opts req \<longleftrightarrow> sq_session req = None \<and> index_of (sq_path req) (cookie_path opts) = 0"

definition sends_back :: "string \<Rightarrow> 'd sess_req \<Rightarrow> bool" where
  "sends_back hdr req \<longleftrightarrow>
     sq_cookies req = cookie_parse (takeWhile (\<lambda>c. c \<noteq> CHR '';'') hdr) \<and> sq_signed req = []"

context session_store
begin

lemma begin_found:
  assumes "enters opts req" "so_secret opts = Some secret" "secret \<noteq> []"
    and "sq_signed req = []" "map_of (sq_cookies req) (so_key opts) = Some raw"
    and "raw \<noteq> []" "parse_signed_cookie hmac raw secret = Some sid" "sid \<noteq> []"
    and "fst (get_op (fst now) sid st) = Got sess"
  shows "\<exists>cx st'. session_begin hmac ser get_op opts True now uid req st =
     Began cx (req\<lparr>sq_sid := Some sid, sq_session := Some (create_session now sid sess)\<rparr>) st' \<and>
     cx_unsigned cx = Some sid \<and> cx_orig_id cx = Some sid \<and>
     cx_orig_hash cx = Some (sess_hash ser (st_data sess)) \<and> cx_secret cx = secret"
  using assms
  by (cases "get_op (fst now) sid st") (simp add: session_begin_def Let_def enters_def truthy_str_def)

lemma returning_client:
  assumes first: "session_begin hmac ser get_op opts True now0 uid0 req0 st0 = Began cx r0 st1"
    and opts: "so_secret opts = Some secret" "secret \<noteq> []" "base64_digest hmac"
      "plain_name (so_key opts)" "so_key opts \<notin> set inherited_names"
    and app: "sq_session r1 = Some se" "sq_sid r1 = Some (se_id se)" "se_id se \<noteq> []" "keeps (se_id se)"
      "storable (se_cookie se)"
    and hdr: "session_header hmac ser utc opts (fst now1) cx r1 = Some hdr"
    and others: "se_id se \<notin> fst ` set ops"
    and again: "enters opts req2" "sends_back hdr req2"
      "stored_alive (fst now2) (stringify js (reset_max_age now1 se))"
  shows "\<exists>cx2 st3. session_begin hmac ser get_op opts True now2 uid2 req2
           (fold (store_op set_op destroy_op) ops (session_end set_op now1 r1 st2)) =
         Began cx2 (req2\<lparr>sq_sid := Some (se_id se), sq_session := Some (json_session js (reset_max_age now1 se))\<rparr>) st3 \<and>
         cx_unsigned cx2 = Some (se_id se) \<and> cx_orig_id cx2 = Some (se_id se) \<and>
         cx_orig_hash cx2 = Some (sess_hash ser (json_data js (se_data se))) \<and> cx_secret cx2 = secret"
proof -
  let ?raw = "''s:'' @ sign hmac (se_id se) secret"
  have sec: "cx_secret cx = secret" using begin_secret[OF first opts(1,2)] .
  have "takeWhile (\<lambda>c. c \<noteq> CHR '';'') hdr = so_key opts @ ''='' @ encode_uri ?raw"
    using header_value[OF hdr app(1)] app(2) sec set_cookie_sent_back[OF opts(4)]
    by (simp add: serialize_cookie_def)
  then have raw: "map_of (sq_cookies req2) (so_key opts) = Some ?raw"
    using again(2) cookie_parse_pair[OF opts(4,5), of ?raw] by (simp add: sends_back_def)
  have got: "fst (get_op (fst now2) (se_id se) (fold (store_op set_op destroy_op) ops (session_end set_op now1 r1 st2))) =
      Got (stringify js (reset_max_age now1 se))"
    using saved_session_found[OF _ again(3) others, of st2] app(1,4) by (simp add: session_end_def Let_def)
  have same: "create_session now2 (se_id se) (stringify js (reset_max_age now1 se)) = json_session js (reset_max_age now1 se)"
    using create_of_stored[OF storable_reset[OF app(5)], of now2 now1 js] by simp
  have no_signed: "sq_signed req2 = []" using again(2) by (simp add: sends_back_def)
  have "?raw \<noteq> []" by simp
  from begin_found[OF again(1) opts(1,2) no_signed raw this signed_cookie_value[OF opts(3)] app(3) got,
      of ser uid2, unfolded same] show ?thesis by simp
qed

end

text \<open>
  C9. Sessions persist from request to request, end to end. When a request was given a session and its
  answer carried the session's cookie, then a later request that sends back what a browser keeps of
  that \<open>Set-Cookie\<close> header (after any activity on other sessions in between, and before the session
  expires) runs with the session as the application left it, name and cookie unchanged and its data as
  JSON keeps them (\<open>js\<close>), and is recognised as the same, unmodified session. Where JSON keeps every
  value of the data it is exactly the session. The name is any but \<open>__proto__\<close>.
\<close>

theorem session_persists_across_requests:
  assumes first: "session_begin hmac ser memory_get opts True now0 uid0 req0 st0 = Began cx r0 st1"
    and opts: "so_secret opts = Some secret" "secret \<noteq> []" "base64_digest hmac"
      "plain_name (so_key opts)" "so_key opts \<notin> set inherited_names"
    and app: "sq_session r1 = Some se" "sq_sid r1 = Some (se_id se)" "se_id se \<noteq> []" "se_id se \<noteq> ''__proto__''"
      "storable (se_cookie se)"
    and hdr: "session_header hmac ser utc opts (fst now1) cx r1 = Some hdr"
    and others: "se_id se \<notin> fst ` set ops"
    and again: "enters opts req2" "sends_back hdr req2"
      "stored_alive (fst now2) (stringify js (reset_max_age now1 se))"
  shows "\<exists>cx2 se2 st3. session_begin hmac ser memory_get opts True now2 uid2 req2
           (fold (store_op (memory_set js) memory_destroy) ops (session_end (memory_set js) now1 r1 st2)) =
         Began cx2 (req2\<lparr>sq_sid := Some (se_id se), sq_session := Some se2\<rparr>) st3 \<and>
         se2 = (reset_max_age now1 se)\<lparr>se_data := json_data js (se_data se)\<rparr> \<and>
         (list_all (\<lambda>(k, v). js v = Some v) (se_data se) \<longrightarrow> se2 = reset_max_age now1 se) \<and>
         cx_unsigned cx2 = Some (se_id se) \<and> cx_orig_id cx2 = Some (se_id se2) \<and>
         cx_orig_hash cx2 = Some (sess_hash ser (se_data se2)) \<and> cx_secret cx2 = secret"
  using mem.returning_client[OF assms] json_data_same[of js "se_data se"] by (auto simp: json_session_def)


text \<open>A small instance: the options of the web tool, a toy digest, a first request without cookies.\<close>

definition demo_opts :: sess_options where
  "demo_opts = \<lparr>so_key = ''connect.sid'', so_cookie = [], so_proxy = False, so_rolling = False, so_secret = Some ''k''\<rparr>"

definition demo_hmac :: "string \<Rightarrow> string \<Rightarrow> string" where
  "demo_hmac k v = filter (\<lambda>c. c \<noteq> CHR ''.'') (k @ rev v)"

definition demo_req :: "string obj \<Rightarrow> jval sess_req" where
  "demo_req cookies = \<lparr>sq_path = ''/choose'', sq_cookies = cookies, sq_signed = [], sq_secret = None, sq_proto = [],
     sq_encrypted = False, sq_sid = None, sq_session = None\<rparr>"

definition demo_session :: "jval session" where
  "demo_session = \<lparr>se_id = ''abc'', se_cookie = \<lparr>sc_path = JStr ''/'', sc_expires = JNull, sc_original = JNull,
     sc_http_only = JBool True, sc_secure = JUndef, sc_domain = JUndef\<rparr>, se_data = [(''proc'', JNum 7), (''gone'', JUndef)]\<rparr>"

definition demo_active :: "jval sess_req" where
  "demo_active = (demo_req [])\<lparr>sq_sid := Some ''abc'', sq_session := Some demo_session\<rparr>"

lemma demo_digest: "base64_digest demo_hmac"
  by (simp add: base64_digest_def demo_hmac_def)

lemma demo_storable: "storable (se_cookie demo_session)"
  by (auto simp: demo_session_def storable_def)

lemma demo_begin:
  "session_begin demo_hmac ser memory_get demo_opts True now ''abc'' (demo_req []) st =
   Began \<lparr>cx_unsigned = None, cx_secret = ''k'', cx_orig_id = None, cx_orig_hash = None\<rparr>
     (generate demo_opts now ''abc'' ((demo_req [])\<lparr>sq_sid := None\<rparr>)) st"
  by (simp add: session_begin_def demo_opts_def demo_req_def Let_def truthy_str_def cookie_path_def
      obj_get_def index_of_zero)

lemma demo_header:
  "session_header demo_hmac ser (\<lambda>_. []) demo_opts now
     \<lparr>cx_unsigned = None, cx_secret = ''k'', cx_orig_id = None, cx_orig_hash = None\<rparr> demo_active =
   Some ''connect.sid=s%3Aabc.kcba; Path=/; HttpOnly''"
proof -
  have "serialize_cookie (\<lambda>_. []) ''connect.sid'' (''s:'' @ sign demo_hmac ''abc'' ''k'') (se_cookie demo_session) =
      ''connect.sid=s%3Aabc.kcba; Path=/; HttpOnly''" by code_simp
  then show ?thesis
    by (simp add: session_header_def demo_active_def demo_opts_def demo_req_def Let_def)
       (simp add: demo_session_def)
qed

theorem session_persists_across_requests_witness:
  "\<exists>cx2 st3. session_begin demo_hmac (\<lambda>_. []) memory_get demo_opts True (200, 200) ''new''
       (demo_req [(''connect.sid'', ''s:abc.kcba'')])
       (fold (store_op (memory_set json_val) memory_destroy) [(''x'', None)]
          (session_end (memory_set json_val) (100, 100) demo_active [])) =
     Began cx2 ((demo_req [(''connect.sid'', ''s:abc.kcba'')])\<lparr>sq_sid := Some ''abc'',
       sq_session := Some ((reset_max_age (100, 100) demo_session)\<lparr>se_data := [(''proc'', JNum 7)]\<rparr>)\<rparr>) st3"
proof -
  let ?hdr = "''connect.sid=s%3Aabc.kcba; Path=/; HttpOnly''"
  let ?req2 = "demo_req [(''connect.sid'', ''s:abc.kcba'')]"
  have o: "so_secret demo_opts = Some ''k''" "''k'' \<noteq> []" "plain_name (so_key demo_opts)"
      "so_key demo_opts \<notin> set inherited_names"
    by (simp_all add: demo_opts_def plain_name_def is_space_def inherited_names_def)
  have a: "sq_session demo_active = Some demo_session" "sq_sid demo_active = Some (se_id demo_session)" "se_id demo_session \<noteq> []"
    "se_id demo_session \<noteq> ''__proto__''"
    by (simp_all add: demo_active_def demo_session_def)
  have e: "enters demo_opts ?req2"
    by (simp add: enters_def demo_req_def demo_opts_def cookie_path_def obj_get_def index_of_zero)
  have b: "sends_back ?hdr ?req2" unfolding sends_back_def by code_simp
  have l: "stored_alive (fst (200, 200)) (stringify json_val (reset_max_age (100, 100) demo_session))"
    by (simp add: stored_alive_def stringify_def demo_session_def reset_max_age_def cookie_ops)
  have n: "se_id demo_session \<notin> fst ` set [(''x'', None :: jval session option)]"
    by (simp add: demo_session_def)
  have h: "session_header demo_hmac (\<lambda>_. []) (\<lambda>_. []) demo_opts (fst (100, 100))
      \<lparr>cx_unsigned = None, cx_secret = ''k'', cx_orig_id = None, cx_orig_hash = None\<rparr> demo_active = Some ?hdr"
    using demo_header by simp
  from session_persists_across_requests[OF demo_begin o(1,2) demo_digest o(3,4) a demo_storable h n e b l,
      of "''new''" "[]"]
  show ?thesis by (auto simp: demo_session_def)
qed


text \<open>
  C12. A cookie that claims to be signed and is not the signature of anything never selects a session:
  the request gets a fresh, empty one and the store is not even consulted.
\<close>

theorem tampered_cookie_gets_fresh_session:
  assumes "enters opts req" "so_secret opts = Some secret" "secret \<noteq> []" "sq_signed req = []"
    and "map_of (sq_cookies req) (so_key opts) = Some (''s:'' @ x)" "\<And>v. x \<noteq> sign hmac v secret"
  shows "\<exists>cx. session_begin hmac ser get_op opts True now uid req st =
     Began cx (generate opts now uid (req\<lparr>sq_sid := None\<rparr>)) st \<and> cx_unsigned cx = None"
proof -
  have "parse_signed_cookie hmac (''s:'' @ x) secret = None"
    using assms(6) unsign_Some[of hmac x secret]
    by (cases "unsign hmac x secret") (auto simp: parse_signed_cookie_def index_of_zero)
  then show ?thesis
    using assms(1-5) by (simp add: session_begin_def Let_def enters_def truthy_str_def)
qed

theorem tampered_cookie_gets_fresh_session_witness:
  "\<exists>cx. session_begin demo_hmac (\<lambda>_. []) memory_get demo_opts True (5, 5) ''new''
      (demo_req [(''connect.sid'', ''s:abc.forged'')]) [(''abc'', stringify json_val demo_session)] =
     Began cx (generate demo_opts (5, 5) ''new'' ((demo_req [(''connect.sid'', ''s:abc.forged'')])\<lparr>sq_sid := None\<rparr>))
       [(''abc'', stringify json_val demo_session)] \<and> cx_unsigned cx = None"
proof -
  have "''abc.forged'' \<noteq> sign demo_hmac v ''k''" for v
  proof
    assume "''abc.forged'' = sign demo_hmac v ''k''"
    then have "unsign demo_hmac ''abc.forged'' ''k'' = Some v"
      using unsign_sign[OF demo_digest, of v "''k''"] by simp
    moreover have "unsign demo_hmac ''abc.forged'' ''k'' = None" by code_simp
    ultimately show False by simp
  qed
  then show ?thesis
    by (intro tampered_cookie_gets_fresh_session[where secret = "''k''"])
      (simp_all add: enters_def demo_req_def demo_opts_def cookie_path_def obj_get_def index_of_zero)
qed

text \<open>
  A cookie without the \<open>s:\<close> mark bypasses the signature: its raw text is taken as the identifier,
  so whoever knows (or plants) a session identifier opens that session without any signature.
\<close>

theorem unsigned_session_id_accepted:
  assumes "enters opts req" "so_secret opts = Some secret" "secret \<noteq> []" "sq_signed req = []"
    and "map_of (sq_cookies req) (so_key opts) = Some sid" "sid \<noteq> []" "\<not> starts_with ''s:'' sid"
    and "map_of m sid = Some sess" "stored_alive (fst now) sess"
  shows "\<exists>cx. session_begin hmac ser memory_get opts True now uid req m =
     Began cx (req\<lparr>sq_sid := Some sid, sq_session := Some (create_session now sid sess)\<rparr>) m"
  using assms
  by (simp add: session_begin_def Let_def enters_def truthy_str_def parse_signed_cookie_def index_of_zero memory_get_def)

theorem unsigned_session_id_accepted_witness:
  "\<exists>cx. session_begin demo_hmac (\<lambda>_. []) memory_get demo_opts True (5, 5) ''new''
      (demo_req [(''connect.sid'', ''abc'')]) [(''abc'', stringify json_val demo_session)] =
     Began cx ((demo_req [(''connect.sid'', ''abc'')])\<lparr>sq_sid := Some ''abc'',
        sq_session := Some (create_session (5, 5) ''abc'' (stringify json_val demo_session))\<rparr>) [(''abc'', stringify json_val demo_session)]"
  by (rule unsigned_session_id_accepted[where secret = "''k''"])
    (simp_all add: enters_def demo_req_def demo_opts_def cookie_path_def obj_get_def index_of_zero
      stored_alive_def stringify_def demo_session_def cookie_ops)

text \<open>
  A request can bring the process down: with the name of an inherited property as its unsigned
  session cookie, \<open>MemoryStore.get\<close> hands \<open>JSON.parse\<close> a function and the exception is thrown
  inside \<open>nextTick\<close>.
\<close>

theorem inherited_name_throws:
  assumes "enters opts req" "so_secret opts = Some secret" "secret \<noteq> []" "sq_signed req = []"
    and "map_of (sq_cookies req) (so_key opts) = Some sid" "sid \<in> set inherited_names" "map_of m sid = None"
  shows "session_begin hmac ser memory_get opts True now uid req m = Threw ''SyntaxError''"
proof -
  have "sid \<noteq> []" "\<not> starts_with ''s:'' sid"
    using assms(6) by (auto simp: inherited_names_def)
  then show ?thesis
    using assms
    by (simp add: session_begin_def Let_def enters_def truthy_str_def parse_signed_cookie_def index_of_zero memory_get_def)
qed

theorem inherited_name_throws_witness:
  "session_begin demo_hmac (\<lambda>_. []) memory_get demo_opts True (5, 5) ''new''
     (demo_req [(''connect.sid'', ''toString'')]) [] = Threw ''SyntaxError''"
  by (rule inherited_name_throws[where secret = "''k''" and sid = "''toString''"])
    (simp_all add: enters_def demo_req_def demo_opts_def cookie_path_def obj_get_def index_of_zero inherited_names_def)

text \<open>
  When the session cookie is sent. Without rolling sessions, over a plain connection, a cookie
  that lives as long as the browser is sent exactly when it is not restricted to secure
  connections and the client did not present this session; one with an expiry date is sent unless it
  is secure, or known and long-lived, or the session is the stored one with unchanged content.
\<close>

theorem set_cookie_exactly_when:
  assumes "\<not> so_rolling opts" "\<not> sq_encrypted req" "\<not> so_proxy opts" "sq_session req = Some se"
  shows "session_header hmac ser utc opts now cx req \<noteq> None \<longleftrightarrow>
     \<not> js_truthy (sc_secure (se_cookie se)) \<and>
     (if is_nullish (sc_expires (se_cookie se)) then cx_unsigned cx \<noteq> sq_sid req
      else (cx_unsigned cx = sq_sid req \<longrightarrow> \<not> has_long_expires now (se_cookie se)) \<and>
           (cx_orig_id cx = Some (se_id se) \<longrightarrow> cx_orig_hash cx \<noteq> Some (sess_hash ser (se_data se))))"
proof -
  have "is_nullish (sc_expires c) \<Longrightarrow> \<not> has_long_expires now c" for c
    by (cases "sc_expires c") (simp_all add: has_long_expires_def get_max_age_def)
  then show ?thesis
    using assms by (auto simp: session_header_def Let_def)
qed

theorem set_cookie_exactly_when_witness:
  "session_header demo_hmac (\<lambda>_. []) (\<lambda>_. []) demo_opts 5
     \<lparr>cx_unsigned = Some ''abc'', cx_secret = ''k'', cx_orig_id = None, cx_orig_hash = None\<rparr> demo_active = None"
  using set_cookie_exactly_when[of demo_opts demo_active demo_session demo_hmac "\<lambda>_. []" "\<lambda>_. []" 5
      "\<lparr>cx_unsigned = Some ''abc'', cx_secret = ''k'', cx_orig_id = None, cx_orig_hash = None\<rparr>"]
  by (simp add: demo_opts_def demo_active_def demo_req_def demo_session_def)

end
