(* ===== verification/Express_Router.thy ===== *)
theory Express_Router
  imports JS_Uri
begin

text \<open>
  The router of express (\<open>express/lib/router/index.js\<close>, \<open>route.js\<close>, \<open>pathRegexp\<close> and \<open>decode\<close> of
  \<open>utils.js\<close>, the verbs of \<open>methods\<close>): how a path pattern becomes the text of a regular expression,
  how a request is matched, and how the callbacks of the matching routes are run. \<open>rx\<close> is the
  language's \<open>RegExp.prototype.exec\<close>: from the pattern's text, its case-sensitivity and a path to the
  captures. A callback either answers, or calls its \<open>next\<close> once, or throws; what it does may
  depend on the error it is given.
\<close>

section \<open>From path patterns to regular expressions\<close>

text \<open>\<open>s.replace(/\/\(/g, '(?:/')\<close>.\<close>

fun open_groups :: "string \<Rightarrow> string" where
  "open_groups (c # d # cs) =
     (if c = CHR ''/'' \<and> d = CHR ''('' then ''(?:/'' @ open_groups cs else c # open_groups (d # cs))"
| "open_groups cs = cs"

definition is_word :: "char \<Rightarrow> bool" where
  "is_word c \<longleftrightarrow> is_upper c \<or> is_lower c \<or> is_digit c \<or> c = CHR ''_''"

text \<open>An optional prefix character.\<close>

definition opt_char :: "char \<Rightarrow> string \<Rightarrow> string \<times> string" where
  "opt_char c s = (case s of d # ds \<Rightarrow> if d = c then ([c], ds) else ([], s) | [] \<Rightarrow> ([], []))"

text \<open>\<open>(\(.*?\))?\<close>: up to the first closing bracket.\<close>

definition opt_capture :: "string \<Rightarrow> string \<times> string" where
  "opt_capture s =
     (let ds = tl s; inner = takeWhile (\<lambda>c. c \<noteq> CHR '')'') ds
      in if s \<noteq> [] \<and> hd s = CHR ''('' \<and> CHR '')'' \<in> set ds
         then (CHR ''('' # inner @ '')'', drop (length inner + 1) ds) else ([], s))"

record path_key =
  pk_name :: string
  pk_optional :: bool

text \<open>
  A match of \<open>/(\/)?(\.)?:(\w+)(?:(\(.*?\)))?(\?)?(\*)?/\<close> at the start of a text: the replacement, the
  key, and the rest.
\<close>

definition key_at :: "string \<Rightarrow> (string \<times> path_key \<times> string) option" where
  "key_at s =
     (let (slash, s1) = opt_char (CHR ''/'') s;
          (format, s2) = opt_char (CHR ''.'') s1;
          (colon, s3) = opt_char (CHR '':'') s2;
          key = takeWhile is_word s3;
          s4 = drop (length key) s3
      in if colon = [] \<or> key = [] then None
         else
           let (capture, s5) = opt_capture s4;
               (optional, s6) = opt_char (CHR ''?'') s5;
               (star, s7) = opt_char (CHR ''*'') s6;
               body = (if capture \<noteq> [] then capture else if format \<noteq> [] then ''([^/.]+?)'' else ''([^/]+?)'')
           in Some ((if optional \<noteq> [] then [] else slash) @ ''(?:'' @ (if optional \<noteq> [] then slash else []) @
                      format @ body @ '')'' @ optional @ (if star \<noteq> [] then ''(/*)?'' else []),
                    \<lparr>pk_name = key, pk_optional = (optional \<noteq> [])\<rparr>, s7))"

lemma opt_char_len: "length (snd (opt_char c s)) \<le> length s"
  by (auto simp: opt_char_def split: list.splits)

lemma opt_capture_len: "length (snd (opt_capture s)) \<le> length s"
  by (cases s) (auto simp: opt_capture_def Let_def)

lemma key_at_shorter: "key_at s = Some (r, k, rest) \<Longrightarrow> length rest < length s"
proof -
  assume a: "key_at s = Some (r, k, rest)"
  obtain slash s1 where 1: "opt_char (CHR ''/'') s = (slash, s1)" by fastforce
  obtain format s2 where 2: "opt_char (CHR ''.'') s1 = (format, s2)" by fastforce
  obtain colon s3 where 3: "opt_char (CHR '':'') s2 = (colon, s3)" by fastforce
  let ?s4 = "drop (length (takeWhile is_word s3)) s3"
  obtain capture s5 where 4: "opt_capture ?s4 = (capture, s5)" by fastforce
  obtain optional s6 where 5: "opt_char (CHR ''?'') s5 = (optional, s6)" by fastforce
  obtain star s7 where 6: "opt_char (CHR ''*'') s6 = (star, s7)" by fastforce
  have ne: "takeWhile is_word s3 \<noteq> []" "rest = s7"
    using a by (auto simp: key_at_def 1 2 3 4 5 6 Let_def split: if_splits)
  have "length s7 \<le> length ?s4" "length s3 \<le> length s"
    using opt_char_len[of _ s] opt_char_len[of _ s1] opt_char_len[of _ s2] opt_char_len[of _ s5] opt_char_len[of _ s6]
      opt_capture_len[of ?s4] 1 2 3 4 5 6 by (metis snd_conv order_trans)+
  moreover have "length ?s4 < length s3"
    using ne(1) by (cases s3) (auto split: if_splits)
  ultimately show ?thesis using ne(2) by simp
qed

function replace_keys :: "string \<Rightarrow> string \<times> path_key list" where
  "replace_keys s =
     (case key_at s of
        Some (r, k, rest) \<Rightarrow> (let (t, ks) = replace_keys rest in (r @ t, k # ks))
      | None \<Rightarrow> (case s of [] \<Rightarrow> ([], []) | c # cs \<Rightarrow> (let (t, ks) = replace_keys cs in (c # t, ks))))"
  by pat_completeness auto
termination
  by (relation "measure length") (auto dest: key_at_shorter)

definition escape_path :: "string \<Rightarrow> string" where
  "escape_path s = concat (map (\<lambda>c. if c = CHR ''/'' \<or> c = CHR ''.'' then [CHR 0x5C, c]
                                    else if c = CHR ''*'' then ''(.*)'' else [c]) s)"

definition path_regexp :: "bool \<Rightarrow> string \<Rightarrow> string \<times> path_key list" where
  "path_regexp strict path =
     (let (t, ks) = replace_keys (open_groups (path @ (if strict then [] else ''/?'')))
      in (''^'' @ escape_path t @ ''$'', ks))"

section \<open>Routes\<close>

datatype outcome = Respond | NextWith "string option" | Throw string

text \<open>\<open>cb_errors\<close>: the function takes four arguments.\<close>

record callback =
  cb_errors :: bool
  cb_run :: "string option \<Rightarrow> outcome"

record route =
  rt_path :: string
  rt_callbacks :: "callback list"
  rt_regexp :: string
  rt_keys :: "path_key list"
  rt_sensitive :: bool

definition new_route :: "bool \<Rightarrow> bool \<Rightarrow> string \<Rightarrow> callback list \<Rightarrow> route" where
  "new_route sensitive strict path callbacks =
     (let (rg, ks) = path_regexp strict path
      in \<lparr>rt_path = path, rt_callbacks = callbacks, rt_regexp = rg, rt_keys = ks, rt_sensitive = sensitive\<rparr>)"

definition decode_param :: "string \<Rightarrow> string" where
  "decode_param s = (case decode_uri s of Some d \<Rightarrow> d | None \<Rightarrow> s)"

type_synonym regexp_exec = "string \<Rightarrow> bool \<Rightarrow> string \<Rightarrow> string option list option"

text \<open>The named parameters and the positional ones; an undefined capture stays undefined.\<close>

fun fill_params :: "path_key list \<Rightarrow> string option list \<Rightarrow> string option obj \<times> string option list" where
  "fill_params ks [] = ([], [])"
| "fill_params [] (m # ms) = (let (named, pos) = fill_params [] ms in (named, map_option decode_param m # pos))"
| "fill_params (k # ks) (m # ms) =
     (let (named, pos) = fill_params ks ms
      in (if map_of named (pk_name k) = None then (pk_name k, map_option decode_param m) # named else named, pos))"

definition route_match :: "regexp_exec \<Rightarrow> route \<Rightarrow> string \<Rightarrow> (string option obj \<times> string option list) option" where
  "route_match rx r path =
     (case rx (rt_regexp r) (rt_sensitive r) path of
        None \<Rightarrow> None
      | Some ms \<Rightarrow> Some (fill_params (rt_keys r) ms))"

section \<open>The router\<close>

record router =
  ro_map :: "route list obj"
  ro_params :: "(string \<Rightarrow> outcome) list obj"
  ro_case_sensitive :: bool
  ro_strict :: bool

definition routes_of :: "router \<Rightarrow> string \<Rightarrow> route list" where
  "routes_of ro m = (case map_of (ro_map ro) m of Some rs \<Rightarrow> rs | None \<Rightarrow> [])"

definition http_methods :: "string list" where
  "http_methods = [''get'', ''post'', ''put'', ''head'', ''delete'', ''options'', ''trace'', ''copy'', ''lock'',
     ''mkcol'', ''move'', ''propfind'', ''proppatch'', ''unlock'', ''report'', ''mkactivity'', ''checkout'',
     ''merge'', ''m-search'', ''notify'', ''subscribe'', ''unsubscribe'', ''patch'', ''search'']"

definition add_route :: "string \<Rightarrow> string \<Rightarrow> callback list \<Rightarrow> router \<Rightarrow> string + router" where
  "add_route meth path callbacks ro =
     (let m = to_lower meth in
      if path = [] then Inl (''Router#'' @ m @ ''() requires a path'')
      else Inr (ro\<lparr>ro_map := obj_set m (routes_of ro m @ [new_route (ro_case_sensitive ro) (ro_strict ro) path callbacks])
                              (ro_map ro)\<rparr>))"

text \<open>Callbacks are appended for a parameter's name.\<close>

definition add_param :: "string \<Rightarrow> (string \<Rightarrow> outcome) \<Rightarrow> router \<Rightarrow> router" where
  "add_param name f ro =
     ro\<lparr>ro_params := obj_set name ((case map_of (ro_params ro) name of Some fs \<Rightarrow> fs | None \<Rightarrow> []) @ [f]) (ro_params ro)\<rparr>"

text \<open>The first route from index \<open>i\<close> on that matches.\<close>

definition find_route :: "regexp_exec \<Rightarrow> route list \<Rightarrow> string \<Rightarrow> nat \<Rightarrow> (nat \<times> route \<times> string option obj) option" where
  "find_route rx rs path i =
     (case filter (\<lambda>k. route_match rx (rs ! k) path \<noteq> None) [i..<length rs] of
        [] \<Rightarrow> None
      | k # _ \<Rightarrow> Some (k, rs ! k, fst (the (route_match rx (rs ! k) path))))"

definition match_request :: "regexp_exec \<Rightarrow> router \<Rightarrow> string \<Rightarrow> string \<Rightarrow> nat \<Rightarrow> (nat \<times> route \<times> string option obj) option" where
  "match_request rx ro meth path i =
     (let m = to_lower meth in
      if m = ''head'' then
        (case find_route rx (routes_of ro ''head'') path i of
           Some r \<Rightarrow> Some r
         | None \<Rightarrow> find_route rx (routes_of ro ''get'') path i)
      else find_route rx (routes_of ro m) path i)"

definition options_for :: "regexp_exec \<Rightarrow> router \<Rightarrow> string \<Rightarrow> string list" where
  "options_for rx ro path =
     map to_upper (filter (\<lambda>m. m \<noteq> ''options'' \<and> (\<exists>r \<in> set (routes_of ro m). route_match rx r path \<noteq> None)) http_methods)"

text \<open>The answer to \<open>OPTIONS\<close>: the header \<open>Allow\<close> and the body are the same text.\<close>

definition options_answer :: "string list \<Rightarrow> string obj \<times> string" where
  "options_answer ms = (let body = join_with '','' ms in ([(''Allow'', body)], body))"

text \<open>
  Paths can be texts, lists of alternatives, and regular expressions (text and case-sensitivity), which are taken as they
  are and name no parameters.
\<close>

datatype path_pattern = PText string | PList "string list" | PRegexp string bool

definition compile_pattern :: "bool \<Rightarrow> bool \<Rightarrow> path_pattern \<Rightarrow> string \<times> path_key list \<times> bool" where
  "compile_pattern sensitive strict p =
     (case p of
        PRegexp t cs \<Rightarrow> (t, [], cs)
      | PText t \<Rightarrow> (let (rg, ks) = path_regexp strict t in (rg, ks, sensitive))
      | PList ts \<Rightarrow> (let (rg, ks) = path_regexp strict (''('' @ join_with ''|'' ts @ '')'') in (rg, ks, sensitive)))"

definition pattern_text :: "path_pattern \<Rightarrow> string" where
  "pattern_text p = (case p of PText t \<Rightarrow> t | PList ts \<Rightarrow> join_with '','' ts | PRegexp t cs \<Rightarrow> ''/'' @ t @ ''/'' @ (if cs then [] else ''i''))"

definition add_pattern :: "string \<Rightarrow> path_pattern \<Rightarrow> callback list \<Rightarrow> router \<Rightarrow> string + router" where
  "add_pattern meth p callbacks ro =
     (let m = to_lower meth in
      if p = PText [] then Inl (''Router#'' @ m @ ''() requires a path'')
      else
        let (rg, ks, cs) = compile_pattern (ro_case_sensitive ro) (ro_strict ro) p;
            r = \<lparr>rt_path = pattern_text p, rt_callbacks = callbacks, rt_regexp = rg, rt_keys = ks, rt_sensitive = cs\<rparr>
        in Inr (ro\<lparr>ro_map := obj_set m (routes_of ro m @ [r]) (ro_map ro)\<rparr>))"

lemma add_pattern_text: "add_pattern m (PText t) cbs ro = add_route m t cbs ro"
  by (simp add: add_pattern_def add_route_def compile_pattern_def new_route_def pattern_text_def Let_def split_beta)

text \<open>
  \<open>param\<close> with the functions that were given to it alone before: each may replace the callback, which at the end has to
  be a function. \<open>as_fun\<close> says which values are.
\<close>

definition replace_param :: "(string \<Rightarrow> 'v \<Rightarrow> 'v option) list \<Rightarrow> string \<Rightarrow> 'v \<Rightarrow> 'v" where
  "replace_param fs name fn = foldl (\<lambda>fn f. case f name fn of Some r \<Rightarrow> r | None \<Rightarrow> fn) fn fs"

definition router_param ::
  "(string \<Rightarrow> 'v \<Rightarrow> 'v option) list \<Rightarrow> ('v \<Rightarrow> (string \<Rightarrow> outcome) option) \<Rightarrow> string \<Rightarrow> 'v \<Rightarrow> router \<Rightarrow> string + router" where
  "router_param fs as_fun name fn ro =
     (case as_fun (replace_param fs name fn) of
        None \<Rightarrow> Inl (''invalid param() call for '' @ name)
      | Some f \<Rightarrow> Inr (add_param name f ro))"

lemma router_param_keeps:
  "router_param fs as_fun name fn ro = Inr ro' \<Longrightarrow> ro_map ro' = ro_map ro \<and>
   (\<forall>n. n \<noteq> name \<longrightarrow> map_of (ro_params ro') n = map_of (ro_params ro) n)"
  by (auto simp: router_param_def add_param_def split: option.splits)

section \<open>Dispatch\<close>

datatype entry = LParam nat string | LCall nat nat "string option"

datatype route_end = Stopped | NextRoute "string option"

definition truthy_err :: "string option \<Rightarrow> bool" where
  "truthy_err e \<longleftrightarrow> e \<noteq> None \<and> e \<noteq> Some []"

text \<open>\<open>callbacks(err)\<close> from callback \<open>k\<close> of route \<open>ri\<close> on.\<close>

fun run_callbacks :: "nat \<Rightarrow> nat \<Rightarrow> callback list \<Rightarrow> string option \<Rightarrow> entry list \<times> route_end" where
  "run_callbacks ri k [] err = ([], if err = Some ''route'' then NextRoute None else NextRoute err)"
| "run_callbacks ri k (cb # cbs) err =
     (if err = Some ''route'' then ([], NextRoute None)
      else if truthy_err err \<and> \<not> cb_errors cb then run_callbacks ri (Suc k) cbs err
      else if \<not> truthy_err err \<and> cb_errors cb then run_callbacks ri (Suc k) cbs None
      else
        let err1 = (if truthy_err err then err else None);
            (l, e) = (case cb_run cb err1 of
                        Respond \<Rightarrow> ([], Stopped)
                      | NextWith e \<Rightarrow> run_callbacks ri (Suc k) cbs e
                      | Throw e \<Rightarrow> run_callbacks ri (Suc k) cbs (Some e))
        in (LCall ri k err1 # l, e))"

text \<open>\<open>paramCallback\<close>: the callbacks of one parameter; \<open>None\<close> when one of them answers.\<close>

fun run_param_callbacks :: "(string \<Rightarrow> outcome) list \<Rightarrow> string \<Rightarrow> string option option" where
  "run_param_callbacks [] val = Some None"
| "run_param_callbacks (f # fs) val =
     (case f val of
        Respond \<Rightarrow> None
      | NextWith e \<Rightarrow> if truthy_err e then Some e else run_param_callbacks fs val
      | Throw e \<Rightarrow> Some (Some e))"

datatype param_end = PStopped | PRoute | PCallbacks "string option"

text \<open>\<open>param(err)\<close> for the keys that are left.\<close>

fun run_params :: "router \<Rightarrow> nat \<Rightarrow> path_key list \<Rightarrow> string option obj \<Rightarrow> string option \<Rightarrow> entry list \<times> param_end" where
  "run_params ro ri [] params err =
     ([], if err = Some ''route'' then PRoute else if truthy_err err then PCallbacks err else PCallbacks None)"
| "run_params ro ri (k # ks) params err =
     (if err = Some ''route'' then ([], PRoute)
      else if truthy_err err then ([], PCallbacks err)
      else
        (case (map_of (ro_params ro) (pk_name k), map_of params (pk_name k)) of
           (Some fs, Some (Some val)) \<Rightarrow>
             (case run_param_callbacks fs val of
                None \<Rightarrow> ([LParam ri (pk_name k)], PStopped)
              | Some e \<Rightarrow>
                  (let (l, r) = run_params ro ri ks params e in (LParam ri (pk_name k) # l, r)))
         | _ \<Rightarrow> run_params ro ri ks params None))"

text \<open>The whole treatment of one route.\<close>

definition run_route :: "router \<Rightarrow> nat \<Rightarrow> route \<Rightarrow> string option obj \<Rightarrow> string option \<Rightarrow> entry list \<times> route_end" where
  "run_route ro ri r params err =
     (case run_params ro ri (rt_keys r) params err of
        (l, PStopped) \<Rightarrow> (l, Stopped)
      | (l, PRoute) \<Rightarrow> (l, NextRoute None)
      | (l, PCallbacks e) \<Rightarrow> (let (l2, x) = run_callbacks ri 0 (rt_callbacks r) e in (l @ l2, x)))"

datatype dispatched = Answered | AllowAnswer "string list" | PassedOn "string option"

definition route_bound :: "router \<Rightarrow> nat" where
  "route_bound ro = Suc (sum_list (map (\<lambda>(m, rs). length rs) (ro_map ro)))"

lemma routes_of_bound: "length (routes_of ro m) < route_bound ro"
proof (cases "map_of (ro_map ro) m")
  case (Some rs)
  then have "length rs \<in> set (map (\<lambda>(m, rs). length rs) (ro_map ro))"
    by (force dest: map_of_SomeD)
  then have "length rs \<le> sum_list (map (\<lambda>(m, rs). length rs) (ro_map ro))"
    by (rule member_le_sum_list) simp
  then show ?thesis using Some by (simp add: routes_of_def route_bound_def)
qed (simp add: routes_of_def route_bound_def)

lemma find_route_Some:
  "find_route rx rs path i = Some (k, r, ps) \<Longrightarrow> i \<le> k \<and> k < length rs \<and> r = rs ! k"
proof -
  assume a: "find_route rx rs path i = Some (k, r, ps)"
  then obtain ks where ks: "filter (\<lambda>k. route_match rx (rs ! k) path \<noteq> None) [i..<length rs] = k # ks" "r = rs ! k"
    by (auto simp: find_route_def split: list.splits)
  then have "k \<in> set [i..<length rs]" by (metis filter_is_subset list.set_intros(1) subsetD)
  with ks(2) show ?thesis by simp
qed

lemma match_request_Some:
  "match_request rx ro m path i = Some (k, r, ps) \<Longrightarrow> i \<le> k \<and> k < route_bound ro"
  using routes_of_bound[of ro] less_trans
  by (auto simp: match_request_def Let_def dest!: find_route_Some split: if_splits option.splits)

function dispatch_routes :: "regexp_exec \<Rightarrow> router \<Rightarrow> string \<Rightarrow> string \<Rightarrow> nat \<Rightarrow> string option \<Rightarrow> entry list \<times> dispatched" where
  "dispatch_routes rx ro meth path i err =
     (case match_request rx ro meth path i of
        None \<Rightarrow> ([], if meth = ''OPTIONS'' then AllowAnswer (options_for rx ro path) else PassedOn err)
      | Some (k, r, params) \<Rightarrow>
          (case run_route ro k r params err of
             (l, Stopped) \<Rightarrow> (l, Answered)
           | (l, NextRoute e) \<Rightarrow> (let (l2, d) = dispatch_routes rx ro meth path (Suc k) e in (l @ l2, d))))"
  by pat_completeness auto
termination
  by (relation "measure (\<lambda>(rx, ro, meth, path, i, err). route_bound ro - i)") (auto dest: match_request_Some)

declare dispatch_routes.simps [simp del]


section \<open>Order, coverage and errors\<close>

text \<open>The calls of a log, by route and position.\<close>

fun calls :: "entry list \<Rightarrow> (nat \<times> nat \<times> string option) list" where
  "calls [] = []"
| "calls (LCall i k e # l) = (i, k, e) # calls l"
| "calls (LParam i n # l) = calls l"

lemma calls_append [simp]: "calls (l @ m) = calls l @ calls m"
  by (induction l rule: calls.induct) auto

text \<open>
  Calls of one route: in increasing order of position, each to a callback whose arity fits whether
  there is an error.
\<close>

definition good_calls :: "nat \<Rightarrow> nat \<Rightarrow> callback list \<Rightarrow> (nat \<times> nat \<times> string option) list \<Rightarrow> bool" where
  "good_calls ri k cbs xs \<longleftrightarrow>
     (\<forall>(i, x, e) \<in> set xs. i = ri \<and> k \<le> x \<and> x < k + length cbs \<and> (cb_errors (cbs ! (x - k)) \<longleftrightarrow> truthy_err e)) \<and>
     sorted_wrt (<) (map (\<lambda>(i, x, e). x) xs)"

lemma good_calls_skip: "good_calls ri (Suc k) cbs xs \<Longrightarrow> good_calls ri k (cb # cbs) xs"
  by (fastforce simp: good_calls_def nth_Cons' Suc_le_eq)

lemma good_calls_Cons:
  "good_calls ri (Suc k) cbs xs \<Longrightarrow> cb_errors cb = truthy_err e \<Longrightarrow> good_calls ri k (cb # cbs) ((ri, k, e) # xs)"
  using good_calls_skip[of ri k cbs xs cb] by (fastforce simp: good_calls_def Suc_le_eq)

lemma run_callbacks_calls: "good_calls ri k cbs (calls (fst (run_callbacks ri k cbs err)))"
proof (induction ri k cbs err rule: run_callbacks.induct)
  case (1 ri k err)
  then show ?case by (simp add: good_calls_def)
next
  case (2 ri k cb cbs err)
  show ?case
  proof (cases "err = Some ''route''")
    case True
    then show ?thesis by (simp add: good_calls_def)
  next
    case False
    note r = False
    show ?thesis
    proof (cases "truthy_err err = cb_errors cb")
      case False
      then show ?thesis
        using 2(1)[OF r] 2(2)[OF r] r by (auto intro: good_calls_skip)
    next
      case True
      let ?e = "if truthy_err err then err else None"
      have te: "truthy_err ?e = truthy_err err" by (simp add: truthy_err_def)
      show ?thesis
      proof (cases "cb_run cb ?e")
        case Respond
        then show ?thesis
          using r True te by (simp add: Let_def good_calls_def split del: if_split)
      next
        case (NextWith e)
        with 2(3)[OF r _ _ refl NextWith] r True te show ?thesis
          by (auto simp: Let_def split_beta split del: if_split intro: good_calls_Cons)
      next
        case (Throw e)
        with 2(4)[OF r _ _ refl Throw] r True te show ?thesis
          by (auto simp: Let_def split_beta split del: if_split intro: good_calls_Cons)
      qed
    qed
  qed
qed

lemma run_params_calls: "calls (fst (run_params ro ri ks params err)) = []"
  by (induction ro ri ks params err rule: run_params.induct)
     (auto simp: Let_def split_beta split: option.splits)

lemma run_route_calls: "good_calls ri 0 (rt_callbacks r) (calls (fst (run_route ro ri r params err)))"
proof -
  obtain l e where p: "run_params ro ri (rt_keys r) params err = (l, e)" by (cases "run_params ro ri (rt_keys r) params err")
  have "calls l = []" using run_params_calls[of ro ri "rt_keys r" params err] p by simp
  then show ?thesis
    using run_callbacks_calls[of ri 0 "rt_callbacks r"] p
    by (cases e) (auto simp: run_route_def good_calls_def split_beta)
qed


definition call_before :: "nat \<times> nat \<times> string option \<Rightarrow> nat \<times> nat \<times> string option \<Rightarrow> bool" where
  "call_before a b \<longleftrightarrow> fst a < fst b \<or> fst a = fst b \<and> fst (snd a) < fst (snd b)"

text \<open>The routes a request can use, with their indices.\<close>

definition candidate :: "regexp_exec \<Rightarrow> router \<Rightarrow> string \<Rightarrow> string \<Rightarrow> nat \<Rightarrow> route \<Rightarrow> bool" where
  "candidate rx ro meth path k r \<longleftrightarrow>
     (\<exists>m. (m = to_lower meth \<or> to_lower meth = ''head'' \<and> m = ''get'') \<and> k < length (routes_of ro m) \<and>
          r = routes_of ro m ! k \<and> route_match rx r path \<noteq> None)"

lemma find_route_matches:
  "find_route rx rs path i = Some (k, r, ps) \<Longrightarrow> route_match rx r path \<noteq> None"
proof -
  assume a: "find_route rx rs path i = Some (k, r, ps)"
  then obtain ks where ks: "filter (\<lambda>k. route_match rx (rs ! k) path \<noteq> None) [i..<length rs] = k # ks" "r = rs ! k"
    by (auto simp: find_route_def split: list.splits)
  then have "k \<in> set (filter (\<lambda>k. route_match rx (rs ! k) path \<noteq> None) [i..<length rs])" by simp
  with ks(2) show ?thesis by simp
qed

lemma match_candidate:
  assumes "match_request rx ro meth path i = Some (k, r, ps)"
  shows "i \<le> k \<and> candidate rx ro meth path k r"
proof -
  from assms obtain m where m: "find_route rx (routes_of ro m) path i = Some (k, r, ps)"
    "m = to_lower meth \<or> to_lower meth = ''head'' \<and> m = ''get''"
    by (auto simp: match_request_def Let_def split: if_splits option.splits)
  show ?thesis
    using find_route_Some[OF m(1)] find_route_matches[OF m(1)] m(2) by (auto simp: candidate_def)
qed

definition call_ok :: "regexp_exec \<Rightarrow> router \<Rightarrow> string \<Rightarrow> string \<Rightarrow> nat \<times> nat \<times> string option \<Rightarrow> bool" where
  "call_ok rx ro meth path c \<longleftrightarrow>
     (case c of (ri, x, e) \<Rightarrow>
        \<exists>r. candidate rx ro meth path ri r \<and> x < length (rt_callbacks r) \<and>
            (cb_errors (rt_callbacks r ! x) \<longleftrightarrow> truthy_err e))"

lemma good_calls_ok:
  assumes "good_calls k 0 (rt_callbacks r) xs" "candidate rx ro meth path k r"
  shows "(\<forall>c \<in> set xs. call_ok rx ro meth path c \<and> fst c = k) \<and> sorted_wrt call_before xs"
proof -
  have "sorted_wrt (<) (map (\<lambda>(i, x, e). x) xs)" "\<forall>c \<in> set xs. fst c = k"
    using assms(1) by (auto simp: good_calls_def)
  then have "sorted_wrt call_before xs"
    by (induction xs) (auto simp: call_before_def split_beta)
  then show ?thesis
    using assms by (fastforce simp: good_calls_def call_ok_def)
qed

lemma dispatch_calls:
  "(\<forall>c \<in> set (calls (fst (dispatch_routes rx ro meth path i err))). call_ok rx ro meth path c \<and> i \<le> fst c) \<and>
   sorted_wrt call_before (calls (fst (dispatch_routes rx ro meth path i err)))"
proof (induction rx ro meth path i err rule: dispatch_routes.induct)
  case (1 rx ro meth path i err)
  show ?case
  proof (cases "match_request rx ro meth path i")
    case None
    then show ?thesis by (simp add: dispatch_routes.simps)
  next
    case (Some t)
    then obtain k r ps where m: "match_request rx ro meth path i = Some (k, r, ps)" by (cases t) auto
    obtain l x where run: "run_route ro k r ps err = (l, x)" by (cases "run_route ro k r ps err")
    note cand = match_candidate[OF m]
    have g: "(\<forall>c \<in> set (calls l). call_ok rx ro meth path c \<and> fst c = k) \<and> sorted_wrt call_before (calls l)"
      using good_calls_ok[OF run_route_calls conjunct2[OF cand]] run by (metis fst_conv)
    show ?thesis
    proof (cases x)
      case Stopped
      have eq: "calls (fst (dispatch_routes rx ro meth path i err)) = calls l"
        using m run Stopped by (subst dispatch_routes.simps) simp
      show ?thesis unfolding eq using g cand by auto
    next
      case (NextRoute e)
      have eq: "calls (fst (dispatch_routes rx ro meth path i err)) = calls l @ calls (fst (dispatch_routes rx ro meth path (Suc k) e))"
        using m run NextRoute by (subst dispatch_routes.simps) (simp add: Let_def split_beta)
      have IH: "(\<forall>c \<in> set (calls (fst (dispatch_routes rx ro meth path (Suc k) e))). call_ok rx ro meth path c \<and> Suc k \<le> fst c) \<and>
          sorted_wrt call_before (calls (fst (dispatch_routes rx ro meth path (Suc k) e)))"
        using 1[OF m refl refl run[symmetric] NextRoute] .
      have bef: "\<forall>a \<in> set (calls l). \<forall>b \<in> set (calls (fst (dispatch_routes rx ro meth path (Suc k) e))). call_before a b"
        using g IH by (auto simp: call_before_def Suc_le_eq dest!: bspec)
      show ?thesis
        unfolding eq set_append sorted_wrt_append
      proof (intro conjI ballI)
        fix c assume "c \<in> set (calls l) \<union> set (calls (fst (dispatch_routes rx ro meth path (Suc k) e)))"
        then consider "c \<in> set (calls l)" | "c \<in> set (calls (fst (dispatch_routes rx ro meth path (Suc k) e)))" by blast
        then have "call_ok rx ro meth path c \<and> i \<le> fst c"
          using g IH cand by cases (simp_all, meson Suc_leD order_trans)
        then show "call_ok rx ro meth path c" "i \<le> fst c" by simp_all
      qed (use g IH bef in simp_all)
    qed
  qed
qed

text \<open>
  The router runs callbacks in order and by arity: for every request, whatever the callbacks do,
  each callback runs at most once, in the order of the routes and of the callbacks within a
  route; it belongs to a route for the request's method (or GET for HEAD) that matches the path;
  and it is given an error exactly when it takes four arguments.
\<close>

theorem router_runs_in_order:
  "sorted_wrt call_before (calls (fst (dispatch_routes rx ro meth path i err))) \<and>
   (\<forall>c \<in> set (calls (fst (dispatch_routes rx ro meth path i err))). call_ok rx ro meth path c)"
  using dispatch_calls by blast

theorem router_runs_in_order_witness:
  "sorted_wrt call_before (calls (fst (dispatch_routes (\<lambda>_ _ _. Some [])
      \<lparr>ro_map = [(''get'', [\<lparr>rt_path = ''/'', rt_callbacks = [\<lparr>cb_errors = False, cb_run = \<lambda>_. Respond\<rparr>],
         rt_regexp = ''^$'', rt_keys = [], rt_sensitive = False\<rparr>])], ro_params = [], ro_case_sensitive = False, ro_strict = False\<rparr>
      ''GET'' ''/'' 0 None)))"
  using router_runs_in_order by blast

section \<open>Refinement to a list of matching routes\<close>

definition matching :: "regexp_exec \<Rightarrow> route list \<Rightarrow> string \<Rightarrow> nat \<Rightarrow> (nat \<times> route \<times> string option obj) list" where
  "matching rx rs path i =
     map (\<lambda>k. (k, rs ! k, fst (the (route_match rx (rs ! k) path))))
       (filter (\<lambda>k. route_match rx (rs ! k) path \<noteq> None) [i..<length rs])"

fun serve :: "router \<Rightarrow> dispatched \<Rightarrow> (nat \<times> route \<times> string option obj) list \<Rightarrow> string option \<Rightarrow> entry list \<times> dispatched" where
  "serve ro allow [] err = ([], case allow of PassedOn _ \<Rightarrow> PassedOn err | a \<Rightarrow> a)"
| "serve ro allow ((k, r, params) # rest) err =
     (case run_route ro k r params err of
        (l, Stopped) \<Rightarrow> (l, Answered)
      | (l, NextRoute e) \<Rightarrow> (let (l2, d) = serve ro allow rest e in (l @ l2, d)))"

lemma matching_cases:
  "matching rx rs path i = (case find_route rx rs path i of
     None \<Rightarrow> [] | Some (k, r, ps) \<Rightarrow> (k, r, ps) # matching rx rs path (Suc k))"
proof (cases "filter (\<lambda>k. route_match rx (rs ! k) path \<noteq> None) [i..<length rs]")
  case Nil
  then show ?thesis by (simp add: matching_def find_route_def)
next
  case (Cons k ks)
  let ?P = "\<lambda>k. route_match rx (rs ! k) path \<noteq> None"
  from Cons obtain us vs where uv: "[i..<length rs] = us @ k # vs" "filter ?P vs = ks"
    by (auto simp: filter_eq_Cons_iff)
  have "k < length rs" "i \<le> k" using arg_cong[OF uv(1), of set] by auto
  then have "[i..<length rs] = [i..<k] @ k # [Suc k..<length rs]"
    by (metis upt_add_eq_append le_add_diff_inverse upt_conv_Cons less_or_eq_imp_le)
  moreover have "length us = k - i"
  proof -
    have "length us < length [i..<length rs]" using uv(1) by simp
    then have "[i..<length rs] ! length us = i + length us" by simp
    moreover have "[i..<length rs] ! length us = k" using uv(1) by simp
    ultimately show ?thesis by simp
  qed
  ultimately have "vs = [Suc k..<length rs]" using uv(1) by (simp add: append_eq_append_conv)
  then show ?thesis using Cons uv(2) by (simp add: matching_def find_route_def)
qed

lemma dispatch_serve:
  "to_lower meth \<noteq> ''head'' \<Longrightarrow>
   dispatch_routes rx ro meth path i err =
   serve ro (if meth = ''OPTIONS'' then AllowAnswer (options_for rx ro path) else PassedOn None)
     (matching rx (routes_of ro (to_lower meth)) path i) err"
proof (induction rx ro meth path i err rule: dispatch_routes.induct)
  case (1 rx ro meth path i err)
  have mr: "match_request rx ro meth path i = find_route rx (routes_of ro (to_lower meth)) path i"
    using 1(2) by (simp add: match_request_def Let_def)
  show ?case
  proof (cases "find_route rx (routes_of ro (to_lower meth)) path i")
    case None
    then show ?thesis using mr by (subst dispatch_routes.simps, subst matching_cases) simp
  next
    case (Some t)
    then obtain k r ps where t: "find_route rx (routes_of ro (to_lower meth)) path i = Some (k, r, ps)" by (cases t) auto
    obtain l x where run: "run_route ro k r ps err = (l, x)" by (cases "run_route ro k r ps err")
    show ?thesis
    proof (cases x)
      case Stopped
      then show ?thesis using mr t run by (subst dispatch_routes.simps, subst matching_cases) simp
    next
      case (NextRoute e)
      have "match_request rx ro meth path i = Some (k, r, ps)" using mr t by simp
      from 1(1)[OF this refl refl run[symmetric] NextRoute 1(2)]
      show ?thesis using mr t run NextRoute by (subst dispatch_routes.simps, subst matching_cases) simp
    qed
  qed
qed

text \<open>
  C26. For every method but HEAD, dispatching is serving the list of the routes that match the path,
  all of them and in definition order, until one stops; the re-matching by index after each
  \<open>next\<close> neither skips nor repeats a route. What no route stops is passed on with its error, or
  answered with the allowed methods for OPTIONS. For HEAD this does not hold (\<open>head_skips_get_routes\<close>).
\<close>

theorem dispatch_serves_matching_routes:
  assumes "to_lower meth \<noteq> ''head''"
  shows "dispatch_routes rx ro meth path 0 err =
   serve ro (if meth = ''OPTIONS'' then AllowAnswer (options_for rx ro path) else PassedOn None)
     (matching rx (routes_of ro (to_lower meth)) path 0) err"
  by (rule dispatch_serve[OF assms])

definition demo_router :: router where
  "demo_router = \<lparr>ro_map = [(''get'', [\<lparr>rt_path = ''/a'', rt_callbacks = [\<lparr>cb_errors = False, cb_run = \<lambda>_. Respond\<rparr>],
       rt_regexp = ''^$'', rt_keys = [], rt_sensitive = False\<rparr>]),
     (''head'', [\<lparr>rt_path = ''/a'', rt_callbacks = [\<lparr>cb_errors = False, cb_run = \<lambda>_. NextWith None\<rparr>],
       rt_regexp = ''^$'', rt_keys = [], rt_sensitive = False\<rparr>])],
     ro_params = [], ro_case_sensitive = False, ro_strict = False\<rparr>"

theorem dispatch_serves_matching_routes_witness:
  "dispatch_routes (\<lambda>_ _ _. Some []) demo_router ''GET'' ''/a'' 0 None =
   serve demo_router (PassedOn None) (matching (\<lambda>_ _ _. Some []) (routes_of demo_router ''get'') ''/a'' 0) None"
proof -
  have l: "to_lower ''GET'' = ''get''" by code_simp
  then have "to_lower ''GET'' \<noteq> ''head''" by simp
  from dispatch_serves_matching_routes[OF this, of "\<lambda>_ _ _. Some []" demo_router "''/a''" None] l
  show ?thesis by simp
qed

text \<open>
  For HEAD the same index counts the routes of two tables: a HEAD route that passes the request on
  makes the router skip the GET routes up to its own index, here the only one, although a GET
  request to the same path is answered.
\<close>

lemma head_skips_get_routes:
  "snd (dispatch_routes (\<lambda>_ _ _. Some []) demo_router ''HEAD'' ''/a'' 0 None) = PassedOn None \<and>
   snd (dispatch_routes (\<lambda>_ _ _. Some []) demo_router ''GET'' ''/a'' 0 None) = Answered"
  by code_simp

end
