(* ===== verification/Web_App.thy ===== *)
theory Web_App
  imports Web_Api Session_Middleware Express_Router
begin

text \<open>
  \<open>web/app.js\<close>: the application put together. Its settings, its middleware in order, its routes, and a
  whole request through them: body and method override, cookies, session, router and handler, the
  \<open>Set-Cookie\<close> header and the saving of the session. What the parts do is modelled in their own
  theories; here they are composed as \<open>app.js\<close> composes them. \<open>req.body\<close> as \<open>bodyParser\<close> leaves it is part
  of the request, \<open>rx\<close> executes regular expressions.
\<close>

section \<open>Configuration\<close>

datatype setting = Port int | Text string

definition app_settings :: "int \<Rightarrow> string \<Rightarrow> setting obj" where
  "app_settings port dirname =
     obj_set ''view engine'' (Text ''ejs'')
       (obj_set ''views'' (Text (path_normalize (dirname @ ''/views'')))
         (obj_set ''port'' (Port port) []))"

datatype middleware =
    Favicon
  | Logger string
  | BodyParser
  | MethodOverride
  | CookieParser "string option"
  | SessionWith string
  | RouterLayer
  | StaticFiles string
  | ErrorHandler bool

definition app_stack :: "string \<Rightarrow> string \<Rightarrow> middleware list" where
  "app_stack env dirname =
     [Favicon, Logger ''dev'', BodyParser, MethodOverride, CookieParser None, SessionWith ''1234567890QWERTY'',
      RouterLayer, StaticFiles (path_normalize (dirname @ ''/public''))] @
     (if env = ''development'' then [ErrorHandler True] else []) @
     (if env = ''production'' then [ErrorHandler False] else [])"

definition app_session_options :: sess_options where
  "app_session_options = \<lparr>so_key = ''connect.sid'', so_cookie = [], so_proxy = False, so_rolling = False,
     so_secret = Some ''1234567890QWERTY''\<rparr>"

section \<open>Routes\<close>

datatype page_handler = Index | Choose | ChoosePost | ThreadsActive

definition app_routes :: "(string \<times> string \<times> page_handler) list" where
  "app_routes = [(''get'', ''/'', Index), (''get'', ''/choose'', Choose), (''post'', ''/choose'', ChoosePost),
     (''post'', ''/api/threads_active'', ThreadsActive)]"

definition handler_callback :: callback where
  "handler_callback = \<lparr>cb_errors = False, cb_run = \<lambda>_. Respond\<rparr>"

definition empty_router :: router where
  "empty_router = \<lparr>ro_map = [], ro_params = [], ro_case_sensitive = False, ro_strict = False\<rparr>"

definition app_router :: router where
  "app_router = foldl (\<lambda>ro (m, p, _). case add_route m p [handler_callback] ro of Inl _ \<Rightarrow> ro | Inr ro' \<Rightarrow> ro') empty_router app_routes"

text \<open>The handler a request reaches: the first callback the router runs, found again in the route table.\<close>

datatype routed = Handled page_handler | Options "string list" | Unrouted

definition handlers_for :: "string \<Rightarrow> page_handler list" where
  "handlers_for m = map (\<lambda>(_, _, h). h) (filter (\<lambda>(m', _, _). m' = m) app_routes)"

definition table_of :: "string \<Rightarrow> string" where
  "table_of meth = (let m = to_lower meth in if m = ''head'' then ''get'' else m)"

definition route_request :: "regexp_exec \<Rightarrow> string \<Rightarrow> string \<Rightarrow> routed" where
  "route_request rx meth path =
     (case dispatch_routes rx app_router meth path 0 None of
        (log, AllowAnswer ms) \<Rightarrow> Options ms
      | (log, PassedOn e) \<Rightarrow> Unrouted
      | (log, Answered) \<Rightarrow>
          (case calls log of
             (ri, k, e) # _ \<Rightarrow> Handled (handlers_for (table_of meth) ! ri)
           | [] \<Rightarrow> Unrouted))"

text \<open>
  Documented behaviour of \<open>RegExp\<close> on the three patterns the application compiles: anchored literals
  without groups, a last slash that may be missing, compared without regard to case.
\<close>

definition literal_rx :: "regexp_exec \<Rightarrow> bool" where
  "literal_rx rx \<longleftrightarrow>
     (\<forall>lit \<in> {''/'', ''/choose'', ''/api/threads_active''}. \<forall>path.
        rx (fst (path_regexp False lit)) False path =
          (if to_lower path \<in> {lit, lit @ ''/''} then Some [] else None))"

section \<open>The route table\<close>

definition app_route :: "string \<Rightarrow> route" where
  "app_route p = new_route False False p [handler_callback]"

lemma lower_names: "to_lower ''get'' = ''get''" "to_lower ''post'' = ''post''" "to_lower ''OPTIONS'' = ''options''"
  by code_simp+

lemma app_router_map:
  "ro_map app_router = [(''get'', [app_route ''/'', app_route ''/choose'']),
     (''post'', [app_route ''/choose'', app_route ''/api/threads_active''])]"
  "ro_params app_router = []"
  by (simp_all add: app_router_def app_routes_def add_route_def Let_def lower_names routes_of_def empty_router_def app_route_def)

lemma app_tables:
  "routes_of app_router m =
    (if m = ''get'' then [app_route ''/'', app_route ''/choose'']
     else if m = ''post'' then [app_route ''/choose'', app_route ''/api/threads_active''] else [])"
  by (simp add: routes_of_def app_router_map)

lemma no_keys: "snd (path_regexp False ''/'') = []" "snd (path_regexp False ''/choose'') = []"
  "snd (path_regexp False ''/api/threads_active'') = []"
  by code_simp+

lemma app_route_fields:
  "rt_callbacks (app_route p) = [handler_callback]" "rt_keys (app_route p) = snd (path_regexp False p)"
  "rt_regexp (app_route p) = fst (path_regexp False p)" "rt_sensitive (app_route p) = False"
  by (simp_all add: app_route_def new_route_def split_beta)

lemma app_route_match:
  assumes "literal_rx rx" "lit \<in> {''/'', ''/choose'', ''/api/threads_active''}"
  shows "route_match rx (app_route lit) path = (if to_lower path \<in> {lit, lit @ ''/''} then Some ([], []) else None)"
proof -
  have "rt_keys (app_route lit) = []" using assms(2) no_keys by (auto simp: app_route_fields)
  moreover have "rx (fst (path_regexp False lit)) False path = (if to_lower path \<in> {lit, lit @ ''/''} then Some [] else None)"
    using assms unfolding literal_rx_def by blast
  ultimately show ?thesis by (simp add: route_match_def app_route_fields)
qed

lemma find_two:
  "find_route rx [r, r'] path 0 =
     (if route_match rx r path \<noteq> None then Some (0, r, fst (the (route_match rx r path)))
      else if route_match rx r' path \<noteq> None then Some (1, r', fst (the (route_match rx r' path))) else None)"
  by (simp add: find_route_def upt_rec)

lemma app_run_route: "rt_keys (app_route p) = [] \<Longrightarrow> run_route ro k (app_route p) ps None = ([LCall k 0 None], Stopped)"
  by (simp add: run_route_def app_route_fields truthy_err_def handler_callback_def)

lemma dispatch_app:
  assumes "match_request rx app_router meth path 0 = Some (k, app_route p, ps)" "rt_keys (app_route p) = []"
  shows "route_request rx meth path = Handled (handlers_for (table_of meth) ! k)"
  using assms app_run_route[of p app_router k ps]
  by (simp add: route_request_def dispatch_routes.simps[of rx app_router meth path 0])

lemma dispatch_none:
  "match_request rx app_router meth path 0 = None \<Longrightarrow>
   route_request rx meth path = (if meth = ''OPTIONS'' then Options (options_for rx app_router path) else Unrouted)"
  by (simp add: route_request_def dispatch_routes.simps[of rx app_router meth path 0])

lemma handlers: "handlers_for ''get'' = [Index, Choose]" "handlers_for ''post'' = [ChoosePost, ThreadsActive]"
  by (simp_all add: handlers_for_def app_routes_def)

lemma app_route_decided:
  assumes "literal_rx rx"
  shows "route_request rx meth path =
    (let m = to_lower meth; p = to_lower path in
     if m \<in> {''get'', ''head''} \<and> p \<in> {''/'', ''//''} then Handled Index
     else if m \<in> {''get'', ''head''} \<and> p \<in> {''/choose'', ''/choose/''} then Handled Choose
     else if m = ''post'' \<and> p \<in> {''/choose'', ''/choose/''} then Handled ChoosePost
     else if m = ''post'' \<and> p \<in> {''/api/threads_active'', ''/api/threads_active/''} then Handled ThreadsActive
     else if meth = ''OPTIONS'' then Options (options_for rx app_router path)
     else Unrouted)"
proof -
  note rm = app_route_match[OF assms]
  have keys: "rt_keys (app_route lit) = []" if "lit \<in> {''/'', ''/choose'', ''/api/threads_active''}" for lit
    using that no_keys by (auto simp: app_route_fields)
  have head: "match_request rx app_router meth path 0 = find_route rx (routes_of app_router (table_of meth)) path 0"
    by (simp add: match_request_def table_of_def Let_def app_tables find_route_def)
  consider "table_of meth = ''get''" | "table_of meth = ''post''" | "table_of meth \<notin> {''get'', ''post''}" by blast
  then show ?thesis
  proof cases
    case 1
    then have m: "to_lower meth \<in> {''get'', ''head''}" "to_lower meth \<noteq> ''post''" by (auto simp: table_of_def Let_def split: if_splits)
    then have no: "meth \<noteq> ''OPTIONS''" using lower_names(3) by auto
    show ?thesis
      using m no 1 head dispatch_app[where p = "''/''"] dispatch_app[where p = "''/choose''"] dispatch_none[of rx meth path] keys
      by (auto simp: app_tables find_two rm handlers Let_def)
  next
    case 2
    then have m: "to_lower meth = ''post''" by (auto simp: table_of_def Let_def split: if_splits)
    then have no: "meth \<noteq> ''OPTIONS''" using lower_names(3) by auto
    show ?thesis
      using m no 2 head dispatch_app[where p = "''/choose''"] dispatch_app[where p = "''/api/threads_active''"]
        dispatch_none[of rx meth path] keys
      by (auto simp: app_tables find_two rm handlers Let_def)
  next
    case 3
    then have m: "to_lower meth \<notin> {''get'', ''head'', ''post''}" by (auto simp: table_of_def Let_def split: if_splits)
    have "match_request rx app_router meth path 0 = None" using 3 head by (simp add: app_tables find_route_def)
    then show ?thesis using m dispatch_none[of rx meth path] by (simp add: Let_def)
  qed
qed

text \<open>
  The route table of the application. A request reaches exactly the handler \<open>app.js\<close> registers for its
  method and path, with \<open>HEAD\<close> served by the \<open>GET\<close> routes, paths compared without case and with an
  optional last slash; \<open>OPTIONS\<close> is answered with the methods of the path, and everything else goes on
  to the static files.
\<close>

theorem app_route_table:
  assumes "literal_rx rx"
  shows "route_request rx meth path =
    (let m = to_lower meth; p = to_lower path in
     if m \<in> {''get'', ''head''} \<and> p \<in> {''/'', ''//''} then Handled Index
     else if m \<in> {''get'', ''head''} \<and> p \<in> {''/choose'', ''/choose/''} then Handled Choose
     else if m = ''post'' \<and> p \<in> {''/choose'', ''/choose/''} then Handled ChoosePost
     else if m = ''post'' \<and> p \<in> {''/api/threads_active'', ''/api/threads_active/''} then Handled ThreadsActive
     else if meth = ''OPTIONS'' then Options (options_for rx app_router path)
     else Unrouted)"
  by (rule app_route_decided[OF assms])

section \<open>A whole request\<close>

record web_req =
  wr_method :: string
  wr_path :: string
  wr_cookie :: string
  wr_body :: "string obj"
  wr_override :: string

text \<open>\<open>methodOverride\<close>: the body's \<open>_method\<close> (taken out) or the header, if it is a known method.\<close>

definition method_override :: "web_req \<Rightarrow> string \<times> string obj" where
  "method_override req =
     (let from_body = map_option to_lower (map_of (wr_body req) ''_method'');
          meth = (if wr_override req \<noteq> [] then Some (to_lower (wr_override req)) else from_body)
      in (case meth of
            None \<Rightarrow> wr_method req
          | Some m \<Rightarrow> if m \<in> set http_methods then to_upper m else wr_method req,
          obj_del ''_method'' (wr_body req)))"

text \<open>What the handlers find outside: files, processes by command, and whether \<open>kill(pid, 0)\<close> succeeds.\<close>

record outside =
  ou_cwd :: string
  ou_files :: "string \<Rightarrow> string option"
  ou_exec :: "string \<Rightarrow> bool \<times> string"
  ou_alive :: bool

datatype answer = Responses "response list" | AwaitFifo string | ApiReplies "api_reply list" | Crashed choose_error

text \<open>A handler with \<open>req.session.proc\<close> before and after.\<close>

fun run_handler :: "outside \<Rightarrow> string obj \<Rightarrow> page_handler \<Rightarrow> server_proc option \<Rightarrow> answer \<times> server_proc option" where
  "run_handler ou body Index proc = (Responses (index_handler proc), proc)"
| "run_handler ou body Choose proc =
     (let (err, out) = ou_exec ou choose_command in (Responses (choose_callback err out), proc))"
| "run_handler ou body ChoosePost proc =
     (case choose_post_command body of
        None \<Rightarrow> (Responses [Redirect ''/choose''], proc)
      | Some cmd \<Rightarrow>
          let (err, out) = ou_exec ou cmd
          in (case choose_post_callback (ou_cwd ou) (ou_files ou) err out proc of
                Inl e \<Rightarrow> (Crashed e, proc)
              | Inr (r, p) \<Rightarrow> (Responses [r], p)))"
| "run_handler ou body ThreadsActive proc =
     (case threads_active_start proc (ou_alive ou) of
        Inl rs \<Rightarrow> (ApiReplies rs, proc)
      | Inr fifo \<Rightarrow> (AwaitFifo fifo, proc))"

text \<open>
  What JSON makes of a chosen server when its session is saved: an id that is no number becomes null, and keys
  of the configuration without a value are lost.
\<close>

definition json_proc :: "server_proc \<Rightarrow> server_proc" where
  "json_proc p = p\<lparr>p_pid := (case p_pid p of NotANumber \<Rightarrow> NullPid | v \<Rightarrow> v),
     p_args := json_data (map_option Some) (p_args p)\<rparr>"

definition proc_json :: "server_proc \<Rightarrow> server_proc option" where
  "proc_json p = Some (json_proc p)"

lemma json_proc_again [simp]: "json_proc (json_proc p) = json_proc p"
proof -
  have "json_data (map_option Some) (json_data (map_option Some) (p_args p)) = json_data (map_option Some) (p_args p)"
    by (rule json_data_again) auto
  then show ?thesis by (simp add: json_proc_def split: js_pid.split)
qed

lemma json_proc_same:
  "p_pid p = Pid n \<Longrightarrow> list_all (\<lambda>(k, v). v \<noteq> None) (p_args p) \<Longrightarrow> json_proc p = p"
proof -
  assume p: "p_pid p = Pid n" "list_all (\<lambda>(k, v). v \<noteq> None) (p_args p)"
  have "list_all (\<lambda>(k, v). map_option Some v = Some v) (p_args p)"
    using p(2) by (rule list.pred_mono_strong) auto
  from json_data_same[OF this] p(1) show "json_proc p = p" by (cases p) (simp add: json_proc_def)
qed

definition session_proc :: "server_proc sess_req \<Rightarrow> server_proc option" where
  "session_proc r = (case sq_session r of None \<Rightarrow> None | Some se \<Rightarrow> map_of (se_data se) ''proc'')"

definition put_proc :: "server_proc option \<Rightarrow> server_proc sess_req \<Rightarrow> server_proc sess_req" where
  "put_proc proc r =
     (case (proc, sq_session r) of
        (Some p, Some se) \<Rightarrow> r\<lparr>sq_session := Some (se\<lparr>se_data := obj_set ''proc'' p (se_data se)\<rparr>)\<rparr>
      | _ \<Rightarrow> r)"

definition session_request :: "web_req \<Rightarrow> server_proc sess_req" where
  "session_request req =
     \<lparr>sq_path = wr_path req, sq_cookies = (if wr_cookie req = [] then [] else cookie_parse (wr_cookie req)),
      sq_signed = [], sq_secret = None, sq_proto = [], sq_encrypted = False, sq_sid = None, sq_session = None\<rparr>"

text \<open>
  The outcome: an answer with its \<open>Set-Cookie\<close> header and the store after it, an answer still awaited,
  a crash of the process, an \<open>OPTIONS\<close> answer, the static files, or an error of the session layer.
\<close>

datatype app_result =
    Served answer "string option" "server_proc memory"
  | Waiting string sess_ctx "server_proc sess_req" "server_proc memory"
  | ProcessCrash choose_error
  | AllowedMethods "string list"
  | ToStatic
  | NoSession string

definition app_request ::
  "(string \<Rightarrow> string \<Rightarrow> string) \<Rightarrow> (server_proc obj \<Rightarrow> 8 word list) \<Rightarrow> (int \<Rightarrow> string) \<Rightarrow> regexp_exec \<Rightarrow> outside \<Rightarrow>
   clock \<Rightarrow> string \<Rightarrow> web_req \<Rightarrow> server_proc memory \<Rightarrow> app_result" where
  "app_request hmac ser utc rx ou now uid req st =
     (let (meth, body) = method_override req in
      case session_begin hmac ser memory_get app_session_options True now uid (session_request req) st of
        Bypassed \<Rightarrow> NoSession ''bypassed''
      | Threw e \<Rightarrow> NoSession e
      | Failed e r st1 \<Rightarrow> NoSession e
      | Began cx r st1 \<Rightarrow>
          (case route_request rx meth (wr_path req) of
             Options ms \<Rightarrow> AllowedMethods ms
           | Unrouted \<Rightarrow> ToStatic
           | Handled h \<Rightarrow>
               let (ans, proc) = run_handler ou body h (session_proc r);
                   r1 = put_proc proc r
               in (case ans of
                     Crashed e \<Rightarrow> ProcessCrash e
                   | AwaitFifo fifo \<Rightarrow> Waiting fifo cx r1 st1
                   | _ \<Rightarrow> Served ans
                       (session_header hmac ser utc app_session_options (fst now) cx
                         (r1\<lparr>sq_session := map_option (reset_max_age now) (sq_session r1)\<rparr>))
                       (session_end (memory_set proc_json) now r1 st1))))"

section \<open>The session of the application\<close>

definition plain_session_cookie :: sess_cookie where
  "plain_session_cookie = \<lparr>sc_path = JStr ''/'', sc_expires = JNull, sc_original = JNull, sc_http_only = JBool True,
     sc_secure = JUndef, sc_domain = JUndef\<rparr>"

lemma app_new_cookie: "new_cookie now [] = plain_session_cookie"
  by (simp add: new_cookie_def blank_cookie_def set_max_age_def set_expires_def get_max_age_def plain_session_cookie_def Let_def)

lemma app_reset: "reset_max_age now (se\<lparr>se_cookie := plain_session_cookie\<rparr>) = se\<lparr>se_cookie := plain_session_cookie\<rparr>"
  by (simp add: reset_max_age_def set_max_age_def set_expires_def get_max_age_def plain_session_cookie_def)

lemma app_storable: "storable plain_session_cookie"
  by (auto simp: storable_def plain_session_cookie_def)

lemma app_alive: "stored_alive t (stringify js (se\<lparr>se_cookie := plain_session_cookie\<rparr>))"
  by (simp add: stored_alive_def stringify_def plain_session_cookie_def cookie_ops)

lemma app_options: "so_secret app_session_options = Some ''1234567890QWERTY''" "''1234567890QWERTY'' \<noteq> []"
  "plain_name (so_key app_session_options)" "so_key app_session_options \<notin> set inherited_names"
  by (simp_all add: app_session_options_def plain_name_def is_space_def inherited_names_def)

lemma app_enters: "wr_path req = CHR ''/'' # rest \<Longrightarrow> enters app_session_options (session_request req)"
  by (simp add: enters_def session_request_def app_session_options_def cookie_path_def obj_get_def index_of_zero)

text \<open>A request without a cookie gets a fresh session.\<close>

definition fresh_context :: sess_ctx where
  "fresh_context = \<lparr>cx_unsigned = None, cx_secret = ''1234567890QWERTY'', cx_orig_id = None, cx_orig_hash = None\<rparr>"

definition fresh_request :: "string \<Rightarrow> web_req \<Rightarrow> server_proc sess_req" where
  "fresh_request uid req = (session_request req)\<lparr>sq_sid := Some uid,
     sq_session := Some \<lparr>se_id = uid, se_cookie = plain_session_cookie, se_data = []\<rparr>\<rparr>"

lemma app_fresh:
  assumes "wr_path req = CHR ''/'' # rest" "wr_cookie req = []"
  shows "session_begin hmac ser get_op app_session_options True now uid (session_request req) st =
    Began fresh_context (fresh_request uid req) st"
  using app_enters[OF assms(1)] assms(2) app_new_cookie[of now]
  by (simp add: session_begin_def enters_def session_request_def truthy_str_def app_options Let_def generate_def
      fresh_context_def fresh_request_def) (simp add: app_session_options_def)

lemma plain_method:
  "map_of (wr_body req) ''_method'' = None \<Longrightarrow> wr_override req = [] \<Longrightarrow>
   method_override req = (wr_method req, obj_del ''_method'' (wr_body req))"
  by (simp add: method_override_def)

lemma choose_command_del: "choose_post_command (obj_del ''_method'' body) = choose_post_command body"
  by (simp add: choose_post_command_def map_of_obj_del)

text \<open>An instance: an engine for the three patterns, the toy digest, one server process.\<close>

definition demo_rx :: regexp_exec where
  "demo_rx pat sensitive path =
     (case filter (\<lambda>l. fst (path_regexp False l) = pat) [''/'', ''/choose'', ''/api/threads_active''] of
        [] \<Rightarrow> None
      | l # _ \<Rightarrow> if to_lower path = l \<or> to_lower path = l @ ''/'' then Some [] else None)"

lemma demo_rx_literal: "literal_rx demo_rx"
proof -
  have "filter (\<lambda>l. fst (path_regexp False l) = fst (path_regexp False ''/'')) [''/'', ''/choose'', ''/api/threads_active''] = [''/'']"
    "filter (\<lambda>l. fst (path_regexp False l) = fst (path_regexp False ''/choose'')) [''/'', ''/choose'', ''/api/threads_active''] = [''/choose'']"
    "filter (\<lambda>l. fst (path_regexp False l) = fst (path_regexp False ''/api/threads_active''))
       [''/'', ''/choose'', ''/api/threads_active''] = [''/api/threads_active'']"
    by code_simp+
  then show ?thesis by (simp only: literal_rx_def demo_rx_def) simp
qed

theorem app_route_table_witness:
  "route_request demo_rx ''HEAD'' ''/Choose/'' = Handled Choose"
  unfolding app_route_table[OF demo_rx_literal] by code_simp

definition demo_outside :: outside where
  "demo_outside = \<lparr>ou_cwd = ''/w'', ou_files = (\<lambda>_. Some ''run_path=/tmp''), ou_exec = (\<lambda>_. (False, ''12 s c'')), ou_alive = True\<rparr>"

definition demo_proc :: server_proc where
  "demo_proc = \<lparr>p_pid = parse_pid ''12'', p_cmd = ''s c'', p_cfg = path_resolve2 ''/w'' (resolve_pwd ''/w'' BINDIR ''s'') ''c'',
     p_args = read_cfg ''run_path=/tmp''\<rparr>"

section \<open>The port the application listens on\<close>

definition listening_ports :: "string \<Rightarrow> net_event list \<Rightarrow> setting list" where
  "listening_ports dirname es =
     concat (map (\<lambda>r. case r of
         Started n \<Rightarrow> (case map_of (app_settings n dirname) ''port'' of Some v \<Rightarrow> [v] | None \<Rightarrow> [])
       | _ \<Rightarrow> []) (reg_log (run_events reg_step es reg_init)))"

text \<open>
  Whatever the port register sends, and however often, the application only ever listens on a
  positive port below \<open>2 ^ 31\<close>.
\<close>

theorem listens_on_positive_port:
  "list_all (\<lambda>v. case v of Port n \<Rightarrow> 0 < n \<and> n < 2 ^ 31 | Text _ \<Rightarrow> False) (listening_ports dirname es)"
proof -
  have "reg_inv reg_init" by (simp add: reg_inv_def reg_init_def)
  then have "reg_inv (run_events reg_step es reg_init)" by (rule reg_machine.run_keeps)
  moreover have "map_of (app_settings n dirname) ''port'' = Some (Port n)" for n by (simp add: app_settings_def)
  ultimately show ?thesis
    by (auto simp: listening_ports_def list_all_iff reg_inv_def split: reg_outcome.splits)
qed

section \<open>What the store can hold\<close>

text \<open>A session of the application: a browser-session cookie, and at most the chosen server as data.\<close>

definition app_session :: "string \<Rightarrow> server_proc option \<Rightarrow> server_proc session" where
  "app_session sid proc = \<lparr>se_id = sid, se_cookie = plain_session_cookie,
     se_data = (case proc of None \<Rightarrow> [] | Some p \<Rightarrow> [(''proc'', p)])\<rparr>"

definition store_typed :: "server_proc memory \<Rightarrow> bool" where
  "store_typed st \<longleftrightarrow> (\<forall>(sid, x) \<in> set st. \<exists>proc. x = stringify proc_json (app_session sid proc))"

lemma app_session_id [simp]: "se_id (app_session sid proc) = sid"
  by (simp add: app_session_def)

lemma app_session_reset [simp]: "reset_max_age now (app_session sid proc) = app_session sid proc"
  using app_reset[of now "app_session sid proc"] by (simp add: app_session_def)

lemma set_obj_set: "set (obj_set k v m) \<subseteq> insert (k, v) (set m)"
  by (induction m) (auto split: if_splits)

lemma store_typed_set: "store_typed st \<Longrightarrow> store_typed (memory_set proc_json sid (app_session sid proc) st)"
  unfolding store_typed_def memory_set_def
  using set_obj_set[of sid "stringify proc_json (app_session sid proc)" st] by (cases "sid = ''__proto__''") force+

lemma store_typed_del: "store_typed st \<Longrightarrow> store_typed (memory_destroy sid st)"
  by (auto simp: store_typed_def memory_destroy_def obj_del_def)

lemma store_typed_get:
  assumes "store_typed st" "memory_get now sid st = (g, st1)"
  shows "store_typed st1 \<and> (\<forall>x. g = Got x \<longrightarrow> (\<exists>proc. x = stringify proc_json (app_session sid proc)))"
  using assms store_typed_del[OF assms(1), of sid]
  by (auto simp: memory_get_def store_typed_def split: option.splits if_splits dest!: map_of_SomeD)

lemma app_session_stored:
  "create_session now sid (stringify proc_json (app_session sid proc)) = app_session sid (map_option json_proc proc)"
  using create_of_stored[of "app_session sid proc" now proc_json] app_storable
  by (cases proc) (simp_all add: app_session_def json_session_def proc_json_def)

lemma begin_cases:
  assumes "session_begin hmac ser get_op opts True now uid q st = Began cx r st1"
  obtains q' where "r = generate opts now uid q'" "st1 = st"
  | q' sid g where "r = generate opts now uid q'" "get_op (fst now) sid st = (g, st1)"
  | sid x where "get_op (fst now) sid st = (Got x, st1)" "sq_session r = Some (create_session now sid x)"
  using assms unfolding session_begin_def Let_def
  by (auto split: if_splits prod.splits got.splits)

lemma begin_typed:
  assumes "store_typed st"
    "session_begin hmac ser memory_get app_session_options True now uid q st = Began cx r st1"
  shows "store_typed st1 \<and> (\<exists>sid proc. sq_session r = Some (app_session sid proc))"
  using assms(2)
proof (cases rule: begin_cases)
  case (1 q')
  then show ?thesis
    using assms(1) app_new_cookie[of now] by (auto simp: generate_def app_session_def app_session_options_def intro!: exI[of _ None])
next
  case (2 q' sid g)
  then show ?thesis
    using store_typed_get[OF assms(1) 2(2)] app_new_cookie[of now]
    by (auto simp: generate_def app_session_def app_session_options_def intro!: exI[of _ None])
next
  case (3 sid x)
  obtain proc where p: "store_typed st1" "x = stringify proc_json (app_session sid proc)"
    using store_typed_get[OF assms(1) 3(1)] by blast
  then have "sq_session r = Some (app_session sid (map_option json_proc proc))" using 3(2) app_session_stored[of now sid proc] by simp
  with p show ?thesis by blast
qed

lemma put_typed:
  "sq_session r = Some (app_session sid proc) \<Longrightarrow>
   sq_session (put_proc new r) = Some (app_session sid (if new = None then proc else new))"
  by (cases new; cases proc) (auto simp: put_proc_def app_session_def)

section \<open>From choosing a server to seeing it\<close>

lemma put_fresh:
  "put_proc (Some p) (fresh_request uid req) = (fresh_request uid req)\<lparr>sq_session := Some (app_session uid (Some p))\<rparr>"
  by (simp add: put_proc_def fresh_request_def app_session_def)

definition choice_cookie :: "(string \<Rightarrow> string \<Rightarrow> string) \<Rightarrow> string \<Rightarrow> string" where
  "choice_cookie hmac uid = ''connect.sid='' @ encode_uri (''s:'' @ sign hmac uid ''1234567890QWERTY'')"

lemma fresh_header:
  "\<exists>hdr. session_header hmac ser utc app_session_options t fresh_context
     ((fresh_request uid req)\<lparr>sq_session := Some (app_session uid proc)\<rparr>) = Some hdr \<and>
     takeWhile (\<lambda>c. c \<noteq> CHR '';'') hdr = choice_cookie hmac uid"
proof -
  let ?r = "(fresh_request uid req)\<lparr>sq_session := Some (app_session uid proc)\<rparr>"
  obtain hdr where hdr: "session_header hmac ser utc app_session_options t fresh_context ?r = Some hdr"
    by (simp add: session_header_def fresh_context_def fresh_request_def app_session_def plain_session_cookie_def
        app_session_options_def Let_def)
  have "takeWhile (\<lambda>c. c \<noteq> CHR '';'') hdr = choice_cookie hmac uid"
    using header_value[OF hdr, of "app_session uid proc"] set_cookie_sent_back[OF app_options(3)]
    by (simp add: serialize_cookie_def choice_cookie_def fresh_request_def fresh_context_def)
      (simp add: app_session_options_def)
  with hdr show ?thesis by blast
qed

text \<open>The post of a client without a session, when its server is found.\<close>

lemma choice_answered:
  assumes "literal_rx rx" "wr_method req = ''POST''" "wr_path req = ''/choose''" "wr_cookie req = []"
      "map_of (wr_body req) ''_method'' = None" "wr_override req = []"
    and found: "choose_post_command (wr_body req) = Some cmd" "ou_exec ou cmd = (err, out)"
      "choose_post_callback (ou_cwd ou) (ou_files ou) err out None = Inr (Redirect ''/'', Some p)"
  shows "\<exists>hdr. app_request hmac ser utc rx ou now uid req st =
      Served (Responses [Redirect ''/'']) (Some hdr) (memory_set proc_json uid (app_session uid (Some p)) st) \<and>
    takeWhile (\<lambda>c. c \<noteq> CHR '';'') hdr = choice_cookie hmac uid"
proof -
  let ?r1 = "(fresh_request uid req)\<lparr>sq_session := Some (app_session uid (Some p))\<rparr>"
  obtain hdr where hdr: "session_header hmac ser utc app_session_options (fst now) fresh_context ?r1 = Some hdr"
    "takeWhile (\<lambda>c. c \<noteq> CHR '';'') hdr = choice_cookie hmac uid"
    using fresh_header by blast
  have begun: "session_begin hmac ser memory_get app_session_options True now uid (session_request req) st =
      Began fresh_context (fresh_request uid req) st"
    by (rule app_fresh[OF _ assms(4)]) (simp add: assms(3))
  have no_proc: "session_proc (fresh_request uid req) = None" by (simp add: session_proc_def fresh_request_def)
  have routed: "route_request rx ''POST'' ''/choose'' = Handled ChoosePost"
    unfolding app_route_decided[OF assms(1)] by code_simp
  have handled: "run_handler ou (obj_del ''_method'' (wr_body req)) ChoosePost None = (Responses [Redirect ''/''], Some p)"
    using found by (simp add: choose_command_del)
  have "app_request hmac ser utc rx ou now uid req st =
      Served (Responses [Redirect ''/'']) (Some hdr) (memory_set proc_json uid (app_session uid (Some p)) st)"
    using plain_method[OF assms(5,6)] begun no_proc routed handled hdr(1) assms(2,3) put_fresh[of p uid req]
    by (simp add: app_request_def Let_def session_end_def)
  with hdr(2) show ?thesis by blast
qed

text \<open>The front page for a client whose cookie names a stored session with a server.\<close>

lemma home_answered:
  assumes "literal_rx rx" "base64_digest hmac" "uid \<noteq> []" "map_of st uid = Some (stringify proc_json (app_session uid (Some p)))"
    and "wr_method req = ''GET''" "wr_path req = ''/''" "wr_cookie req = choice_cookie hmac uid"
      "map_of (wr_body req) ''_method'' = None" "wr_override req = []"
  shows "\<exists>st3. app_request hmac ser utc rx ou now uid2 req st = Served (Responses [RenderIndex (json_proc p)]) None st3"
proof -
  let ?raw = "''s:'' @ sign hmac uid ''1234567890QWERTY''"
  let ?r = "(session_request req)\<lparr>sq_sid := Some uid, sq_session := Some (app_session uid (Some (json_proc p)))\<rparr>"
  have cookie: "sq_cookies (session_request req) = cookie_parse (choice_cookie hmac uid)"
    using assms(7) by (simp add: session_request_def choice_cookie_def)
  have raw: "map_of (sq_cookies (session_request req)) (so_key app_session_options) = Some ?raw"
    using cookie_parse_pair[OF app_options(3,4), of ?raw] unfolding cookie choice_cookie_def by (simp add: app_session_options_def)
  have "stored_alive t (stringify proc_json (app_session uid (Some p)))" for t
    using app_alive[of t proc_json "app_session uid (Some p)"] by (simp add: app_session_def)
  then have got: "fst (memory_get (fst now) uid st) = Got (stringify proc_json (app_session uid (Some p)))"
    using assms(4) by (simp add: memory_get_def)
  have enter: "enters app_session_options (session_request req)" by (rule app_enters[of _ "[]"]) (simp add: assms(6))
  have none_signed: "sq_signed (session_request req) = []" by (simp add: session_request_def)
  have "?raw \<noteq> []" by simp
  from mem.begin_found[OF enter app_options(1,2) none_signed raw this signed_cookie_value[OF assms(2)] assms(3) got, of ser uid2]
  obtain cx st3 where second: "session_begin hmac ser memory_get app_session_options True now uid2 (session_request req) st = Began cx ?r st3"
    "cx_unsigned cx = Some uid"
    unfolding app_session_stored by auto
  have home: "route_request rx ''GET'' ''/'' = Handled Index"
    unfolding app_route_decided[OF assms(1)] by code_simp
  have proc: "session_proc ?r = Some (json_proc p)" by (simp add: session_proc_def app_session_def)
  have keep: "put_proc (Some (json_proc p)) ?r = ?r" by (simp add: put_proc_def app_session_def)
  have none: "session_header hmac ser utc app_session_options (fst now) cx ?r = None"
    using second(2) by (simp add: session_header_def app_session_def plain_session_cookie_def app_session_options_def Let_def)
  show ?thesis
    using plain_method[OF assms(8,9)] second(1) home proc keep none assms(5,6)
    by (simp add: app_request_def Let_def index_handler_def)
qed

section \<open>One answer per request\<close>

text \<open>
  Every handler answers exactly once, except the list of servers when \<open>ps\<close> fails, which is answered twice.
\<close>

theorem handlers_answer_once:
  "(case fst (run_handler ou body h proc) of
      Responses rs \<Rightarrow> length rs = (if h = Choose \<and> fst (ou_exec ou choose_command) then 2 else 1)
    | ApiReplies rs \<Rightarrow> h = ThreadsActive \<and> length rs = 1
    | AwaitFifo fifo \<Rightarrow> h = ThreadsActive
    | Crashed e \<Rightarrow> h = ChoosePost)"
  by (cases h) (auto simp: index_handler_def choose_callback_def threads_active_start_def Let_def
      split: option.splits sum.splits prod.splits)

section \<open>Redirects end\<close>

text \<open>
  A browser that follows redirects, counting them. It may keep cookies or not; without the session
  cookie the next request starts without a chosen server. Whether this loop ends depends on
  where the handlers send the browser, so it is a partial function.
\<close>

partial_function (option) visit ::
  "regexp_exec \<Rightarrow> outside \<Rightarrow> bool \<Rightarrow> nat \<Rightarrow> string \<Rightarrow> string \<Rightarrow> string obj \<Rightarrow> server_proc option \<Rightarrow> (nat \<times> routed \<times> answer option) option" where
  "visit rx ou keep n meth path body proc =
     (case route_request rx meth path of
        Handled h \<Rightarrow>
          (case run_handler ou body h proc of
             (Responses (Redirect p # rs), proc') \<Rightarrow>
               visit rx ou keep (Suc n) ''GET'' p [] (if keep then proc' else None)
           | (ans, proc') \<Rightarrow> Some (n, Handled h, Some ans))
      | r \<Rightarrow> Some (n, r, None))"

lemma visit_choose:
  assumes "literal_rx rx"
  shows "\<exists>ans. visit rx ou keep n ''GET'' ''/choose'' body proc = Some (n, Handled Choose, Some ans)"
proof -
  have r: "route_request rx ''GET'' ''/choose'' = Handled Choose"
    unfolding app_route_decided[OF assms] by code_simp
  obtain err out where e: "ou_exec ou choose_command = (err, out)" by fastforce
  show ?thesis
    by (subst visit.simps) (simp add: r e choose_callback_def Let_def split: if_splits)
qed

lemma visit_home:
  assumes "literal_rx rx"
  shows "\<exists>m r. visit rx ou keep n ''GET'' ''/'' body proc = Some (m, r) \<and> m \<le> Suc n"
proof -
  have r: "route_request rx ''GET'' ''/'' = Handled Index"
    unfolding app_route_decided[OF assms] by code_simp
  show ?thesis
  proof (cases proc)
    case None
    then show ?thesis
      using visit_choose[OF assms, of ou keep "Suc n" "[]" None]
      by (subst visit.simps) (auto simp: r index_handler_def)
  qed (subst visit.simps, simp add: r index_handler_def)
qed

lemma choose_post_redirects:
  "choose_post_callback cwd files err out proc = Inr (r, p) \<Longrightarrow> r = Redirect ''/'' \<or> r = Redirect ''/choose''"
  by (auto simp: choose_post_callback_def Let_def split: if_splits option.splits)

text \<open>
  C30. Following the application's redirects always ends, after at most two of them, whatever the
  request, the running processes and the browser's treatment of cookies.
\<close>

theorem redirects_end:
  assumes "literal_rx rx"
  shows "\<exists>n r. visit rx ou keep 0 meth path body proc = Some (n, r) \<and> n \<le> 2"
proof (cases "route_request rx meth path")
  case (Handled h)
  note r = Handled
  have one: "\<exists>m x. visit rx ou keep (Suc 0) ''GET'' p [] q = Some (m, x) \<and> m \<le> 2" if "p = ''/'' \<or> p = ''/choose''" for p q
    using that visit_choose[OF assms, of ou keep "Suc 0" "[]" q] visit_home[OF assms, of ou keep "Suc 0" "[]" q] by fastforce
  show ?thesis
  proof (cases h)
    case Index
    then show ?thesis
      using one by (cases proc) (subst visit.simps, simp add: r index_handler_def)+
  next
    case Choose
    obtain err out where "ou_exec ou choose_command = (err, out)" by fastforce
    then show ?thesis
      using Choose by (subst visit.simps) (simp add: r choose_callback_def Let_def split: if_splits)
  next
    case ChoosePost
    show ?thesis
    proof (cases "choose_post_command body")
      case None
      then show ?thesis using ChoosePost one by (subst visit.simps) (simp add: r)
    next
      case (Some cmd)
      obtain err out where e: "ou_exec ou cmd = (err, out)" by fastforce
      show ?thesis
      proof (cases "choose_post_callback (ou_cwd ou) (ou_files ou) err out proc")
        case (Inl x)
        then show ?thesis using ChoosePost Some e by (subst visit.simps) (simp add: r)
      next
        case (Inr x)
        then obtain resp p where x: "choose_post_callback (ou_cwd ou) (ou_files ou) err out proc = Inr (resp, p)" by (cases x) auto
        from choose_post_redirects[OF this] show ?thesis
          using ChoosePost Some e x one by (subst visit.simps) (auto simp: r)
      qed
    qed
  next
    case ThreadsActive
    then show ?thesis by (subst visit.simps) (simp add: r split: sum.splits)
  qed
qed (subst visit.simps, simp)+

theorem redirects_end_witness:
  "\<exists>n r. visit demo_rx demo_outside True 0 ''POST'' ''/choose'' [(''pid'', ''12'')] None = Some (n, r) \<and> n \<le> 2"
  by (rule redirects_end[OF demo_rx_literal])

end
