(* ===== verification/Connect_Utils.thy ===== *)
theory Connect_Utils
  imports JS_Uri "HOL-Library.Word"
begin

text \<open>
  The pure part of \<open>connect/lib/utils.js\<close>: HTML escaping, merging, the ETag of a file, the
  Cache-Control parser, the URL parser's pathname, digests, and the response helpers (401, 304, removing the
  content headers) over a response record shared by the middleware.
\<close>

section \<open>Response\<close>

record http_res =
  hr_status :: nat
  hr_headers :: "string obj"
  hr_body :: "string option"
  hr_ended :: bool

definition set_header :: "string \<Rightarrow> string \<Rightarrow> http_res \<Rightarrow> http_res" where
  "set_header field val res = res\<lparr>hr_headers := obj_set (to_lower field) val (hr_headers res)\<rparr>"

definition end_with :: "string option \<Rightarrow> http_res \<Rightarrow> http_res" where
  "end_with body res = res\<lparr>hr_body := body, hr_ended := True\<rparr>"

definition fresh_res :: http_res where
  "fresh_res = \<lparr>hr_status = 200, hr_headers = [], hr_body = None, hr_ended = False\<rparr>"

section \<open>Strings as bytes\<close>

text \<open>
  \<open>new Buffer(s)\<close> and \<open>Buffer.byteLength(s)\<close>: UTF-8, where a character from 128 on (they are below 256 here)
  takes two bytes.
\<close>

definition utf8_char :: "char \<Rightarrow> 8 word list" where
  "utf8_char c =
     (let n = (of_char c :: nat)
      in if n < 128 then [of_nat n] else [of_nat (192 + n div 64), of_nat (128 + n mod 64)])"

definition utf8_bytes :: "string \<Rightarrow> 8 word list" where
  "utf8_bytes s = concat (map utf8_char s)"

definition byte_length :: "string \<Rightarrow> nat" where
  "byte_length s = sum_list (map (\<lambda>c. if (of_char c :: nat) < 128 then 1 else 2) s)"

lemma length_utf8_bytes: "length (utf8_bytes s) = byte_length s"
  by (induction s) (simp_all add: utf8_bytes_def utf8_char_def byte_length_def Let_def)

definition ascii_text :: "string \<Rightarrow> bool" where
  "ascii_text s \<longleftrightarrow> list_all (\<lambda>c. (of_char c :: nat) < 128) s"

lemma byte_length_ascii: "ascii_text s \<Longrightarrow> byte_length s = length s"
  by (induction s) (simp_all add: byte_length_def ascii_text_def)

section \<open>escape\<close>

definition is_word :: "char \<Rightarrow> bool" where
  "is_word c \<longleftrightarrow> is_upper c \<or> is_lower c \<or> is_digit c \<or> c = CHR ''_''"

text \<open>The lookahead \<open>\w+;\<close>.\<close>

definition entity_ahead :: "string \<Rightarrow> bool" where
  "entity_ahead s \<longleftrightarrow> takeWhile is_word s \<noteq> [] \<and> starts_with '';'' (dropWhile is_word s)"

fun escape_amp :: "string \<Rightarrow> string" where
  "escape_amp [] = []"
| "escape_amp (c # cs) =
     (if c = CHR ''&'' \<and> \<not> entity_ahead cs then ''&amp;'' @ escape_amp cs else c # escape_amp cs)"

definition replace_char :: "char \<Rightarrow> string \<Rightarrow> string \<Rightarrow> string" where
  "replace_char c r s = concat (map (\<lambda>x. if x = c then r else [x]) s)"

definition escape_html :: "string \<Rightarrow> string" where
  "escape_html html =
     replace_char CHR 0x22 ''&quot;''
       (replace_char CHR ''>'' ''&gt;''
         (replace_char CHR ''<'' ''&lt;''
           (escape_amp html)))"

section \<open>Objects, tags and cache directives\<close>

definition merge_objs :: "'v obj \<Rightarrow> 'v obj \<Rightarrow> 'v obj" where
  "merge_objs a b = foldl (\<lambda>o' (k, v). obj_set k v o') a b"

definition etag :: "int \<Rightarrow> int \<Rightarrow> string" where
  "etag sz mtime = [CHR 0x22] @ show_int sz @ ''-'' @ show_int mtime @ [CHR 0x22]"

datatype directive = Flag | Amount int

definition cache_directive :: "directive obj \<Rightarrow> string \<Rightarrow> directive obj" where
  "cache_directive ob d =
     (let parts = split_on CHR ''='' d;
          key = trim_str (hd parts);
          val = (case js_at parts 1 of None \<Rightarrow> None | Some s \<Rightarrow> parse_int s)
      in obj_set key (case val of None \<Rightarrow> Flag | Some n \<Rightarrow> Amount n) ob)"

definition parse_cache_control :: "string \<Rightarrow> directive obj" where
  "parse_cache_control str = foldl cache_directive [] (split_on CHR '','' str)"

definition normalize_slashes :: "char \<Rightarrow> string \<Rightarrow> string" where
  "normalize_slashes sep path = join_with ''/'' (split_on sep path)"

section \<open>Response helpers\<close>

definition remove_content_headers :: "http_res \<Rightarrow> http_res" where
  "remove_content_headers res =
     res\<lparr>hr_headers := filter (\<lambda>(f, _). \<not> index_of f ''content'' = 0) (hr_headers res)\<rparr>"

definition not_modified :: "http_res \<Rightarrow> http_res" where
  "not_modified res = end_with None ((remove_content_headers res)\<lparr>hr_status := 304\<rparr>)"

definition unauthorized :: "string \<Rightarrow> http_res \<Rightarrow> http_res" where
  "unauthorized realm res =
     end_with (Some ''Unauthorized'')
       (set_header ''WWW-Authenticate'' (''Basic realm='' @ [CHR 0x22] @ realm @ [CHR 0x22])
         (res\<lparr>hr_status := 401\<rparr>))"

definition conditional_get :: "string obj \<Rightarrow> string option" where
  "conditional_get headers =
     (case map_of headers ''if-modified-since'' of
        Some v \<Rightarrow> if v \<noteq> [] then Some v else map_of headers ''if-none-match''
      | None \<Rightarrow> map_of headers ''if-none-match'')"

section \<open>The pathname of a URL\<close>

text \<open>
  Node's \<open>url.parse(u).pathname\<close> for the two forms a request line has, \<open>/path?query\<close> and
  \<open>scheme://host/path\<close>: what precedes the first \<open>?\<close> or \<open>#\<close>, without scheme and host; \<open>None\<close>
  (JavaScript's \<open>null\<close>) when it is empty. The characters Node escapes in a path are escaped.
\<close>

definition url_escaped :: "char \<Rightarrow> bool" where
  "url_escaped c \<longleftrightarrow> c \<in> set ''{}|^<> '' \<or> (of_char c :: nat) \<in> {9, 10, 13, 34, 39, 92, 96}"

definition url_escape :: "string \<Rightarrow> string" where
  "url_escape s = concat (map (\<lambda>c. if url_escaped c then percent (of_char c) else [c]) s)"

definition strip_host :: "string \<Rightarrow> string" where
  "strip_host u =
     (case find_sub ''://'' (takeWhile (\<lambda>c. c \<noteq> CHR ''?'' \<and> c \<noteq> CHR ''#'') u) of
        None \<Rightarrow> u
      | Some n \<Rightarrow>
          let r = dropWhile (\<lambda>c. c \<noteq> CHR ''/'' \<and> c \<noteq> CHR ''?'' \<and> c \<noteq> CHR ''#'') (drop (n + 3) u)
          in (if starts_with ''/'' r then r else CHR ''/'' # r))"

definition plain_pathname :: "string \<Rightarrow> string option" where
  "plain_pathname u =
     (let p = url_escape (takeWhile (\<lambda>c. c \<noteq> CHR ''?'' \<and> c \<noteq> CHR ''#'') (strip_host u))
      in if p = [] then None else Some p)"

text \<open>
  A URL like \<open>//user@host/path\<close>, in which node finds a host although there is no scheme, is parsed again with every
  \<open>@\<close> escaped, so that all of it is a path.
\<close>

definition auth_host :: "string \<Rightarrow> bool" where
  "auth_host u \<longleftrightarrow>
     starts_with ''//'' u \<and>
     (let r = drop 2 u; plain = (\<lambda>c. c \<noteq> CHR ''@'' \<and> c \<noteq> CHR ''/''); h = dropWhile plain r
      in takeWhile plain r \<noteq> [] \<and> starts_with ''@'' h \<and> takeWhile plain (drop 1 h) \<noteq> [])"

definition url_pathname :: "string \<Rightarrow> string option" where
  "url_pathname u = plain_pathname (if auth_host u then replace_char CHR ''@'' ''%40'' u else u)"

text \<open>\<open>parseUrl\<close> with the result it keeps on the request; \<open>parse\<close> is node's function.\<close>

record url_parts =
  up_href :: string
  up_auth :: "string option"
  up_protocol :: "string option"

definition parse_url :: "(string \<Rightarrow> url_parts) \<Rightarrow> string \<Rightarrow> url_parts option \<Rightarrow> url_parts" where
  "parse_url parse url kept =
     (let p = parse url;
          odd_host = (up_auth p \<noteq> None \<and> up_auth p \<noteq> Some [] \<and> (up_protocol p = None \<or> up_protocol p = Some []) \<and>
                      index_of (up_href p) ''//'' \<noteq> -1);
          new = (if odd_host then parse (replace_char CHR ''@'' ''%40'' url) else p)
      in case kept of Some k \<Rightarrow> if up_href k = url then k else new | None \<Rightarrow> new)"

text \<open>What is kept does not change what a second call for the same URL returns.\<close>

lemma parse_url_again: "parse_url parse url (Some (parse_url parse url kept)) = parse_url parse url kept"
  by (auto simp: parse_url_def Let_def split: option.splits)

section \<open>Digests, errors, versions\<close>

definition utils_md5 :: "(string \<Rightarrow> string \<Rightarrow> string) \<Rightarrow> string \<Rightarrow> string option \<Rightarrow> string" where
  "utils_md5 digest str encoding =
     digest (case encoding of Some e \<Rightarrow> if e = [] then ''hex'' else e | None \<Rightarrow> ''hex'') str"

definition status_error :: "(nat \<rightharpoonup> string) \<Rightarrow> nat \<Rightarrow> string option \<Rightarrow> nat \<times> string option" where
  "status_error status_codes code msg =
     (code, case msg of Some m \<Rightarrow> if m = [] then status_codes code else Some m | None \<Rightarrow> status_codes code)"

text \<open>Versions of node before 0.10 lose events of a paused stream.\<close>

definition broken_pause :: "string \<Rightarrow> bool" where
  "broken_pause version =
     (let vs = split_on CHR ''.'' version; num = (\<lambda>i. case js_at vs i of Some v \<Rightarrow> parse_int v | None \<Rightarrow> None)
      in num 0 = Some 0 \<and> (case num 1 of Some n \<Rightarrow> n < 10 | None \<Rightarrow> False))"

lemma broken_pause_versions:
  "broken_pause ''0.8.26''" "\<not> broken_pause ''0.10.21''" "\<not> broken_pause ''4.2.0''"
  by code_simp+

section \<open>Properties of escape\<close>

lemma entity_ahead_iff:
  "entity_ahead s \<longleftrightarrow> (\<exists>w r. s = w @ CHR '';'' # r \<and> w \<noteq> [] \<and> (\<forall>c \<in> set w. is_word c))"
proof
  assume e: "entity_ahead s"
  then obtain r where "dropWhile is_word s = CHR '';'' # r"
    by (auto simp: entity_ahead_def starts_with_iff)
  then have "s = takeWhile is_word s @ CHR '';'' # r"
    using takeWhile_dropWhile_id[of is_word s] by simp
  moreover have "\<forall>c \<in> set (takeWhile is_word s). is_word c"
    by (auto dest: set_takeWhileD)
  ultimately show "\<exists>w r. s = w @ CHR '';'' # r \<and> w \<noteq> [] \<and> (\<forall>c \<in> set w. is_word c)"
    using e by (auto simp: entity_ahead_def)
next
  assume "\<exists>w r. s = w @ CHR '';'' # r \<and> w \<noteq> [] \<and> (\<forall>c \<in> set w. is_word c)"
  then obtain w r where s: "s = w @ CHR '';'' # r" "w \<noteq> []" "\<forall>c \<in> set w. is_word c" by blast
  moreover have "\<not> is_word CHR '';''"
    by (simp add: is_word_def is_upper_def is_lower_def is_digit_def)
  ultimately show "entity_ahead s"
    by (auto simp: entity_ahead_def takeWhile_append2 dropWhile_append2)
qed

fun amp_ok :: "string \<Rightarrow> bool" where
  "amp_ok [] = True"
| "amp_ok (c # cs) = ((c = CHR ''&'' \<longrightarrow> entity_ahead cs) \<and> amp_ok cs)"

lemma word_not_amp: "is_word c \<Longrightarrow> c \<noteq> CHR ''&'' \<and> c \<noteq> CHR ''<'' \<and> c \<noteq> CHR ''>'' \<and> c \<noteq> CHR 0x22 \<and> c \<noteq> CHR '';''"
  by (auto simp: is_word_def is_upper_def is_lower_def is_digit_def)

lemma escape_amp_words:
  "(\<forall>c \<in> set w. is_word c) \<Longrightarrow> escape_amp (w @ CHR '';'' # r) = w @ CHR '';'' # escape_amp r"
  by (induction w) (auto dest: word_not_amp)

lemma entity_ahead_escape_amp: "entity_ahead s \<Longrightarrow> entity_ahead (escape_amp s)"
  using escape_amp_words by (fastforce simp: entity_ahead_iff)

lemma amp_ok_escape_amp: "amp_ok (escape_amp s)"
proof (induction s)
  case Nil
  then show ?case by simp
next
  case (Cons c s)
  have "entity_ahead (''amp;'' @ escape_amp s)"
    by (rule iffD2[OF entity_ahead_iff])
       (rule exI[of _ "''amp''"], simp add: is_word_def is_upper_def is_lower_def is_digit_def)
  then show ?case
    using Cons entity_ahead_escape_amp by auto
qed

lemma replace_char_words:
  "(\<forall>x \<in> set w. is_word x) \<Longrightarrow> \<not> is_word c \<Longrightarrow> c \<noteq> CHR '';'' \<Longrightarrow>
   replace_char c e (w @ CHR '';'' # r) = w @ CHR '';'' # replace_char c e r"
  by (induction w) (auto simp: replace_char_def)

lemma entity_ahead_replace:
  "entity_ahead s \<Longrightarrow> \<not> is_word c \<Longrightarrow> c \<noteq> CHR '';'' \<Longrightarrow> entity_ahead (replace_char c e s)"
  using replace_char_words by (fastforce simp: entity_ahead_iff)

lemma amp_ok_replace:
  assumes "amp_ok s" "\<not> is_word c" "c \<noteq> CHR '';''" "c \<noteq> CHR ''&''"
    and "w \<noteq> []" "\<forall>x \<in> set w. is_word x"
  shows "amp_ok (replace_char c (CHR ''&'' # w @ '';'') s)"
  using assms(1)
proof (induction s)
  case Nil
  then show ?case by (simp add: replace_char_def)
next
  case (Cons x s)
  let ?e = "CHR ''&'' # w @ '';''"
  have cons: "replace_char c ?e (x # s) = (if x = c then ?e else [x]) @ replace_char c ?e s"
    by (simp add: replace_char_def)
  have tail: "amp_ok (v @ CHR '';'' # t)" if "amp_ok t" "\<forall>y \<in> set v. is_word y" for v t
    using that by (induction v) (auto dest: word_not_amp)
  have "entity_ahead (w @ CHR '';'' # replace_char c ?e s)"
    using assms(5,6) by (auto simp: entity_ahead_iff)
  then show ?case
    using Cons assms tail entity_ahead_replace[of s c ?e] by (simp add: cons)
qed

lemma replace_char_absent: "c \<notin> set s \<Longrightarrow> replace_char c e s = s"
  by (induction s) (auto simp: replace_char_def)

lemma set_replace_char: "set (replace_char c e s) \<subseteq> (set s - {c}) \<union> set e"
  by (auto simp: replace_char_def split: if_splits)

lemma escape_amp_ok: "amp_ok s \<Longrightarrow> escape_amp s = s"
  by (induction s) auto

lemma escape_html_no_markup:
  "CHR ''<'' \<notin> set (escape_html s)" "CHR ''>'' \<notin> set (escape_html s)" "CHR 0x22 \<notin> set (escape_html s)"
  unfolding escape_html_def replace_char_def by (auto split: if_splits)

lemma amp_ok_escape_html: "amp_ok (escape_html s)"
proof -
  have w: "\<not> is_word CHR ''<''" "\<not> is_word CHR ''>''" "\<not> is_word (CHR 0x22)"
    "\<forall>x \<in> set ''lt''. is_word x" "\<forall>x \<in> set ''gt''. is_word x" "\<forall>x \<in> set ''quot''. is_word x"
    by (simp_all add: is_word_def is_upper_def is_lower_def is_digit_def)
  have "amp_ok (replace_char CHR ''<'' ''&lt;'' (escape_amp s))"
    using amp_ok_replace[OF amp_ok_escape_amp w(1) _ _ _ w(4)] by simp
  then have "amp_ok (replace_char CHR ''>'' ''&gt;'' (replace_char CHR ''<'' ''&lt;'' (escape_amp s)))"
    using amp_ok_replace[OF _ w(2) _ _ _ w(5)] by simp
  then show ?thesis
    using amp_ok_replace[OF _ w(3) _ _ _ w(6)] by (simp add: escape_html_def)
qed

text \<open>
  Escaped text holds no markup character (\<open><\<close>, \<open>>\<close> or a double quote), every ampersand
  left in it starts an entity, and escaping it again changes nothing.
\<close>

theorem escape_html_safe_and_idempotent:
  "set (escape_html s) \<inter> {CHR ''<'', CHR ''>'', CHR 0x22} = {} \<and>
   amp_ok (escape_html s) \<and> escape_html (escape_html s) = escape_html s"
proof -
  have "escape_amp (escape_html s) = escape_html s"
    by (rule escape_amp_ok[OF amp_ok_escape_html])
  then have "escape_html (escape_html s) = escape_html s"
    using escape_html_no_markup[of s]
    by (subst escape_html_def) (simp add: replace_char_absent)
  then show ?thesis
    using escape_html_no_markup[of s] amp_ok_escape_html by auto
qed

end
