(* ===== verification/Static_Files.thy ===== *)
theory Static_Files
  imports Connect_Utils Node_Path
begin

text \<open>
  The middleware that serves files: \<open>static.js\<close> and the packages \<open>send\<close>, \<open>fresh\<close> and \<open>range-parser\<close>. The
  file system is a function from paths to what \<open>fs.stat\<close> reports, files are lists of bytes; dates are
  printed and read by functions that are parameters, and so is the table of media types.
\<close>

section \<open>Ranges\<close>

text \<open>
  \<open>range-parser\<close>: the header names a unit and pieces \<open>first-last\<close>, \<open>first-\<close> or \<open>-suffix\<close>. \<open>Malformed\<close> is
  the result \<open>-2\<close>, \<open>Unsatisfiable\<close> is \<open>-1\<close>; a missing number is \<open>NaN\<close>.
\<close>

datatype ranges = Malformed | Unsatisfiable | Ranges string "(int \<times> int) list"

definition range_bounds :: "int \<Rightarrow> string \<Rightarrow> int option \<times> int option" where
  "range_bounds sz piece =
     (let parts = split_on CHR ''-'' piece;
          first = parse_int (hd parts);
          final = (case js_at parts 1 of None \<Rightarrow> None | Some s \<Rightarrow> parse_int s);
          start = (case first of None \<Rightarrow> map_option (\<lambda>n. sz - n) final | Some n \<Rightarrow> Some n);
          stop = (if first = None \<or> final = None then Some (sz - 1) else final)
      in (start, map_option (\<lambda>n. if n > sz - 1 then sz - 1 else n) stop))"

definition valid_bounds :: "int option \<times> int option \<Rightarrow> bool" where
  "valid_bounds b \<longleftrightarrow> (case b of (Some a, Some z) \<Rightarrow> \<not> a > z \<and> \<not> a < 0 | _ \<Rightarrow> False)"

definition parse_range :: "int \<Rightarrow> string \<Rightarrow> ranges" where
  "parse_range sz str =
     (case find_sub ''='' str of
        None \<Rightarrow> Malformed
      | Some i \<Rightarrow>
          let bs = map (range_bounds sz) (split_on CHR '','' (drop (i + 1) str))
          in if list_all valid_bounds bs then Ranges (take i str) (map (\<lambda>(a, z). (the a, the z)) bs)
             else Unsatisfiable)"

lemma range_stop_below: "snd (range_bounds sz piece) = Some z \<Longrightarrow> z < sz"
  by (auto simp: range_bounds_def Let_def split: if_splits option.splits)

lemma parse_range_within:
  assumes "parse_range sz str = Ranges ty rs" "(a, z) \<in> set rs"
  shows "0 \<le> a \<and> a \<le> z \<and> z < sz"
proof -
  from assms obtain ps where ps: "list_all valid_bounds (map (range_bounds sz) ps)"
    "rs = map (\<lambda>(a, z). (the a, the z)) (map (range_bounds sz) ps)"
    by (auto simp: parse_range_def Let_def split: option.splits if_splits)
  from assms(2) obtain p where p: "p \<in> set ps" "a = the (fst (range_bounds sz p))" "z = the (snd (range_bounds sz p))"
    unfolding ps(2) by (auto simp: case_prod_beta)
  then have "valid_bounds (range_bounds sz p)" using ps(1) by (auto simp: list_all_iff)
  then show ?thesis using p range_stop_below[of sz p]
    by (auto simp: valid_bounds_def split: prod.splits option.splits)
qed

lemma parse_range_nonempty: "parse_range sz str = Ranges ty rs \<Longrightarrow> rs \<noteq> []"
  by (auto simp: parse_range_def Let_def split: option.splits if_splits)

section \<open>Conditional requests\<close>

text \<open>\<open>split(/ *, */)\<close> and the comparison of \<open>fresh\<close>; a date that cannot be read is never early enough.\<close>

definition split_list :: "string \<Rightarrow> string list" where
  "split_list s =
     (let ps = split_on CHR '','' s;
          left = (\<lambda>p. dropWhile ((=) CHR '' '') p);
          right = (\<lambda>p. rev (dropWhile ((=) CHR '' '') (rev p)))
      in map (\<lambda>(i, p). (if 0 < i then left else id) ((if i + 1 < length ps then right else id) p)) (enumerate 0 ps))"

definition header :: "string \<Rightarrow> string obj \<Rightarrow> string" where
  "header k hs = (case map_of hs k of Some v \<Rightarrow> v | None \<Rightarrow> [])"

definition fresh :: "(string \<Rightarrow> int option) \<Rightarrow> string obj \<Rightarrow> string obj \<Rightarrow> bool" where
  "fresh date req res =
     (let since = header ''if-modified-since'' req;
          none_match = header ''if-none-match'' req;
          etag_matches = (none_match = [] \<or>
            (case map_of res ''etag'' of Some e \<Rightarrow> e \<in> set (split_list none_match) | None \<Rightarrow> False) \<or> hd (split_list none_match) = ''*'');
          not_modified = (since = [] \<or>
            (case (map_option date (map_of res ''last-modified''), date since) of
               (Some (Some l), Some s) \<Rightarrow> l \<le> s | _ \<Rightarrow> False))
      in if since = [] \<and> none_match = [] then False
         else if find_sub ''no-cache'' (header ''cache-control'' req) \<noteq> None then False
         else etag_matches \<and> not_modified)"

section \<open>send: the path\<close>

record send_opts =
  so_root :: "string option"
  so_hidden :: bool
  so_index :: string
  so_maxage :: nat

record stat =
  st_size :: nat
  st_mtime :: int
  st_dir :: bool

definition path_join :: "string \<Rightarrow> string \<Rightarrow> string" where
  "path_join a b = path_normalize (join_with ''/'' (filter (\<lambda>p. p \<noteq> []) [a, b]))"

definition basename :: "string \<Rightarrow> string" where
  "basename p = (case segs p of [] \<Rightarrow> [] | ws \<Rightarrow> last ws)"

definition set_root :: "string \<Rightarrow> send_opts \<Rightarrow> send_opts" where
  "set_root r o' = o'\<lparr>so_root := Some (path_normalize r)\<rparr>"

definition is_malicious :: "send_opts \<Rightarrow> string \<Rightarrow> bool" where
  "is_malicious o' p \<longleftrightarrow> so_root o' = None \<and> find_sub ''..'' p \<noteq> None"

definition has_trailing_slash :: "string \<Rightarrow> bool" where
  "has_trailing_slash p \<longleftrightarrow> p \<noteq> [] \<and> last p = CHR ''/''"

definition has_leading_dot :: "string \<Rightarrow> bool" where
  "has_leading_dot p \<longleftrightarrow> starts_with ''.'' (basename p)"

text \<open>
  The first half of \<open>pipe\<close>: the path to look at, or the status of an error. Only the path below the
  root is decoded; the tests for hidden files and for a trailing slash read the path as it came.
\<close>

definition resolve_path :: "send_opts \<Rightarrow> string \<Rightarrow> nat + string" where
  "resolve_path o' p =
     (case decode_uri p of
        None \<Rightarrow> Inl 400
      | Some d \<Rightarrow>
          if CHR 0x00 \<in> set d then Inl 400
          else
            let d1 = (case so_root o' of Some r \<Rightarrow> path_normalize (path_join r d) | None \<Rightarrow> d)
            in if is_malicious o' p then Inl 403
               else if (case so_root o' of Some r \<Rightarrow> \<not> starts_with r d1 | None \<Rightarrow> False) then Inl 403
               else if \<not> so_hidden o' \<and> has_leading_dot p then Inl 404
               else Inr (if so_index o' \<noteq> [] \<and> has_trailing_slash p then d1 @ so_index o' else d1))"

datatype sent = SendError nat | SendDirectory | SendFile string stat

definition stat_error :: "string \<Rightarrow> nat" where
  "stat_error code = (if code \<in> {''ENOENT'', ''ENAMETOOLONG'', ''ENOTDIR''} then 404 else 500)"

definition send_pipe :: "(string \<Rightarrow> string + stat) \<Rightarrow> send_opts \<Rightarrow> string \<Rightarrow> sent" where
  "send_pipe fs o' p =
     (case resolve_path o' p of
        Inl status \<Rightarrow> SendError status
      | Inr path \<Rightarrow>
          (case fs path of
             Inl code \<Rightarrow> SendError (stat_error code)
           | Inr st \<Rightarrow> if st_dir st then SendDirectory else SendFile path st))"

section \<open>send: the response\<close>

text \<open>A header is only set when it is not set yet.\<close>

definition default_header :: "string \<Rightarrow> string \<Rightarrow> http_res \<Rightarrow> http_res" where
  "default_header k v res = (if map_of (hr_headers res) (to_lower k) = None then set_header k v res else res)"

definition send_headers :: "(int \<Rightarrow> string) \<Rightarrow> int \<Rightarrow> send_opts \<Rightarrow> stat \<Rightarrow> http_res \<Rightarrow> http_res" where
  "send_headers utc now o' st res =
     default_header ''Last-Modified'' (utc (st_mtime st))
       (default_header ''Cache-Control'' (''public, max-age='' @ show_nat (so_maxage o' div 1000))
         (default_header ''Date'' (utc now)
           (default_header ''ETag'' (etag (int (st_size st)) (st_mtime st))
             (default_header ''Accept-Ranges'' ''bytes'' res))))"

text \<open>\<open>is_cachable\<close>, and the two headers that make a request conditional.\<close>

definition is_cachable :: "http_res \<Rightarrow> bool" where
  "is_cachable res \<longleftrightarrow> 200 \<le> hr_status res \<and> hr_status res < 300 \<or> hr_status res = 304"

definition is_conditional :: "string obj \<Rightarrow> bool" where
  "is_conditional req \<longleftrightarrow> header ''if-none-match'' req \<noteq> [] \<or> header ''if-modified-since'' req \<noteq> []"

text \<open>The bytes \<open>first\<close> to \<open>final\<close> (inclusive, to the end without) that \<open>fs.createReadStream\<close> yields.\<close>

definition read_stream :: "nat \<Rightarrow> nat option \<Rightarrow> 'b list \<Rightarrow> 'b list" where
  "read_stream first final content =
     (case final of None \<Rightarrow> drop first content | Some z \<Rightarrow> take (z + 1 - first) (drop first content))"

text \<open>
  \<open>send\<close> without the options \<open>start\<close> and \<open>end\<close>, which the middleware never gives: the response with
  its headers, and the bytes of its body.
\<close>

datatype 'b sent_body = Whole http_res "'b list" | Failed nat http_res

definition base_res :: "(int \<Rightarrow> string) \<Rightarrow> (string \<Rightarrow> string) \<Rightarrow> int \<Rightarrow> send_opts \<Rightarrow> string \<Rightarrow> stat \<Rightarrow> http_res \<Rightarrow> http_res" where
  "base_res utc media now o' path st res0 = default_header ''Content-Type'' (media path) (send_headers utc now o' st res0)"

definition full_answer :: "string \<Rightarrow> http_res \<Rightarrow> nat \<Rightarrow> nat option \<Rightarrow> nat \<Rightarrow> 'b list \<Rightarrow> 'b sent_body" where
  "full_answer meth res first final n content =
     Whole ((set_header ''Content-Length'' (show_nat n) res)\<lparr>hr_ended := True\<rparr>)
       (if meth = ''HEAD'' then [] else read_stream first final content)"

definition send_file ::
  "(int \<Rightarrow> string) \<Rightarrow> (string \<Rightarrow> int option) \<Rightarrow> (string \<Rightarrow> string) \<Rightarrow> int \<Rightarrow> send_opts \<Rightarrow>
   string \<Rightarrow> string obj \<Rightarrow> string \<Rightarrow> stat \<Rightarrow> 'b list \<Rightarrow> http_res \<Rightarrow> 'b sent_body" where
  "send_file utc date media now o' meth req path st content res0 =
     (let res1 = base_res utc media now o' path st res0;
          len = st_size st
      in if is_conditional req \<and> is_cachable res1 \<and> fresh date req (hr_headers res1) then Whole (not_modified res1) []
         else if header ''range'' req = [] then full_answer meth res1 0 None len content
         else
           (case parse_range (int len) (header ''range'' req) of
              Unsatisfiable \<Rightarrow> Failed 416 (set_header ''Content-Range'' (''bytes */'' @ show_nat (st_size st)) res1)
            | Malformed \<Rightarrow> full_answer meth res1 0 None len content
            | Ranges unit rs \<Rightarrow>
                let a = nat (fst (hd rs)); z = nat (snd (hd rs));
                    res2 = set_header ''Content-Range''
                             (''bytes '' @ show_nat a @ ''-'' @ show_nat z @ ''/'' @ show_nat len) (res1\<lparr>hr_status := 206\<rparr>)
                in full_answer meth res2 a (Some z) (z - a + 1) content))"

section \<open>static\<close>

datatype 'b static_result = Passed | PassedError nat | RedirectTo string | Answered "'b sent_body"

text \<open>
  The middleware for a request with this method, pathname (of the URL below the mount point), original
  pathname and query. A missing file is passed on, other errors are reported; a directory is redirected to
  the original address with a slash after its path.
\<close>

definition static_opts :: "string \<Rightarrow> send_opts" where
  "static_opts root = set_root root \<lparr>so_root = None, so_hidden = False, so_index = ''index.html'', so_maxage = 0\<rparr>"

definition static_middleware ::
  "(int \<Rightarrow> string) \<Rightarrow> (string \<Rightarrow> int option) \<Rightarrow> (string \<Rightarrow> string) \<Rightarrow> (string \<Rightarrow> string + stat) \<Rightarrow> (string \<Rightarrow> 'b list) \<Rightarrow>
   int \<Rightarrow> string \<Rightarrow> string \<Rightarrow> string obj \<Rightarrow> string \<Rightarrow> string \<Rightarrow> string \<Rightarrow> http_res \<Rightarrow> 'b static_result" where
  "static_middleware utc date media fs content now root meth req path original search res =
     (if meth \<noteq> ''GET'' \<and> meth \<noteq> ''HEAD'' then Passed
      else if path = ''/'' \<and> \<not> has_trailing_slash original then RedirectTo (original @ ''/'' @ search)
      else
        (case send_pipe fs (static_opts root) path of
           SendError status \<Rightarrow> if status = 404 then Passed else PassedError status
         | SendDirectory \<Rightarrow> RedirectTo (original @ ''/'' @ search)
         | SendFile p st \<Rightarrow>
             (case send_file utc date media now (static_opts root) meth req p st (content p) res of
                Failed status res' \<Rightarrow> PassedError status
              | b \<Rightarrow> Answered b)))"

section \<open>Only files under the root\<close>

lemma join_with_snoc:
  "join_with s (us @ [u]) = (if us = [] then u else join_with s us @ s @ u)"
  by (induction us rule: join_with.induct[of _ s]) (auto simp: join_with_Cons)

text \<open>The text of a normalised absolute path.\<close>

definition normal_path :: "string list \<Rightarrow> string \<Rightarrow> bool" where
  "normal_path us p \<longleftrightarrow> list_all plain_seg us \<and> (p = abs_path us \<or> p = abs_path us @ ''/'')"

lemma normalize_normal: "is_abs s \<Longrightarrow> \<exists>us. normal_path us (path_normalize s)"
proof -
  assume "is_abs s"
  moreover have "list_all plain_seg (norm_segs False (segs s))"
    by (rule norm_absolute_plain) (rule segs_parts)
  ultimately show ?thesis
    by (intro exI[of _ "norm_segs False (segs s)"]) (auto simp: normal_path_def path_normalize_def abs_path_def Let_def)
qed

lemma normal_is_abs: "normal_path us p \<Longrightarrow> is_abs p"
  by (auto simp: normal_path_def is_abs_def abs_path_def)

lemma normal_segs: "normal_path us p \<Longrightarrow> segs p = us"
proof -
  assume n: "normal_path us p"
  have "segs (abs_path us @ ''/'' @ []) = segs (abs_path us)" by (subst segs_append) simp
  with n show ?thesis by (auto simp: normal_path_def segs_abs_path)
qed

lemma plain_extend: "plain_seg u \<Longrightarrow> plain_seg w \<Longrightarrow> length w > 2 \<Longrightarrow> plain_seg (u @ w)"
  by (auto simp: plain_seg_def append_eq_Cons_conv)

lemma normal_with_index:
  assumes "normal_path us p" "plain_seg w" "length w > 2"
  shows "list_all plain_seg (segs (p @ w))"
proof -
  have us: "list_all plain_seg us" using assms(1) by (simp add: normal_path_def)
  have w: "segs w = [w]" using segs_join[of "[w]"] plain_segD[OF assms(2)] by simp
  consider "p = abs_path us @ ''/''" | "p = abs_path us" "us = []" | vs v where "p = abs_path us" "us = vs @ [v]"
    using assms(1) by (cases us rule: rev_cases) (auto simp: normal_path_def)
  then show ?thesis
  proof cases
    case 1
    then have "segs (p @ w) = us @ [w]" using segs_append[of "abs_path us" w] us w by (simp add: segs_abs_path)
    then show ?thesis using us assms(2) by simp
  next
    case 2
    then show ?thesis using w assms(2) by (simp add: abs_path_def)
  next
    case 3
    have "p @ w = abs_path (vs @ [v @ w])" using 3 by (simp add: abs_path_def join_with_snoc)
    moreover have "list_all plain_seg (vs @ [v @ w])" using us 3 plain_extend[OF _ assms(2,3), of v] by simp
    ultimately show ?thesis using segs_abs_path[of "vs @ [v @ w]"] by simp
  qed
qed

lemma static_root: "list_all plain_seg ws \<Longrightarrow> ws \<noteq> [] \<Longrightarrow> so_root (static_opts (abs_path ws)) = Some (abs_path ws)"
proof -
  assume ws: "list_all plain_seg ws" "ws \<noteq> []"
  have "last (abs_path ws) \<noteq> CHR ''/''"
  proof (cases ws rule: rev_cases)
    case (snoc vs v)
    then have "plain_seg v" using ws(1) by simp
    then have v: "v \<noteq> []" "last v \<noteq> CHR ''/''" using plain_segD[of v] last_in_set[of v] by metis+
    then show ?thesis using snoc by (simp add: abs_path_def join_with_snoc)
  qed (use ws in simp)
  moreover have "join_with ''/'' ws \<noteq> []"
    using ws by (cases ws rule: rev_cases) (auto simp: join_with_snoc plain_seg_def)
  ultimately show ?thesis
    using ws by (simp add: static_opts_def set_root_def path_normalize_def Let_def segs_abs_path norm_plain)
      (simp add: abs_path_def)
qed

lemma resolved_under_root:
  assumes "list_all plain_seg ws" "ws \<noteq> []" "resolve_path (static_opts (abs_path ws)) p = Inr q"
  shows "starts_with (abs_path ws) q \<and> list_all plain_seg (segs q)"
proof -
  let ?o = "static_opts (abs_path ws)"
  have root: "so_root ?o = Some (abs_path ws)" by (rule static_root[OF assms(1,2)])
  have index: "so_index ?o = ''index.html''" by (simp add: static_opts_def set_root_def)
  from assms(3) obtain d where d: "decode_uri p = Some d"
    "starts_with (abs_path ws) (path_normalize (path_join (abs_path ws) d))"
    "q = (if has_trailing_slash p then path_normalize (path_join (abs_path ws) d) @ ''index.html''
          else path_normalize (path_join (abs_path ws) d))"
    by (auto simp: resolve_path_def root index Let_def split: option.splits if_splits)
  have "is_abs (join_with ''/'' (filter (\<lambda>p. p \<noteq> []) [abs_path ws, d]))"
    by (cases "d = []") (simp_all add: is_abs_def abs_path_def)
  then obtain vs where "normal_path vs (path_join (abs_path ws) d)"
    using normalize_normal path_join_def by metis
  then obtain us where us: "normal_path us (path_normalize (path_join (abs_path ws) d))"
    using normalize_normal normal_is_abs by metis
  have "plain_seg ''index.html''" by (simp add: plain_seg_def)
  with us have "list_all plain_seg (segs q)"
    using normal_with_index[OF us] normal_segs[OF us] by (auto simp: d(3) normal_path_def)
  moreover have "starts_with (abs_path ws) q" using d(2,3) by (auto simp: starts_with_iff)
  ultimately show ?thesis by simp
qed

lemma send_pipe_file: "send_pipe fs o' p = SendFile q st \<Longrightarrow> resolve_path o' p = Inr q \<and> fs q = Inr st \<and> \<not> st_dir st"
  by (auto simp: send_pipe_def split: sum.splits if_splits)

text \<open>
  Whatever path a request names, with whatever escapes, the file that is served has a path that
  begins with the root's, holds no \<open>.\<close> or \<open>..\<close>, and is not a directory; and only \<open>GET\<close> and \<open>HEAD\<close> are served.
\<close>

theorem static_stays_below_root:
  assumes "list_all plain_seg ws" "ws \<noteq> []"
    and "static_middleware utc date media fs content now (abs_path ws) meth req path original search res = Answered b"
  shows "meth \<in> {''GET'', ''HEAD''} \<and> (\<exists>q st. fs q = Inr st \<and> \<not> st_dir st \<and> starts_with (abs_path ws) q \<and>
    (\<forall>w \<in> set (segs q). w \<noteq> ''.'' \<and> w \<noteq> ''..'') \<and>
    b = send_file utc date media now (static_opts (abs_path ws)) meth req q st (content q) res)"
proof -
  from assms(3) obtain q st where q: "send_pipe fs (static_opts (abs_path ws)) path = SendFile q st"
    "b = send_file utc date media now (static_opts (abs_path ws)) meth req q st (content q) res"
    and m: "meth \<in> {''GET'', ''HEAD''}"
    by (auto simp: static_middleware_def split: if_splits sent.splits sent_body.splits)
  from send_pipe_file[OF q(1)] have r: "resolve_path (static_opts (abs_path ws)) path = Inr q" "fs q = Inr st" "\<not> st_dir st"
    by simp_all
  from resolved_under_root[OF assms(1,2) r(1)] have "starts_with (abs_path ws) q" "\<forall>w \<in> set (segs q). plain_seg w"
    by (simp_all add: list_all_iff)
  with q(2) m r show ?thesis by (auto dest: plain_segD)
qed

definition demo_fs :: "string \<Rightarrow> string + stat" where
  "demo_fs p =
     (if p \<in> {''/app/public/js/b.js'', ''/app/public2/key'', ''/app/public/.env''}
      then Inr \<lparr>st_size = 4, st_mtime = 0, st_dir = False\<rparr> else Inl ''ENOENT'')"

definition demo_get :: "string obj \<Rightarrow> string \<Rightarrow> nat static_result" where
  "demo_get req path =
     static_middleware (\<lambda>_. ''date'') (\<lambda>_. None) (\<lambda>_. ''text'') demo_fs (\<lambda>_. [10, 20, 30, 40]) 0
       (abs_path [''app'', ''public'']) ''GET'' req path path [] fresh_res"

theorem static_stays_below_root_witness:
  "\<exists>q st b. demo_get [] ''/x/..%2fjs/b.js'' = Answered b \<and> demo_fs q = Inr st \<and>
     starts_with (abs_path [''app'', ''public'']) q"
proof -
  have "case demo_get [] ''/x/..%2fjs/b.js'' of Answered b \<Rightarrow> True | _ \<Rightarrow> False" by code_simp
  then obtain b where b: "demo_get [] ''/x/..%2fjs/b.js'' = Answered b"
    by (cases "demo_get [] ''/x/..%2fjs/b.js''") auto
  have "list_all plain_seg [''app'', ''public'']" "[''app'', ''public''] \<noteq> []" by (simp_all add: plain_seg_def)
  from static_stays_below_root[OF this b[unfolded demo_get_def], THEN conjunct2]
  obtain q st where "demo_fs q = Inr st" "starts_with (abs_path [''app'', ''public'']) q" by (elim exE conjE)
  with b show ?thesis by (intro exI conjI)
qed

section \<open>The bytes that are sent\<close>

lemma header_keys [simp]:
  "to_lower ''Content-Length'' = ''content-length''" "to_lower ''Content-Range'' = ''content-range''"
  by code_simp+

lemma status_kept [simp]:
  "hr_status (set_header k v res) = hr_status res" "hr_status (default_header k v res) = hr_status res"
  by (simp_all add: set_header_def default_header_def)

lemma send_headers_status [simp]: "hr_status (send_headers utc now o' st res) = hr_status res"
  by (simp only: send_headers_def status_kept)

lemma length_read_stream:
  "length (read_stream 0 None content) = length content"
  "a \<le> z \<Longrightarrow> z < length content \<Longrightarrow> length (read_stream a (Some z) content) = z - a + 1"
  by (simp_all add: read_stream_def)

lemma first_range:
  assumes "parse_range (int n) str = Ranges unit rs"
  shows "nat (fst (hd rs)) \<le> nat (snd (hd rs)) \<and> nat (snd (hd rs)) < n"
proof -
  have "hd rs \<in> set rs" using parse_range_nonempty[OF assms] by simp
  then have "(fst (hd rs), snd (hd rs)) \<in> set rs" by simp
  from parse_range_within[OF assms this] show ?thesis by auto
qed

lemma base_res_status [simp]: "hr_status (base_res utc media now o' path st res0) = hr_status res0"
  by (simp add: base_res_def)

text \<open>
  C32. The bytes of an answer to \<open>GET\<close> are the file, or the first range that is asked for, which lies
  inside the file; and \<open>Content-Length\<close> is their number, unless nothing is sent with status 304.
\<close>

theorem sent_bytes_fit_headers:
  assumes "send_file utc date media now o' ''GET'' req path st content res0 = Whole res body"
    and "length content = st_size st" "hr_status res0 = 200"
  shows "hr_status res = 304 \<and> body = [] \<or>
    map_of (hr_headers res) ''content-length'' = Some (show_nat (length body)) \<and>
    (hr_status res = 200 \<and> body = content \<or>
     hr_status res = 206 \<and> (\<exists>a z. a \<le> z \<and> z < length content \<and> body = take (z + 1 - a) (drop a content) \<and>
       map_of (hr_headers res) ''content-range'' =
         Some (''bytes '' @ show_nat a @ ''-'' @ show_nat z @ ''/'' @ show_nat (length content))))"
proof -
  let ?res1 = "base_res utc media now o' path st res0"
  let ?range = "header ''range'' req"
  let ?P = "is_conditional req \<and> is_cachable ?res1 \<and> fresh date req (hr_headers ?res1)"
  have whole: ?thesis if "Whole res body = full_answer ''GET'' ?res1 0 None (st_size st) content"
    using that assms(2,3) by (simp add: full_answer_def set_header_def read_stream_def)
  consider ?P | "\<not> ?P" "?range = []" | "\<not> ?P" "?range \<noteq> []" "parse_range (int (st_size st)) ?range = Malformed"
    | unit rs where "\<not> ?P" "?range \<noteq> []" "parse_range (int (st_size st)) ?range = Ranges unit rs"
    | "\<not> ?P" "?range \<noteq> []" "parse_range (int (st_size st)) ?range = Unsatisfiable"
    by (cases "parse_range (int (st_size st)) ?range") blast+
  then show ?thesis
  proof cases
    case 1
    have "res = not_modified ?res1" "body = []" using assms(1) unfolding send_file_def Let_def if_P[OF 1] by simp_all
    then show ?thesis by (simp add: not_modified_def end_with_def)
  next
    case 2
    show ?thesis
      by (rule whole) (use assms(1) in \<open>simp only: send_file_def Let_def if_not_P[OF 2(1)] if_P[OF 2(2)]\<close>)
  next
    case 3
    show ?thesis
      by (rule whole) (use assms(1) in \<open>simp only: send_file_def Let_def if_not_P[OF 3(1)] if_not_P[OF 3(2)] 3(3) ranges.case\<close>)
  next
    case (4 unit rs)
    let ?a = "nat (fst (hd rs))"
    let ?z = "nat (snd (hd rs))"
    have in_file: "?a \<le> ?z" "?z < length content" using first_range[OF 4(3)] assms(2) by auto
    have "Whole res body = full_answer ''GET'' (set_header ''Content-Range''
        (''bytes '' @ show_nat ?a @ ''-'' @ show_nat ?z @ ''/'' @ show_nat (st_size st)) (?res1\<lparr>hr_status := 206\<rparr>))
        ?a (Some ?z) (?z - ?a + 1) content"
      using assms(1) by (simp only: send_file_def Let_def if_not_P[OF 4(1)] if_not_P[OF 4(2)] 4(3) ranges.case)
    then have "hr_status res = 206" "map_of (hr_headers res) ''content-length'' = Some (show_nat (length body))"
      "map_of (hr_headers res) ''content-range'' = Some (''bytes '' @ show_nat ?a @ ''-'' @ show_nat ?z @ ''/'' @ show_nat (length content))"
      "body = take (?z + 1 - ?a) (drop ?a content)"
      using length_read_stream(2)[OF in_file] assms(2) by (simp_all add: full_answer_def set_header_def read_stream_def)
    with in_file show ?thesis by blast
  next
    case 5
    show ?thesis
      using assms(1) by (simp only: send_file_def Let_def if_not_P[OF 5(1)] if_not_P[OF 5(2)] 5(3) ranges.case sent_body.distinct)
  qed
qed

theorem sent_bytes_fit_headers_witness:
  "\<exists>res body. send_file (\<lambda>_. ''date'') (\<lambda>_. None) (\<lambda>_. ''text'') 0 (static_opts ''/app'') ''GET'' [(''range'', ''bytes=1-2'')] ''/app/f''
     \<lparr>st_size = 4, st_mtime = 0, st_dir = False\<rparr> [10, 20, 30, 40 :: nat] fresh_res = Whole res body \<and>
     length body = 2 \<and> map_of (hr_headers res) ''content-length'' = Some (show_nat (length body))"
proof -
  let ?s = "send_file (\<lambda>_. ''date'') (\<lambda>_. None) (\<lambda>_. ''text'') 0 (static_opts ''/app'') ''GET'' [(''range'', ''bytes=1-2'')] ''/app/f''
     \<lparr>st_size = 4, st_mtime = 0, st_dir = False\<rparr> [10, 20, 30, 40 :: nat] fresh_res"
  have "case ?s of Whole res body \<Rightarrow> length body = 2 \<and> hr_status res = 206 | _ \<Rightarrow> False" by code_simp
  then obtain res body where s: "?s = Whole res body" "length body = 2" "hr_status res = 206" by (cases ?s) auto
  from sent_bytes_fit_headers[OF s(1)] s(3) have "map_of (hr_headers res) ''content-length'' = Some (show_nat (length body))"
    by (auto simp: fresh_res_def)
  with s(1,2) show ?thesis by blast
qed

section \<open>What the code lets through\<close>

text \<open>
  The root's path has no slash at its end, so a directory beside it whose name continues the root's is
  served too; and an escaped dot hides from the test for hidden files.
\<close>

lemma sibling_served:
  "case demo_get [] ''/../public2/key'' of Answered (Whole res body) \<Rightarrow> body = [10, 20, 30, 40] | _ \<Rightarrow> False"
  by code_simp

lemma hidden_file_served:
  "demo_get [] ''/.env'' = Passed"
  "case demo_get [] ''/%2eenv'' of Answered (Whole res body) \<Rightarrow> body = [10, 20, 30, 40] | _ \<Rightarrow> False"
  by code_simp+

text \<open>A suffix longer than the file is refused, and the unit of a range is not looked at.\<close>

lemma long_suffix_refused: "parse_range 4 ''bytes=-10'' = Unsatisfiable"
  by code_simp

lemma unit_ignored:
  "case demo_get [(''range'', ''items=1-2'')] ''/js/b.js'' of Answered (Whole res body) \<Rightarrow> body = [20, 30] | _ \<Rightarrow> False"
  by code_simp

text \<open>A client that sends \<open>no-cache\<close> gets the file again, and the star fits every version of it.\<close>

lemma no_cache_revalidates:
  "map_of req ''cache-control'' = Some ''no-cache'' \<Longrightarrow> \<not> fresh date req res"
proof -
  have "find_sub ''no-cache'' ''no-cache'' \<noteq> None" by code_simp
  then show "map_of req ''cache-control'' = Some ''no-cache'' \<Longrightarrow> \<not> fresh date req res"
    by (simp add: fresh_def header_def Let_def)
qed

end
