(* ===== verification/Query_String.thy ===== *)
theory Query_String
  imports JS_Uri
begin

text \<open>
  The package \<open>qs\<close>: query strings and form bodies as nested objects and arrays. An array has a length
  and its properties in the order in which they were made, since an index may be left out; an object
  has no prototype while it is built, so only its own properties are found. Strings and their
  length occur as parents too: what is written to them is lost, and what they inherit leads
  outside of the result (\<open>Escapes\<close>). So does the name \<open>__proto__\<close>, on objects too: what assigning to it does
  before \<open>restoreProto\<close> puts the prototype back depends on the engine, and it never stays as a property. The
  properties of an object are listed in the order in which they were made (engines list names that are
  indices first, which moves the printed pairs and nothing else).
\<close>

section \<open>Values\<close>

datatype qs_val =
    QStr string
  | QNum nat
  | QArr nat "(string \<times> qs_val) list"
  | QObj "(string \<times> qs_val) list"

datatype 'a qs_result = Ok 'a | Throws | Escapes

definition isint :: "string \<Rightarrow> bool" where
  "isint s \<longleftrightarrow> s \<noteq> [] \<and> list_all is_digit s"

text \<open>The names that are indices of an array.\<close>

definition array_index :: "string \<Rightarrow> nat option" where
  "array_index k =
     (if isint k \<and> show_nat (digits_val 0 k) = k \<and> int (digits_val 0 k) < 2 ^ 32 - 1 then Some (digits_val 0 k) else None)"

definition array_put :: "string \<Rightarrow> qs_val \<Rightarrow> nat \<Rightarrow> (string \<times> qs_val) list \<Rightarrow> qs_val" where
  "array_put k v n ps =
     QArr (case array_index k of Some i \<Rightarrow> max n (i + 1) | None \<Rightarrow> n) (obj_set k v ps)"

definition array_push :: "qs_val \<Rightarrow> nat \<Rightarrow> (string \<times> qs_val) list \<Rightarrow> qs_val" where
  "array_push v n ps = QArr (n + 1) (obj_set (show_nat n) v ps)"

text \<open>\<open>for (i in a)\<close>: the indices in ascending order, then the other properties.\<close>

definition in_order :: "(string \<times> qs_val) list \<Rightarrow> (string \<times> qs_val) list" where
  "in_order ps =
     sort_key (\<lambda>(k, _). the (array_index k)) (filter (\<lambda>(k, _). array_index k \<noteq> None) ps) @
     filter (\<lambda>(k, _). array_index k = None) ps"

section \<open>Properties\<close>

definition object_members :: "string list" where
  "object_members =
     [''constructor'', ''__proto__'', ''toString'', ''valueOf'', ''toLocaleString'', ''hasOwnProperty'',
      ''isPrototypeOf'', ''propertyIsEnumerable'', ''__defineGetter__'', ''__defineSetter__'',
      ''__lookupGetter__'', ''__lookupSetter__'']"

definition string_members :: "string list" where
  "string_members = object_members @
     [''charAt'', ''charCodeAt'', ''concat'', ''indexOf'', ''lastIndexOf'', ''localeCompare'', ''match'', ''replace'',
      ''search'', ''slice'', ''split'', ''substr'', ''substring'', ''toLowerCase'', ''toLocaleLowerCase'', ''toUpperCase'',
      ''toLocaleUpperCase'', ''trim'', ''trimLeft'', ''trimRight'', ''anchor'', ''big'', ''blink'', ''bold'', ''fixed'',
      ''fontcolor'', ''fontsize'', ''italics'', ''link'', ''small'', ''strike'', ''sub'', ''sup'']"

definition number_members :: "string list" where
  "number_members = object_members @ [''toFixed'', ''toExponential'', ''toPrecision'']"

datatype looked_up = Missing | Found qs_val | Inherited

fun get_prop :: "qs_val \<Rightarrow> string \<Rightarrow> looked_up" where
  "get_prop (QObj ps) k = (case map_of ps k of Some v \<Rightarrow> Found v | None \<Rightarrow> Missing)"
| "get_prop (QArr n ps) k = (case map_of ps k of Some v \<Rightarrow> Found v | None \<Rightarrow> Missing)"
| "get_prop (QStr s) k =
     (if k = ''length'' then Found (QNum (length s))
      else if k \<in> set string_members then Inherited
      else
        (case array_index k of
           Some i \<Rightarrow> if i < length s then Found (QStr [s ! i]) else Missing
         | None \<Rightarrow> Missing))"
| "get_prop (QNum m) k = (if k \<in> set number_members then Inherited else Missing)"

fun put_prop :: "string \<Rightarrow> qs_val \<Rightarrow> qs_val \<Rightarrow> qs_val" where
  "put_prop k v (QObj ps) = QObj (obj_set k v ps)"
| "put_prop k v (QArr n ps) = array_put k v n ps"
| "put_prop k v p = p"

definition falsy :: "qs_val \<Rightarrow> bool" where
  "falsy v \<longleftrightarrow> v = QStr [] \<or> v = QNum 0"

fun is_primitive :: "qs_val \<Rightarrow> bool" where
  "is_primitive (QStr s) = True"
| "is_primitive (QNum n) = True"
| "is_primitive v = False"

section \<open>parse\<close>

definition pair_of :: "qs_val \<Rightarrow> qs_val \<Rightarrow> qs_val" where
  "pair_of a b = QArr 2 [(''0'', a), (''1'', b)]"

definition put_end :: "qs_val \<Rightarrow> string \<Rightarrow> string \<Rightarrow> qs_val" where
  "put_end parent key val =
     (case get_prop parent key of
        Found (QArr n ps) \<Rightarrow> put_prop key (array_push (QStr val) n ps) parent
      | Found (QObj ps) \<Rightarrow> put_prop key (QStr val) parent
      | Found v \<Rightarrow> put_prop key (pair_of v (QStr val)) parent
      | Missing \<Rightarrow> put_prop key (QStr val) parent
      | Inherited \<Rightarrow> parent)"

text \<open>\<open>promote\<close>: an array with a property that is no number becomes an object.\<close>

definition promote :: "nat \<Rightarrow> (string \<times> qs_val) list \<Rightarrow> qs_val" where
  "promote n ps = QObj (if n = 0 then [] else in_order ps)"

fun map_result :: "('a \<Rightarrow> 'b) \<Rightarrow> 'a qs_result \<Rightarrow> 'b qs_result" where
  "map_result f (Ok v) = Ok (f v)"
| "map_result f Throws = Throws"
| "map_result f Escapes = Escapes"

text \<open>
  \<open>parse\<close> returns the parent as it is afterwards. A part is what stands between two opening brackets of
  the name. An array that was only made for a primitive parent is not found again by \<open>promote\<close>.
\<close>

fun parse_parts :: "string list \<Rightarrow> qs_val \<Rightarrow> string \<Rightarrow> string \<Rightarrow> qs_val qs_result" where
  "parse_parts [] parent key val = Ok (put_end parent key val)"
| "parse_parts (part # parts) parent key val =
     (if part = [] then Ok (put_end parent key val)
      else
        (case get_prop parent key of
           Inherited \<Rightarrow> Escapes
         | found \<Rightarrow>
             let obj = (case found of Found v \<Rightarrow> if falsy v then QArr 0 [] else v | _ \<Rightarrow> QArr 0 []) in
             if part = '']'' then
               Ok (case obj of
                     QArr n ps \<Rightarrow> put_prop key (if val \<noteq> [] then array_push (QStr val) n ps else obj) parent
                   | QObj ps \<Rightarrow> put_prop key (QObj (obj_set (show_nat (length ps)) (QStr val) ps)) parent
                   | _ \<Rightarrow> put_prop key (pair_of obj (QStr val)) parent)
             else
               let name = (if CHR '']'' \<in> set part then butlast part else part) in
               (case obj of
                  QArr n ps \<Rightarrow>
                    if isint name then map_result (\<lambda>ob. put_prop key ob parent) (parse_parts parts obj name val)
                    else if is_primitive parent then Throws
                    else map_result (\<lambda>ob. put_prop key ob parent) (parse_parts parts (promote n ps) name val)
                | _ \<Rightarrow> map_result (\<lambda>ob. put_prop key ob parent) (parse_parts parts obj name val))))"

definition set_prop :: "qs_val \<Rightarrow> string \<Rightarrow> string \<Rightarrow> qs_val" where
  "set_prop ob key val =
     (case get_prop ob key of
        Missing \<Rightarrow> put_prop key (QStr val) ob
      | Found (QArr n ps) \<Rightarrow> put_prop key (array_push (QStr val) n ps) ob
      | Found v \<Rightarrow> put_prop key (pair_of v (QStr val)) ob
      | Inherited \<Rightarrow> ob)"

text \<open>
  \<open>merge\<close> on the property \<open>base\<close> of its parent. A key is looked up under the name of each of its parts,
  without its last letter when there is a closing bracket in it.
\<close>

definition part_name :: "string \<Rightarrow> string" where
  "part_name part = (if CHR '']'' \<in> set part then butlast part else part)"

definition names_proto :: "string \<Rightarrow> bool" where
  "names_proto key \<longleftrightarrow>
     (if CHR '']'' \<in> set key then ''__proto__'' \<in> part_name ` set (split_on CHR ''['' key) else key = ''__proto__'')"

definition merge_pair :: "qs_val \<Rightarrow> string \<Rightarrow> string \<Rightarrow> qs_val qs_result" where
  "merge_pair base key val =
     (if names_proto key then Escapes
      else if CHR '']'' \<in> set key then
        map_result (\<lambda>r. case get_prop r ''base'' of Found b \<Rightarrow> b | _ \<Rightarrow> base)
          (parse_parts (split_on CHR ''['' key) (QObj [(''base'', base)]) ''base'' val)
      else
        let base1 = (case base of QArr n ps \<Rightarrow> if isint key then base else QObj (in_order ps) | _ \<Rightarrow> base)
        in Ok (set_prop base1 key val))"

section \<open>compact\<close>

fun renumber :: "nat \<Rightarrow> qs_val list \<Rightarrow> (string \<times> qs_val) list" where
  "renumber i [] = []"
| "renumber i (v # vs) = (show_nat i, v) # renumber (i + 1) vs"

fun compact :: "qs_val \<Rightarrow> qs_val" where
  "compact (QArr n ps) = QArr (length ps) (renumber 0 (map snd (in_order ps)))"
| "compact (QObj ps) = QObj (map (\<lambda>(k, v). (k, compact v)) ps)"
| "compact v = v"

section \<open>Strings\<close>

definition decode_part :: "string \<Rightarrow> string" where
  "decode_part s =
     (case decode_uri (map (\<lambda>c. if c = CHR ''+'' then CHR '' '' else c) s) of Some d \<Rightarrow> d | None \<Rightarrow> s)"

text \<open>The first \<open>=\<close> that is not between brackets.\<close>

fun last_brace_in_key :: "bool \<Rightarrow> nat \<Rightarrow> string \<Rightarrow> nat option" where
  "last_brace_in_key brace i [] = None"
| "last_brace_in_key brace i (c # s) =
     (let brace' = (if c = CHR '']'' then False else if c = CHR ''['' then True else brace)
      in if c = CHR ''='' \<and> \<not> brace' then Some i else last_brace_in_key brace' (i + 1) s)"

definition split_pair :: "string \<Rightarrow> string \<times> string" where
  "split_pair pair =
     (let at = (case last_brace_in_key False 0 pair of
                  Some n \<Rightarrow> if n = 0 then find_sub ''='' pair else Some n
                | None \<Rightarrow> find_sub ''='' pair)
      in case at of
           None \<Rightarrow> (pair, [])
         | Some n \<Rightarrow> if n = 0 then (pair, []) else (take n pair, drop (n + 1) pair))"

fun merge_pairs :: "string list \<Rightarrow> qs_val \<Rightarrow> qs_val qs_result" where
  "merge_pairs [] base = Ok base"
| "merge_pairs (pair # pairs) base =
     (if pair = [] then merge_pairs pairs base
      else
        (case merge_pair base (decode_part (fst (split_pair pair))) (decode_part (snd (split_pair pair))) of
           Ok b \<Rightarrow> merge_pairs pairs b
         | Throws \<Rightarrow> Throws
         | Escapes \<Rightarrow> Escapes))"

definition parse_string :: "string \<Rightarrow> qs_val qs_result" where
  "parse_string str = map_result compact (merge_pairs (split_on CHR ''&'' str) (QObj []))"

definition qs_parse :: "string \<Rightarrow> qs_val qs_result" where
  "qs_parse str = (if str = [] then Ok (QObj []) else parse_string str)"

section \<open>qs_stringify\<close>

lemma size_member: "(k, v) \<in> set ps \<Longrightarrow> size (v :: qs_val) < Suc (size_list (size_prod (\<lambda>_. 0) size) ps)"
  by (induction ps) auto

function stringify_at :: "string \<Rightarrow> qs_val \<Rightarrow> string" where
  "stringify_at prefix (QStr s) = prefix @ ''='' @ encode_uri s"
| "stringify_at prefix (QNum n) = prefix @ ''='' @ show_nat n"
| "stringify_at prefix (QArr n ps) =
     join_with ''&'' (map (\<lambda>i. case map_of ps (show_nat i) of
         Some v \<Rightarrow> stringify_at (prefix @ ''['' @ show_nat i @ '']'') v
       | None \<Rightarrow> prefix @ ''['' @ show_nat i @ '']=undefined'') [0..<n])"
| "stringify_at prefix (QObj ps) =
     join_with ''&'' (map (\<lambda>(k, v). stringify_at (prefix @ ''['' @ encode_uri k @ '']'') v)
       (filter (\<lambda>(k, v). k \<noteq> []) ps))"
  by pat_completeness auto

termination
proof (relation "measure (size \<circ> snd)")
  show "wf (measure (size \<circ> snd))" by simp
next
  fix prefix :: string and n x v and ps :: "(string \<times> qs_val) list"
  assume "map_of ps (show_nat x) = Some v"
  then have "(show_nat x, v) \<in> set ps" by (rule map_of_SomeD)
  from size_member[OF this] show "((prefix @ ''['' @ show_nat x @ '']'', v), prefix, QArr n ps) \<in> measure (size \<circ> snd)"
    by simp
next
  fix prefix :: string and z k v and ps :: "(string \<times> qs_val) list"
  assume "z \<in> set (filter (\<lambda>(k, v). k \<noteq> []) ps)" "(k, v) = z"
  then have "(k, v) \<in> set ps" by auto
  from size_member[OF this] show "((prefix @ ''['' @ encode_uri k @ '']'', v), prefix, QObj ps) \<in> measure (size \<circ> snd)"
    by simp
qed

text \<open>A string or an array needs a name: the function throws then.\<close>

definition qs_stringify :: "qs_val \<Rightarrow> string option" where
  "qs_stringify v =
     (case v of
        QObj ps \<Rightarrow> Some (join_with ''&'' (map (\<lambda>(k, v). stringify_at (encode_uri k) v) (filter (\<lambda>(k, v). k \<noteq> []) ps)))
      | QNum n \<Rightarrow> Some (''undefined='' @ show_nat n)
      | _ \<Rightarrow> None)"

section \<open>Paths\<close>

text \<open>A value as its leaves with their paths, in the order in which they are printed.\<close>

fun leaves :: "qs_val \<Rightarrow> (string list \<times> string) list" where
  "leaves (QStr s) = [([], s)]"
| "leaves (QNum n) = []"
| "leaves (QArr n ps) = concat (map (\<lambda>(k, v). map (\<lambda>(path, s). (k # path, s)) (leaves v)) ps)"
| "leaves (QObj ps) = concat (map (\<lambda>(k, v). map (\<lambda>(path, s). (k # path, s)) (leaves v)) ps)"

text \<open>
  The values that survive: strings, and non-empty objects and arrays of them, whose keys are not empty,
  no numbers, not \<open>__proto__\<close> and without brackets.
\<close>

definition key_ok :: "string \<Rightarrow> bool" where
  "key_ok k \<longleftrightarrow> k \<noteq> [] \<and> k \<noteq> ''__proto__'' \<and> \<not> isint k \<and> CHR ''['' \<notin> set k \<and> CHR '']'' \<notin> set k"

fun qs_ok :: "qs_val \<Rightarrow> bool" where
  "qs_ok (QStr s) = True"
| "qs_ok (QNum n) = False"
| "qs_ok (QArr n ps) \<longleftrightarrow> ps \<noteq> [] \<and> n = length ps \<and> int n < 2 ^ 32 - 1 \<and> map fst ps = map show_nat [0..<n] \<and> (\<forall>(k, v) \<in> set ps. qs_ok v)"
| "qs_ok (QObj ps) \<longleftrightarrow> ps \<noteq> [] \<and> distinct (map fst ps) \<and> (\<forall>(k, v) \<in> set ps. key_ok k \<and> qs_ok v)"

lemma leaves_nonempty: "qs_ok v \<Longrightarrow> leaves v \<noteq> []"
proof (induction v rule: leaves.induct)
  case (3 n ps)
  then obtain k v where "(k, v) \<in> set ps" by (metis list.set_intros(1) neq_Nil_conv qs_ok.simps(3) surj_pair)
  with 3 show ?case by fastforce
next
  case (4 ps)
  then obtain k v where "(k, v) \<in> set ps" by (metis list.set_intros(1) neq_Nil_conv qs_ok.simps(4) surj_pair)
  with 4 show ?case by fastforce
qed simp_all

subsection \<open>Inserting the leaves of a value gives the value\<close>

definition insert_leaf :: "string list \<Rightarrow> qs_val \<Rightarrow> string \<Rightarrow> string \<Rightarrow> qs_val qs_result" where
  "insert_leaf path parent k s = parse_parts (map (\<lambda>x. x @ '']'') path) parent k s"

fun insert_all :: "string \<Rightarrow> (string list \<times> string) list \<Rightarrow> qs_val \<Rightarrow> qs_val qs_result" where
  "insert_all k [] parent = Ok parent"
| "insert_all k ((path, s) # r) parent =
     (case insert_leaf path parent k s of Ok p \<Rightarrow> insert_all k r p | Throws \<Rightarrow> Throws | Escapes \<Rightarrow> Escapes)"

lemma insert_all_append:
  "insert_all k (xs @ ys) p = (case insert_all k xs p of Ok q \<Rightarrow> insert_all k ys q | Throws \<Rightarrow> Throws | Escapes \<Rightarrow> Escapes)"
  by (induction k xs p rule: insert_all.induct) (auto split: qs_result.split)

lemma map_result_Ok: "map_result f r = Ok x \<longleftrightarrow> (\<exists>y. r = Ok y \<and> x = f y)"
  by (cases r) auto

text \<open>Both kinds of containers stay what they are.\<close>

fun same_kind :: "qs_val \<Rightarrow> qs_val \<Rightarrow> bool" where
  "same_kind (QObj _) (QObj _) = True"
| "same_kind (QArr _ _) (QArr _ _) = True"
| "same_kind _ _ = False"

lemma put_prop_kind: "same_kind p p \<Longrightarrow> same_kind p (put_prop k v p)"
  by (cases p) (simp_all add: array_put_def)

lemma put_prop_get: "same_kind p p \<Longrightarrow> get_prop (put_prop k v p) k = Found v"
  by (cases p) (simp_all add: array_put_def)

lemma obj_set_twice: "obj_set k v (obj_set k w ps) = obj_set k v ps"
  by (induction ps) auto

lemma put_prop_twice: "put_prop k v (put_prop k w p) = put_prop k v p"
  by (cases p) (auto simp: array_put_def obj_set_twice max.assoc split: option.split)

lemma insert_leaf_kind:
  assumes "insert_leaf path parent k s = Ok p" "same_kind parent parent"
  shows "same_kind parent p"
proof (cases path)
  case Nil
  then show ?thesis using assms put_prop_kind[OF assms(2)]
    by (auto simp: insert_leaf_def put_end_def split: looked_up.splits qs_val.splits)
next
  case (Cons x xs)
  then show ?thesis using assms put_prop_kind[OF assms(2)]
    by (auto simp: insert_leaf_def Let_def map_result_Ok split: looked_up.splits qs_val.splits if_splits)
qed

text \<open>A step into a container, which is made when it is missing.\<close>

lemma step_into:
  assumes "same_kind parent parent" "x \<noteq> []" "CHR '']'' \<notin> set x"
    and "get_prop parent k = Found c \<or> get_prop parent k = Missing \<and> c = (if isint x then QArr 0 [] else QObj [])"
    and "(\<exists>ps. c = QObj ps) \<or> (\<exists>n ps. c = QArr n ps) \<and> isint x"
  shows "insert_leaf (x # path) parent k s = map_result (\<lambda>ob. put_prop k ob parent) (insert_leaf path c x s)"
proof -
  have n: "x @ '']'' \<noteq> '']''" "butlast (x @ '']'') = x" using assms(2) by (auto simp: butlast_append)
  have p: "\<not> is_primitive parent" using assms(1) by (cases parent) auto
  show ?thesis
    using assms(4,5) n p
    by (auto simp: insert_leaf_def Let_def falsy_def promote_def split: looked_up.splits)
qed

lemma descend:
  assumes "same_kind parent parent" "x \<noteq> []" "CHR '']'' \<notin> set x" "xs \<noteq> []"
    and "get_prop parent k = Found c \<or> get_prop parent k = Missing \<and> c = (if isint x then QArr 0 [] else QObj [])"
    and "(\<exists>ps. c = QObj ps) \<or> (\<exists>n ps. c = QArr n ps) \<and> isint x"
  shows "insert_all k (map (\<lambda>(path, s). (x # path, s)) xs) parent =
    map_result (\<lambda>ob. put_prop k ob parent) (insert_all x xs c)"
  using assms
proof (induction xs arbitrary: parent c)
  case (Cons y xs)
  obtain path s where y: "y = (path, s)" by (cases y)
  have step: "insert_leaf (x # path) parent k s = map_result (\<lambda>ob. put_prop k ob parent) (insert_leaf path c x s)"
    by (rule step_into) (use Cons.prems in auto)
  show ?case
  proof (cases "insert_leaf path c x s")
    case (Ok c')
    have c: "same_kind c c" using Cons.prems(6) by auto
    have kind: "same_kind c c'" by (rule insert_leaf_kind[OF Ok c])
    show ?thesis
    proof (cases "xs = []")
      case True
      then show ?thesis using y step Ok by simp
    next
      case False
      have "insert_all k (map (\<lambda>(path, s). (x # path, s)) xs) (put_prop k c' parent) =
          map_result (\<lambda>ob. put_prop k ob (put_prop k c' parent)) (insert_all x xs c')"
      proof (rule Cons.IH)
        show "same_kind (put_prop k c' parent) (put_prop k c' parent)"
          using put_prop_kind[OF Cons.prems(1), of k c'] by (cases parent; cases "put_prop k c' parent") simp_all
        show "get_prop (put_prop k c' parent) k = Found c' \<or>
            get_prop (put_prop k c' parent) k = Missing \<and> c' = (if isint x then QArr 0 [] else QObj [])"
          using put_prop_get[OF Cons.prems(1)] by simp
        show "(\<exists>ps. c' = QObj ps) \<or> (\<exists>n ps. c' = QArr n ps) \<and> isint x"
          using kind Cons.prems(6) by (cases c') auto
      qed (use Cons.prems False in simp_all)
      then show ?thesis using y step Ok by (simp add: put_prop_twice)
    qed
  qed (use y step in simp_all)
qed simp

text \<open>
  The entries of a container, one after the other. \<open>mk\<close> makes the container from its entries so far.
\<close>

lemma insert_entries:
  assumes "same_kind parent parent"
    and "\<And>pre x v post. ps = pre @ (x, v) # post \<Longrightarrow>
      put_prop x v (mk pre) = mk (pre @ [(x, v)]) \<and> same_kind (mk pre) (mk pre) \<and>
      get_prop (mk pre) x = Missing \<and> x \<noteq> [] \<and> CHR '']'' \<notin> set x \<and> leaves v \<noteq> [] \<and>
      ((\<exists>qs. mk pre = QObj qs) \<or> (\<exists>n qs. mk pre = QArr n qs) \<and> isint x) \<and>
      mk [] = (if isint x then QArr 0 [] else QObj [])"
    and "\<And>x v parent. (x, v) \<in> set ps \<Longrightarrow> same_kind parent parent \<Longrightarrow> get_prop parent x = Missing \<Longrightarrow>
      insert_all x (leaves v) parent = Ok (put_prop x v parent)"
    and "get_prop parent k = Missing" "ps \<noteq> []"
  shows "insert_all k (concat (map (\<lambda>(x, v). map (\<lambda>(path, s). (x # path, s)) (leaves v)) ps)) parent = Ok (put_prop k (mk ps) parent)"
proof -
  let ?f = "\<lambda>(x, v). map (\<lambda>(path, s). (x # path, s)) (leaves v)"
  have one: "insert_all k (?f (x, v)) p = Ok (put_prop k (mk (pre @ [(x, v)])) parent)"
    if "ps = pre @ (x, v) # post" "p = parent \<and> pre = [] \<or> p = put_prop k (mk pre) parent" for pre x v post p
  proof -
    note e = assms(2)[OF that(1)]
    have kind: "same_kind p p"
      using that(2) assms(1) put_prop_kind[OF assms(1), of k "mk pre"]
      by (auto; cases parent; cases "put_prop k (mk pre) parent"; simp)
    have get: "get_prop p k = Found (mk pre) \<or> get_prop p k = Missing \<and> mk pre = (if isint x then QArr 0 [] else QObj [])"
      using that(2) assms(4) e put_prop_get[OF assms(1)] by auto
    have "insert_all x (leaves v) (mk pre) = Ok (put_prop x v (mk pre))"
      by (rule assms(3)) (use that(1) e in auto)
    then have "insert_all k (?f (x, v)) p = Ok (put_prop k (mk (pre @ [(x, v)])) p)"
      using descend[OF kind _ _ _ get] e by simp
    then show ?thesis using that(2) by (auto simp: put_prop_twice)
  qed
  have more: "insert_all k (concat (map ?f post)) (put_prop k (mk pre) parent) = Ok (put_prop k (mk ps) parent)"
    if "ps = pre @ post" for pre post
    using that
  proof (induction post arbitrary: pre)
    case (Cons y post)
    obtain x v where y: "y = (x, v)" by (cases y)
    then show ?case
      using one[of pre x v post "put_prop k (mk pre) parent"] Cons.IH[of "pre @ [(x, v)]"] Cons.prems
      by (simp add: insert_all_append)
  qed simp
  obtain x v post where ps: "ps = [] @ (x, v) # post" using assms(5) by (cases ps) auto
  show ?thesis
    using one[OF ps, of parent] more[of "[(x, v)]" post] ps by (simp add: insert_all_append)
qed

lemma obj_set_new: "k \<notin> fst ` set ps \<Longrightarrow> obj_set k v ps = ps @ [(k, v)]"
  by (induction ps) auto

lemma map_of_new: "k \<notin> fst ` set ps \<Longrightarrow> map_of ps k = None"
  by (simp add: map_of_eq_None_iff)

lemma isint_show_nat [simp]: "isint (show_nat i)"
  using show_nat_digits[of i] by (simp add: isint_def list_all_iff)

lemma array_index_show_nat [simp]: "int i < 2 ^ 32 - 1 \<Longrightarrow> array_index (show_nat i) = Some i"
  by (simp add: array_index_def digits_val_show_nat)

lemma show_nat_plain: "CHR '']'' \<notin> set (show_nat i)" "CHR ''['' \<notin> set (show_nat i)"
  using show_nat_digits[of i] by (auto simp: is_digit_def)

lemma show_nat_inj: "show_nat i = show_nat j \<longleftrightarrow> i = j"
  by (metis digits_val_show_nat)

lemma insert_leaves:
  "qs_ok v \<Longrightarrow> same_kind parent parent \<Longrightarrow> get_prop parent k = Missing \<Longrightarrow>
   insert_all k (leaves v) parent = Ok (put_prop k v parent)"
proof (induction v arbitrary: parent k rule: leaves.induct)
  case (1 s)
  then show ?case by (simp add: insert_leaf_def put_end_def)
next
  case (3 n ps)
  have ps: "ps \<noteq> []" "n = length ps" "int n < 2 ^ 32 - 1" "map fst ps = map show_nat [0..<n]" "\<forall>(k, v) \<in> set ps. qs_ok v"
    using "3.prems"(1) by auto
  have "insert_all k (leaves (QArr n ps)) parent = Ok (put_prop k ((\<lambda>qs. QArr (length qs) qs) ps) parent)"
    unfolding leaves.simps
  proof (rule insert_entries[where mk = "\<lambda>qs. QArr (length qs) qs"])
    fix pre x v post
    assume e: "ps = pre @ (x, v) # post"
    have x: "x = show_nat (length pre)" and pre: "fst ` set pre = show_nat ` {0..<length pre}"
    proof -
      have l: "length pre < n" using e ps(2) by simp
      have "map fst ps ! length pre = show_nat (length pre)" unfolding ps(4) using l by simp
      then show "x = show_nat (length pre)" using e by (simp add: nth_append del: show_nat.simps)
      have "map fst pre = take (length pre) (map fst ps)" using e by simp
      also have "\<dots> = map show_nat [0..<length pre]" unfolding ps(4) using l by (simp add: take_map)
      finally show "fst ` set pre = show_nat ` {0..<length pre}" by (metis list.set_map set_upt)
    qed
    have new: "x \<notin> fst ` set pre" using x pre by (auto simp: show_nat_inj)
    have l: "int (length pre) < 2 ^ 32 - 1" using e ps(2,3) by simp
    have "leaves v \<noteq> []" using ps(5) e leaves_nonempty by auto
    then show "put_prop x v (QArr (length pre) pre) = QArr (length (pre @ [(x, v)])) (pre @ [(x, v)]) \<and>
        same_kind (QArr (length pre) pre) (QArr (length pre) pre) \<and> get_prop (QArr (length pre) pre) x = Missing \<and>
        x \<noteq> [] \<and> CHR '']'' \<notin> set x \<and> leaves v \<noteq> [] \<and>
        ((\<exists>qs. QArr (length pre) pre = QObj qs) \<or> (\<exists>n qs. QArr (length pre) pre = QArr n qs) \<and> isint x) \<and>
        QArr (length []) [] = (if isint x then QArr 0 [] else QObj [])"
      using new l by (simp add: x array_put_def obj_set_new map_of_new show_nat_plain del: show_nat.simps)
  next
    fix x v and parent :: qs_val
    assume "(x, v) \<in> set ps" "same_kind parent parent" "get_prop parent x = Missing"
    then show "insert_all x (leaves v) parent = Ok (put_prop x v parent)"
      using "3.IH" ps(5) by fastforce
  qed (use "3.prems" ps in auto)
  then show ?case using ps(2) by simp
next
  case (4 ps)
  have ps: "ps \<noteq> []" "distinct (map fst ps)" "\<forall>(k, v) \<in> set ps. key_ok k \<and> qs_ok v"
    using "4.prems"(1) by auto
  show ?case
    unfolding leaves.simps
  proof (rule insert_entries[where mk = QObj])
    fix pre x v post
    assume e: "ps = pre @ (x, v) # post"
    have new: "x \<notin> fst ` set pre" using e ps(2) by auto
    have "key_ok x" "leaves v \<noteq> []" using ps(3) e leaves_nonempty by auto
    then show "put_prop x v (QObj pre) = QObj (pre @ [(x, v)]) \<and>
        same_kind (QObj pre) (QObj pre) \<and> get_prop (QObj pre) x = Missing \<and>
        x \<noteq> [] \<and> CHR '']'' \<notin> set x \<and> leaves v \<noteq> [] \<and>
        ((\<exists>qs. QObj pre = QObj qs) \<or> (\<exists>n qs. QObj pre = QArr n qs) \<and> isint x) \<and>
        QObj [] = (if isint x then QArr 0 [] else QObj [])"
      using new by (simp add: key_ok_def obj_set_new map_of_new)
  next
    fix x v and parent :: qs_val
    assume "(x, v) \<in> set ps" "same_kind parent parent" "get_prop parent x = Missing"
    then show "insert_all x (leaves v) parent = Ok (put_prop x v parent)"
      using "4.IH" ps(3) by fastforce
  qed (use "4.prems" ps in auto)
qed simp

subsection \<open>The text of a value\<close>

definition in_brackets :: "(string \<Rightarrow> string) \<Rightarrow> string list \<Rightarrow> string" where
  "in_brackets f path = concat (map (\<lambda>x. ''['' @ f x @ '']'') path)"

definition leaf_text :: "string \<Rightarrow> string list \<times> string \<Rightarrow> string" where
  "leaf_text prefix l = prefix @ in_brackets encode_uri (fst l) @ ''='' @ encode_uri (snd l)"

lemma in_brackets_simps [simp]:
  "in_brackets f [] = []" "in_brackets f (x # xs) = CHR ''['' # f x @ CHR '']'' # in_brackets f xs"
  by (simp_all add: in_brackets_def)

lemma join_with_concat:
  "(\<And>xs. xs \<in> set xss \<Longrightarrow> xs \<noteq> []) \<Longrightarrow> join_with s (map (join_with s) xss) = join_with s (concat xss)"
proof (induction xss)
  case (Cons xs xss)
  have app: "ys \<noteq> [] \<Longrightarrow> zs \<noteq> [] \<Longrightarrow> join_with s (ys @ zs) = join_with s ys @ s @ join_with s zs" for ys zs
  proof (induction ys)
    case (Cons a ys)
    then show ?case by (cases "ys = []") (simp_all add: join_with_Cons)
  qed simp
  show ?case
  proof (cases "xss = []")
    case False
    then have "concat xss \<noteq> []" using Cons.prems by (metis concat_eq_Nil_conv list.set_intros list.set_sel(1))
    then show ?thesis using Cons False app[of xs "concat xss"] by (simp add: join_with_Cons)
  qed simp
qed simp

lemma unreserved_digit: "is_digit c \<Longrightarrow> unreserved c"
  by (simp add: unreserved_def)

lemma encode_show_nat [simp]: "encode_uri (show_nat i) = show_nat i"
proof -
  have "\<forall>c \<in> set s. is_digit c \<Longrightarrow> encode_uri s = s" for s
    by (induction s) (auto simp: encode_uri_def encode_char_def unreserved_digit)
  then show ?thesis using show_nat_digits by blast
qed

lemma stringify_leaves: "qs_ok v \<Longrightarrow> stringify_at p v = join_with ''&'' (map (leaf_text p) (leaves v))"
proof (induction p v rule: stringify_at.induct)
  case (3 p n ps)
  have ps: "ps \<noteq> []" "map fst ps = map show_nat [0..<n]" "\<forall>(k, v) \<in> set ps. qs_ok v" "n = length ps"
    using "3.prems" by auto
  have dist: "distinct (map fst ps)" unfolding ps(2) by (simp add: distinct_map inj_on_def show_nat_inj)
  have at: "ps ! i = (show_nat i, snd (ps ! i))" "map_of ps (show_nat i) = Some (snd (ps ! i))" if "i < n" for i
  proof -
    have "fst (ps ! i) = map fst ps ! i" using that ps(4) by simp
    also have "\<dots> = show_nat i" unfolding ps(2) using that by simp
    finally show *: "ps ! i = (show_nat i, snd (ps ! i))" by (metis prod.collapse)
    then have "(show_nat i, snd (ps ! i)) \<in> set ps" using that ps(4) nth_mem by metis
    then show "map_of ps (show_nat i) = Some (snd (ps ! i))" by (rule map_of_is_SomeI[OF dist])
  qed
  let ?t = "\<lambda>(k, v). map (leaf_text p) (map (\<lambda>(path, s). (k # path, s)) (leaves v))"
  have one: "(case map_of ps (show_nat i) of
         Some v \<Rightarrow> stringify_at (p @ ''['' @ show_nat i @ '']'') v
       | None \<Rightarrow> p @ ''['' @ show_nat i @ '']=undefined'') = join_with ''&'' (?t (ps ! i))" if i: "i < n" for i
  proof -
    obtain v where v: "ps ! i = (show_nat i, v)" "map_of ps (show_nat i) = Some v" using at[OF i] by blast
    then have "qs_ok v" using ps(3,4) i nth_mem[of i ps] by auto
    then have "stringify_at (p @ ''['' @ show_nat i @ '']'') v =
        join_with ''&'' (map (leaf_text (p @ ''['' @ show_nat i @ '']'')) (leaves v))"
      using "3.IH"[of i v] i v(2) by simp
    also have "map (leaf_text (p @ ''['' @ show_nat i @ '']'')) (leaves v) = ?t (show_nat i, v)"
      by (simp add: leaf_text_def case_prod_beta del: show_nat.simps)
    finally show ?thesis using v by simp
  qed
  have "stringify_at p (QArr n ps) = join_with ''&'' (map (\<lambda>i. join_with ''&'' (?t (ps ! i))) [0..<n])"
    unfolding stringify_at.simps by (intro arg_cong[where f = "join_with ''&''"] map_cong refl one) simp
  also have "map (\<lambda>i. join_with ''&'' (?t (ps ! i))) [0..<n] = map (join_with ''&'') (map ?t ps)"
    unfolding ps(4) by (rule nth_equalityI) simp_all
  also have "join_with ''&'' \<dots> = join_with ''&'' (concat (map ?t ps))"
    by (rule join_with_concat) (use ps(3) leaves_nonempty in fastforce)
  also have "concat (map ?t ps) = map (leaf_text p) (leaves (QArr n ps))"
    by (simp add: map_concat comp_def case_prod_unfold)
  finally show ?case .
next
  case (4 p ps)
  have ps: "\<forall>(k, v) \<in> set ps. key_ok k \<and> qs_ok v" using "4.prems" by auto
  let ?t = "\<lambda>(k, v). map (leaf_text p) (map (\<lambda>(path, s). (k # path, s)) (leaves v))"
  have all: "filter (\<lambda>(k, v). k \<noteq> []) ps = ps" using ps by (auto simp: filter_id_conv key_ok_def)
  have one: "stringify_at (p @ ''['' @ encode_uri k @ '']'') v = join_with ''&'' (?t (k, v))" if "(k, v) \<in> set ps" for k v
  proof -
    have "stringify_at (p @ ''['' @ encode_uri k @ '']'') v = join_with ''&'' (map (leaf_text (p @ ''['' @ encode_uri k @ '']'')) (leaves v))"
      by (rule "4.IH"[of "(k, v)"]) (use that all ps in auto)
    also have "map (leaf_text (p @ ''['' @ encode_uri k @ '']'')) (leaves v) = ?t (k, v)"
      by (simp add: leaf_text_def case_prod_beta)
    finally show ?thesis .
  qed
  have "stringify_at p (QObj ps) = join_with ''&'' (map (join_with ''&'') (map ?t ps))"
    unfolding stringify_at.simps all map_map comp_def
    by (intro arg_cong[where f = "join_with ''&''"] map_cong refl) (use one in \<open>auto simp: comp_def\<close>)
  also have "\<dots> = join_with ''&'' (concat (map ?t ps))"
    by (rule join_with_concat) (use ps leaves_nonempty in fastforce)
  also have "concat (map ?t ps) = map (leaf_text p) (leaves (QObj ps))"
    by (simp add: map_concat comp_def case_prod_unfold)
  finally show ?case .
qed (simp_all add: leaf_text_def)

subsection \<open>Reading it back\<close>

definition encoded_char :: "char \<Rightarrow> bool" where
  "encoded_char c \<longleftrightarrow> unreserved c \<or> c = CHR ''%''"

lemma encoded_chars: "c \<in> set (encode_uri s) \<Longrightarrow> encoded_char c"
  using encode_uri_safe by (simp add: encoded_char_def)

lemma encoded_char_no [simp]:
  "\<not> encoded_char CHR ''&''" "\<not> encoded_char CHR ''=''" "\<not> encoded_char CHR ''[''" "\<not> encoded_char CHR '']''"
  "\<not> encoded_char CHR ''+''"
  by (simp_all add: encoded_char_def unreserved_def is_upper_def is_lower_def is_digit_def)

lemma encode_uri_has_no: "\<not> encoded_char c \<Longrightarrow> c \<notin> set (encode_uri s)"
  using encoded_chars by blast

lemma encode_uri_nonempty: "s \<noteq> [] \<Longrightarrow> encode_uri s \<noteq> []"
  by (cases s) (auto simp: encode_uri_def encode_char_def percent_def Let_def)

lemma in_brackets_chars:
  "c \<in> set (in_brackets encode_uri path) \<Longrightarrow> encoded_char c \<or> c = CHR ''['' \<or> c = CHR '']''"
  by (induction path) (auto dest: encoded_chars)

lemma brace_skip:
  "CHR ''='' \<notin> set t \<Longrightarrow>
   \<exists>b'. last_brace_in_key b i (t @ r) = last_brace_in_key b' (i + length t) r \<and>
     (CHR ''['' \<notin> set t \<and> CHR '']'' \<notin> set t \<longrightarrow> b' = b) \<and> (t \<noteq> [] \<and> last t = CHR '']'' \<longrightarrow> \<not> b')"
proof (induction t arbitrary: b i)
  case (Cons c t)
  let ?b = "if c = CHR '']'' then False else if c = CHR ''['' then True else b"
  obtain b' where b': "last_brace_in_key ?b (i + 1) (t @ r) = last_brace_in_key b' (i + 1 + length t) r"
    "CHR ''['' \<notin> set t \<and> CHR '']'' \<notin> set t \<longrightarrow> b' = ?b" "t \<noteq> [] \<and> last t = CHR '']'' \<longrightarrow> \<not> b'"
    using Cons.IH[of ?b "i + 1"] Cons.prems by auto
  then show ?case using Cons.prems by (intro exI[of _ b']) (auto simp: Let_def)
qed simp

lemma split_leaf_text:
  assumes "k \<noteq> []"
  shows "split_pair (leaf_text (encode_uri k) (path, s)) = (encode_uri k @ in_brackets encode_uri path, encode_uri s)"
proof -
  let ?key = "encode_uri k @ in_brackets encode_uri path"
  have no_eq: "CHR ''='' \<notin> set ?key" using encode_uri_has_no in_brackets_chars by fastforce
  have ends: "path = [] \<or> last ?key = CHR '']''"
    by (induction path rule: rev_induct) (simp_all add: in_brackets_def)
  have plain: "path = [] \<longrightarrow> CHR ''['' \<notin> set ?key \<and> CHR '']'' \<notin> set ?key" using encode_uri_has_no by simp
  have ne: "encode_uri k \<noteq> []" by (rule encode_uri_nonempty[OF assms])
  from brace_skip[OF no_eq, of False 0 "''='' @ encode_uri s"] ends plain
  have "last_brace_in_key False 0 (?key @ ''='' @ encode_uri s) = Some (length ?key)"
    using ne by (auto simp: Let_def)
  then show ?thesis using ne by (simp add: split_pair_def leaf_text_def)
qed

lemma decode_uri_append: "decode_uri (encode_uri a @ x) = map_option ((@) a) (decode_uri x)"
proof (induction a)
  case (Cons c a)
  then show ?case using decode_encode_char[of c "encode_uri a @ x"]
    by (simp add: encode_uri_def option.map_comp comp_def)
qed (simp add: encode_uri_def option.map_id0[unfolded id_def] option.map_ident)

lemma decode_brackets: "decode_uri (in_brackets encode_uri path) = Some (in_brackets (\<lambda>x. x) path)"
  by (induction path) (simp_all add: decode_uri_append)

lemma plus_kept: "CHR ''+'' \<notin> set s \<Longrightarrow> map (\<lambda>c. if c = CHR ''+'' then CHR '' '' else c) s = s"
  by (induction s) auto

lemma decode_part_key:
  "decode_part (encode_uri k @ in_brackets encode_uri path) = k @ in_brackets (\<lambda>x. x) path"
proof -
  have "CHR ''+'' \<notin> set (encode_uri k @ in_brackets encode_uri path)"
    using encode_uri_has_no in_brackets_chars by fastforce
  then show ?thesis
    by (simp add: decode_part_def plus_kept decode_uri_append decode_brackets del: map_append)
qed

lemma decode_part_value: "decode_part (encode_uri s) = s"
  using decode_part_key[of s "[]"] by simp

lemma split_brackets:
  "CHR ''['' \<notin> set k \<Longrightarrow> \<forall>x \<in> set path. CHR ''['' \<notin> set x \<Longrightarrow>
   split_on CHR ''['' (k @ in_brackets (\<lambda>x. x) path) = k # map (\<lambda>x. x @ '']'') path"
proof (induction path arbitrary: k)
  case Nil
  then show ?case by (simp add: split_on_no_sep)
next
  case (Cons x path)
  have "split_on CHR ''['' (k @ CHR ''['' # (x @ '']'') @ in_brackets (\<lambda>x. x) path) =
      k # split_on CHR ''['' ((x @ '']'') @ in_brackets (\<lambda>x. x) path)"
    by (rule split_on_append_sep) (use Cons.prems in simp)
  also have "split_on CHR ''['' ((x @ '']'') @ in_brackets (\<lambda>x. x) path) = (x @ '']'') # map (\<lambda>x. x @ '']'') path"
    by (rule Cons.IH) (use Cons.prems in auto)
  finally show ?case by simp
qed

lemma names_no_proto:
  assumes "key_ok k" "\<forall>x \<in> set path. CHR ''['' \<notin> set x \<and> x \<noteq> ''__proto__''"
  shows "\<not> names_proto (k @ in_brackets (\<lambda>x. x) path)"
proof -
  have k: "k \<noteq> ''__proto__''" "CHR '']'' \<notin> set k" "CHR ''['' \<notin> set k" using assms(1) by (auto simp: key_ok_def)
  have "split_on CHR ''['' (k @ in_brackets (\<lambda>x. x) path) = k # map (\<lambda>x. x @ '']'') path"
    by (rule split_brackets) (use k assms(2) in auto)
  then show ?thesis using k assms(2) by (cases path) (auto simp: names_proto_def part_name_def)
qed

lemma merge_leaf:
  assumes "key_ok k" "\<forall>x \<in> set path. CHR ''['' \<notin> set x \<and> x \<noteq> ''__proto__''" "path = [] \<longrightarrow> k \<notin> fst ` set ps"
  shows "merge_pair (QObj ps) (k @ in_brackets (\<lambda>x. x) path) s = insert_leaf path (QObj ps) k s"
proof (cases path)
  case Nil
  then show ?thesis using assms names_no_proto[OF assms(1,2)]
    by (simp add: merge_pair_def key_ok_def set_prop_def insert_leaf_def put_end_def map_of_new)
next
  case (Cons x xs)
  have k: "k \<noteq> []" "k \<noteq> '']''" "CHR '']'' \<notin> set k" "CHR ''['' \<notin> set k" using assms(1) by (auto simp: key_ok_def)
  have "merge_pair (QObj ps) (k @ in_brackets (\<lambda>x. x) path) s =
      map_result (\<lambda>r. case get_prop r ''base'' of Found b \<Rightarrow> b | _ \<Rightarrow> QObj ps)
        (parse_parts (k # map (\<lambda>x. x @ '']'') path) (QObj [(''base'', QObj ps)]) ''base'' s)"
    using Cons split_brackets[OF k(4), of path] assms(2) names_no_proto[OF assms(1,2)] by (simp add: merge_pair_def)
  also have "parse_parts (k # map (\<lambda>x. x @ '']'') path) (QObj [(''base'', QObj ps)]) ''base'' s =
      map_result (\<lambda>ob. put_prop ''base'' ob (QObj [(''base'', QObj ps)])) (insert_leaf path (QObj ps) k s)"
    using k by (simp add: insert_leaf_def falsy_def Let_def)
  also have "map_result (\<lambda>r. case get_prop r ''base'' of Found b \<Rightarrow> b | _ \<Rightarrow> QObj ps)
      (map_result (\<lambda>ob. put_prop ''base'' ob (QObj [(''base'', QObj ps)])) (insert_leaf path (QObj ps) k s)) =
      insert_leaf path (QObj ps) k s"
    by (cases "insert_leaf path (QObj ps) k s") simp_all
  finally show ?thesis .
qed

lemma leaves_paths:
  "qs_ok v \<Longrightarrow> (path, s) \<in> set (leaves v) \<Longrightarrow> x \<in> set path \<Longrightarrow>
   CHR ''['' \<notin> set x \<and> CHR '']'' \<notin> set x \<and> x \<noteq> ''__proto__''"
proof (induction v arbitrary: path rule: leaves.induct)
  case (3 n ps)
  then obtain k v p where kv: "(k, v) \<in> set ps" "path = k # p" "(p, s) \<in> set (leaves v)" by auto
  have v: "qs_ok v" using kv(1) "3.prems"(1) by auto
  have "k \<in> set (map fst ps)" using kv(1) by force
  moreover have "map fst ps = map show_nat [0..<n]" using "3.prems"(1) by simp
  ultimately have "k \<in> set (map show_nat [0..<n])" by metis
  moreover have "show_nat i \<noteq> ''__proto__''" for i
    using show_nat_digits[of i] by (auto simp: is_digit_def)
  ultimately have "CHR ''['' \<notin> set k \<and> CHR '']'' \<notin> set k \<and> k \<noteq> ''__proto__''"
    using show_nat_plain by (auto simp del: show_nat.simps)
  then show ?case using "3.IH"[OF kv(1) refl v kv(3)] "3.prems"(3) kv(2) by auto
next
  case (4 ps)
  then obtain k v p where kv: "(k, v) \<in> set ps" "path = k # p" "(p, s) \<in> set (leaves v)" by auto
  then have v: "qs_ok v" "key_ok k" using "4.prems"(1) by auto
  then show ?case using "4.IH"[OF kv(1) refl v(1) kv(3)] "4.prems"(3) kv(2) by (auto simp: key_ok_def)
qed simp_all

lemma leaf_alone: "qs_ok v \<Longrightarrow> ([], s) \<in> set (leaves v) \<Longrightarrow> leaves v = [([], s)]"
  by (cases v) auto

text \<open>The pairs of one key do what inserting its leaves does.\<close>

lemma merge_leaves:
  assumes "key_ok k" "\<forall>(path, s) \<in> set xs. \<forall>x \<in> set path. CHR ''['' \<notin> set x \<and> x \<noteq> ''__proto__''"
    and "(\<forall>(path, s) \<in> set xs. path \<noteq> []) \<or> length xs \<le> 1 \<and> k \<notin> fst ` set ps"
  shows "merge_pairs (map (leaf_text (encode_uri k)) xs @ rest) (QObj ps) =
    (case insert_all k xs (QObj ps) of Ok b \<Rightarrow> merge_pairs rest b | Throws \<Rightarrow> Throws | Escapes \<Rightarrow> Escapes)"
  using assms
proof (induction xs arbitrary: ps)
  case (Cons y xs)
  obtain path s where y: "y = (path, s)" by (cases y)
  have k: "k \<noteq> []" using Cons.prems(1) by (simp add: key_ok_def)
  have t: "leaf_text (encode_uri k) y \<noteq> []" by (simp add: leaf_text_def)
  have m: "merge_pair (QObj ps) (decode_part (fst (split_pair (leaf_text (encode_uri k) y)))) (decode_part (snd (split_pair (leaf_text (encode_uri k) y)))) =
      insert_leaf path (QObj ps) k s"
    unfolding y split_leaf_text[OF k] fst_conv snd_conv decode_part_key decode_part_value
    by (rule merge_leaf) (use Cons.prems y in auto)
  show ?case
  proof (cases "insert_leaf path (QObj ps) k s")
    case (Ok b)
    then obtain qs where b: "b = QObj qs" using insert_leaf_kind[OF Ok] by (cases b) auto
    have "merge_pairs (map (leaf_text (encode_uri k)) xs @ rest) (QObj qs) =
        (case insert_all k xs (QObj qs) of Ok b \<Rightarrow> merge_pairs rest b | Throws \<Rightarrow> Throws | Escapes \<Rightarrow> Escapes)"
      by (rule Cons.IH) (use Cons.prems in auto)
    then show ?thesis using t m Ok y b by simp
  qed (use t m y in simp_all)
qed simp

lemma merge_entries:
  assumes "distinct (map fst (done @ ps))" "\<forall>(k, v) \<in> set ps. key_ok k \<and> qs_ok v"
  shows "merge_pairs (concat (map (\<lambda>(k, v). map (leaf_text (encode_uri k)) (leaves v)) ps)) (QObj done) = Ok (QObj (done @ ps))"
  using assms
proof (induction ps arbitrary: "done")
  case (Cons y ps)
  obtain k v where y: "y = (k, v)" by (cases y)
  then have kv: "key_ok k" "qs_ok v" "k \<notin> fst ` set done" using Cons.prems by auto
  have paths: "\<forall>(path, s) \<in> set (leaves v). \<forall>x \<in> set path. CHR ''['' \<notin> set x \<and> x \<noteq> ''__proto__''"
    using leaves_paths[OF kv(2)] by fastforce
  have single: "(\<forall>(path, s) \<in> set (leaves v). path \<noteq> []) \<or> length (leaves v) \<le> 1 \<and> k \<notin> fst ` set done"
    using leaf_alone[OF kv(2)] kv(3) by fastforce
  have "insert_all k (leaves v) (QObj done) = Ok (QObj (done @ [(k, v)]))"
    using insert_leaves[OF kv(2), of "QObj done" k] kv(3) by (simp add: map_of_new obj_set_new)
  then have "merge_pairs (concat (map (\<lambda>(k, v). map (leaf_text (encode_uri k)) (leaves v)) (y # ps))) (QObj done) =
      merge_pairs (concat (map (\<lambda>(k, v). map (leaf_text (encode_uri k)) (leaves v)) ps)) (QObj (done @ [(k, v)]))"
    using merge_leaves[OF kv(1) paths single] y by simp
  also have "\<dots> = Ok (QObj ((done @ [(k, v)]) @ ps))"
    by (rule Cons.IH) (use Cons.prems y in auto)
  finally show ?case using y by simp
qed simp

lemma dense_in_order:
  assumes "map fst ps = map show_nat [0..<length ps]" "int (length ps) < 2 ^ 32 - 1"
  shows "in_order ps = ps"
proof -
  have idx: "array_index (fst (ps ! i)) = Some i" if "i < length ps" for i
  proof -
    have "fst (ps ! i) = map fst ps ! i" using that by simp
    also have "\<dots> = show_nat i" unfolding assms(1) using that by simp
    finally show ?thesis using that assms(2) by simp
  qed
  then have all: "array_index (fst kv) \<noteq> None" if "kv \<in> set ps" for kv
    using that by (metis in_set_conv_nth option.distinct(1))
  have "sorted (map (\<lambda>(k, _). the (array_index k)) ps)"
    unfolding sorted_iff_nth_mono by (simp add: case_prod_beta idx)
  then have "sort_key (\<lambda>(k, _). the (array_index k)) ps = ps" by (rule sort_key_id_if_sorted)
  moreover have "filter (\<lambda>(k, _). array_index k \<noteq> None) ps = ps" "filter (\<lambda>(k, _). array_index k = None) ps = []"
    using all by (auto simp: filter_id_conv filter_empty_conv case_prod_beta)
  ultimately show ?thesis by (simp add: in_order_def)
qed

lemma renumber_dense: "map fst ps = map show_nat [i..<i + length ps] \<Longrightarrow> renumber i (map snd ps) = ps"
proof (induction ps arbitrary: i)
  case (Cons kv ps)
  have "map show_nat [i..<i + length (kv # ps)] = show_nat i # map show_nat [i + 1..<(i + 1) + length ps]"
    by (simp add: upt_rec del: show_nat.simps)
  then have "fst kv = show_nat i" "map fst ps = map show_nat [i + 1..<(i + 1) + length ps]" using Cons.prems by simp_all
  then show ?case using Cons.IH[of "i + 1"] by (cases kv) simp
qed simp

lemma compact_ok: "qs_ok v \<Longrightarrow> compact v = v"
proof (induction v rule: compact.induct)
  case (1 n ps)
  then show ?case using dense_in_order[of ps] renumber_dense[of ps 0] by simp
next
  case (2 ps)
  then show ?case by (force intro: map_idI)
qed simp_all

lemma qs_stringify_parse:
  assumes "distinct (map fst ps)" "\<forall>(k, v) \<in> set ps. key_ok k \<and> qs_ok v"
  shows "\<exists>str. qs_stringify (QObj ps) = Some str \<and> qs_parse str = Ok (QObj ps)"
proof (cases "ps = []")
  case True
  then show ?thesis by (simp add: qs_stringify_def qs_parse_def)
next
  case False
  let ?t = "\<lambda>(k, v). map (leaf_text (encode_uri k)) (leaves v)"
  let ?pieces = "concat (map ?t ps)"
  have all: "filter (\<lambda>(k, v). k \<noteq> []) ps = ps" using assms(2) by (auto simp: filter_id_conv key_ok_def)
  have "map (\<lambda>(k, v). stringify_at (encode_uri k) v) ps = map (join_with ''&'') (map ?t ps)"
    using assms(2) stringify_leaves by fastforce
  also have "join_with ''&'' \<dots> = join_with ''&'' ?pieces"
    by (rule join_with_concat) (use assms(2) leaves_nonempty in fastforce)
  finally have str: "qs_stringify (QObj ps) = Some (join_with ''&'' ?pieces)" by (simp add: qs_stringify_def all)
  have pieces: "?pieces \<noteq> []" using False assms(2) leaves_nonempty by (cases ps) fastforce+
  have form: "CHR ''&'' \<notin> set w \<and> w \<noteq> []" if "w \<in> set ?pieces" for w
  proof -
    from that obtain k path s where "w = leaf_text (encode_uri k) (path, s)" by auto
    then show ?thesis using encode_uri_has_no in_brackets_chars by (fastforce simp: leaf_text_def)
  qed
  then have split: "split_on CHR ''&'' (join_with ''&'' ?pieces) = ?pieces"
    using pieces by (intro split_on_join_with) auto
  have "merge_pairs ?pieces (QObj []) = Ok (QObj ps)"
    using merge_entries[of "[]" ps] assms by simp
  moreover have "compact (QObj ps) = QObj ps"
    using assms(2) compact_ok by (force intro: map_idI)
  moreover have "join_with ''&'' ?pieces \<noteq> []"
  proof
    assume "join_with ''&'' ?pieces = []"
    with split have "?pieces = [[]]" by simp
    with form[of "[]"] show False by simp
  qed
  ultimately show ?thesis using str split by (simp add: qs_parse_def parse_string_def)
qed

text \<open>
  C33. Printing an object of strings, objects and arrays, however deeply nested, and parsing the text again gives
  the object, whatever characters its strings hold, if its containers are not empty and its keys
  are neither empty nor numbers nor \<open>__proto__\<close> and have no brackets.
\<close>

theorem query_string_round_trip:
  assumes "distinct (map fst ps)" "\<forall>(k, v) \<in> set ps. key_ok k \<and> qs_ok v"
  shows "\<exists>str. qs_stringify (QObj ps) = Some str \<and> qs_parse str = Ok (QObj ps)"
  using assms by (rule qs_stringify_parse)

theorem query_string_round_trip_witness:
  "\<exists>str. qs_stringify (QObj [(''pid'', QStr ''1 & 2''), (''a'', QObj [(''b'', QArr 2 [(''0'', QStr ''x''), (''1'', QStr ''='')])])]) = Some str \<and>
     qs_parse str = Ok (QObj [(''pid'', QStr ''1 & 2''), (''a'', QObj [(''b'', QArr 2 [(''0'', QStr ''x''), (''1'', QStr ''='')])])])"
proof (rule query_string_round_trip)
  have "map show_nat [0..<2] = [''0'', ''1'']" by code_simp
  moreover have "key_ok ''pid''" "key_ok ''a''" "key_ok ''b''" by code_simp+
  ultimately show "\<forall>(k, v) \<in> set [(''pid'', QStr ''1 & 2''), (''a'', QObj [(''b'', QArr 2 [(''0'', QStr ''x''), (''1'', QStr ''='')])])].
      key_ok k \<and> qs_ok v" by simp
qed simp

section \<open>What a request can do\<close>

text \<open>
  A name that begins with a bracket replaces the whole object by a string. A key that is a string
  first and a path later throws when the path goes on; and through the names every string inherits
  such a path leads to the prototypes all values share, where its value is written.
\<close>

lemma bracket_replaces_object: "qs_parse ''a=1&[b]=2'' = Ok (QStr ''2'')"
  by code_simp

lemma path_through_string_throws: "qs_parse ''a=1&a[b][c]=2'' = Throws"
  by code_simp

lemma path_through_string_lost: "qs_parse ''a=1&a[b]=2'' = Ok (QObj [(''a'', QStr ''1'')])"
  by code_simp

lemma path_reaches_prototypes:
  "qs_parse ''a=1&a[__proto__][__proto__][admin]=1'' = Escapes"
  "qs_parse ''a=1&a[constructor][prototype][admin]=1'' = Escapes"
  "qs_parse ''__proto__=1'' = Escapes"
  by code_simp+

text \<open>Two values make an array; an array with a named property is an object.\<close>

lemma repeated_names:
  "qs_parse ''a=1&a=2&a=3'' = Ok (QObj [(''a'', QArr 3 [(''0'', QStr ''1''), (''1'', QStr ''2''), (''2'', QStr ''3'')])])"
  "qs_parse ''a[]=1&a[b]=2'' = Ok (QObj [(''a'', QObj [(''0'', QStr ''1''), (''b'', QStr ''2'')])])"
  by code_simp+

end
