(* ===== verification/Body_Parser.thy ===== *)
theory Body_Parser
  imports Query_String Connect_Utils
begin

text \<open>
  How a request's body becomes \<open>req.body\<close>: the package \<open>raw-body\<close>, which collects the chunks of a stream, and
  the middleware \<open>json.js\<close>, \<open>urlencoded.js\<close>, \<open>multipart.js\<close> and \<open>bodyParser.js\<close>. Chunks are strings of bytes; reading
  UTF-8, reading JSON and the parser of multipart forms are parameters; what \<open>multipart.js\<close> does before it
  calls that parser is modelled.
\<close>

section \<open>raw-body\<close>

text \<open>
  The stream's events, and the calls of the callback: an error's status or the whole body. \<open>br_listening\<close>
  holds until the listeners are removed.
\<close>

datatype body_event = Data string | End | StreamError | Close

record body_read =
  br_limit :: "int option"
  br_expected :: "int option"
  br_chunks :: "string list"
  br_received :: int
  br_listening :: bool
  br_calls :: "(nat + string) list"

definition call_back :: "nat + string \<Rightarrow> body_read \<Rightarrow> body_read" where
  "call_back r s = s\<lparr>br_calls := br_calls s @ [r], br_listening := False\<rparr>"

definition too_large :: "int option \<Rightarrow> int \<Rightarrow> bool" where
  "too_large limit n \<longleftrightarrow> (case limit of Some l \<Rightarrow> n > l | None \<Rightarrow> False)"

definition raw_body :: "int option \<Rightarrow> int option \<Rightarrow> body_read" where
  "raw_body limit expected =
     (let s = \<lparr>br_limit = limit, br_expected = expected, br_chunks = [], br_received = 0, br_listening = True, br_calls = []\<rparr>
      in case expected of
           Some n \<Rightarrow> if too_large limit n then call_back (Inl 413) s else s
         | None \<Rightarrow> s)"

fun body_step :: "body_event \<Rightarrow> body_read \<Rightarrow> body_read" where
  "body_step (Data c) s =
     (if \<not> br_listening s then s
      else
        let s1 = s\<lparr>br_chunks := br_chunks s @ [c], br_received := br_received s + int (length c)\<rparr>
        in if too_large (br_limit s1) (br_received s1) then call_back (Inl 413) s1 else s1)"
| "body_step End s =
     (if \<not> br_listening s then s
      else if br_expected s \<noteq> None \<and> br_expected s \<noteq> Some (br_received s) then call_back (Inl 400) s
      else call_back (Inr (concat (br_chunks s))) s)"
| "body_step StreamError s = (if \<not> br_listening s then s else call_back (Inl 500) s)"
| "body_step Close s = s\<lparr>br_listening := False\<rparr>"

definition body_ok :: "body_read \<Rightarrow> bool" where
  "body_ok s \<longleftrightarrow>
     (if br_listening s
      then br_calls s = [] \<and> br_received s = int (length (concat (br_chunks s))) \<and> \<not> too_large (br_limit s) (br_received s)
      else length (br_calls s) \<le> 1 \<and>
        (\<forall>b. Inr b \<in> set (br_calls s) \<longrightarrow> \<not> too_large (br_limit s) (int (length b)) \<and>
           (br_expected s = None \<or> br_expected s = Some (int (length b)))))"

lemma body_step_ok: "body_ok s \<Longrightarrow> body_ok (body_step e s)"
  by (cases e) (auto simp: body_ok_def call_back_def Let_def split: if_splits)

interpretation body_machine: invariant_machine body_step body_ok
  by unfold_locales (rule body_step_ok)

lemma raw_body_ok: "\<not> too_large limit 0 \<Longrightarrow> body_ok (raw_body limit expected)"
  by (auto simp: body_ok_def raw_body_def call_back_def Let_def split: option.splits)

lemma body_limits_step [simp]: "br_limit (body_step e s) = br_limit s" "br_expected (body_step e s) = br_expected s"
  by (cases e, auto simp: call_back_def Let_def)+

lemma body_limits_kept [simp]:
  "br_limit (run_events body_step es s) = br_limit s" "br_expected (run_events body_step es s) = br_expected s"
  by (induction es arbitrary: s) simp_all

lemma raw_body_limits [simp]: "br_limit (raw_body limit expected) = limit" "br_expected (raw_body limit expected) = expected"
  by (auto simp: raw_body_def call_back_def Let_def split: option.split)

text \<open>
  C34. Whatever the stream does, the callback is called at most once, and a body it is given is no
  longer than the limit and exactly as long as the request announced.
\<close>

theorem body_within_limit:
  assumes "0 \<le> l" "r \<in> set (br_calls (run_events body_step es (raw_body (Some l) expected)))"
  shows "br_calls (run_events body_step es (raw_body (Some l) expected)) = [r] \<and>
    (case r of
       Inr b \<Rightarrow> int (length b) \<le> l \<and> (expected = None \<or> expected = Some (int (length b)))
     | Inl status \<Rightarrow> True)"
proof -
  let ?s = "run_events body_step es (raw_body (Some l) expected)"
  have "body_ok ?s"
    by (rule body_machine.run_keeps[OF raw_body_ok]) (use assms(1) in \<open>simp add: too_large_def\<close>)
  then have ok: "length (br_calls ?s) \<le> 1" "\<And>b. Inr b \<in> set (br_calls ?s) \<Longrightarrow> int (length b) \<le> l \<and> (expected = None \<or> expected = Some (int (length b)))"
    using assms(2) by (auto simp: body_ok_def too_large_def split: if_splits)
  have "br_calls ?s = [r]" using ok(1) assms(2) by (cases "br_calls ?s") auto
  then show ?thesis using ok(2) by (cases r) auto
qed

theorem body_within_limit_witness:
  "br_calls (run_events body_step [Data ''ab'', Data ''c'', End, Data ''d''] (raw_body (Some 5) (Some 3))) = [Inr ''abc'']"
proof -
  have "Inr ''abc'' \<in> set (br_calls (run_events body_step [Data ''ab'', Data ''c'', End, Data ''d''] (raw_body (Some 5) (Some 3))))"
    by code_simp
  from body_within_limit[OF _ this] show ?thesis by simp
qed

text \<open>A stream that delivers what it announces is given on as a whole, however it is cut.\<close>

lemma chunks_collected:
  assumes "br_listening s" "br_calls s = []" "br_received s = int (length (concat (br_chunks s)))"
    and "\<not> too_large (br_limit s) (br_received s + int (length (concat cs)))"
  shows "run_events body_step (map Data cs) s =
    s\<lparr>br_chunks := br_chunks s @ cs, br_received := br_received s + int (length (concat cs))\<rparr>"
  using assms
proof (induction cs arbitrary: s)
  case (Cons c cs)
  let ?s = "s\<lparr>br_chunks := br_chunks s @ [c], br_received := br_received s + int (length c)\<rparr>"
  have "\<not> too_large (br_limit s) (br_received s + int (length c))"
    using Cons.prems(4) by (auto simp: too_large_def split: option.splits)
  then have "body_step (Data c) s = ?s" using Cons.prems(1) by (simp add: Let_def)
  then show ?case using Cons.IH[of ?s] Cons.prems by (simp add: algebra_simps)
qed simp

lemma whole_body:
  assumes "\<not> too_large limit (int (length (concat cs)))" "expected = None \<or> expected = Some (int (length (concat cs)))"
  shows "br_calls (run_events body_step (map Data cs @ [End]) (raw_body limit expected)) = [Inr (concat cs)]"
proof -
  have start: "raw_body limit expected =
      \<lparr>br_limit = limit, br_expected = expected, br_chunks = [], br_received = 0, br_listening = True, br_calls = []\<rparr>"
    using assms by (auto simp: raw_body_def too_large_def Let_def)
  have "run_events body_step (map Data cs) (raw_body limit expected) =
      \<lparr>br_limit = limit, br_expected = expected, br_chunks = cs, br_received = int (length (concat cs)), br_listening = True, br_calls = []\<rparr>"
    unfolding start by (subst chunks_collected) (use assms(1) in simp_all)
  then show ?thesis using assms(2) by (auto simp: run_events_append call_back_def)
qed

section \<open>The requests\<close>

datatype 'j body = Form qs_val | Json 'j

text \<open>A request with its headers, \<open>req.body\<close> and the flag \<open>req._body\<close>.\<close>

record 'j body_req =
  bq_method :: string
  bq_headers :: "string obj"
  bq_body :: "'j body option"
  bq_parsed :: bool

definition has_body :: "'j body_req \<Rightarrow> bool" where
  "has_body req \<longleftrightarrow> map_of (bq_headers req) ''transfer-encoding'' \<noteq> None \<or>
     map_of (bq_headers req) ''content-length'' \<noteq> None \<and> map_of (bq_headers req) ''content-length'' \<noteq> Some ''0''"

definition mime :: "'j body_req \<Rightarrow> string" where
  "mime req = hd (split_on CHR '';'' (case map_of (bq_headers req) ''content-type'' of Some v \<Rightarrow> v | None \<Rightarrow> []))"

text \<open>
  What a middleware does: it goes on with a request, or with an error of this status, it never goes
  on, or it has written outside of the request. A length that is not a number is no expectation.
\<close>

datatype 'j went = Next "'j body_req" | NextError nat | Hangs | Polluted

definition expected_length :: "'j body_req \<Rightarrow> int option" where
  "expected_length req =
     (case map_of (bq_headers req) ''content-length'' of
        Some v \<Rightarrow> if v \<noteq> [] \<and> list_all is_digit v then Some (int (digits_val 0 v)) else None
      | None \<Rightarrow> None)"

text \<open>\<open>bytes('1mb')\<close>, the limit when the options give none.\<close>

definition default_limit :: int where
  "default_limit = 1048576"

definition get_body :: "body_event list \<Rightarrow> 'j body_req \<Rightarrow> (nat + string) option" where
  "get_body es req =
     (case br_calls (run_events body_step es (raw_body (Some default_limit) (expected_length req))) of
        [] \<Rightarrow> None | r # _ \<Rightarrow> Some r)"

definition with_empty_body :: "'j body_req \<Rightarrow> 'j body_req" where
  "with_empty_body req = (if bq_body req = None then req\<lparr>bq_body := Some (Form (QObj []))\<rparr> else req)"

text \<open>\<open>/^application\/([\w!#\$%&\*`\-\.\^~]*\+)?json$/i\<close>.\<close>

definition json_mime :: "string \<Rightarrow> bool" where
  "json_mime m \<longleftrightarrow>
     (let l = to_lower m; r = drop 12 l; n = length r - 5
      in starts_with ''application/'' l \<and>
         (r = ''json'' \<or> 5 \<le> length r \<and> drop n r = ''+json'' \<and>
            list_all (\<lambda>c. is_word c \<or> c \<in> set ''!#$%&*`-.^~'') (take n r)))"

definition json_parser ::
  "(string \<Rightarrow> string) \<Rightarrow> (string \<Rightarrow> 'j option) \<Rightarrow> body_event list \<Rightarrow> 'j body_req \<Rightarrow> 'j went" where
  "json_parser utf8 read_json es req =
     (if bq_parsed req then Next req
      else
        let req1 = with_empty_body req in
        if \<not> has_body req1 \<or> \<not> json_mime (mime req1) then Next req1
        else
          let req2 = req1\<lparr>bq_parsed := True\<rparr> in
          (case get_body es req2 of
             None \<Rightarrow> Hangs
           | Some (Inl status) \<Rightarrow> NextError status
           | Some (Inr buf) \<Rightarrow>
               let t = trim_str (utf8 buf) in
               if t = [] \<or> hd t \<noteq> CHR ''{'' \<and> hd t \<noteq> CHR ''['' then NextError 400
               else (case read_json t of None \<Rightarrow> NextError 400 | Some j \<Rightarrow> Next (req2\<lparr>bq_body := Some (Json j)\<rparr>))))"

definition urlencoded_parser :: "(string \<Rightarrow> string) \<Rightarrow> body_event list \<Rightarrow> 'j body_req \<Rightarrow> 'j went" where
  "urlencoded_parser utf8 es req =
     (if bq_parsed req then Next req
      else
        let req1 = with_empty_body req in
        if \<not> has_body req1 \<or> mime req1 \<noteq> ''application/x-www-form-urlencoded'' then Next req1
        else
          let req2 = req1\<lparr>bq_parsed := True\<rparr> in
          (case get_body es req2 of
             None \<Rightarrow> Hangs
           | Some (Inl status) \<Rightarrow> NextError status
           | Some (Inr buf) \<Rightarrow>
               (case qs_parse (trim_str (utf8 buf)) of
                  Ok v \<Rightarrow> Next (req2\<lparr>bq_body := Some (Form v)\<rparr>)
                | Throws \<Rightarrow> NextError 500
                | Escapes \<Rightarrow> Polluted)))"

text \<open>
  \<open>multipart.js\<close> with the limit that \<open>limit.js\<close> puts on the announced length. What the parser of the form
  reports in the end is an argument: an error's status, or what \<open>qs.parse\<close> makes of the fields, or
  nothing when the connection is cut.
\<close>

definition form_limit :: int where
  "form_limit = 104857600"

definition multipart_parser :: "(body_event list \<Rightarrow> (nat + qs_val qs_result) option) \<Rightarrow> body_event list \<Rightarrow> 'j body_req \<Rightarrow> 'j went" where
  "multipart_parser read_form es req =
     (if bq_parsed req then Next req
      else
        let req1 = with_empty_body req in
        if \<not> has_body req1 \<or> bq_method req1 \<in> {''GET'', ''HEAD''} \<or> mime req1 \<noteq> ''multipart/form-data'' then Next req1
        else
          let req2 = req1\<lparr>bq_parsed := True\<rparr> in
          if (case expected_length req2 of Some n \<Rightarrow> n > form_limit | None \<Rightarrow> False) then NextError 413
          else
            (case read_form es of
               None \<Rightarrow> Hangs
             | Some (Inl status) \<Rightarrow> NextError status
             | Some (Inr Throws) \<Rightarrow> NextError 400
             | Some (Inr Escapes) \<Rightarrow> Polluted
             | Some (Inr (Ok v)) \<Rightarrow> Next (req2\<lparr>bq_body := Some (Form v)\<rparr>)))"

definition body_parser ::
  "(string \<Rightarrow> string) \<Rightarrow> (string \<Rightarrow> 'j option) \<Rightarrow> (body_event list \<Rightarrow> (nat + qs_val qs_result) option) \<Rightarrow> body_event list \<Rightarrow> 'j body_req \<Rightarrow> 'j went" where
  "body_parser utf8 read_json read_form es req =
     (case json_parser utf8 read_json es req of
        Next req1 \<Rightarrow> (case urlencoded_parser utf8 es req1 of Next req2 \<Rightarrow> multipart_parser read_form es req2 | r \<Rightarrow> r)
      | r \<Rightarrow> r)"

section \<open>A form arrives\<close>

text \<open>UTF-8 reads ASCII as it is.\<close>

definition reads_ascii :: "(string \<Rightarrow> string) \<Rightarrow> bool" where
  "reads_ascii utf8 \<longleftrightarrow> (\<forall>s. (\<forall>c \<in> set s. (of_char c :: nat) < 128) \<longrightarrow> utf8 s = s)"

definition form_object :: "string obj \<Rightarrow> qs_val" where
  "form_object fs = QObj (map (\<lambda>(k, s). (k, QStr s)) fs)"

definition form_text :: "string obj \<Rightarrow> string" where
  "form_text fs = join_with ''&'' (map (\<lambda>(k, s). encode_uri k @ ''='' @ encode_uri s) fs)"

lemma form_text_stringify: "\<forall>(k, s) \<in> set fs. key_ok k \<Longrightarrow> qs_stringify (form_object fs) = Some (form_text fs)"
proof -
  assume k: "\<forall>(k, s) \<in> set fs. key_ok k"
  then have "filter (\<lambda>(k, v). k \<noteq> []) (map (\<lambda>(k, s). (k, QStr s)) fs) = map (\<lambda>(k, s). (k, QStr s)) fs"
    by (auto simp: filter_id_conv key_ok_def)
  then show ?thesis by (simp add: qs_stringify_def form_object_def form_text_def comp_def case_prod_unfold)
qed

lemma unreserved_ascii: "unreserved c \<Longrightarrow> (of_char c :: nat) < 128 \<and> \<not> is_space c"
  by (auto simp: unreserved_def is_upper_def is_lower_def is_digit_def is_space_def)

lemma form_text_chars:
  "c \<in> set (form_text fs) \<Longrightarrow> (of_char c :: nat) < 128 \<and> \<not> is_space c"
proof -
  have e: "(of_char c :: nat) < 128 \<and> \<not> is_space c" if "c \<in> set (encode_uri s)" for c s
    using encode_uri_safe[OF that] unreserved_ascii by (auto simp: is_space_def)
  have "c \<in> set (join_with ''&'' ws) \<Longrightarrow> c = CHR ''&'' \<or> (\<exists>w \<in> set ws. c \<in> set w)" for ws :: "string list"
    by (induction "''&''" ws rule: join_with.induct) auto
  then show "c \<in> set (form_text fs) \<Longrightarrow> (of_char c :: nat) < 128 \<and> \<not> is_space c"
    unfolding form_text_def using e by (fastforce simp: is_space_def)
qed

lemma form_text_parsed:
  assumes "distinct (map fst fs)" "\<forall>(k, s) \<in> set fs. key_ok k"
  shows "qs_parse (form_text fs) = Ok (form_object fs)"
proof -
  have "distinct (map fst (map (\<lambda>(k, s). (k, QStr s)) fs))" using assms(1) by (simp add: comp_def case_prod_unfold)
  moreover have "\<forall>(k, v) \<in> set (map (\<lambda>(k, s). (k, QStr s)) fs). key_ok k \<and> qs_ok v" using assms(2) by auto
  ultimately obtain str where "qs_stringify (form_object fs) = Some str" "qs_parse str = Ok (form_object fs)"
    unfolding form_object_def by (blast dest: qs_stringify_parse)
  then show ?thesis using form_text_stringify[OF assms(2)] by simp
qed

lemma digits_zero: "digits_val 0 ''0'' = 0"
  by code_simp

lemma trim_form_text [simp]: "trim_str (form_text fs) = form_text fs"
  using form_text_chars[of _ fs] by (intro trim_str_id) (metis hd_in_set last_in_set)

text \<open>
  The fields of a form arrive at the handler as the browser sent them: for any names without brackets
  that are not numbers, any values, any cutting of the text into chunks, up to the limit of one megabyte.
\<close>

theorem posted_form_arrives:
  assumes "reads_ascii utf8"
    and "fs \<noteq> []" "distinct (map fst fs)" "\<forall>(k, s) \<in> set fs. key_ok k"
    and "mime req = ''application/x-www-form-urlencoded''" "bq_body req = None" "\<not> bq_parsed req"
    and "map_of (bq_headers req) ''content-length'' = Some (show_nat (length (form_text fs)))"
    and "concat cs = form_text fs" "int (length (form_text fs)) \<le> 1048576"
  shows "body_parser utf8 read_json read_form (map Data cs @ [End]) req =
    Next (req\<lparr>bq_body := Some (Form (form_object fs)), bq_parsed := True\<rparr>)"
proof -
  let ?req1 = "req\<lparr>bq_body := Some (Form (QObj []))\<rparr>"
  have keep: "mime (req\<lparr>bq_body := b, bq_parsed := p\<rparr>) = mime req" "has_body (req\<lparr>bq_body := b, bq_parsed := p\<rparr>) = has_body req"
    "mime (req\<lparr>bq_body := b\<rparr>) = mime req" "has_body (req\<lparr>bq_body := b\<rparr>) = has_body req" for b p
    by (simp_all add: mime_def has_body_def)
  have no_json: "\<not> json_mime ''application/x-www-form-urlencoded''" by code_simp
  have json: "json_parser utf8 read_json es req = Next ?req1" for es
    using assms(5-7) no_json by (simp add: json_parser_def with_empty_body_def Let_def keep)
  have "form_text fs \<noteq> []"
    using assms(2) by (cases fs; cases "tl fs") (auto simp: form_text_def case_prod_unfold join_with_Cons)
  moreover have "show_nat n = ''0'' \<Longrightarrow> n = 0" for n
    using digits_val_show_nat[of n] by (metis digits_zero)
  ultimately have True: "has_body req" using assms(8) by (auto simp: has_body_def)
  let ?req2 = "?req1\<lparr>bq_parsed := True\<rparr>"
  have len: "expected_length ?req2 = Some (int (length (concat cs)))"
    using assms(8,9) show_nat_digits[of "length (form_text fs)"]
    by (auto simp: expected_length_def list_all_iff digits_val_show_nat)
  have "get_body (map Data cs @ [End]) ?req2 = Some (Inr (form_text fs))"
    using whole_body[of "Some default_limit" cs "expected_length ?req2"] len assms(9,10)
    by (simp add: get_body_def too_large_def default_limit_def)
  moreover have "utf8 (form_text fs) = form_text fs"
    using assms(1) form_text_chars by (auto simp: reads_ascii_def)
  ultimately have url: "urlencoded_parser utf8 (map Data cs @ [End]) ?req1 = Next (?req2\<lparr>bq_body := Some (Form (form_object fs))\<rparr>)"
    using True assms(5,7) form_text_parsed[OF assms(3,4)]
    by (simp add: urlencoded_parser_def with_empty_body_def Let_def keep)
  have "multipart_parser read_form (map Data cs @ [End]) (?req2\<lparr>bq_body := Some (Form (form_object fs))\<rparr>) = Next (?req2\<lparr>bq_body := Some (Form (form_object fs))\<rparr>)"
    by (simp add: multipart_parser_def)
  then show ?thesis using json url by (simp add: body_parser_def)
qed

definition demo_body_req :: "unit body_req" where
  "demo_body_req = \<lparr>bq_method = ''POST'', bq_headers = [(''content-type'', ''application/x-www-form-urlencoded; charset=UTF-8''),
     (''content-length'', ''9'')], bq_body = None, bq_parsed = False\<rparr>"

theorem posted_form_arrives_witness:
  "body_parser (\<lambda>s. s) (\<lambda>_. None) (\<lambda>_. None) [Data ''pid=1%'', Data ''202'', End] demo_body_req =
     Next (demo_body_req\<lparr>bq_body := Some (Form (form_object [(''pid'', ''1 2'')])), bq_parsed := True\<rparr>)"
proof -
  have facts: "form_text [(''pid'', ''1 2'')] = ''pid=1%202''" "show_nat (Suc (Suc (Suc (Suc (Suc (Suc (Suc (Suc (Suc 0))))))))) = ''9''" "key_ok ''pid''"
    "hd (split_on CHR '';'' ''application/x-www-form-urlencoded; charset=UTF-8'') = ''application/x-www-form-urlencoded''"
    by code_simp+
  have "body_parser (\<lambda>s. s) (\<lambda>_. None) (\<lambda>_. None) (map Data [''pid=1%'', ''202''] @ [End]) demo_body_req =
     Next (demo_body_req\<lparr>bq_body := Some (Form (form_object [(''pid'', ''1 2'')])), bq_parsed := True\<rparr>)"
    by (rule posted_form_arrives)
      (simp_all add: reads_ascii_def facts demo_body_req_def mime_def del: show_nat.simps)
  then show ?thesis by simp
qed

text \<open>A body whose first name begins with a bracket makes \<open>req.body\<close> a string, which has no fields.\<close>

lemma body_can_be_a_string:
  "case urlencoded_parser (\<lambda>s. s) [Data ''[pid]=1'', End]
     (demo_body_req\<lparr>bq_headers := [(''content-type'', ''application/x-www-form-urlencoded''), (''content-length'', ''7'')]\<rparr>) of
     Next req \<Rightarrow> bq_body req = Some (Form (QStr ''1'')) | _ \<Rightarrow> False"
  by code_simp

text \<open>A request without a body gets the empty one.\<close>

lemma no_body_parsed:
  "\<not> has_body req \<Longrightarrow> bq_body req = None \<Longrightarrow> \<not> bq_parsed req \<Longrightarrow>
   body_parser utf8 read_json read_form es req = Next (req\<lparr>bq_body := Some (Form (QObj []))\<rparr>)"
  by (simp add: body_parser_def json_parser_def urlencoded_parser_def multipart_parser_def with_empty_body_def has_body_def)

end
