(* ===== verification/Web_Server.thy ===== *)
theory Web_Server
  imports Web_App Static_Files Body_Parser
begin

text \<open>
  The whole server: what \<open>app.js\<close>'s stack does with a request as it comes from the network, until an answer
  is sent, an answer is awaited, no answer ever comes or the process ends. The stages are the
  middleware in their order (all are mounted at the root, so each runs unless an earlier one answers
  or fails); an error passes by all of them to the error handler.
\<close>

section \<open>Values in strings\<close>

text \<open>
  A value in the place of a string: an array is its elements between commas, an object is
  \<open>[object Object]\<close> unless it has a property \<open>toString\<close>, which is no function then (an exception).
\<close>

definition all_some :: "'a option list \<Rightarrow> 'a list option" where
  "all_some xs = (if None \<in> set xs then None else Some (map the xs))"

function js_text :: "qs_val \<Rightarrow> string option" where
  "js_text (QStr s) = Some s"
| "js_text (QNum n) = Some (show_nat n)"
| "js_text (QArr n ps) = map_option (join_with '','')
     (all_some (map (\<lambda>i. case map_of ps (show_nat i) of Some v \<Rightarrow> js_text v | None \<Rightarrow> Some []) [0..<n]))"
| "js_text (QObj ps) = (if map_of ps ''toString'' = None then Some ''[object Object]'' else None)"
  by pat_completeness auto

termination
proof (relation "measure size")
  fix n x v and ps :: "(string \<times> qs_val) list"
  assume "map_of ps (show_nat x) = Some v"
  then have "(show_nat x, v) \<in> set ps" by (rule map_of_SomeD)
  from size_member[OF this] show "(v, QArr n ps) \<in> measure size" by simp
qed simp

section \<open>Query, icon, method, cookies\<close>

text \<open>\<open>url.parse(u).query\<close>, empty when there is none.\<close>

definition url_query :: "string \<Rightarrow> string" where
  "url_query u =
     (let r = dropWhile (\<lambda>c. c \<noteq> CHR ''?'' \<and> c \<noteq> CHR ''#'') (strip_host u)
      in if starts_with ''?'' r then url_escape (takeWhile (\<lambda>c. c \<noteq> CHR ''#'') (tl r)) else [])"

definition query_stage :: "string \<Rightarrow> qs_val qs_result" where
  "query_stage u = (if find_sub ''?'' u = None then Ok (QObj []) else qs_parse (url_query u))"

text \<open>\<open>favicon.js\<close>: the icon is read once and kept with its headers. The result is an answer or an error.\<close>

definition favicon ::
  "('b list \<Rightarrow> string) \<Rightarrow> string + 'b list \<Rightarrow> string \<Rightarrow> (string obj \<times> 'b list) option \<Rightarrow>
   (string + string obj \<times> 'b list) option \<times> (string obj \<times> 'b list) option" where
  "favicon md5 read_file url icon =
     (if url \<noteq> ''/favicon.ico'' then (None, icon)
      else
        (case icon of
           Some i \<Rightarrow> (Some (Inr i), icon)
         | None \<Rightarrow>
             (case read_file of
                Inl err \<Rightarrow> (Some (Inl err), None)
              | Inr buf \<Rightarrow>
                  let i = ([(''Content-Type'', ''image/x-icon''), (''Content-Length'', show_nat (length buf)),
                            (''ETag'', [CHR 0x22] @ md5 buf @ [CHR 0x22]),
                            (''Cache-Control'', ''public, max-age='' @ show_nat (86400000 div 1000))], buf)
                  in (Some (Inr i), Some i))))"

text \<open>
  \<open>methodOverride.js\<close> on any body: \<open>None\<close> is the exception when the body's \<open>_method\<close> is no string. Only objects
  and arrays are looked into.
\<close>

definition override_method :: "string \<Rightarrow> string \<Rightarrow> qs_val \<Rightarrow> (string \<times> qs_val) option" where
  "override_method meth hdr body =
     (let given = (\<lambda>m. if m \<in> set http_methods then to_upper m else meth);
          by_header = (\<lambda>m. if hdr \<noteq> [] then given (to_lower hdr) else case m of Some x \<Rightarrow> given x | None \<Rightarrow> meth);
          look = (\<lambda>ps. case map_of ps ''_method'' of
                    None \<Rightarrow> Some (by_header None, ps)
                  | Some (QStr s) \<Rightarrow> Some (by_header (Some (to_lower s)), obj_del ''_method'' ps)
                  | Some _ \<Rightarrow> None)
      in case body of
           QObj ps \<Rightarrow> map_option (\<lambda>(m, ps'). (m, QObj ps')) (look ps)
         | QArr n ps \<Rightarrow> map_option (\<lambda>(m, ps'). (m, QArr n ps')) (look ps)
         | v \<Rightarrow> Some (by_header None, v))"

text \<open>
  What \<open>utils.parseSignedCookie\<close> makes of a cookie that \<open>cookieParser\<close> has read as JSON: only strings and arrays have
  the function \<open>indexOf\<close> it calls, and an array whose first element is \<open>s:\<close> reaches the digest, which
  refuses it. An array is a session's name by its text.
\<close>

definition cookie_as_text :: "qs_val cookie_val \<Rightarrow> string option" where
  "cookie_as_text c =
     (case c of
        CStr s \<Rightarrow> Some s
      | CJson (QStr s) \<Rightarrow> Some s
      | CJson (QArr n ps) \<Rightarrow> if map_of ps ''0'' = Some (QStr ''s:'') then None else js_text (QArr n ps)
      | CJson _ \<Rightarrow> None)"

definition cookies_read :: "(string \<Rightarrow> string \<Rightarrow> string) \<Rightarrow> (string \<Rightarrow> qs_val option) \<Rightarrow> string \<Rightarrow> qs_val cookie_val obj" where
  "cookies_read hmac read_json hdr =
     the (cr_cookies (cookie_parser hmac read_json (\<lambda>v. \<not> falsy v) None
       \<lparr>cr_header = Some hdr, cr_secret = None, cr_cookies = None, cr_signed = []\<rparr>))"

text \<open>The cookies as the session layer sees them, or the exception it meets at its own.\<close>

definition session_cookies :: "qs_val cookie_val obj \<Rightarrow> string obj option" where
  "session_cookies cs =
     (if map_of cs ''connect.sid'' \<noteq> None \<and> cookie_as_text (the (map_of cs ''connect.sid'')) = None then None
      else Some (map (\<lambda>(k, c). (k, case cookie_as_text c of Some s \<Rightarrow> s | None \<Rightarrow> [])) cs))"
section \<open>The server\<close>

text \<open>
  A request with its time, the identifier a new session would get and the processes and files as they
  are then; the server's memory.
\<close>

record http_req =
  hq_method :: string
  hq_url :: string
  hq_headers :: "string obj"
  hq_events :: "body_event list"
  hq_now :: clock
  hq_uid :: string
  hq_outside :: outside

record 'b server =
  sv_icon :: "(string obj \<times> 'b list) option"
  sv_store :: "server_proc memory"

datatype 'b web_page =
    Icon "string obj" "'b list"
  | Page answer
  | Methods "string list"
  | File "'b sent_body"
  | Moved string
  | CannotFind
  | ErrorPage nat string

datatype ending = StoreThrows string | HandlerThrows choose_error

text \<open>
  \<open>Sent\<close>: a page with its \<open>Set-Cookie\<close> header. \<open>WritesPrototypes\<close>: the request's query or body has written to
  the properties that all objects inherit; what the program makes of this request, and of all that
  follow, is outside of the model. \<open>Unsessioned\<close>: a handler without a session, which the application's
  routes exclude.
\<close>

datatype 'b served =
    Sent "'b web_page" "string option"
  | AwaitsFifo string sess_ctx "server_proc sess_req"
  | NoAnswer
  | Ends ending
  | WritesPrototypes
  | Unsessioned page_handler

text \<open>
  Requests arrive and waiting ones are answered in any order. \<open>ru_waiting\<close>: the sessions of the requests
  that wait for a thread counter, \<open>ru_log\<close>: what was done with the requests, \<open>ru_up\<close>: the process runs,
  \<open>ru_clean\<close>: no request has written to the properties that all objects inherit.
\<close>

datatype server_event = Arrives http_req | Replied nat clock api_reply

record 'b running =
  ru_server :: "'b server"
  ru_waiting :: "(sess_ctx \<times> server_proc sess_req) list"
  ru_log :: "'b served list"
  ru_up :: bool
  ru_clean :: bool

text \<open>
  What the server finds outside, with the digests and printers of the libraries. \<open>wo_polluted\<close> is whatever
  the process does from the moment a request has written to the properties that all objects inherit:
  any code of any library may then behave differently, so it is a parameter about which nothing is
  known.
\<close>

record 'b world =
  wo_hmac :: "string \<Rightarrow> string \<Rightarrow> string"
  wo_md5 :: "'b list \<Rightarrow> string"
  wo_ser :: "server_proc obj \<Rightarrow> 8 word list"
  wo_utc :: "int \<Rightarrow> string"
  wo_date :: "string \<Rightarrow> int option"
  wo_utf8 :: "string \<Rightarrow> string"
  wo_json :: "string \<Rightarrow> qs_val option"
  wo_form :: "body_event list \<Rightarrow> (nat + qs_val qs_result) option"
  wo_rx :: regexp_exec
  wo_media :: "string \<Rightarrow> string"
  wo_stat :: "string \<Rightarrow> string + stat"
  wo_content :: "string \<Rightarrow> 'b list"
  wo_icon :: "string + 'b list"
  wo_env :: string
  wo_dirname :: string
  wo_polluted :: "server_event \<Rightarrow> 'b running \<Rightarrow> 'b running"

text \<open>An answer's end: the session's cookie is decided and the session is saved.\<close>

definition send_page ::
  "'b world \<Rightarrow> clock \<Rightarrow> (sess_ctx \<times> server_proc sess_req) option \<Rightarrow> 'b server \<Rightarrow> 'b web_page \<Rightarrow> 'b served \<times> 'b server" where
  "send_page w now sx sv page =
     (case sx of
        None \<Rightarrow> (Sent page None, sv)
      | Some (cx, r) \<Rightarrow>
          (Sent page (session_header (wo_hmac w) (wo_ser w) (wo_utc w) app_session_options (fst now) cx
             (r\<lparr>sq_session := map_option (reset_max_age now) (sq_session r)\<rparr>)),
           sv\<lparr>sv_store := session_end (memory_set proc_json) now r (sv_store sv)\<rparr>))"

text \<open>\<open>errorHandler.js\<close> in development and production, the dispatcher's own page otherwise.\<close>

definition error_page :: "string \<Rightarrow> string \<Rightarrow> nat \<Rightarrow> 'b web_page" where
  "error_page env accept status =
     ErrorPage (if status < 400 then 500 else status)
       (if env \<notin> {''development'', ''production''} then ''text/html''
        else if find_sub ''html'' accept \<noteq> None then ''text/html; charset=utf-8''
        else if find_sub ''json'' accept \<noteq> None then ''application/json''
        else ''text/plain'')"

definition fail_with ::
  "'b world \<Rightarrow> http_req \<Rightarrow> (sess_ctx \<times> server_proc sess_req) option \<Rightarrow> 'b server \<Rightarrow> nat \<Rightarrow> 'b served \<times> 'b server" where
  "fail_with w q sx sv status =
     send_page w (hq_now q) sx sv (error_page (wo_env w) (header ''accept'' (hq_headers q)) status)"

text \<open>\<open>req.body.pid\<close> in the command; a body that is a string or a number refuses \<open>in\<close>.\<close>

definition pid_field :: "qs_val \<Rightarrow> string obj option" where
  "pid_field v =
     (let look = (\<lambda>ps. case map_of ps ''pid'' of
                    None \<Rightarrow> Some [] | Some x \<Rightarrow> map_option (\<lambda>s. [(''pid'', s)]) (js_text x))
      in case v of QObj ps \<Rightarrow> look ps | QArr n ps \<Rightarrow> look ps | _ \<Rightarrow> None)"

definition handler_fields :: "page_handler \<Rightarrow> qs_val \<Rightarrow> string obj option" where
  "handler_fields h v = (if h = ChoosePost then pid_field v else Some [])"

definition public_root :: "'b world \<Rightarrow> string" where
  "public_root w = path_normalize (wo_dirname w @ ''/public'')"

definition express_res :: http_res where
  "express_res = set_header ''X-Powered-By'' ''Express'' fresh_res"

definition serve_file ::
  "'b world \<Rightarrow> http_req \<Rightarrow> string \<Rightarrow> string \<Rightarrow> (sess_ctx \<times> server_proc sess_req) option \<Rightarrow> 'b server \<Rightarrow> 'b served \<times> 'b server" where
  "serve_file w q meth path sx sv =
     (case static_middleware (wo_utc w) (wo_date w) (wo_media w) (wo_stat w) (wo_content w) (fst (hq_now q))
             (public_root w) meth (hq_headers q) path path
             (if url_query (hq_url q) = [] then [] else CHR ''?'' # url_query (hq_url q)) express_res of
        Passed \<Rightarrow> send_page w (hq_now q) sx sv CannotFind
      | PassedError status \<Rightarrow> fail_with w q sx sv status
      | RedirectTo target \<Rightarrow> send_page w (hq_now q) sx sv (Moved target)
      | Answered b \<Rightarrow> send_page w (hq_now q) sx sv (File b))"

definition serve_routed ::
  "'b world \<Rightarrow> http_req \<Rightarrow> string \<Rightarrow> qs_val \<Rightarrow> string \<Rightarrow> (sess_ctx \<times> server_proc sess_req) option \<Rightarrow> 'b server \<Rightarrow> 'b served \<times> 'b server" where
  "serve_routed w q meth body path sx sv =
     (case route_request (wo_rx w) meth path of
        Options ms \<Rightarrow> send_page w (hq_now q) sx sv (Methods ms)
      | Unrouted \<Rightarrow> serve_file w q meth path sx sv
      | Handled h \<Rightarrow>
          (case sx of
             None \<Rightarrow> (Unsessioned h, sv)
           | Some (cx, r) \<Rightarrow>
               (case handler_fields h body of
                  None \<Rightarrow> fail_with w q sx sv 500
                | Some fs \<Rightarrow>
                    let (ans, proc) = run_handler (hq_outside q) fs h (session_proc r);
                        r1 = put_proc proc r
                    in (case ans of
                          Crashed e \<Rightarrow> (Ends (HandlerThrows e), sv)
                        | AwaitFifo fifo \<Rightarrow> (AwaitsFifo fifo cx r1, sv)
                        | _ \<Rightarrow> send_page w (hq_now q) (Some (cx, r1)) sv (Page ans)))))"

text \<open>
  The session layer. The secret is in the options, so what is thrown comes from the store's callback, where
  nobody catches it.
\<close>

definition server_sess_req :: "string \<Rightarrow> string obj \<Rightarrow> server_proc sess_req" where
  "server_sess_req path cookies =
     \<lparr>sq_path = path, sq_cookies = cookies, sq_signed = [], sq_secret = None, sq_proto = [], sq_encrypted = False,
      sq_sid = None, sq_session = None\<rparr>"

definition serve_session :: "'b world \<Rightarrow> http_req \<Rightarrow> string \<Rightarrow> qs_val \<Rightarrow> 'b server \<Rightarrow> 'b served \<times> 'b server" where
  "serve_session w q meth body sv =
     (case url_pathname (hq_url q) of
        None \<Rightarrow> fail_with w q None sv 500
      | Some path \<Rightarrow>
          (case session_cookies (cookies_read (wo_hmac w) (wo_json w) (header ''cookie'' (hq_headers q))) of
             None \<Rightarrow> fail_with w q None sv 500
           | Some cookies \<Rightarrow>
               (case session_begin (wo_hmac w) (wo_ser w) memory_get app_session_options True (hq_now q) (hq_uid q)
                       (server_sess_req path cookies) (sv_store sv) of
                  Bypassed \<Rightarrow> serve_routed w q meth body path None sv
                | Threw e \<Rightarrow> (Ends (StoreThrows e), sv)
                | begun.Failed e r st1 \<Rightarrow> fail_with w q None (sv\<lparr>sv_store := st1\<rparr>) 500
                | Began cx r st1 \<Rightarrow> serve_routed w q meth body path (Some (cx, r)) (sv\<lparr>sv_store := st1\<rparr>))))"

definition body_request :: "http_req \<Rightarrow> qs_val body_req" where
  "body_request q = \<lparr>bq_method = hq_method q, bq_headers = hq_headers q, bq_body = None, bq_parsed = False\<rparr>"

definition body_value :: "qs_val body option \<Rightarrow> qs_val" where
  "body_value b = (case b of Some (Form v) \<Rightarrow> v | Some (Json v) \<Rightarrow> v | None \<Rightarrow> QObj [])"

definition serve_body :: "'b world \<Rightarrow> http_req \<Rightarrow> 'b server \<Rightarrow> 'b served \<times> 'b server" where
  "serve_body w q sv =
     (case body_parser (wo_utf8 w) (wo_json w) (wo_form w) (hq_events q) (body_request q) of
        Hangs \<Rightarrow> (NoAnswer, sv)
      | Polluted \<Rightarrow> (WritesPrototypes, sv)
      | NextError status \<Rightarrow> fail_with w q None sv status
      | Next r \<Rightarrow>
          (case override_method (hq_method q) (header ''x-http-method-override'' (hq_headers q)) (body_value (bq_body r)) of
             None \<Rightarrow> fail_with w q None sv 500
           | Some (meth, body) \<Rightarrow> serve_session w q meth body sv))"

definition serve :: "'b world \<Rightarrow> http_req \<Rightarrow> 'b server \<Rightarrow> 'b served \<times> 'b server" where
  "serve w q sv =
     (case query_stage (hq_url q) of
        Throws \<Rightarrow> fail_with w q None sv 500
      | Escapes \<Rightarrow> (WritesPrototypes, sv)
      | Ok query \<Rightarrow>
          (case favicon (wo_md5 w) (wo_icon w) (hq_url q) (sv_icon sv) of
             (Some (Inl err), icon) \<Rightarrow> fail_with w q None (sv\<lparr>sv_icon := icon\<rparr>) 500
           | (Some (Inr (headers, buf)), icon) \<Rightarrow> (Sent (Icon headers buf) None, sv\<lparr>sv_icon := icon\<rparr>)
           | (None, icon) \<Rightarrow> serve_body w q sv))"

text \<open>The answer of a waiting request, when the thread counter or its failure arrives.\<close>

definition answer_waiting ::
  "'b world \<Rightarrow> clock \<Rightarrow> sess_ctx \<Rightarrow> server_proc sess_req \<Rightarrow> api_reply \<Rightarrow> 'b server \<Rightarrow> 'b served \<times> 'b server" where
  "answer_waiting w now cx r reply sv = send_page w now (Some (cx, r)) sv (Page (ApiReplies [reply]))"

section \<open>Requests and answers over time\<close>

definition server_start :: "'b running" where
  "server_start = \<lparr>ru_server = \<lparr>sv_icon = None, sv_store = []\<rparr>, ru_waiting = [], ru_log = [], ru_up = True,
     ru_clean = True\<rparr>"

definition polluted_step :: "'b world \<Rightarrow> server_event \<Rightarrow> 'b running \<Rightarrow> 'b running" where
  "polluted_step w e s = (wo_polluted w e s)\<lparr>ru_clean := False\<rparr>"

fun server_step :: "'b world \<Rightarrow> server_event \<Rightarrow> 'b running \<Rightarrow> 'b running" where
  "server_step w (Arrives q) s =
     (if \<not> ru_clean s then polluted_step w (Arrives q) s
      else if \<not> ru_up s then s
      else
        let (res, sv) = serve w q (ru_server s)
        in if res = WritesPrototypes then polluted_step w (Arrives q) s
           else s\<lparr>ru_server := sv,
             ru_waiting := (case res of AwaitsFifo fifo cx r \<Rightarrow> ru_waiting s @ [(cx, r)] | _ \<Rightarrow> ru_waiting s),
             ru_log := ru_log s @ [res],
             ru_up := (case res of Ends e \<Rightarrow> False | _ \<Rightarrow> True)\<rparr>)"
| "server_step w (Replied i now reply) s =
     (if \<not> ru_clean s then polluted_step w (Replied i now reply) s
      else if \<not> ru_up s \<or> length (ru_waiting s) \<le> i then s
      else
        let (cx, r) = ru_waiting s ! i;
            (res, sv) = answer_waiting w now cx r reply (ru_server s)
        in s\<lparr>ru_server := sv, ru_waiting := take i (ru_waiting s) @ drop (Suc i) (ru_waiting s),
             ru_log := ru_log s @ [res]\<rparr>)"

text \<open>
  The requests that take the program out of the model: their query, or the body that is read after it, makes
  the parser of queries write to an inherited object.
\<close>

definition writes_prototypes :: "'b world \<Rightarrow> http_req \<Rightarrow> bool" where
  "writes_prototypes w q \<longleftrightarrow>
     query_stage (hq_url q) = Escapes \<or>
     query_stage (hq_url q) \<noteq> Throws \<and> hq_url q \<noteq> ''/favicon.ico'' \<and>
       body_parser (wo_utf8 w) (wo_json w) (wo_form w) (hq_events q) (body_request q) = Polluted"

definition harmless :: "'b world \<Rightarrow> server_event list \<Rightarrow> bool" where
  "harmless w es \<longleftrightarrow> (\<forall>e \<in> set es. case e of Arrives q \<Rightarrow> \<not> writes_prototypes w q | Replied i now reply \<Rightarrow> True)"

lemma page_writes_nothing [simp]:
  "fst (send_page w now sx sv page) \<noteq> WritesPrototypes" "fst (fail_with w q sx sv status) \<noteq> WritesPrototypes"
  "fst (serve_file w q meth path sx sv) \<noteq> WritesPrototypes"
  by (auto simp: fail_with_def send_page_def serve_file_def split: option.split static_result.split)

lemma session_writes_nothing [simp]: "fst (serve_session w q meth body sv) \<noteq> WritesPrototypes"
proof -
  have "fst (serve_routed w q meth body path sx sv) \<noteq> WritesPrototypes" for path sx sv
    by (simp add: serve_routed_def Let_def split_beta split: routed.split option.split answer.split)
  then show ?thesis by (simp add: serve_session_def split: option.split begun.split)
qed

lemma serve_writes: "fst (serve w q sv) = WritesPrototypes \<longleftrightarrow> writes_prototypes w q"
proof -
  have "fst (serve_body w q sv) = WritesPrototypes \<longleftrightarrow>
      body_parser (wo_utf8 w) (wo_json w) (wo_form w) (hq_events q) (body_request q) = Polluted"
    by (simp add: serve_body_def split: went.split option.split)
  then show ?thesis
    by (auto simp: serve_def writes_prototypes_def favicon_def Let_def split: qs_result.split option.split sum.split)
qed

lemma serve_harmless: "\<not> writes_prototypes w q \<Longrightarrow> serve w q sv = (res, sv') \<Longrightarrow> res \<noteq> WritesPrototypes"
  using serve_writes[of w q sv] by auto

section \<open>What requests do to the sessions\<close>

text \<open>The memory store never reports an error, so the session layer never passes one on.\<close>

lemma begin_never_fails [simp]:
  "session_begin hmac ser memory_get opts True now uid r0 st \<noteq> begun.Failed e r st1"
  by (auto simp: session_begin_def memory_get_def Let_def split: if_splits option.splits)

text \<open>
  A rule about the store and the sessions of requests: what the session layer begins with obeys it, and so does
  what handlers and answers make of it. Then every request and every answer keeps it.
\<close>

locale session_rule =
  fixes w :: "'b world"
    and fits :: "server_proc memory \<Rightarrow> bool"
    and session_fits :: "server_proc session \<Rightarrow> bool"
    and allowed :: "http_req \<Rightarrow> bool"
  assumes saved: "fits st \<Longrightarrow> session_fits se \<Longrightarrow> fits (memory_set proc_json (se_id se) (reset_max_age now se) st)"
    and chosen: "session_fits se \<Longrightarrow> session_fits (se\<lparr>se_data := obj_set ''proc'' p (se_data se)\<rparr>)"
    and began: "fits st \<Longrightarrow> allowed q \<Longrightarrow>
      session_cookies (cookies_read (wo_hmac w) (wo_json w) (header ''cookie'' (hq_headers q))) = Some cookies \<Longrightarrow>
      session_begin (wo_hmac w) (wo_ser w) memory_get app_session_options True (hq_now q) (hq_uid q)
        (server_sess_req path cookies) st = Began cx r st1 \<Longrightarrow>
      fits st1 \<and> (\<exists>se. sq_session r = Some se \<and> session_fits se)"
begin

definition request_fits :: "(sess_ctx \<times> server_proc sess_req) option \<Rightarrow> bool" where
  "request_fits sx \<longleftrightarrow> (case sx of None \<Rightarrow> True | Some (cx, r) \<Rightarrow> \<exists>se. sq_session r = Some se \<and> session_fits se)"

definition outcome_fits :: "'b served \<times> 'b server \<Rightarrow> bool" where
  "outcome_fits res \<longleftrightarrow> fits (sv_store (snd res)) \<and>
     (case fst res of AwaitsFifo fifo cx r \<Rightarrow> request_fits (Some (cx, r)) | _ \<Rightarrow> True)"

lemma send_page_fits:
  assumes "fits (sv_store sv)" "request_fits sx"
  shows "outcome_fits (send_page w now sx sv page)"
proof (cases sx)
  case (Some p)
  obtain cx r where p: "p = (cx, r)" by (cases p)
  obtain se where "sq_session r = Some se" "session_fits se" using assms(2) Some p by (auto simp: request_fits_def)
  then show ?thesis
    using assms(1) saved[of "sv_store sv" se now] Some p
    by (simp add: outcome_fits_def send_page_def session_end_def Let_def)
qed (use assms in \<open>simp add: outcome_fits_def send_page_def\<close>)

lemma fail_with_fits: "fits (sv_store sv) \<Longrightarrow> request_fits sx \<Longrightarrow> outcome_fits (fail_with w q sx sv status)"
  by (simp add: fail_with_def send_page_fits)

lemma no_request_fits [simp]: "request_fits None"
  by (simp add: request_fits_def)

lemma serve_file_fits: "fits (sv_store sv) \<Longrightarrow> request_fits sx \<Longrightarrow> outcome_fits (serve_file w q meth path sx sv)"
  by (simp add: serve_file_def send_page_fits fail_with_fits split: static_result.split)

lemma put_fits: "request_fits (Some (cx, r)) \<Longrightarrow> request_fits (Some (cx, put_proc new r))"
  using chosen by (cases new) (auto simp: request_fits_def put_proc_def)

lemma serve_routed_fits:
  assumes "fits (sv_store sv)" "request_fits sx"
  shows "outcome_fits (serve_routed w q meth body path sx sv)"
proof -
  have ends: "outcome_fits (AwaitsFifo fifo cx (put_proc new r), sv)" "outcome_fits (Ends e, sv)" "outcome_fits (Unsessioned h, sv)"
    if "request_fits (Some (cx, r))" for fifo cx r new e h
    using that assms(1) put_fits by (simp_all add: outcome_fits_def)
  have none: "outcome_fits (Unsessioned h, sv)" for h using assms(1) by (simp add: outcome_fits_def)
  show ?thesis
  proof (cases sx)
    case None
    then show ?thesis
      using assms(1) none by (simp add: serve_routed_def send_page_fits serve_file_fits split: routed.split)
  next
    case (Some p)
    obtain cx r where p: "p = (cx, r)" by (cases p)
    then have t: "request_fits (Some (cx, r))" "request_fits (Some (cx, put_proc new r))" for new
      using assms(2) Some put_fits by simp_all
    show ?thesis
      unfolding Some p serve_routed_def Let_def
      using assms(1) ends[OF t(1)]
      by (simp add: t send_page_fits fail_with_fits serve_file_fits split_beta split: routed.split option.split answer.split)
  qed
qed

lemma serve_session_fits: "fits (sv_store sv) \<Longrightarrow> allowed q \<Longrightarrow> outcome_fits (serve_session w q meth body sv)"
proof -
  assume sv: "fits (sv_store sv)" "allowed q"
  have b: "fits st1 \<and> request_fits (Some (cx, r))"
    if "session_cookies (cookies_read (wo_hmac w) (wo_json w) (header ''cookie'' (hq_headers q))) = Some cookies"
      "session_begin (wo_hmac w) (wo_ser w) memory_get app_session_options True (hq_now q) (hq_uid q)
        (server_sess_req path cookies) (sv_store sv) = Began cx r st1" for cookies path cx r st1
    using began[OF sv that] by (auto simp: request_fits_def)
  have ends: "outcome_fits (Ends e, sv)" for e using sv by (simp add: outcome_fits_def)
  show ?thesis
    using sv ends
    by (simp add: serve_session_def fail_with_fits serve_routed_fits b begin_never_fails split: option.split begun.split)
qed

lemma serve_fits: "fits (sv_store sv) \<Longrightarrow> allowed q \<Longrightarrow> outcome_fits (serve w q sv)"
proof -
  assume sv: "fits (sv_store sv)" "allowed q"
  have ends: "outcome_fits (r, sv)" if "\<And>fifo cx rq. r \<noteq> AwaitsFifo fifo cx rq" for r
    using sv that unfolding outcome_fits_def by (cases r) auto
  have "outcome_fits (serve_body w q sv)"
    using sv ends by (simp add: serve_body_def fail_with_fits serve_session_fits split: went.split option.split)
  moreover have "outcome_fits (Sent (Icon headers buf) None, sv\<lparr>sv_icon := icon\<rparr>)" for icon headers buf
    using sv by (simp add: outcome_fits_def)
  ultimately show ?thesis
    using sv ends by (simp add: serve_def fail_with_fits split: qs_result.split option.split sum.split prod.split)
qed

definition running_fits :: "'b running \<Rightarrow> bool" where
  "running_fits s \<longleftrightarrow> ru_clean s \<and> fits (sv_store (ru_server s)) \<and> (\<forall>x \<in> set (ru_waiting s). request_fits (Some x))"

lemma answer_waiting_fits:
  "fits (sv_store sv) \<Longrightarrow> request_fits (Some (cx, r)) \<Longrightarrow> fits (sv_store (snd (answer_waiting w now cx r reply sv)))"
  unfolding answer_waiting_def using send_page_fits outcome_fits_def by blast

lemma step_fits:
  assumes "running_fits s" "case e of Arrives q \<Rightarrow> allowed q \<and> \<not> writes_prototypes w q | Replied i now reply \<Rightarrow> True"
  shows "running_fits (server_step w e s)"
proof (cases e)
  case (Arrives q)
  then have "outcome_fits (serve w q (ru_server s))" using assms by (simp add: running_fits_def serve_fits)
  then show ?thesis
    using assms Arrives by (auto simp: running_fits_def outcome_fits_def split_beta Let_def serve_writes split: served.split)
next
  case (Replied i now reply)
  have "fits (sv_store (snd (answer_waiting w now (fst (ru_waiting s ! i)) (snd (ru_waiting s ! i)) reply (ru_server s))))"
    if "i < length (ru_waiting s)"
    using assms(1) that nth_mem[OF that] by (intro answer_waiting_fits) (auto simp: running_fits_def)
  then show ?thesis
    using assms(1) Replied by (auto simp: running_fits_def split_beta Let_def dest: in_set_takeD in_set_dropD)
qed

lemma run_fits:
  assumes "running_fits s" "harmless w es" "\<forall>e \<in> set es. case e of Arrives q \<Rightarrow> allowed q | Replied i now reply \<Rightarrow> True"
  shows "running_fits (run_events (server_step w) es s)"
  using assms
proof (induction es arbitrary: s)
  case (Cons e es)
  have "running_fits (server_step w e s)"
    by (rule step_fits) (use Cons.prems in \<open>auto simp: harmless_def split: server_event.splits\<close>)
  moreover have "harmless w es" using Cons.prems(2) by (simp add: harmless_def)
  ultimately show ?case using Cons by simp
qed simp

end

text \<open>The store of the application is typed: it holds only sessions with the application's cookie and at most one server.\<close>

interpretation typed: session_rule w store_typed "\<lambda>se. \<exists>sid proc. se = app_session sid proc" "\<lambda>_. True" for w
proof
  fix st and se :: "server_proc session" and now
  assume "store_typed st" "\<exists>sid proc. se = app_session sid proc"
  then show "store_typed (memory_set proc_json (se_id se) (reset_max_age now se) st)" by (auto simp: store_typed_set)
next
  fix se :: "server_proc session" and p
  assume "\<exists>sid proc. se = app_session sid proc"
  then obtain sid proc where "se = app_session sid proc" by blast
  then have "se\<lparr>se_data := obj_set ''proc'' p (se_data se)\<rparr> = app_session sid (Some p)"
    by (cases proc) (simp_all add: app_session_def)
  then show "\<exists>sid' proc'. se\<lparr>se_data := obj_set ''proc'' p (se_data se)\<rparr> = app_session sid' proc'" by blast
next
  fix st q cookies path cx r st1
  assume "store_typed st" "session_begin (wo_hmac w) (wo_ser w) memory_get app_session_options True (hq_now q) (hq_uid q)
        (server_sess_req path cookies) st = Began cx r st1"
  from begin_typed[OF this] show "store_typed st1 \<and> (\<exists>se. sq_session r = Some se \<and> (\<exists>sid proc. se = app_session sid proc))"
    by blast
qed

text \<open>
  C5. The state of the application is typed. However many requests of whatever form arrive, in whatever
  order the waiting ones are answered, the store holds only sessions with the application's cookie and
  at most one server as data, in the form JSON gives them; as long as no query and no body writes to
  the properties that all objects inherit.
\<close>

theorem server_keeps_store_typed:
  assumes "harmless w es"
  shows "store_typed (sv_store (ru_server (run_events (server_step w) es server_start)))"
proof -
  have "typed.running_fits server_start"
    by (simp add: typed.running_fits_def server_start_def store_typed_def)
  then have "typed.running_fits (run_events (server_step w) es server_start)"
    by (rule typed.run_fits[OF _ assms]) (simp split: server_event.split)
  then show ?thesis by (simp add: typed.running_fits_def)
qed

text \<open>
  A waiting request saves its session as it was when it came: a server chosen meanwhile is forgotten.
\<close>

lemma late_answer_reverts_choice:
  assumes "sq_session r = Some (app_session sid proc)" "sid \<noteq> ''__proto__''"
  shows "fst (memory_get t sid (sv_store (snd (answer_waiting w now cx r reply sv)))) =
    Got (stringify proc_json (app_session sid proc))"
proof -
  have "stored_alive t (stringify proc_json (app_session sid proc))"
    using app_alive[of t proc_json "app_session sid proc"] by (simp add: app_session_def)
  then show ?thesis
    using assms by (simp add: answer_waiting_def send_page_def session_end_def Let_def memory_set_def memory_get_def)
qed

section \<open>What ends the process\<close>

lemma store_throws:
  assumes "session_begin hmac ser memory_get app_session_options True now uid (server_sess_req path cookies) st = Threw e"
  shows "\<exists>raw sid. map_of cookies ''connect.sid'' = Some raw \<and>
    parse_signed_cookie hmac raw ''1234567890QWERTY'' = Some sid \<and> sid \<in> set inherited_names"
  using assms
  by (auto simp: session_begin_def server_sess_req_def app_session_options_def truthy_str_def memory_get_def Let_def
      split: if_splits option.splits)

lemma choose_post_throws:
  "choose_post_callback cwd files err out proc = Inl e \<Longrightarrow> \<not> err \<and>
     (case e of MissingArgument \<Rightarrow> length (split_on CHR '' '' (trim_str out)) < 3 | CannotRead cfg \<Rightarrow> files cfg = None)"
  by (auto simp: choose_post_callback_def Let_def js_at_def split: if_splits option.splits)

lemma crashed_handler:
  "run_handler ou body h proc = (Crashed e, p) \<Longrightarrow> \<exists>cmd out. ou_exec ou cmd = (False, out) \<and>
     (case e of MissingArgument \<Rightarrow> length (split_on CHR '' '' (trim_str out)) < 3 | CannotRead cfg \<Rightarrow> ou_files ou cfg = None)"
  by (cases h) (fastforce dest: choose_post_throws split: option.splits sum.splits prod.splits)+

lemma sent_no_end [simp]: "send_page w now sx sv page \<noteq> (Ends c, sv')" "fail_with w q sx sv status \<noteq> (Ends c, sv')"
  "serve_file w q meth path sx sv \<noteq> (Ends c, sv')"
  by (auto simp: fail_with_def send_page_def serve_file_def split: option.splits static_result.splits)

text \<open>The reasons for which a request ends the process.\<close>

definition brings_down :: "'b world \<Rightarrow> http_req \<Rightarrow> ending \<Rightarrow> bool" where
  "brings_down w q c \<longleftrightarrow> (case c of
      StoreThrows e \<Rightarrow>
        \<exists>cookies raw sid. session_cookies (cookies_read (wo_hmac w) (wo_json w) (header ''cookie'' (hq_headers q))) = Some cookies \<and>
          map_of cookies ''connect.sid'' = Some raw \<and>
          parse_signed_cookie (wo_hmac w) raw ''1234567890QWERTY'' = Some sid \<and> sid \<in> set inherited_names
    | HandlerThrows e \<Rightarrow>
        \<exists>cmd out. ou_exec (hq_outside q) cmd = (False, out) \<and>
          (case e of MissingArgument \<Rightarrow> length (split_on CHR '' '' (trim_str out)) < 3
           | CannotRead cfg \<Rightarrow> ou_files (hq_outside q) cfg = None))"

lemma serve_ends:
  assumes "serve w q sv = (Ends c, sv')"
  shows "brings_down w q c"
proof -
  from assms obtain meth body where s: "serve_session w q meth body sv = (Ends c, sv')"
    by (auto simp: serve_def serve_body_def split: qs_result.splits option.splits sum.splits prod.splits went.splits)
  then obtain path cookies where cs: "session_cookies (cookies_read (wo_hmac w) (wo_json w) (header ''cookie'' (hq_headers q))) = Some cookies"
    and b: "(\<exists>e. c = StoreThrows e \<and> session_begin (wo_hmac w) (wo_ser w) memory_get app_session_options True (hq_now q) (hq_uid q)
              (server_sess_req path cookies) (sv_store sv) = Threw e) \<or>
            (\<exists>sx sv1. serve_routed w q meth body path sx sv1 = (Ends c, sv'))"
    by (simp add: serve_session_def split: option.splits begun.splits) blast+
  from b show ?thesis
  proof (elim disjE exE conjE)
    fix e assume "c = StoreThrows e" "session_begin (wo_hmac w) (wo_ser w) memory_get app_session_options True (hq_now q) (hq_uid q)
              (server_sess_req path cookies) (sv_store sv) = Threw e"
    then show ?thesis using store_throws[of "wo_hmac w"] cs by (auto simp: brings_down_def)
  next
    fix sx sv1 assume "serve_routed w q meth body path sx sv1 = (Ends c, sv')"
    then obtain fs h proc e p where "run_handler (hq_outside q) fs h proc = (Crashed e, p)" "c = HandlerThrows e"
      by (auto simp: serve_routed_def Let_def split: routed.splits option.splits prod.splits answer.splits)
    then show ?thesis using crashed_handler by (fastforce simp: brings_down_def)
  qed
qed

lemma step_ends:
  assumes "\<not> ru_up (server_step w e s)" "ru_up s" "ru_clean s" "harmless w [e]"
  shows "\<exists>q c. e = Arrives q \<and> last (ru_log (server_step w e s)) = Ends c \<and> brings_down w q c"
proof (cases e)
  case (Arrives q)
  obtain res sv where r: "serve w q (ru_server s) = (res, sv)" by fastforce
  have "res \<noteq> WritesPrototypes" by (rule serve_harmless[OF _ r]) (use assms(4) Arrives in \<open>simp add: harmless_def\<close>)
  then obtain c where c: "res = Ends c" "last (ru_log (server_step w e s)) = Ends c"
    using assms(1-3) Arrives r by (cases res) simp_all
  then show ?thesis using serve_ends r Arrives by blast
next
  case (Replied i now reply)
  then show ?thesis using assms by (simp add: split_beta split: if_splits)
qed

lemma down_stays: "\<not> ru_up s \<Longrightarrow> ru_clean s \<Longrightarrow> server_step w e s = s"
  by (cases e) simp_all

lemma clean_step: "ru_clean s \<Longrightarrow> harmless w [e] \<Longrightarrow> ru_clean (server_step w e s)"
  by (cases e) (auto simp: harmless_def split_beta Let_def serve_writes)


section \<open>Only public files are served\<close>

lemma public_root_plain:
  assumes "wo_dirname w = abs_path ds" "list_all plain_seg ds"
  shows "public_root w = abs_path (ds @ [''public''])"
proof -
  have p: "plain_seg ''public''" by (simp add: plain_seg_def)
  have "segs (abs_path ds @ ''/'' @ ''public'') = ds @ [''public'']"
    using segs_append[of "abs_path ds" "''public''"] segs_abs_path[OF assms(2)] segs_join[of "[''public'']"] by simp
  moreover have "norm_segs False (ds @ [''public'']) = ds @ [''public'']" using assms(2) p by (intro norm_plain) simp
  moreover have "is_abs (abs_path ds @ ''/'' @ ''public'')" by (simp add: is_abs_def abs_path_def)
  moreover have "join_with ''/'' (ds @ [''public'']) \<noteq> []" by (simp add: join_with_snoc)
  ultimately show ?thesis using assms(1) by (simp add: public_root_def path_normalize_def Let_def abs_path_def)
qed

lemma send_page_page: "send_page w now sx sv page = (Sent p cookie, sv') \<Longrightarrow> p = page"
  by (auto simp: send_page_def split: option.splits)

lemma fail_with_page: "fail_with w q sx sv status = (Sent p cookie, sv') \<Longrightarrow> \<exists>s ty. p = ErrorPage s ty"
  unfolding fail_with_def error_page_def by (drule send_page_page) simp

lemma serve_file_page:
  "serve_file w q meth path sx sv = (Sent (File b) cookie, sv') \<Longrightarrow>
   \<exists>search. static_middleware (wo_utc w) (wo_date w) (wo_media w) (wo_stat w) (wo_content w) (fst (hq_now q))
     (public_root w) meth (hq_headers q) path path search express_res = static_result.Answered b"
  by (auto simp: serve_file_def split: static_result.splits dest!: send_page_page fail_with_page)

lemma serve_routed_page:
  "serve_routed w q meth body path sx sv = (Sent (File b) cookie, sv') \<Longrightarrow>
   \<exists>sx' sv1. serve_file w q meth path sx' sv1 = (Sent (File b) cookie, sv')"
  by (auto simp: serve_routed_def Let_def split: routed.splits option.splits answer.splits prod.splits
      dest: send_page_page fail_with_page)

lemma served_file:
  assumes "serve w q sv = (Sent (File b) cookie, sv')"
  shows "\<exists>meth path sx sv1. serve_file w q meth path sx sv1 = (Sent (File b) cookie, sv')"
proof -
  from assms obtain meth body sv1 where "serve_session w q meth body sv1 = (Sent (File b) cookie, sv')"
    by (auto simp: serve_def serve_body_def split: qs_result.splits option.splits sum.splits prod.splits went.splits
        dest: fail_with_page)
  then have "\<exists>path sx sv2. serve_routed w q meth body path sx sv2 = (Sent (File b) cookie, sv')"
    by (simp add: serve_session_def split: option.splits begun.splits) (blast dest: fail_with_page)+
  then show ?thesis using serve_routed_page by blast
qed

text \<open>
  C3. Whatever a request asks for, with whatever escapes, body, cookies or overridden method: a file it
  is sent has a path that begins with the public directory's, holds no \<open>.\<close> or \<open>..\<close>, and is no directory,
  and the bytes are that file's.
\<close>

theorem served_files_are_public:
  assumes "wo_dirname w = abs_path ds" "list_all plain_seg ds"
    and "serve w q sv = (Sent (File b) cookie, sv')"
  shows "\<exists>p st meth. wo_stat w p = Inr st \<and> \<not> st_dir st \<and> starts_with (abs_path (ds @ [''public''])) p \<and>
    (\<forall>x \<in> set (segs p). x \<noteq> ''.'' \<and> x \<noteq> ''..'') \<and> meth \<in> {''GET'', ''HEAD''} \<and>
    b = send_file (wo_utc w) (wo_date w) (wo_media w) (fst (hq_now q)) (static_opts (public_root w)) meth
      (hq_headers q) p st (wo_content w p) express_res"
proof -
  have root: "public_root w = abs_path (ds @ [''public''])" by (rule public_root_plain[OF assms(1,2)])
  have plain: "list_all plain_seg (ds @ [''public''])" using assms(2) by (simp add: plain_seg_def)
  obtain meth path sx sv1 where "serve_file w q meth path sx sv1 = (Sent (File b) cookie, sv')"
    using served_file[OF assms(3)] by blast
  from serve_file_page[OF this] obtain search where "static_middleware (wo_utc w) (wo_date w) (wo_media w) (wo_stat w) (wo_content w)
      (fst (hq_now q)) (abs_path (ds @ [''public''])) meth (hq_headers q) path path search express_res = static_result.Answered b"
    unfolding root by blast
  from static_stays_below_root[OF plain _ this] show ?thesis unfolding root by blast
qed

section \<open>Plain requests are those of the application\<close>

text \<open>
  A request whose query, icon and body play no part reaches the session layer with the fields of its
  form, and what happens then is \<open>app_request\<close>.
\<close>

definition web_request :: "http_req \<Rightarrow> string \<Rightarrow> string obj \<Rightarrow> web_req" where
  "web_request q path fs = \<lparr>wr_method = hq_method q, wr_path = path, wr_cookie = header ''cookie'' (hq_headers q),
     wr_body = fs, wr_override = header ''x-http-method-override'' (hq_headers q)\<rparr>"

lemma map_of_form: "map_of (map (\<lambda>(k, s). (k, QStr s)) fs) k = map_option QStr (map_of fs k)"
  by (induction fs) auto

lemma obj_del_absent: "map_of ps k = None \<Longrightarrow> obj_del k ps = ps"
  by (force simp: obj_del_def map_of_eq_None_iff filter_id_conv)

lemma obj_del_form: "obj_del k (map (\<lambda>(k, s). (k, QStr s)) fs) = map (\<lambda>(k, s). (k, QStr s)) (obj_del k fs)"
  by (induction fs) (auto simp: obj_del_def)

lemma override_form:
  "override_method (hq_method q) (header ''x-http-method-override'' (hq_headers q)) (form_object fs) =
   (let (m, fs') = method_override (web_request q path fs) in Some (m, form_object fs'))"
  by (cases "map_of fs ''_method''")
    (simp_all add: override_method_def form_object_def map_of_form obj_del_form method_override_def web_request_def Let_def
      obj_del_absent)

lemma choose_fields:
  "handler_fields h (form_object fs) = Some fs' \<Longrightarrow> run_handler ou fs' h proc = run_handler ou fs h proc"
  by (cases h) (auto simp: handler_fields_def pid_field_def form_object_def map_of_form Let_def choose_post_command_def split: option.splits)

lemma form_has_fields: "\<exists>fs'. handler_fields h (form_object fs) = Some fs'"
  by (auto simp: handler_fields_def pid_field_def form_object_def map_of_form Let_def split: option.splits)

section \<open>Sessions are isolated\<close>

text \<open>The session a request asks for: its cookie's value when the signature is right, or when it has none.\<close>

definition asked_session :: "'b world \<Rightarrow> http_req \<Rightarrow> string option" where
  "asked_session w q =
     (case session_cookies (cookies_read (wo_hmac w) (wo_json w) (header ''cookie'' (hq_headers q))) of
        None \<Rightarrow> None
      | Some cookies \<Rightarrow>
          (case map_of cookies ''connect.sid'' of
             None \<Rightarrow> None
           | Some raw \<Rightarrow> if raw = [] then None else parse_signed_cookie (wo_hmac w) raw ''1234567890QWERTY''))"

lemma memory_get_other: "memory_get now sid' st = (g, st1) \<Longrightarrow> sid' \<noteq> sid \<Longrightarrow> map_of st1 sid = map_of st sid"
  by (auto simp: memory_get_def memory_destroy_def split: option.splits if_splits)

lemma begin_asked:
  assumes "session_begin hmac ser memory_get app_session_options True now uid (server_sess_req path cookies) st = Began cx r st1"
  shows "(\<exists>se. sq_session r = Some se \<and> se_id se = uid) \<and> st1 = st \<or>
    (\<exists>raw sid' g se. map_of cookies ''connect.sid'' = Some raw \<and> raw \<noteq> [] \<and>
      parse_signed_cookie hmac raw ''1234567890QWERTY'' = Some sid' \<and> memory_get (fst now) sid' st = (g, st1) \<and>
      sq_session r = Some se \<and> se_id se \<in> {uid, sid'})"
  using assms
  by (auto simp: session_begin_def server_sess_req_def app_session_options_def truthy_str_def Let_def generate_def
      create_session_def split: if_splits prod.splits got.splits)

interpretation other: session_rule w "\<lambda>st. map_of st sid = v" "\<lambda>se. se_id se \<noteq> sid"
    "\<lambda>q. hq_uid q \<noteq> sid \<and> asked_session w q \<noteq> Some sid" for w sid v
proof
  fix st q cookies path cx r st1
  assume "map_of st sid = v" "hq_uid q \<noteq> sid \<and> asked_session w q \<noteq> Some sid"
    and c: "session_cookies (cookies_read (wo_hmac w) (wo_json w) (header ''cookie'' (hq_headers q))) = Some cookies"
    and b: "session_begin (wo_hmac w) (wo_ser w) memory_get app_session_options True (hq_now q) (hq_uid q)
        (server_sess_req path cookies) st = Began cx r st1"
  then show "map_of st1 sid = v \<and> (\<exists>se. sq_session r = Some se \<and> se_id se \<noteq> sid)"
    using begin_asked[OF b] memory_get_other[of "fst (hq_now q)" _ st _ st1 sid] by (auto simp: asked_session_def)
qed (simp_all add: memory_set_def)

text \<open>Requests of others leave what is stored for a session.\<close>

lemma others_keep_session:
  assumes "ru_clean s" "\<forall>(cx, r) \<in> set (ru_waiting s). \<exists>se. sq_session r = Some se \<and> se_id se \<noteq> sid"
    and "harmless w es"
    and "\<forall>e \<in> set es. case e of Arrives q \<Rightarrow> hq_uid q \<noteq> sid \<and> asked_session w q \<noteq> Some sid | Replied i now reply \<Rightarrow> True"
  shows "map_of (sv_store (ru_server (run_events (server_step w) es s))) sid = map_of (sv_store (ru_server s)) sid \<and>
    ru_clean (run_events (server_step w) es s)"
proof -
  have "other.running_fits sid (map_of (sv_store (ru_server s)) sid) s"
    using assms(1,2) by (fastforce simp: other.running_fits_def other.request_fits_def)
  from other.run_fits[OF this assms(3,4)] show ?thesis by (simp add: other.running_fits_def)
qed

section \<open>From the bytes of a form to the page with the server\<close>

lemma plain_session_cookies:
  assumes "list_all (\<lambda>(k, v). index_of v ''j:'' \<noteq> 0) (cookie_parse hdr)"
  shows "session_cookies (cookies_read hmac read_json hdr) = Some (if hdr = [] then [] else cookie_parse hdr)"
proof -
  have "cookies_read hmac read_json hdr = (if hdr = [] then [] else map (\<lambda>(k, v). (k, CStr v)) (cookie_parse hdr))"
    using assms by (auto simp: cookies_read_def cookie_parser_def nonempty_str_def parse_json_cookies_def parse_json_cookie_def list_all_iff)
  moreover have plain: "cookie_as_text (CStr v) = Some v" for v by (simp add: cookie_as_text_def)
  moreover have "map_of (map (\<lambda>(k, v). (k, CStr v)) cs) k = map_option (CStr :: string \<Rightarrow> qs_val cookie_val) (map_of cs k)" for cs :: "string obj" and k
    by (induction cs) auto
  ultimately show ?thesis
    by (cases "map_of (cookie_parse hdr) ''connect.sid''") (simp_all add: session_cookies_def comp_def case_prod_unfold plain)
qed

lemma serve_is_app:
  assumes url: "find_sub ''?'' (hq_url q) = None" "hq_url q \<noteq> ''/favicon.ico''" "url_pathname (hq_url q) = Some path"
    and body: "body_parser (wo_utf8 w) (wo_json w) (wo_form w) (hq_events q) (body_request q) = Next r"
      "body_value (bq_body r) = form_object fs"
    and cookies: "list_all (\<lambda>(k, v). index_of v ''j:'' \<noteq> 0) (cookie_parse (header ''cookie'' (hq_headers q)))"
    and app: "app_request (wo_hmac w) (wo_ser w) (wo_utc w) (wo_rx w) (hq_outside q) (hq_now q) (hq_uid q)
      (web_request q path fs) (sv_store sv) = Served ans hdr st1"
  shows "serve w q sv = (Sent (Page ans) hdr, sv\<lparr>sv_store := st1\<rparr>)"
proof -
  let ?m = "method_override (web_request q path fs)"
  have path: "wr_path (web_request q path fs) = path" by (simp add: web_request_def)
  have start: "server_sess_req path (if header ''cookie'' (hq_headers q) = [] then [] else cookie_parse (header ''cookie'' (hq_headers q))) =
      session_request (web_request q path fs)"
    by (simp add: server_sess_req_def session_request_def web_request_def)
  obtain cx r2 st2 h where b: "session_begin (wo_hmac w) (wo_ser w) memory_get app_session_options True (hq_now q) (hq_uid q)
      (session_request (web_request q path fs)) (sv_store sv) = Began cx r2 st2"
    "route_request (wo_rx w) (fst ?m) path = Handled h"
    using app by (auto simp: app_request_def Let_def split_beta path split: begun.splits routed.splits)
  obtain fs' where fs': "handler_fields h (form_object (snd ?m)) = Some fs'" using form_has_fields by blast
  have same: "run_handler ou fs' h proc = run_handler ou (snd ?m) h proc" for ou proc by (rule choose_fields[OF fs'])
  have "serve w q sv = serve_session w q (fst ?m) (form_object (snd ?m)) sv"
    using url body override_form[of q fs path]
    by (simp add: serve_def query_stage_def favicon_def serve_body_def split_beta Let_def)
  also have "\<dots> = serve_routed w q (fst ?m) (form_object (snd ?m)) path (Some (cx, r2)) (sv\<lparr>sv_store := st2\<rparr>)"
    using url(3) plain_session_cookies[OF cookies, of "wo_hmac w" "wo_json w"] b(1)
    by (simp add: serve_session_def start)
  also have "\<dots> = (Sent (Page ans) hdr, sv\<lparr>sv_store := st1\<rparr>)"
    using app b fs' same
    by (auto simp: app_request_def serve_routed_def send_page_def Let_def path split_beta split: answer.splits)
  finally show ?thesis .
qed

lemma choice_cookie_parsed:
  "cookie_parse (choice_cookie hmac uid) = [(''connect.sid'', ''s:'' @ sign hmac uid ''1234567890QWERTY'')]"
proof -
  have n: "plain_name ''connect.sid''" "''connect.sid'' \<notin> set inherited_names"
    by (simp_all add: plain_name_def is_space_def inherited_names_def)
  let ?raw = "''s:'' @ sign hmac uid ''1234567890QWERTY''"
  have "cookie_parse (choice_cookie hmac uid) = parse_pair [] (''connect.sid'' @ ''='' @ encode_uri ?raw)"
    using split_pairs_plain[OF set_cookie_pair[OF n(1), of ?raw]] by (simp add: cookie_parse_def choice_cookie_def)
  also have "\<dots> = obj_set ''connect.sid'' ?raw []" by (rule parse_pair_encoded[OF n(1) _ n(2)]) simp
  finally show ?thesis by simp
qed

lemma no_cookies_parsed: "cookie_parse [] = []"
  by code_simp

lemma two_urls:
  "find_sub ''?'' ''/choose'' = None" "url_pathname ''/choose'' = Some ''/choose''"
  "find_sub ''?'' ''/'' = None" "url_pathname ''/'' = Some ''/''" "key_ok ''pid''"
  by code_simp+

lemma posted_choice_served:
  assumes ext: "literal_rx (wo_rx w)" "reads_ascii (wo_utf8 w)"
    and form: "hq_method q = ''POST''" "hq_url q = ''/choose''" "mime (body_request q) = ''application/x-www-form-urlencoded''"
      "map_of (hq_headers q) ''content-length'' = Some (show_nat (length (form_text [(''pid'', pid)])))"
      "header ''cookie'' (hq_headers q) = []" "header ''x-http-method-override'' (hq_headers q) = []"
      "hq_events q = map Data cs @ [End]" "concat cs = form_text [(''pid'', pid)]"
      "int (length (form_text [(''pid'', pid)])) \<le> 1048576"
    and found: "choose_post_command [(''pid'', pid)] = Some cmd" "ou_exec (hq_outside q) cmd = (err, out)"
      "choose_post_callback (ou_cwd (hq_outside q)) (ou_files (hq_outside q)) err out None = Inr (Redirect ''/'', Some p)"
  shows "\<exists>hdr. serve w q sv = (Sent (Page (Responses [Redirect ''/''])) (Some hdr),
      sv\<lparr>sv_store := memory_set proc_json (hq_uid q) (app_session (hq_uid q) (Some p)) (sv_store sv)\<rparr>) \<and>
    takeWhile (\<lambda>c. c \<noteq> CHR '';'') hdr = choice_cookie (wo_hmac w) (hq_uid q)"
proof -
  let ?fs = "[(''pid'', pid)]"
  let ?req = "web_request q ''/choose'' ?fs"
  let ?r = "(body_request q)\<lparr>bq_body := Some (Form (form_object ?fs)), bq_parsed := True\<rparr>"
  have body: "body_parser (wo_utf8 w) (wo_json w) (wo_form w) (hq_events q) (body_request q) = Next ?r"
    unfolding form(7)
    by (rule posted_form_arrives[OF ext(2)]) (use form two_urls(5) in \<open>simp_all add: body_request_def\<close>)
  have fields: "wr_method ?req = ''POST''" "wr_path ?req = ''/choose''" "wr_cookie ?req = []"
      "map_of (wr_body ?req) ''_method'' = None" "wr_override ?req = []" "wr_body ?req = ?fs"
    using form(1,5,6) by (simp_all add: web_request_def)
  from choice_answered[OF ext(1) fields(1-5), unfolded fields(6), OF found, where hmac = "wo_hmac w" and ser = "wo_ser w"
      and utc = "wo_utc w" and now = "hq_now q" and uid = "hq_uid q" and st = "sv_store sv"]
  obtain hdr where app: "app_request (wo_hmac w) (wo_ser w) (wo_utc w) (wo_rx w) (hq_outside q) (hq_now q) (hq_uid q) ?req (sv_store sv) =
      Served (Responses [Redirect ''/'']) (Some hdr) (memory_set proc_json (hq_uid q) (app_session (hq_uid q) (Some p)) (sv_store sv))"
    and cookie: "takeWhile (\<lambda>c. c \<noteq> CHR '';'') hdr = choice_cookie (wo_hmac w) (hq_uid q)" by blast
  have "serve w q sv = (Sent (Page (Responses [Redirect ''/''])) (Some hdr),
      sv\<lparr>sv_store := memory_set proc_json (hq_uid q) (app_session (hq_uid q) (Some p)) (sv_store sv)\<rparr>)"
    by (rule serve_is_app[OF _ _ _ body _ _ app]) (simp_all add: form(2,5) two_urls no_cookies_parsed body_value_def)
  with cookie show ?thesis by blast
qed

lemma home_served:
  assumes ext: "literal_rx (wo_rx w)" "base64_digest (wo_hmac w)"
    and stored: "uid \<noteq> []" "map_of (sv_store sv) uid = Some (stringify proc_json (app_session uid (Some p)))"
    and again: "hq_method q = ''GET''" "hq_url q = ''/''" "map_of (hq_headers q) ''content-length'' = None"
      "map_of (hq_headers q) ''transfer-encoding'' = None" "header ''x-http-method-override'' (hq_headers q) = []"
      "header ''cookie'' (hq_headers q) = choice_cookie (wo_hmac w) uid"
  shows "\<exists>sv'. serve w q sv = (Sent (Page (Responses [RenderIndex (json_proc p)])) None, sv')"
proof -
  let ?req = "web_request q ''/'' []"
  let ?r = "(body_request q)\<lparr>bq_body := Some (Form (QObj []))\<rparr>"
  have body: "body_parser (wo_utf8 w) (wo_json w) (wo_form w) (hq_events q) (body_request q) = Next ?r"
    by (rule no_body_parsed) (use again(3,4) in \<open>simp_all add: has_body_def body_request_def\<close>)
  have fields: "wr_method ?req = ''GET''" "wr_path ?req = ''/''" "wr_cookie ?req = choice_cookie (wo_hmac w) uid"
      "map_of (wr_body ?req) ''_method'' = None" "wr_override ?req = []"
    using again(1,5,6) by (simp_all add: web_request_def)
  from home_answered[OF ext stored fields, of "wo_ser w" "wo_utc w" "hq_outside q" "hq_now q" "hq_uid q"]
  obtain st3 where app: "app_request (wo_hmac w) (wo_ser w) (wo_utc w) (wo_rx w) (hq_outside q) (hq_now q) (hq_uid q) ?req (sv_store sv) =
      Served (Responses [RenderIndex (json_proc p)]) None st3" by blast
  have "index_of (''s:'' @ x) ''j:'' \<noteq> 0" for x by (simp add: index_of_zero)
  then have "list_all (\<lambda>(k, v). index_of v ''j:'' \<noteq> 0) (cookie_parse (header ''cookie'' (hq_headers q)))"
    unfolding again(6) choice_cookie_parsed by simp
  then have "serve w q sv = (Sent (Page (Responses [RenderIndex (json_proc p)])) None, sv\<lparr>sv_store := st3\<rparr>)"
    by (intro serve_is_app[OF _ _ _ body _ _ app]) (simp_all add: again(2) two_urls body_value_def form_object_def)
  then show ?thesis by blast
qed

text \<open>
  C1. From the bytes of a form to the page. A browser without cookies posts a server's id to \<open>/choose\<close>, in any
  chunks; when the handler finds the server's process and configuration, the answer is a redirect with
  a session cookie. Whatever the server does then for clients with other sessions, for as long as
  it runs and none of them writes to the properties that all objects inherit, a front page requested
  with that cookie shows exactly this server, as JSON kept it in the session, and sets no new cookie.
  That is the server as it was found when its id is a number and each line of its configuration has
  a value (\<open>json_proc_same\<close>).
\<close>

theorem posted_choice_is_shown:
  assumes ext: "literal_rx (wo_rx w)" "base64_digest (wo_hmac w)" "reads_ascii (wo_utf8 w)"
    and form: "hq_method q = ''POST''" "hq_url q = ''/choose''" "mime (body_request q) = ''application/x-www-form-urlencoded''"
      "map_of (hq_headers q) ''content-length'' = Some (show_nat (length (form_text [(''pid'', pid)])))"
      "header ''cookie'' (hq_headers q) = []" "header ''x-http-method-override'' (hq_headers q) = []"
      "hq_events q = map Data cs @ [End]" "concat cs = form_text [(''pid'', pid)]"
      "int (length (form_text [(''pid'', pid)])) \<le> 1048576"
    and found: "choose_post_command [(''pid'', pid)] = Some cmd" "ou_exec (hq_outside q) cmd = (err, out)"
      "choose_post_callback (ou_cwd (hq_outside q)) (ou_files (hq_outside q)) err out None = Inr (Redirect ''/'', Some p)"
    and start: "ru_up s" "ru_clean s" "hq_uid q \<noteq> []" "hq_uid q \<noteq> ''__proto__''"
      "\<forall>(cx, r) \<in> set (ru_waiting s). \<exists>se. sq_session r = Some se \<and> se_id se \<noteq> hq_uid q"
    and others: "harmless w es" "\<forall>e \<in> set es. case e of
        Arrives q' \<Rightarrow> hq_uid q' \<noteq> hq_uid q \<and> asked_session w q' \<noteq> Some (hq_uid q) | Replied i now reply \<Rightarrow> True"
    and again: "hq_method q2 = ''GET''" "hq_url q2 = ''/''" "map_of (hq_headers q2) ''content-length'' = None"
      "map_of (hq_headers q2) ''transfer-encoding'' = None" "header ''x-http-method-override'' (hq_headers q2) = []"
  shows "\<exists>hdr. ru_log (server_step w (Arrives q) s) = ru_log s @ [Sent (Page (Responses [Redirect ''/''])) (Some hdr)] \<and>
    ru_up (server_step w (Arrives q) s) \<and>
    (let s2 = run_events (server_step w) es (server_step w (Arrives q) s)
     in ru_up s2 \<and> header ''cookie'' (hq_headers q2) = takeWhile (\<lambda>c. c \<noteq> CHR '';'') hdr \<longrightarrow>
       ru_log (server_step w (Arrives q2) s2) = ru_log s2 @ [Sent (Page (Responses [RenderIndex (json_proc p)])) None])"
proof -
  let ?uid = "hq_uid q"
  let ?s1 = "server_step w (Arrives q) s"
  let ?s2 = "run_events (server_step w) es ?s1"
  obtain hdr where first: "serve w q (ru_server s) = (Sent (Page (Responses [Redirect ''/''])) (Some hdr),
      (ru_server s)\<lparr>sv_store := memory_set proc_json ?uid (app_session ?uid (Some p)) (sv_store (ru_server s))\<rparr>)"
    and cookie: "takeWhile (\<lambda>c. c \<noteq> CHR '';'') hdr = choice_cookie (wo_hmac w) ?uid"
    using posted_choice_served[OF ext(1,3) form found, of "ru_server s"] by blast
  have s1: "ru_log ?s1 = ru_log s @ [Sent (Page (Responses [Redirect ''/''])) (Some hdr)]" "ru_waiting ?s1 = ru_waiting s" "ru_up ?s1" "ru_clean ?s1"
    "map_of (sv_store (ru_server ?s1)) ?uid = Some (stringify proc_json (app_session ?uid (Some p)))"
    using start by (simp_all add: first memory_set_def)
  from others_keep_session[of ?s1 ?uid w es] s1 start(5) others
  have kept: "map_of (sv_store (ru_server ?s2)) ?uid = Some (stringify proc_json (app_session ?uid (Some p)))" "ru_clean ?s2" by simp_all
  have "ru_log (server_step w (Arrives q2) ?s2) = ru_log ?s2 @ [Sent (Page (Responses [RenderIndex (json_proc p)])) None]"
    if "ru_up ?s2" "header ''cookie'' (hq_headers q2) = takeWhile (\<lambda>c. c \<noteq> CHR '';'') hdr"
    using home_served[OF ext(1,2) start(3) kept(1) again that(2)[unfolded cookie]] that(1) kept(2) by auto
  with s1(1,3) show ?thesis by (auto simp: Let_def)
qed

text \<open>An instance: the toy digest and engine, a directory with one public file, one server process.\<close>

definition demo_world :: "nat world" where
  "demo_world = \<lparr>wo_hmac = demo_hmac, wo_md5 = (\<lambda>_. ''m''), wo_ser = (\<lambda>_. []), wo_utc = (\<lambda>_. ''date''),
     wo_date = (\<lambda>_. None), wo_utf8 = (\<lambda>s. s), wo_json = (\<lambda>_. None), wo_form = (\<lambda>_. None), wo_rx = demo_rx,
     wo_media = (\<lambda>_. ''text''), wo_stat = demo_fs, wo_content = (\<lambda>_. [10, 20, 30, 40]), wo_icon = Inr [1, 2],
     wo_env = ''development'', wo_dirname = ''/app'', wo_polluted = (\<lambda>_ s. s)\<rparr>"

definition demo_request :: "string \<Rightarrow> string \<Rightarrow> string obj \<Rightarrow> body_event list \<Rightarrow> string \<Rightarrow> http_req" where
  "demo_request meth url headers events uid = \<lparr>hq_method = meth, hq_url = url, hq_headers = headers, hq_events = events,
     hq_now = (100, 100), hq_uid = uid, hq_outside = demo_outside\<rparr>"

definition demo_choice :: http_req where
  "demo_choice = demo_request ''POST'' ''/choose'' [(''content-type'', ''application/x-www-form-urlencoded''), (''content-length'', ''6'')]
     [Data ''pid'', Data ''=12'', End] ''abc''"

lemma demo_world_ok: "literal_rx (wo_rx demo_world)" "base64_digest (wo_hmac demo_world)" "reads_ascii (wo_utf8 demo_world)"
  by (simp_all add: demo_world_def demo_rx_literal demo_digest reads_ascii_def)

lemma demo_choice_found:
  "choose_post_callback (ou_cwd (hq_outside demo_choice)) (ou_files (hq_outside demo_choice)) False ''12 s c'' None =
     Inr (Redirect ''/'', Some demo_proc)"
proof -
  have arr: "split_on CHR '' '' (trim_str ''12 s c'') = [''12'', ''s'', ''c'']" by code_simp
  show ?thesis
    unfolding choose_post_callback_def arr by (simp add: js_at_def Let_def demo_outside_def demo_proc_def demo_choice_def demo_request_def)
qed

lemma demo_choice_form:
  "hq_method demo_choice = ''POST''" "hq_url demo_choice = ''/choose''"
  "mime (body_request demo_choice) = ''application/x-www-form-urlencoded''"
  "map_of (hq_headers demo_choice) ''content-length'' = Some (show_nat (length (form_text [(''pid'', ''12'')])))"
  "header ''cookie'' (hq_headers demo_choice) = []" "header ''x-http-method-override'' (hq_headers demo_choice) = []"
  "hq_events demo_choice = map Data [''pid'', ''=12''] @ [End]" "concat [''pid'', ''=12''] = form_text [(''pid'', ''12'')]"
  "int (length (form_text [(''pid'', ''12'')])) \<le> 1048576"
  by code_simp+

theorem posted_choice_is_shown_witness:
  "\<exists>hdr q2. ru_log (server_step demo_world (Arrives demo_choice) server_start) = [Sent (Page (Responses [Redirect ''/''])) (Some hdr)] \<and>
    header ''cookie'' (hq_headers q2) = takeWhile (\<lambda>c. c \<noteq> CHR '';'') hdr \<and>
    ru_log (server_step demo_world (Arrives q2) (server_step demo_world (Arrives demo_choice) server_start)) =
      [Sent (Page (Responses [Redirect ''/''])) (Some hdr), Sent (Page (Responses [RenderIndex demo_proc])) None]"
proof -
  let ?home = "\<lambda>cookie. demo_request ''GET'' ''/'' [(''cookie'', cookie)] [] ''new''"
  have cmd: "choose_post_command [(''pid'', ''12'')] =
      Some (''ps x -o pid,command | grep csiebox_server | grep '' @ ''12'' @ '' | grep -v grep'')"
    "ou_exec (hq_outside demo_choice) x = (False, ''12 s c'')" for x
    by (simp_all add: choose_post_command_def demo_choice_def demo_request_def demo_outside_def)
  have start: "ru_up server_start" "ru_clean server_start" "hq_uid demo_choice \<noteq> []" "hq_uid demo_choice \<noteq> ''__proto__''"
    "\<forall>(cx, r) \<in> set (ru_waiting server_start). \<exists>se. sq_session r = Some se \<and> se_id se \<noteq> hq_uid demo_choice"
    by (simp_all add: server_start_def demo_choice_def demo_request_def)
  have home: "hq_method (?home c) = ''GET''" "hq_url (?home c) = ''/''" "map_of (hq_headers (?home c)) ''content-length'' = None"
    "map_of (hq_headers (?home c)) ''transfer-encoding'' = None" "header ''x-http-method-override'' (hq_headers (?home c)) = []"
    "header ''cookie'' (hq_headers (?home c)) = c" for c
    by (simp_all add: demo_request_def header_def)
  have none: "harmless demo_world []" "\<forall>e \<in> set []. case e of
      Arrives q' \<Rightarrow> hq_uid q' \<noteq> hq_uid demo_choice \<and> asked_session demo_world q' \<noteq> Some (hq_uid demo_choice) | Replied i now reply \<Rightarrow> True"
    by (simp_all add: harmless_def)
  note shown = posted_choice_is_shown[OF demo_world_ok demo_choice_form cmd demo_choice_found start none home(1-5)]
  have same: "json_proc demo_proc = demo_proc" by code_simp
  obtain hdr where first: "ru_log (server_step demo_world (Arrives demo_choice) server_start) =
      ru_log (server_start :: nat running) @ [Sent (Page (Responses [Redirect ''/''])) (Some hdr)]"
    using shown by blast
  let ?c = "takeWhile (\<lambda>c. c \<noteq> CHR '';'') hdr"
  have "ru_log (server_step demo_world (Arrives (?home ?c)) (server_step demo_world (Arrives demo_choice) server_start)) =
      ru_log (server_step demo_world (Arrives demo_choice) server_start) @ [Sent (Page (Responses [RenderIndex demo_proc])) None]"
    using shown[of ?c, unfolded same] first home(6)[of ?c] by (auto simp: Let_def simp del: server_step.simps)
  then show ?thesis using first home(6)[of ?c] by (intro exI conjI) (simp_all add: server_start_def del: server_step.simps)
qed

text \<open>
  C2. Sessions are isolated. As long as the requests that arrive neither ask for a session nor are given its
  name, and none that waits belongs to it, what is stored for it does not change, whatever they do; but
  for the queries and bodies that write to the properties all objects inherit, where nothing is said.
\<close>

theorem sessions_are_isolated:
  assumes "ru_clean s" "\<forall>(cx, r) \<in> set (ru_waiting s). \<exists>se. sq_session r = Some se \<and> se_id se \<noteq> sid"
    and "harmless w es"
    and "\<forall>e \<in> set es. case e of Arrives q \<Rightarrow> hq_uid q \<noteq> sid \<and> asked_session w q \<noteq> Some sid | Replied i now reply \<Rightarrow> True"
  shows "map_of (sv_store (ru_server (run_events (server_step w) es s))) sid = map_of (sv_store (ru_server s)) sid"
  using others_keep_session[OF assms] by blast

theorem sessions_are_isolated_witness:
  "map_of (sv_store (ru_server (run_events (server_step demo_world)
      [Arrives demo_choice, Arrives (demo_request ''GET'' ''/'' [(''cookie'', ''connect.sid=s:me.x'')] [] ''new''), Replied 0 (1, 1) (Success 3)]
      server_start))) ''me'' = None"
proof -
  have "asked_session demo_world demo_choice = None"
    "asked_session demo_world (demo_request ''GET'' ''/'' [(''cookie'', ''connect.sid=s:me.x'')] [] ''new'') = None"
    by code_simp+
  moreover have "hq_uid demo_choice = ''abc''" "hq_uid (demo_request a b c d e) = e" for a b c d e
    by (simp_all add: demo_choice_def demo_request_def)
  moreover have "harmless demo_world [Arrives demo_choice,
      Arrives (demo_request ''GET'' ''/'' [(''cookie'', ''connect.sid=s:me.x'')] [] ''new''), Replied 0 (1, 1) (Success 3)]"
    by code_simp
  ultimately show ?thesis
    by (subst sessions_are_isolated) (simp_all add: server_start_def)
qed

theorem server_keeps_store_typed_witness:
  "store_typed (sv_store (ru_server (run_events (server_step demo_world) [Arrives demo_choice] server_start)))"
proof -
  have "harmless demo_world [Arrives demo_choice]" by code_simp
  then show ?thesis by (rule server_keeps_store_typed)
qed

theorem served_files_are_public_witness:
  "\<exists>p st b cookie sv'. serve demo_world (demo_request ''GET'' ''/x/..%2fjs/b.js'' [] [] ''abc'') \<lparr>sv_icon = None, sv_store = []\<rparr> =
       (Sent (File b) cookie, sv') \<and> demo_fs p = Inr st \<and> starts_with ''/app/public'' p"
proof -
  let ?r = "serve demo_world (demo_request ''GET'' ''/x/..%2fjs/b.js'' [] [] ''abc'') \<lparr>sv_icon = None, sv_store = []\<rparr>"
  have "case fst ?r of Sent (File b) cookie \<Rightarrow> True | _ \<Rightarrow> False" by code_simp
  then obtain b cookie sv' where r: "?r = (Sent (File b) cookie, sv')"
    by (cases ?r) (auto split: served.splits web_page.splits)
  have "wo_dirname demo_world = abs_path [''app'']" "list_all plain_seg [''app'']" by code_simp+
  from served_files_are_public[OF this r] obtain p st where "wo_stat demo_world p = Inr st" "starts_with (abs_path ([''app''] @ [''public''])) p"
    by blast
  moreover have "abs_path ([''app''] @ [''public'']) = ''/app/public''" by code_simp
  ultimately show ?thesis using r by (auto simp: demo_world_def)
qed

text \<open>One cookie without a signature ends the process, whatever page it is sent with.\<close>

definition demo_forged :: http_req where
  "demo_forged = demo_request ''GET'' ''/choose'' [(''cookie'', ''connect.sid=constructor'')] [] ''abc''"

lemma unsigned_cookie_ends_process:
  "case fst (serve demo_world demo_forged \<lparr>sv_icon = None, sv_store = []\<rparr>) of
     Ends (StoreThrows e) \<Rightarrow> e = ''SyntaxError'' | _ \<Rightarrow> False"
  by code_simp



section \<open>What a request can do\<close>

text \<open>A query, read before anything else, can make every page fail or write to the properties all objects inherit.\<close>

lemma query_fails_page:
  "hq_url q = ''/?a=1&a[b][c]=2'' \<Longrightarrow> serve w q sv = fail_with w q None sv 500"
proof -
  have "query_stage ''/?a=1&a[b][c]=2'' = Throws" by code_simp
  then show "hq_url q = ''/?a=1&a[b][c]=2'' \<Longrightarrow> serve w q sv = fail_with w q None sv 500" by (simp add: serve_def)
qed

lemma query_writes_prototypes:
  "hq_url q = ''/?a=1&a[__proto__][__proto__][admin]=1'' \<Longrightarrow> serve w q sv = (WritesPrototypes, sv)"
proof -
  have "query_stage ''/?a=1&a[__proto__][__proto__][admin]=1'' = Escapes" by code_simp
  then show "hq_url q = ''/?a=1&a[__proto__][__proto__][admin]=1'' \<Longrightarrow> serve w q sv = (WritesPrototypes, sv)"
    by (simp add: serve_def)
qed

text \<open>The text of the field \<open>pid\<close> is part of the shell's command as it was typed.\<close>

lemma posted_text_reaches_shell:
  "\<exists>fs. handler_fields ChoosePost (form_object [(''pid'', anything)]) = Some fs \<and>
     choose_post_command fs = Some (''ps x -o pid,command | grep csiebox_server | grep '' @ anything @ '' | grep -v grep'')"
  by (simp add: handler_fields_def pid_field_def form_object_def choose_post_command_def)

end
