(* ===== verification/Plugin_Registry.thy ===== *)
theory Plugin_Registry
  imports JS_Prelude
begin

text \<open>
  How \<open>bootstrap.js\<close> enters a page: every plugin's module keeps the function that had its name on \<open>$.fn\<close>,
  puts its own there with its constructor and the function \<open>noConflict\<close>, and binds handlers to the
  document or window. The popover's module copies the methods of whatever is the tooltip then.
  What the functions and methods do is in the plugins' own theories.
\<close>

section \<open>Functions on a page\<close>

text \<open>
  A handler runs a method it holds itself, or looks a plugin up by its name on \<open>$.fn\<close> when the event comes.
\<close>

datatype use = OwnMethod string string | ThroughName string

record binding =
  bi_on :: string
  bi_event :: string
  bi_selector :: string
  bi_use :: use

text \<open>
  A function on \<open>$.fn\<close>: its name, its constructor's methods with the class that defines each (none when it has
  no constructor, as functions of other libraries), and what its module found under the name.
\<close>

record plugin_fn =
  pf_name :: string
  pf_methods :: "string obj option"
  pf_old :: "nat option"

record jq_page =
  jq_fn :: "string \<Rightarrow> nat option"
  jq_made :: "plugin_fn list"
  jq_bound :: "binding list"

datatype jq_error = RequiresJQuery | RequiresTooltip | NoConstructor | NotAFunction string

definition load_module :: "string \<Rightarrow> string obj \<Rightarrow> binding list \<Rightarrow> jq_page \<Rightarrow> jq_page" where
  "load_module name methods bs s =
     s\<lparr>jq_fn := (jq_fn s)(name := Some (length (jq_made s))),
       jq_made := jq_made s @ [\<lparr>pf_name = name, pf_methods = Some methods, pf_old = jq_fn s name\<rparr>],
       jq_bound := jq_bound s @ bs\<rparr>"

text \<open>
  \<open>$.fn.x.noConflict()\<close>: the name goes back to what the module found, and the function is returned. A
  function of another library has no such property.
\<close>

definition no_conflict :: "string \<Rightarrow> jq_page \<Rightarrow> (jq_error + nat) \<times> jq_page" where
  "no_conflict name s =
     (case jq_fn s name of
        None \<Rightarrow> (Inl (NotAFunction name), s)
      | Some f \<Rightarrow>
          if pf_methods (jq_made s ! f) = None then (Inl (NotAFunction ''noConflict''), s)
          else (Inr f, s\<lparr>jq_fn := (jq_fn s)(pf_name (jq_made s ! f) := pf_old (jq_made s ! f))\<rparr>))"

definition methods_of :: "string \<Rightarrow> string list \<Rightarrow> string obj" where
  "methods_of cls ms = map (\<lambda>m. (m, cls)) ms"

section \<open>The modules\<close>

definition alert_module :: "jq_page \<Rightarrow> jq_page" where
  "alert_module = load_module ''alert'' (methods_of ''Alert'' [''close''])
     [\<lparr>bi_on = ''document'', bi_event = ''click.bs.alert.data-api'', bi_selector = ''[data-dismiss=\"alert\"]'',
       bi_use = OwnMethod ''Alert'' ''close''\<rparr>]"

definition button_module :: "jq_page \<Rightarrow> jq_page" where
  "button_module = load_module ''button'' (methods_of ''Button'' [''setState'', ''toggle''])
     [\<lparr>bi_on = ''document'', bi_event = ''click.bs.button.data-api'', bi_selector = ''[data-toggle^=button]'',
       bi_use = ThroughName ''button''\<rparr>]"

definition carousel_module :: "jq_page \<Rightarrow> jq_page" where
  "carousel_module = load_module ''carousel''
     (methods_of ''Carousel'' [''cycle'', ''getActiveIndex'', ''to'', ''pause'', ''next'', ''prev'', ''slide''])
     [\<lparr>bi_on = ''document'', bi_event = ''click.bs.carousel.data-api'', bi_selector = ''[data-slide], [data-slide-to]'',
       bi_use = ThroughName ''carousel''\<rparr>,
      \<lparr>bi_on = ''window'', bi_event = ''load'', bi_selector = ''[data-ride=\"carousel\"]'', bi_use = ThroughName ''carousel''\<rparr>]"

definition collapse_module :: "jq_page \<Rightarrow> jq_page" where
  "collapse_module = load_module ''collapse'' (methods_of ''Collapse'' [''dimension'', ''show'', ''hide'', ''toggle''])
     [\<lparr>bi_on = ''document'', bi_event = ''click.bs.collapse.data-api'', bi_selector = ''[data-toggle=collapse]'',
       bi_use = ThroughName ''collapse''\<rparr>]"

text \<open>The first two of the dropdown's handlers are functions of the module itself.\<close>

definition dropdown_module :: "jq_page \<Rightarrow> jq_page" where
  "dropdown_module = load_module ''dropdown'' (methods_of ''Dropdown'' [''toggle'', ''keydown''])
     [\<lparr>bi_on = ''document'', bi_event = ''click.bs.dropdown.data-api'', bi_selector = [], bi_use = OwnMethod ''Dropdown'' ''clearMenus''\<rparr>,
      \<lparr>bi_on = ''document'', bi_event = ''click.bs.dropdown.data-api'', bi_selector = ''.dropdown form'',
       bi_use = OwnMethod ''Dropdown'' ''stopPropagation''\<rparr>,
      \<lparr>bi_on = ''document'', bi_event = ''click.bs.dropdown.data-api'', bi_selector = ''[data-toggle=dropdown]'',
       bi_use = OwnMethod ''Dropdown'' ''toggle''\<rparr>,
      \<lparr>bi_on = ''document'', bi_event = ''keydown.bs.dropdown.data-api'', bi_selector = ''[data-toggle=dropdown], [role=menu]'',
       bi_use = OwnMethod ''Dropdown'' ''keydown''\<rparr>]"

definition modal_module :: "jq_page \<Rightarrow> jq_page" where
  "modal_module = load_module ''modal''
     (methods_of ''Modal'' [''toggle'', ''show'', ''hide'', ''enforceFocus'', ''escape'', ''hideModal'', ''removeBackdrop'', ''backdrop''])
     [\<lparr>bi_on = ''document'', bi_event = ''click.bs.modal.data-api'', bi_selector = ''[data-toggle=\"modal\"]'', bi_use = ThroughName ''modal''\<rparr>,
      \<lparr>bi_on = ''document'', bi_event = ''show.bs.modal'', bi_selector = ''.modal'', bi_use = OwnMethod ''Modal'' ''lockPage''\<rparr>,
      \<lparr>bi_on = ''document'', bi_event = ''hidden.bs.modal'', bi_selector = ''.modal'', bi_use = OwnMethod ''Modal'' ''freePage''\<rparr>]"

definition tooltip_methods :: "string list" where
  "tooltip_methods =
     [''init'', ''getDefaults'', ''getOptions'', ''getDelegateOptions'', ''enter'', ''leave'', ''show'', ''applyPlacement'',
      ''replaceArrow'', ''setContent'', ''hide'', ''fixTitle'', ''hasContent'', ''getPosition'', ''getCalculatedOffset'',
      ''getTitle'', ''tip'', ''arrow'', ''validate'', ''enable'', ''disable'', ''toggleEnabled'', ''toggle'', ''destroy'']"

definition tooltip_module :: "jq_page \<Rightarrow> jq_page" where
  "tooltip_module = load_module ''tooltip'' (methods_of ''Tooltip'' tooltip_methods) []"

text \<open>
  The popover: the tooltip's methods at the time of loading, with its own written over them; without a
  tooltip, or with one of another library, the module throws.
\<close>

definition popover_methods :: "string list" where
  "popover_methods = [''constructor'', ''getDefaults'', ''setContent'', ''hasContent'', ''getContent'', ''arrow'', ''tip'']"

definition popover_prototype :: "string obj \<Rightarrow> string obj" where
  "popover_prototype inherited = foldl (\<lambda>ms m. obj_set m ''Popover'' ms) inherited popover_methods"

definition popover_module :: "jq_page \<Rightarrow> jq_error + jq_page" where
  "popover_module s =
     (case jq_fn s ''tooltip'' of
        None \<Rightarrow> Inl RequiresTooltip
      | Some t \<Rightarrow>
          (case pf_methods (jq_made s ! t) of
             None \<Rightarrow> Inl NoConstructor
           | Some ms \<Rightarrow> Inr (load_module ''popover'' (popover_prototype ms) [] s)))"

definition scrollspy_module :: "jq_page \<Rightarrow> jq_page" where
  "scrollspy_module = load_module ''scrollspy'' (methods_of ''ScrollSpy'' [''refresh'', ''process'', ''activate''])
     [\<lparr>bi_on = ''window'', bi_event = ''load'', bi_selector = ''[data-spy=\"scroll\"]'', bi_use = ThroughName ''scrollspy''\<rparr>]"

definition tab_module :: "jq_page \<Rightarrow> jq_page" where
  "tab_module = load_module ''tab'' (methods_of ''Tab'' [''show'', ''activate''])
     [\<lparr>bi_on = ''document'', bi_event = ''click.bs.tab.data-api'', bi_selector = ''[data-toggle=\"tab\"], [data-toggle=\"pill\"]'',
       bi_use = ThroughName ''tab''\<rparr>]"

definition affix_module :: "jq_page \<Rightarrow> jq_page" where
  "affix_module = load_module ''affix'' (methods_of ''Affix'' [''checkPositionWithEventLoop'', ''checkPosition''])
     [\<lparr>bi_on = ''window'', bi_event = ''load'', bi_selector = ''[data-spy=\"affix\"]'', bi_use = ThroughName ''affix''\<rparr>]"

text \<open>The whole file, in a page with or without jQuery.\<close>

definition load_bootstrap :: "bool \<Rightarrow> jq_page \<Rightarrow> jq_error + jq_page" where
  "load_bootstrap jquery s =
     (if \<not> jquery then Inl RequiresJQuery
      else
        (case popover_module (tooltip_module (modal_module (dropdown_module (collapse_module (carousel_module
                (button_module (alert_module s))))))) of
           Inl e \<Rightarrow> Inl e
         | Inr s1 \<Rightarrow> Inr (affix_module (tab_module (scrollspy_module s1)))))"

definition plugin_names :: "string list" where
  "plugin_names = [''alert'', ''button'', ''carousel'', ''collapse'', ''dropdown'', ''modal'', ''tooltip'', ''popover'',
     ''scrollspy'', ''tab'', ''affix'']"

text \<open>The function a handler runs when its event comes.\<close>

definition run_use :: "jq_page \<Rightarrow> use \<Rightarrow> jq_error + nat option" where
  "run_use s u =
     (case u of
        OwnMethod cls m \<Rightarrow> Inr None
      | ThroughName name \<Rightarrow> (case jq_fn s name of None \<Rightarrow> Inl (NotAFunction name) | Some f \<Rightarrow> Inr (Some f)))"

text \<open>
  Which handlers a triggered event reaches: those of its type that have all of its namespaces.
\<close>

definition handler_runs :: "string \<Rightarrow> string \<Rightarrow> bool" where
  "handler_runs bound triggered =
     (hd (split_on CHR ''.'' bound) = hd (split_on CHR ''.'' triggered) \<and>
      list_all (\<lambda>n. n \<in> set (tl (split_on CHR ''.'' bound))) (tl (split_on CHR ''.'' triggered)))"

section \<open>What loading leaves behind\<close>

text \<open>
  \<open>registered base N s\<close>: exactly the names in \<open>N\<close> have a new function, each made for its name and with what
  the page had before.
\<close>

definition registered :: "jq_page \<Rightarrow> string set \<Rightarrow> jq_page \<Rightarrow> bool" where
  "registered base N s \<longleftrightarrow>
     (\<forall>n. n \<notin> N \<longrightarrow> jq_fn s n = jq_fn base n) \<and>
     (\<forall>n \<in> N. \<exists>f. jq_fn s n = Some f \<and> f < length (jq_made s) \<and> pf_methods (jq_made s ! f) \<noteq> None \<and>
        pf_name (jq_made s ! f) = n \<and> pf_old (jq_made s ! f) = jq_fn base n)"

lemma registered_start: "registered s {} s"
  by (simp add: registered_def)

lemma registered_load:
  assumes "registered base N s" "n \<notin> N"
  shows "registered base (insert n N) (load_module n ms bs s)"
proof -
  have "\<exists>f. jq_fn (load_module n ms bs s) m = Some f \<and> f < length (jq_made (load_module n ms bs s)) \<and>
      pf_methods (jq_made (load_module n ms bs s) ! f) \<noteq> None \<and> pf_name (jq_made (load_module n ms bs s) ! f) = m \<and> pf_old (jq_made (load_module n ms bs s) ! f) = jq_fn base m"
    if m: "m \<in> insert n N" for m
  proof (cases "m = n")
    case True
    then show ?thesis using assms by (simp add: registered_def load_module_def)
  next
    case False
    then have "m \<in> N" using m by simp
    then obtain f where "jq_fn s m = Some f" "f < length (jq_made s)" "pf_methods (jq_made s ! f) \<noteq> None" "pf_name (jq_made s ! f) = m" "pf_old (jq_made s ! f) = jq_fn base m"
      using assms(1) unfolding registered_def by blast
    then show ?thesis using False by (simp add: load_module_def nth_append)
  qed
  moreover have "jq_fn (load_module n ms bs s) m = jq_fn base m" if "m \<notin> insert n N" for m
    using assms(1) that by (simp add: registered_def load_module_def)
  ultimately show ?thesis unfolding registered_def by blast
qed

lemma popover_after_tooltip:
  "popover_module (tooltip_module s) =
   Inr (load_module ''popover'' (popover_prototype (methods_of ''Tooltip'' tooltip_methods)) [] (tooltip_module s))"
proof -
  have "jq_fn (tooltip_module s) ''tooltip'' = Some (length (jq_made s))"
    "pf_methods (jq_made (tooltip_module s) ! length (jq_made s)) = Some (methods_of ''Tooltip'' tooltip_methods)"
    by (simp_all add: tooltip_module_def load_module_def)
  then show ?thesis by (simp add: popover_module_def)
qed

lemma popover_loads:
  assumes "registered base N (tooltip_module s)" "''popover'' \<notin> N"
  shows "\<exists>s1. popover_module (tooltip_module s) = Inr s1 \<and> registered base (insert ''popover'' N) s1"
  using registered_load[OF assms] by (simp add: popover_after_tooltip)

lemma bootstrap_registered:
  "\<exists>s1. load_bootstrap True s = Inr s1 \<and> registered s (set plugin_names) s1"
proof -
  have "registered s {''tooltip'', ''modal'', ''dropdown'', ''collapse'', ''carousel'', ''button'', ''alert''} (tooltip_module (modal_module
      (dropdown_module (collapse_module (carousel_module (button_module (alert_module s)))))))"
    unfolding tooltip_module_def modal_module_def dropdown_module_def collapse_module_def carousel_module_def button_module_def alert_module_def
    by (intro registered_load registered_start) simp_all
  from popover_loads[OF this] obtain s1 where s1: "popover_module (tooltip_module (modal_module (dropdown_module (collapse_module
      (carousel_module (button_module (alert_module s))))))) = Inr s1"
    "registered s {''popover'', ''tooltip'', ''modal'', ''dropdown'', ''collapse'', ''carousel'', ''button'', ''alert''} s1" by auto
  have "registered s {''affix'', ''tab'', ''scrollspy'', ''popover'', ''tooltip'', ''modal'', ''dropdown'', ''collapse'', ''carousel'', ''button'', ''alert''}
      (affix_module (tab_module (scrollspy_module s1)))"
    unfolding affix_module_def tab_module_def scrollspy_module_def
    by (intro registered_load s1(2)) simp_all
  moreover have "set plugin_names =
      {''affix'', ''tab'', ''scrollspy'', ''popover'', ''tooltip'', ''modal'', ''dropdown'', ''collapse'', ''carousel'', ''button'', ''alert''}"
    by (auto simp: plugin_names_def)
  ultimately show ?thesis using s1(1) by (simp add: load_bootstrap_def)
qed

lemma no_conflict_registered:
  assumes "registered base N s" "n \<in> N"
  shows "jq_fn (snd (no_conflict n s)) = (jq_fn s)(n := jq_fn base n)" "registered base (N - {n}) (snd (no_conflict n s))"
proof -
  obtain f where "jq_fn s n = Some f" "pf_methods (jq_made s ! f) \<noteq> None" "pf_name (jq_made s ! f) = n" "pf_old (jq_made s ! f) = jq_fn base n"
    using assms unfolding registered_def by blast
  then have s1: "snd (no_conflict n s) = s\<lparr>jq_fn := (jq_fn s)(n := jq_fn base n)\<rparr>" by (auto simp: no_conflict_def)
  then show "jq_fn (snd (no_conflict n s)) = (jq_fn s)(n := jq_fn base n)" by simp
  show "registered base (N - {n}) (snd (no_conflict n s))"
    unfolding s1 using assms(1) by (auto simp: registered_def)
qed

lemma no_conflicts:
  "registered base N s \<Longrightarrow> set ns \<subseteq> N \<Longrightarrow> distinct ns \<Longrightarrow>
   jq_fn (foldl (\<lambda>st n. snd (no_conflict n st)) s ns) m = (if m \<in> set ns then jq_fn base m else jq_fn s m)"
proof (induction ns arbitrary: N s)
  case (Cons n ns)
  then have n: "n \<in> N" "n \<notin> set ns" "set ns \<subseteq> N - {n}" by auto
  note step = no_conflict_registered[OF Cons.prems(1) n(1)]
  from Cons.IH[OF step(2) n(3)] Cons.prems(3) n(2) show ?case by (simp add: step(1))
qed simp

text \<open>
  C35. Loading the file and giving names back cancel out. In a page with jQuery the file always loads, whatever the page
  has on \<open>$.fn\<close>; and whichever plugins' \<open>noConflict\<close> are called, in any order, their names are what they were
  before and the others are bootstrap's.
\<close>

theorem no_conflict_restores:
  assumes "distinct ns" "set ns \<subseteq> set plugin_names"
  shows "\<exists>s1. load_bootstrap True s = Inr s1 \<and>
    jq_fn (foldl (\<lambda>st n. snd (no_conflict n st)) s1 ns) m = (if m \<in> set ns then jq_fn s m else jq_fn s1 m) \<and>
    (m \<in> set plugin_names \<longrightarrow> (\<exists>f. jq_fn s1 m = Some f \<and> pf_name (jq_made s1 ! f) = m))"
proof -
  obtain s1 where s1: "load_bootstrap True s = Inr s1" "registered s (set plugin_names) s1" using bootstrap_registered by blast
  then have "m \<in> set plugin_names \<longrightarrow> (\<exists>f. jq_fn s1 m = Some f \<and> pf_name (jq_made s1 ! f) = m)"
    unfolding registered_def by blast
  with s1 no_conflicts[OF s1(2) assms(2,1)] show ?thesis by blast
qed

definition demo_page :: jq_page where
  "demo_page = \<lparr>jq_fn = (\<lambda>n. if n = ''button'' then Some 0 else None),
     jq_made = [\<lparr>pf_name = ''button'', pf_methods = None, pf_old = None\<rparr>], jq_bound = []\<rparr>"

theorem no_conflict_restores_witness:
  "\<exists>s1. load_bootstrap True demo_page = Inr s1 \<and>
    jq_fn (foldl (\<lambda>st n. snd (no_conflict n st)) s1 [''tab'', ''button'']) ''button'' = Some 0"
proof -
  have "distinct [''tab'', ''button'']" "set [''tab'', ''button''] \<subseteq> set plugin_names" by (simp_all add: plugin_names_def)
  from no_conflict_restores[OF this, of demo_page "''button''"] show ?thesis by (auto simp: demo_page_def)
qed

section \<open>The popover's methods\<close>

lemma popover_prototype_methods:
  "map_of (popover_prototype ms) m = (if m \<in> set popover_methods then Some ''Popover'' else map_of ms m)"
  by (simp add: popover_prototype_def popover_methods_def)

text \<open>A popover runs the tooltip's methods except for the ones it has itself.\<close>

lemma popover_inherits:
  "\<exists>s1 p ms. popover_module (tooltip_module s) = Inr s1 \<and> jq_fn s1 ''popover'' = Some p \<and>
    pf_methods (jq_made s1 ! p) = Some ms \<and>
    map_of ms m = (if m \<in> set popover_methods then Some ''Popover''
                   else if m \<in> set tooltip_methods then Some ''Tooltip'' else None)"
proof -
  have "map_of (methods_of ''Tooltip'' ns) m = (if m \<in> set ns then Some ''Tooltip'' else None)" for ns
    by (induction ns) (auto simp: methods_of_def)
  then show ?thesis
    by (simp add: popover_after_tooltip load_module_def popover_prototype_methods)
qed

section \<open>Where names are looked up late\<close>

text \<open>
  Handlers that look a plugin up by its name fail once the name is given back in a page that had nothing
  under it, though the module is still there.
\<close>

lemma links_fail_after_no_conflict:
  assumes "registered base N s" "n \<in> N" "jq_fn base n = None"
  shows "run_use (snd (no_conflict n s)) (ThroughName n) = Inl (NotAFunction n)"
  using no_conflict_registered(1)[OF assms(1,2)] assms(3) by (simp add: run_use_def)

text \<open>
  The handler that should give the focus back to the link of a dialog is bound without the namespaces of the
  event the dialog triggers, and never runs.
\<close>

lemma link_focus_never_returns: "\<not> handler_runs ''hide'' ''hide.bs.modal''" "handler_runs ''hide.bs.modal'' ''hide''"
  by code_simp+

end
