(* ===== verification/Transitions.thy ===== *)
theory Transitions
  imports JS_Prelude
begin

text \<open>
  The support for CSS transitions at the start of \<open>public/js/bootstrap.js\<close>, which the plugins use in one
  way: they bind a completion with \<open>one\<close> to the end of a transition and let \<open>emulateTransitionEnd\<close>
  trigger that event after a delay, in case the browser does not. The handlers of one element, the
  flags \<open>called\<close> of its emulations and their timers are the state; transition events of the browser
  and timers are events.
\<close>

section \<open>The event's name\<close>

definition trans_end_event_names :: "(string \<times> string) list" where
  "trans_end_event_names =
     [(''WebkitTransition'', ''webkitTransitionEnd''),
      (''MozTransition'', ''transitionend''),
      (''OTransition'', ''oTransitionEnd otransitionend''),
      (''transition'', ''transitionend'')]"

text \<open>\<open>styled\<close> says which properties the browser's \<open>style\<close> object has.\<close>

definition transition_end_name :: "(string \<Rightarrow> bool) \<Rightarrow> string option" where
  "transition_end_name styled = map_option snd (find (\<lambda>(name, _). styled name) trans_end_event_names)"

section \<open>One-shot handlers\<close>

text \<open>
  A handler is a completion (numbered in the order of the transitions) or the one that
  \<open>emulateTransitionEnd\<close> binds, which sets the flag with this index. \<open>one\<close> binds a handler to each
  of the names in its first argument; a handler is unbound from the name that fired before it runs.
  \<open>trigger\<close> takes its argument as one name.
\<close>

datatype end_handler = Completion nat | SetCalled nat

record transitions =
  tn_started :: nat
  tn_handlers :: "(string \<times> end_handler) list"
  tn_called :: "bool list"
  tn_timers :: "nat list"
  tn_log :: "nat list"

definition bind_one :: "string \<Rightarrow> end_handler \<Rightarrow> transitions \<Rightarrow> transitions" where
  "bind_one names h s = s\<lparr>tn_handlers := tn_handlers s @ map (\<lambda>n. (n, h)) (split_on CHR '' '' names)\<rparr>"

fun run_end_handler :: "end_handler \<Rightarrow> transitions \<Rightarrow> transitions" where
  "run_end_handler (Completion k) s = s\<lparr>tn_log := tn_log s @ [k]\<rparr>"
| "run_end_handler (SetCalled c) s = s\<lparr>tn_called := (tn_called s)[c := True]\<rparr>"

definition trigger_end :: "string \<Rightarrow> transitions \<Rightarrow> transitions" where
  "trigger_end name s =
     foldl (\<lambda>s (_, h). run_end_handler h s)
       (s\<lparr>tn_handlers := filter (\<lambda>(n, _). n \<noteq> name) (tn_handlers s)\<rparr>)
       (filter (\<lambda>(n, _). n = name) (tn_handlers s))"

definition emulate_transition_end :: "string \<Rightarrow> transitions \<Rightarrow> transitions" where
  "emulate_transition_end name s =
     (let c = length (tn_called s)
      in (bind_one name (SetCalled c) s)\<lparr>tn_called := tn_called s @ [False], tn_timers := tn_timers s @ [c]\<rparr>)"

definition emulation_timeout :: "string \<Rightarrow> nat \<Rightarrow> transitions \<Rightarrow> transitions" where
  "emulation_timeout name c s =
     (if c \<notin> set (tn_timers s) then s
      else
        let s1 = s\<lparr>tn_timers := remove1 c (tn_timers s)\<rparr>
        in if tn_called s1 ! c then s1 else trigger_end name s1)"

text \<open>What every plugin does with the completion of a transition, with and without support.\<close>

definition begin_transition :: "string option \<Rightarrow> transitions \<Rightarrow> transitions" where
  "begin_transition support s =
     (let k = tn_started s; s1 = s\<lparr>tn_started := k + 1\<rparr>
      in case support of
           Some name \<Rightarrow> emulate_transition_end name (bind_one name (Completion k) s1)
         | None \<Rightarrow> run_end_handler (Completion k) s1)"

datatype transition_event = Begin | Ended string | Expired nat

fun transition_step :: "string option \<Rightarrow> transition_event \<Rightarrow> transitions \<Rightarrow> transitions" where
  "transition_step support Begin s = begin_transition support s"
| "transition_step support (Ended name) s = trigger_end name s"
| "transition_step support (Expired c) s =
     (case support of Some name \<Rightarrow> emulation_timeout name c s | None \<Rightarrow> s)"

definition no_transitions :: transitions where
  "no_transitions = \<lparr>tn_started = 0, tn_handlers = [], tn_called = [], tn_timers = [], tn_log = []\<rparr>"

section \<open>Every completion runs once\<close>

text \<open>The two handlers of each of the transitions \<open>m\<close>, \<open>\<dots>\<close>, \<open>n - 1\<close>.\<close>

definition pairs_of :: "string \<Rightarrow> nat list \<Rightarrow> (string \<times> end_handler) list" where
  "pairs_of name ks = concat (map (\<lambda>k. [(name, Completion k), (name, SetCalled k)]) ks)"

text \<open>
  The invariant: the completions ran in the order of their transitions, the first \<open>m\<close> of the \<open>n\<close> so far;
  the others are bound, their flags are not set, and their timers run.
\<close>

definition waits_from :: "string \<Rightarrow> nat \<Rightarrow> transitions \<Rightarrow> bool" where
  "waits_from name m s \<longleftrightarrow>
     m \<le> tn_started s \<and> tn_log s = [0..<m] \<and> tn_handlers s = pairs_of name [m..<tn_started s] \<and>
     tn_called s = replicate m True @ replicate (tn_started s - m) False \<and>
     distinct (tn_timers s) \<and> {m..<tn_started s} \<subseteq> set (tn_timers s) \<and> set (tn_timers s) \<subseteq> {..<tn_started s}"

definition trans_ok :: "string option \<Rightarrow> transitions \<Rightarrow> bool" where
  "trans_ok support s \<longleftrightarrow>
     (case support of
        Some name \<Rightarrow> \<exists>m. waits_from name m s
      | None \<Rightarrow> tn_log s = [0..<tn_started s] \<and> tn_handlers s = [] \<and> tn_timers s = [])"

lemma pairs_of_simps [simp]:
  "pairs_of name [] = []" "pairs_of name (k # ks) = (name, Completion k) # (name, SetCalled k) # pairs_of name ks"
  "pairs_of name (ks @ ls) = pairs_of name ks @ pairs_of name ls"
  by (simp_all add: pairs_of_def)

lemma filter_pairs_of:
  "filter (\<lambda>(n, _). n = name) (pairs_of name ks) = pairs_of name ks"
  "filter (\<lambda>(n, _). n \<noteq> name) (pairs_of name ks) = []"
  "other \<noteq> name \<Longrightarrow> filter (\<lambda>(n, _). n = other) (pairs_of name ks) = []"
  "other \<noteq> name \<Longrightarrow> filter (\<lambda>(n, _). n \<noteq> other) (pairs_of name ks) = pairs_of name ks"
  by (induction ks) simp_all

lemma run_pairs:
  "m \<le> n \<Longrightarrow> tn_called s = replicate m True @ replicate (n - m) False \<Longrightarrow>
   foldl (\<lambda>s (_, h). run_end_handler h s) s (pairs_of name [m..<n]) =
     s\<lparr>tn_log := tn_log s @ [m..<n], tn_called := replicate n True\<rparr>"
proof (induction "n - m" arbitrary: m s)
  case 0
  then show ?case by simp
next
  case (Suc d)
  then have m: "m < n" "[m..<n] = m # [Suc m..<n]" by (simp_all add: upt_conv_Cons)
  have set_m: "(replicate m True @ replicate (n - m) False)[m := True] =
      replicate (Suc m) True @ replicate (n - Suc m) False"
    by (rule nth_equalityI) (use m(1) in \<open>auto simp: nth_append nth_list_update less_Suc_eq simp del: replicate_Suc\<close>)
  let ?s = "s\<lparr>tn_log := tn_log s @ [m], tn_called := replicate (Suc m) True @ replicate (n - Suc m) False\<rparr>"
  have "foldl (\<lambda>s (_, h). run_end_handler h s) s (pairs_of name [m..<n]) =
      foldl (\<lambda>s (_, h). run_end_handler h s) ?s (pairs_of name [Suc m..<n])"
    using m(2) set_m Suc.prems(2) by (simp del: replicate.simps)
  also have "\<dots> = ?s\<lparr>tn_log := tn_log ?s @ [Suc m..<n], tn_called := replicate n True\<rparr>"
    by (rule Suc.hyps(1)) (use Suc.hyps(2) m(1) in auto)
  finally show ?case using m(2) by simp
qed

lemma trigger_waits:
  assumes "waits_from name m s"
  shows "waits_from name (tn_started s) (trigger_end name s) \<and> tn_started (trigger_end name s) = tn_started s \<and>
    tn_timers (trigger_end name s) = tn_timers s"
  using assms run_pairs[of m "tn_started s" "s\<lparr>tn_handlers := []\<rparr>" name]
  by (auto simp: waits_from_def trigger_end_def filter_pairs_of upt_add_eq_append[symmetric])
     (metis le_add_diff_inverse upt_add_eq_append zero_le)+

lemma trigger_other: "waits_from name m s \<Longrightarrow> other \<noteq> name \<Longrightarrow> trigger_end other s = s"
  by (simp add: waits_from_def trigger_end_def filter_pairs_of)

lemma begin_waits:
  assumes "waits_from name m s" "CHR '' '' \<notin> set name"
  shows "waits_from name m (begin_transition (Some name) s)"
proof -
  let ?n = "tn_started s"
  have len: "length (tn_called s) = ?n" "m \<le> ?n" using assms(1) by (simp_all add: waits_from_def)
  have one: "split_on CHR '' '' name = [name]" by (rule split_on_no_sep[OF assms(2)])
  have called: "tn_called s @ [False] = replicate m True @ replicate (Suc ?n - m) False"
    using assms(1) len(2) by (simp add: waits_from_def Suc_diff_le replicate_append_same)
  have upt: "[m..<Suc ?n] = [m..<?n] @ [?n]" using len(2) by simp
  have "begin_transition (Some name) s =
      s\<lparr>tn_started := Suc ?n, tn_handlers := tn_handlers s @ [(name, Completion ?n), (name, SetCalled ?n)],
        tn_called := tn_called s @ [False], tn_timers := tn_timers s @ [?n]\<rparr>"
    using len(1) one by (simp add: begin_transition_def emulate_transition_end_def bind_one_def Let_def)
  then show ?thesis
    using assms(1) len called upt by (auto simp: waits_from_def subset_iff less_Suc_eq)
qed

lemma run_handlers_timers:
  "foldl (\<lambda>s (_, h). run_end_handler h s) (t\<lparr>tn_timers := ts\<rparr>) hs =
     (foldl (\<lambda>s (_, h). run_end_handler h s) t hs)\<lparr>tn_timers := ts\<rparr>"
proof (induction hs arbitrary: t)
  case (Cons h hs)
  have "run_end_handler (snd h) (t\<lparr>tn_timers := ts\<rparr>) = (run_end_handler (snd h) t)\<lparr>tn_timers := ts\<rparr>"
    by (cases "snd h") simp_all
  with Cons show ?case by (simp add: case_prod_beta)
qed simp

lemma trigger_timers: "trigger_end name (s\<lparr>tn_timers := ts\<rparr>) = (trigger_end name s)\<lparr>tn_timers := ts\<rparr>"
proof -
  have "s\<lparr>tn_timers := ts, tn_handlers := hs\<rparr> = s\<lparr>tn_handlers := hs, tn_timers := ts\<rparr>" for hs by simp
  moreover have "tn_handlers (s\<lparr>tn_timers := ts\<rparr>) = tn_handlers s" by simp
  ultimately show ?thesis by (simp only: trigger_end_def run_handlers_timers)
qed

lemma timeout_waits:
  assumes "waits_from name m s"
  shows "\<exists>k \<ge> m. waits_from name k (emulation_timeout name c s)"
proof (cases "c \<in> set (tn_timers s)")
  case True
  then have c: "c < tn_started s" using assms by (auto simp: waits_from_def)
  let ?s = "s\<lparr>tn_timers := remove1 c (tn_timers s)\<rparr>"
  show ?thesis
  proof (cases "c < m")
    case True
    then have "tn_called s ! c" using assms by (simp add: waits_from_def nth_append)
    then have e: "emulation_timeout name c s = ?s"
      using \<open>c \<in> set (tn_timers s)\<close> by (simp add: emulation_timeout_def)
    have "waits_from name m ?s" using assms True by (auto simp: waits_from_def)
    then show ?thesis unfolding e by blast
  next
    case False
    then have "\<not> tn_called s ! c" using assms c by (simp add: waits_from_def nth_append)
    then have e: "emulation_timeout name c s = trigger_end name ?s"
      using \<open>c \<in> set (tn_timers s)\<close> by (simp add: emulation_timeout_def)
    have "waits_from name (tn_started s) (trigger_end name s)" using trigger_waits[OF assms] by simp
    moreover have "trigger_end name ?s = (trigger_end name s)\<lparr>tn_timers := remove1 c (tn_timers s)\<rparr>"
      by (rule trigger_timers)
    ultimately have "waits_from name (tn_started s) (trigger_end name ?s)"
      using trigger_waits[OF assms] assms by (auto simp: waits_from_def)
    moreover have "m \<le> tn_started s" using assms by (simp add: waits_from_def)
    ultimately show ?thesis unfolding e by blast
  qed
next
  case False
  then show ?thesis using assms by (auto simp: emulation_timeout_def)
qed

lemma transition_step_ok:
  assumes "\<forall>name. support = Some name \<longrightarrow> CHR '' '' \<notin> set name" "trans_ok support s"
  shows "trans_ok support (transition_step support e s)"
proof (cases support)
  case None
  then show ?thesis using assms(2)
    by (cases e) (auto simp: trans_ok_def begin_transition_def trigger_end_def Let_def)
next
  case (Some name)
  then obtain m where m: "waits_from name m s" using assms(2) by (auto simp: trans_ok_def)
  have "\<exists>k. waits_from name k (transition_step support e s)"
  proof (cases e)
    case Begin
    then show ?thesis using begin_waits[OF m] assms(1) Some by auto
  next
    case (Ended other)
    then show ?thesis using trigger_waits[OF m] trigger_other[OF m] m by (cases "other = name") auto
  next
    case (Expired c)
    then show ?thesis using timeout_waits[OF m, of c] Some by auto
  qed
  with Some show ?thesis by (simp add: trans_ok_def)
qed

interpretation transition_machine: invariant_machine "transition_step (transition_end_name styled)"
    "\<lambda>s. (\<forall>name. transition_end_name styled = Some name \<longrightarrow> CHR '' '' \<notin> set name) \<longrightarrow>
         trans_ok (transition_end_name styled) s" for styled
  by unfold_locales (auto intro: transition_step_ok)

lemma run_trans_ok:
  assumes "\<And>name. transition_end_name styled = Some name \<Longrightarrow> CHR '' '' \<notin> set name"
  shows "trans_ok (transition_end_name styled) (run_events (transition_step (transition_end_name styled)) es no_transitions)"
proof -
  have "trans_ok (transition_end_name styled) no_transitions"
    by (auto simp: trans_ok_def waits_from_def no_transitions_def split: option.split)
  with transition_machine.run_keeps[of styled no_transitions es] assms show ?thesis by auto
qed

lemma only_opera_has_two_names:
  "transition_end_name styled = Some name \<Longrightarrow> CHR '' '' \<in> set name \<Longrightarrow>
   styled ''OTransition'' \<and> \<not> styled ''WebkitTransition'' \<and> \<not> styled ''MozTransition''"
  by (auto simp: transition_end_name_def trans_end_event_names_def split: if_splits)

text \<open>
  C31. In a browser without Opera's prefixed transitions, whatever transitions begin, end and time out on an
  element, each completion runs at most once, in the order in which the transitions began; and once all
  timers have expired every completion has run. With the property \<open>OTransition\<close> it is not so
  (\<open>opera_never_ends\<close>).
\<close>

theorem transitions_complete_once:
  assumes "\<not> styled ''OTransition''"
  shows "let s = run_events (transition_step (transition_end_name styled)) es no_transitions
         in \<exists>m \<le> tn_started s. tn_log s = [0..<m] \<and> (tn_timers s = [] \<longrightarrow> m = tn_started s)"
proof -
  let ?s = "run_events (transition_step (transition_end_name styled)) es no_transitions"
  have ok: "trans_ok (transition_end_name styled) ?s"
    by (rule run_trans_ok) (use only_opera_has_two_names assms in blast)
  show ?thesis
  proof (cases "transition_end_name styled")
    case None
    then show ?thesis using ok by (auto simp: trans_ok_def Let_def)
  next
    case (Some name)
    with ok obtain m where m: "waits_from name m ?s" by (auto simp: trans_ok_def)
    then have "{m..<tn_started ?s} \<subseteq> set (tn_timers ?s)" "m \<le> tn_started ?s" "tn_log ?s = [0..<m]"
      by (simp_all add: waits_from_def)
    then show ?thesis by (auto simp: Let_def intro!: exI[of _ m])
  qed
qed

theorem transitions_complete_once_witness:
  "let s = run_events (transition_step (transition_end_name (\<lambda>p. p = ''transition'')))
             [Begin, Begin, Expired 0, Begin, Expired 1, Expired 2] no_transitions
   in tn_log s = [0, 1, 2]"
proof -
  have "tn_timers (run_events (transition_step (transition_end_name (\<lambda>p. p = ''transition'')))
      [Begin, Begin, Expired 0, Begin, Expired 1, Expired 2] no_transitions) = []"
    "tn_started (run_events (transition_step (transition_end_name (\<lambda>p. p = ''transition'')))
      [Begin, Begin, Expired 0, Begin, Expired 1, Expired 2] no_transitions) = 3"
    by code_simp+
  with transitions_complete_once[of "\<lambda>p. p = ''transition''" "[Begin, Begin, Expired 0, Begin, Expired 1, Expired 2]"]
  show ?thesis by (auto simp: Let_def numeral_eq_Suc)
qed

text \<open>
  The first timer of an element ends all its transitions: the completion of a transition that has just
  begun runs when the timer of an earlier one expires, before its own time.
\<close>

lemma early_end:
  "tn_log (run_events (transition_step (Some ''transitionend'')) [Begin, Begin, Expired 0] no_transitions) = [0, 1]"
  by code_simp

text \<open>
  With Opera's two names the emulation triggers an event that nothing is bound to, so a transition the
  browser does not end never completes; and a browser that fires both names runs a completion twice.
\<close>

lemma opera_never_ends:
  "tn_log (run_events (transition_step (transition_end_name (\<lambda>p. p = ''OTransition''))) [Begin, Expired 0] no_transitions) = []"
  "tn_log (run_events (transition_step (transition_end_name (\<lambda>p. p = ''OTransition'')))
     [Begin, Ended ''oTransitionEnd'', Ended ''otransitionend''] no_transitions) = [0, 0]"
  by code_simp+

end
