(* ===== verification/Dom.thy ===== *)
theory Dom
  imports JS_Prelude
begin

text \<open>
  What the browser plugins use of jQuery on elements: the class attribute as a list of names without
  repetition, and the bulk operations of a jQuery set, which is a list of element indices here.
\<close>

type_synonym classes = "string list"

definition has_class :: "string \<Rightarrow> classes \<Rightarrow> bool" where
  "has_class c cs \<longleftrightarrow> c \<in> set cs"

definition add_class :: "string \<Rightarrow> classes \<Rightarrow> classes" where
  "add_class c cs = (if c \<in> set cs then cs else cs @ [c])"

definition remove_class :: "string \<Rightarrow> classes \<Rightarrow> classes" where
  "remove_class c cs = filter (\<lambda>d. d \<noteq> c) cs"

definition toggle_class :: "string \<Rightarrow> classes \<Rightarrow> classes" where
  "toggle_class c cs = (if c \<in> set cs then remove_class c cs else add_class c cs)"

lemma has_class_simps [simp]:
  "has_class c (add_class d cs) \<longleftrightarrow> c = d \<or> has_class c cs"
  "has_class c (remove_class d cs) \<longleftrightarrow> c \<noteq> d \<and> has_class c cs"
  "has_class c (toggle_class d cs) \<longleftrightarrow> (if c = d then \<not> has_class c cs else has_class c cs)"
  "\<not> has_class c []"
  by (auto simp: has_class_def add_class_def remove_class_def toggle_class_def)

lemma has_class_Cons [simp]: "has_class c (d # cs) \<longleftrightarrow> c = d \<or> has_class c cs"
  by (auto simp: has_class_def)

text \<open>The indices of the elements with a class (\<open>find('.c')\<close>), and a change of some elements.\<close>

definition find_class :: "string \<Rightarrow> classes list \<Rightarrow> nat list" where
  "find_class c els = filter (\<lambda>i. has_class c (els ! i)) [0..<length els]"

definition at_all :: "nat list \<Rightarrow> ('a \<Rightarrow> 'a) \<Rightarrow> 'a list \<Rightarrow> 'a list" where
  "at_all is f els = map (\<lambda>(i, x). if i \<in> set is then f x else x) (enumerate 0 els)"

lemma length_at_all [simp]: "length (at_all is f els) = length els"
  by (simp add: at_all_def)

lemma nth_at_all [simp]:
  "i < length els \<Longrightarrow> at_all is f els ! i = (if i \<in> set is then f (els ! i) else els ! i)"
  by (simp add: at_all_def nth_enumerate_eq)

lemma set_find_class [simp]: "set (find_class c els) = {i. i < length els \<and> has_class c (els ! i)}"
  by (auto simp: find_class_def)

lemma distinct_find_class [simp]: "distinct (find_class c els)"
  by (simp add: find_class_def)

lemma sorted_find_class [simp]: "sorted (find_class c els)"
  by (simp add: find_class_def sorted_wrt_filter)

lemma find_class_eqI:
  "sorted xs \<Longrightarrow> distinct xs \<Longrightarrow> set xs = {i. i < length els \<and> has_class c (els ! i)} \<Longrightarrow> find_class c els = xs"
  using sorted_distinct_set_unique[of "find_class c els" xs] by simp

lemma find_class_single:
  "i < length els \<Longrightarrow> (\<And>j. j < length els \<Longrightarrow> has_class c (els ! j) \<longleftrightarrow> j = i) \<Longrightarrow> find_class c els = [i]"
  by (rule find_class_eqI) auto

lemma find_class_singleD:
  "find_class c els = [i] \<Longrightarrow> i < length els \<and> (\<forall>j < length els. has_class c (els ! j) \<longleftrightarrow> j = i)"
  using set_find_class[of c els] by auto


lemma nth_update_if: "xs[i := x] ! k = (if k = i \<and> i < length xs then x else xs ! k)"
  by (cases "i < length xs") (auto simp: list_update_beyond)

end
