(* ===== verification/Carousel.thy ===== *)
theory Carousel
  imports Dom
begin

text \<open>
  The carousel of \<open>public/js/bootstrap.js\<close> as a state machine. The state holds the item elements
  under the carousel (their classes), the indicators, the fields of the \<open>Carousel\<close> object, the
  timer, the pending transition handlers and the one-shot listeners of \<open>slid.bs.carousel\<close>; the
  events are the calls of its methods and what the browser does. \<open>prevented\<close> says whether some
  listener prevents the default of the \<open>slide\<close> event.

  The emulated end of a transition and the browser's own are the same event for the code, because
  the handler is removed when it has run. A trigger of the transition's end on the carousel
  element itself (in \<open>pause\<close>) does not reach the handlers, which are on the items below it.
\<close>

section \<open>State\<close>

datatype slid_listener = SetIndicator | GoTo int

record options_c =
  oc_interval :: nat
  oc_wrap :: bool
  oc_transition :: bool

text \<open>
  \<open>oc_interval\<close> 0 is no interval; \<open>oc_transition\<close> is \<open>$.support.transition && hasClass('slide')\<close>.
  \<open>cs_interval\<close> says that the field \<open>interval\<close> holds a timer, \<open>cs_ticking\<close> that the timer runs (the
  field is not reset when \<open>cycle\<close> clears it). A pending handler is bound to an item and keeps the active and next elements and the type.
\<close>

record handler =
  h_item :: nat
  h_active :: "nat list"
  h_next :: "nat list"
  h_type :: string

record carousel =
  cs_options :: options_c
  cs_items :: "classes list"
  cs_indicators :: "classes list option"
  cs_paused :: bool
  cs_sliding :: bool
  cs_interval :: bool
  cs_ticking :: bool
  cs_handlers :: "handler list"
  cs_listeners :: "slid_listener list"
  cs_slid_due :: nat

definition direction_of :: "string \<Rightarrow> string" where
  "direction_of type = (if type = ''next'' then ''left'' else ''right'')"

section \<open>Methods\<close>

definition cycle :: "bool \<Rightarrow> carousel \<Rightarrow> carousel" where
  "cycle e s =
     (let s1 = (if e then s else s\<lparr>cs_paused := False\<rparr>);
          s2 = (if cs_interval s1 then s1\<lparr>cs_ticking := False\<rparr> else s1)
      in if oc_interval (cs_options s2) \<noteq> 0 \<and> \<not> cs_paused s2
         then s2\<lparr>cs_interval := True, cs_ticking := True\<rparr> else s2)"

definition get_active_index :: "carousel \<Rightarrow> int" where
  "get_active_index s = (case find_class ''active'' (cs_items s) of [] \<Rightarrow> -1 | i # _ \<Rightarrow> int i)"

definition pause :: "bool \<Rightarrow> carousel \<Rightarrow> carousel" where
  "pause e s =
     (let s1 = (if e then s else s\<lparr>cs_paused := True\<rparr>);
          s2 = (if (find_class ''next'' (cs_items s1) \<noteq> [] \<or> find_class ''prev'' (cs_items s1) \<noteq> []) \<and>
                   oc_transition (cs_options s1)
                then cycle True s1 else s1)
      in if cs_interval s2 then s2\<lparr>cs_interval := False, cs_ticking := False\<rparr> else s2)"

text \<open>\<open>$active.next()\<close>, \<open>$active.prev()\<close> and the fallback to the first or last item.\<close>

definition siblings :: "string \<Rightarrow> nat list \<Rightarrow> nat \<Rightarrow> nat list" where
  "siblings type acts n =
     (if type = ''next'' then map Suc (filter (\<lambda>i. Suc i < n) acts)
      else map (\<lambda>i. i - 1) (filter (\<lambda>i. 0 < i) acts))"

definition fallback :: "string \<Rightarrow> nat \<Rightarrow> nat list" where
  "fallback type n = (if n = 0 then [] else if type = ''next'' then [0] else [n - 1])"

text \<open>What the \<open>slid\<close> listener of the indicators does.\<close>

definition set_indicator :: "carousel \<Rightarrow> carousel" where
  "set_indicator s =
     (case cs_indicators s of
        None \<Rightarrow> s
      | Some ins \<Rightarrow> s\<lparr>cs_indicators := Some (at_all [nat (get_active_index s)]
                       (if get_active_index s < 0 then id else add_class ''active'') ins)\<rparr>)"

definition slide_without_transition :: "nat list \<Rightarrow> nat list \<Rightarrow> carousel \<Rightarrow> carousel" where
  "slide_without_transition acts nxt s =
     (let s1 = s\<lparr>cs_items := at_all nxt (add_class ''active'') (at_all acts (remove_class ''active'') (cs_items s)),
                cs_sliding := False\<rparr>;
          s2 = s1\<lparr>cs_listeners := []\<rparr>
      in foldl (\<lambda>s l. set_indicator s) s2 (filter (\<lambda>l. l = SetIndicator) (cs_listeners s1)))"

definition slide_with_transition :: "string \<Rightarrow> nat list \<Rightarrow> nat list \<Rightarrow> carousel \<Rightarrow> carousel" where
  "slide_with_transition type acts nxt s =
     (let dir = direction_of type;
          i1 = at_all nxt (add_class type) (cs_items s);
          i2 = at_all acts (add_class dir) i1;
          i3 = at_all nxt (add_class dir) i2
      in s\<lparr>cs_items := i3,
           cs_handlers := cs_handlers s @
             map (\<lambda>a. \<lparr>h_item = a, h_active = acts, h_next = nxt, h_type = type\<rparr>) acts\<rparr>)"

definition slide :: "bool \<Rightarrow> string \<Rightarrow> nat option \<Rightarrow> carousel \<Rightarrow> carousel" where
  "slide prevented type next s =
     (let acts = find_class ''active'' (cs_items s);
          n = length (cs_items s);
          nxt0 = (case next of Some i \<Rightarrow> [i] | None \<Rightarrow> siblings type acts n);
          is_cycling = cs_interval s
      in if nxt0 = [] \<and> \<not> oc_wrap (cs_options s) then s
         else
           let nxt = (if nxt0 = [] then fallback type n else nxt0);
               s1 = s\<lparr>cs_sliding := True\<rparr>;
               s2 = (if is_cycling then pause False s1 else s1)
           in if \<exists>i \<in> set nxt. has_class ''active'' (cs_items s2 ! i) then s2
              else
                let s3 = (case cs_indicators s2 of
                            None \<Rightarrow> s2
                          | Some ins \<Rightarrow> s2\<lparr>cs_indicators := Some (map (remove_class ''active'') ins),
                                          cs_listeners := cs_listeners s2 @ [SetIndicator]\<rparr>)
                in if prevented then s3
                   else
                     let s4 = (if oc_transition (cs_options s3) then slide_with_transition type acts nxt s3
                               else slide_without_transition acts nxt s3)
                     in if is_cycling then cycle False s4 else s4)"

definition next_item :: "bool \<Rightarrow> carousel \<Rightarrow> carousel" where
  "next_item prevented s = (if cs_sliding s then s else slide prevented ''next'' None s)"

definition prev_item :: "bool \<Rightarrow> carousel \<Rightarrow> carousel" where
  "prev_item prevented s = (if cs_sliding s then s else slide prevented ''prev'' None s)"

definition go_to :: "bool \<Rightarrow> int \<Rightarrow> carousel \<Rightarrow> carousel" where
  "go_to prevented pos s =
     (let active = get_active_index s;
          n = (if active < 0 then 0 else int (length (cs_items s)))
      in if pos > n - 1 \<or> pos < 0 then s
         else if cs_sliding s then s\<lparr>cs_listeners := cs_listeners s @ [GoTo pos]\<rparr>
         else if active = pos then cycle False (pause False s)
         else slide prevented (if pos > active then ''next'' else ''prev'') (Some (nat pos)) s)"

text \<open>The handler of the transition's end, for the item it is bound to.\<close>

definition transition_end :: "nat \<Rightarrow> carousel \<Rightarrow> carousel" where
  "transition_end item s =
     foldl (\<lambda>s h.
         let dir = direction_of (h_type h);
             i1 = at_all (h_next h)
                    (\<lambda>c. add_class ''active'' (remove_class dir (remove_class (h_type h) c))) (cs_items s);
             i2 = at_all (h_active h) (\<lambda>c. remove_class dir (remove_class ''active'' c)) i1
         in s\<lparr>cs_items := i2, cs_sliding := False, cs_slid_due := cs_slid_due s + 1\<rparr>)
       (s\<lparr>cs_handlers := filter (\<lambda>h. h_item h \<noteq> item) (cs_handlers s)\<rparr>)
       (filter (\<lambda>h. h_item h = item) (cs_handlers s))"

text \<open>The timeout that triggers \<open>slid.bs.carousel\<close>: the one-shot listeners run in order.\<close>

fun run_listener :: "bool \<Rightarrow> slid_listener \<Rightarrow> carousel \<Rightarrow> carousel" where
  "run_listener prevented SetIndicator s = set_indicator s"
| "run_listener prevented (GoTo pos) s = go_to prevented pos s"

definition slid_timeout :: "bool \<Rightarrow> carousel \<Rightarrow> carousel" where
  "slid_timeout prevented s =
     (if cs_slid_due s = 0 then s
      else foldl (\<lambda>s l. run_listener prevented l s)
             (s\<lparr>cs_slid_due := cs_slid_due s - 1, cs_listeners := []\<rparr>) (cs_listeners s))"

datatype carousel_event =
    Next bool
  | Prev bool
  | To bool int
  | Pause bool
  | Cycle bool
  | Tick bool
  | TransitionEnd nat
  | SlidTimeout bool

fun carousel_step :: "carousel_event \<Rightarrow> carousel \<Rightarrow> carousel" where
  "carousel_step (Next p) s = next_item p s"
| "carousel_step (Prev p) s = prev_item p s"
| "carousel_step (To p pos) s = go_to p pos s"
| "carousel_step (Pause e) s = pause e s"
| "carousel_step (Cycle e) s = cycle e s"
| "carousel_step (Tick p) s = (if cs_ticking s then next_item p s else s)"
| "carousel_step (TransitionEnd i) s = transition_end i s"
| "carousel_step (SlidTimeout p) s = slid_timeout p s"

definition new_carousel :: "options_c \<Rightarrow> classes list \<Rightarrow> classes list option \<Rightarrow> carousel" where
  "new_carousel opts items indicators =
     \<lparr>cs_options = opts, cs_items = items, cs_indicators = indicators, cs_paused = False, cs_sliding = False,
      cs_interval = False, cs_ticking = False, cs_handlers = [], cs_listeners = [], cs_slid_due = 0\<rparr>"

text \<open>\<open>$.fn.carousel\<close> on an element that has its data already, or gets it here.\<close>

datatype plugin_option = PIndex int | PNext | PPrev | PPause | PCycle | PNone

fun carousel_plugin :: "bool \<Rightarrow> plugin_option \<Rightarrow> carousel \<Rightarrow> carousel" where
  "carousel_plugin prevented (PIndex i) s = go_to prevented i s"
| "carousel_plugin prevented PNext s = next_item prevented s"
| "carousel_plugin prevented PPrev s = prev_item prevented s"
| "carousel_plugin prevented PPause s = pause False s"
| "carousel_plugin prevented PCycle s = cycle False s"
| "carousel_plugin prevented PNone s =
     (if oc_interval (cs_options s) \<noteq> 0 then cycle False (pause False s) else s)"

section \<open>Exactly one item is active\<close>

definition markers :: "string set" where
  "markers = {''next'', ''prev'', ''left'', ''right''}"

definition one_active :: "nat \<Rightarrow> classes list \<Rightarrow> bool" where
  "one_active a els \<longleftrightarrow> a < length els \<and> (\<forall>i < length els. has_class ''active'' (els ! i) \<longleftrightarrow> i = a)"

definition clean :: "classes list \<Rightarrow> bool" where
  "clean els \<longleftrightarrow> (\<forall>i < length els. \<forall>c \<in> markers. \<not> has_class c (els ! i))"

text \<open>A transition from item \<open>a\<close> to item \<open>b\<close> is under way.\<close>

definition moving :: "nat \<Rightarrow> nat \<Rightarrow> string \<Rightarrow> classes list \<Rightarrow> bool" where
  "moving a b t els \<longleftrightarrow> a \<noteq> b \<and> b < length els \<and> (t = ''next'' \<or> t = ''prev'') \<and>
     (\<forall>i < length els. \<forall>c \<in> markers. has_class c (els ! i) \<longleftrightarrow>
        (i = b \<and> (c = t \<or> c = direction_of t)) \<or> (i = a \<and> c = direction_of t))"

definition carousel_ok :: "carousel \<Rightarrow> bool" where
  "carousel_ok s \<longleftrightarrow> (\<exists>a. one_active a (cs_items s) \<and>
     (cs_handlers s = [] \<and> clean (cs_items s) \<or>
      (\<exists>b t. cs_handlers s = [\<lparr>h_item = a, h_active = [a], h_next = [b], h_type = t\<rparr>] \<and>
             moving a b t (cs_items s) \<and> cs_sliding s)))"

definition idle :: "carousel \<Rightarrow> bool" where
  "idle s \<longleftrightarrow> (\<exists>a. one_active a (cs_items s)) \<and> cs_handlers s = [] \<and> clean (cs_items s)"

lemma idle_ok: "idle s \<Longrightarrow> carousel_ok s"
  by (auto simp: idle_def carousel_ok_def)

lemma not_sliding_idle: "carousel_ok s \<Longrightarrow> \<not> cs_sliding s \<Longrightarrow> idle s"
  by (auto simp: idle_def carousel_ok_def)

lemma one_active_find: "one_active a els \<Longrightarrow> find_class ''active'' els = [a]"
  by (rule find_class_single) (auto simp: one_active_def)

lemma view_items [simp]:
  "cs_items (cycle e s) = cs_items s" "cs_items (pause e s) = cs_items s" "cs_items (set_indicator s) = cs_items s"
  "cs_handlers (cycle e s) = cs_handlers s" "cs_handlers (pause e s) = cs_handlers s"
  "cs_handlers (set_indicator s) = cs_handlers s"
  "cs_sliding (cycle e s) = cs_sliding s" "cs_sliding (pause e s) = cs_sliding s"
  "cs_sliding (set_indicator s) = cs_sliding s"
  "cs_options (cycle e s) = cs_options s" "cs_options (pause e s) = cs_options s"
  "cs_options (set_indicator s) = cs_options s"
  by (simp_all add: cycle_def pause_def set_indicator_def Let_def split: option.splits)

lemma foldl_set_indicator [simp]:
  "cs_items (foldl (\<lambda>s l. set_indicator s) s ls) = cs_items s"
  "cs_handlers (foldl (\<lambda>s l. set_indicator s) s ls) = cs_handlers s"
  "cs_sliding (foldl (\<lambda>s l. set_indicator s) s ls) = cs_sliding s"
  by (induction ls arbitrary: s) simp_all

lemma swap_active:
  "one_active a els \<Longrightarrow> b < length els \<Longrightarrow>
   one_active b (at_all [b] (add_class ''active'') (at_all [a] (remove_class ''active'') els))"
  by (auto simp: one_active_def)

lemma swap_clean:
  "clean els \<Longrightarrow> clean (at_all [b] (add_class ''active'') (at_all [a] (remove_class ''active'') els))"
  by (auto simp: clean_def markers_def)

lemma direction_simps [simp]: "direction_of ''next'' = ''left''" "direction_of ''prev'' = ''right''"
  by (simp_all add: direction_of_def)

lemma markers_ball: "(\<forall>c \<in> markers. P c) \<longleftrightarrow> P ''next'' \<and> P ''prev'' \<and> P ''left'' \<and> P ''right''"
  by (simp add: markers_def)

lemma start_moving:
  assumes "one_active a els" "clean els" "b < length els" "a \<noteq> b" "t = ''next'' \<or> t = ''prev''"
  shows "one_active a (at_all [b] (add_class (direction_of t)) (at_all [a] (add_class (direction_of t))
           (at_all [b] (add_class t) els)))"
    and "moving a b t (at_all [b] (add_class (direction_of t)) (at_all [a] (add_class (direction_of t))
           (at_all [b] (add_class t) els)))"
  using assms(5) by (elim disjE; use assms(1-4) in \<open>simp add: one_active_def moving_def clean_def markers_ball\<close>)+

lemma end_moving:
  assumes "one_active a els" "moving a b t els"
  shows "one_active b (at_all [a] (\<lambda>c. remove_class (direction_of t) (remove_class ''active'' c))
      (at_all [b] (\<lambda>c. add_class ''active'' (remove_class (direction_of t) (remove_class t c))) els))"
    and "clean (at_all [a] (\<lambda>c. remove_class (direction_of t) (remove_class ''active'' c))
      (at_all [b] (\<lambda>c. add_class ''active'' (remove_class (direction_of t) (remove_class t c))) els))"
proof -
  from assms(2) have "t = ''next'' \<or> t = ''prev''" by (simp add: moving_def)
  then show "one_active b (at_all [a] (\<lambda>c. remove_class (direction_of t) (remove_class ''active'' c))
      (at_all [b] (\<lambda>c. add_class ''active'' (remove_class (direction_of t) (remove_class t c))) els))"
    "clean (at_all [a] (\<lambda>c. remove_class (direction_of t) (remove_class ''active'' c))
      (at_all [b] (\<lambda>c. add_class ''active'' (remove_class (direction_of t) (remove_class t c))) els))"
    by (elim disjE; use assms in \<open>auto simp: one_active_def moving_def clean_def markers_ball\<close>)+
qed


lemma siblings_single:
  assumes "a < n" "n \<noteq> 1" "t = ''next'' \<or> t = ''prev''"
  shows "\<exists>b < n. b \<noteq> a \<and> (if siblings t [a] n = [] then fallback t n else siblings t [a] n) = [b]"
  using assms by (auto simp: siblings_def fallback_def)

text \<open>Sliding from an idle carousel: either nothing visible changes, or the step is a good one.\<close>

lemma slide_ok:
  assumes "idle s" "t = ''next'' \<or> t = ''prev''"
    and "\<forall>i. next = Some i \<longrightarrow> i < length (cs_items s)"
  shows "carousel_ok (slide prevented t next s)"
proof -
  from assms(1) obtain a where a: "one_active a (cs_items s)" "cs_handlers s = []" "clean (cs_items s)"
    by (auto simp: idle_def)
  then have act: "find_class ''active'' (cs_items s) = [a]" "a < length (cs_items s)"
    using one_active_find by (auto simp: one_active_def)
  let ?n = "length (cs_items s)"
  let ?cand = "case next of Some i \<Rightarrow> [i] | None \<Rightarrow> siblings t [a] ?n"
  let ?nxt = "if ?cand = [] then fallback t ?n else ?cand"
  define s2 where "s2 = (if cs_interval s then pause False (s\<lparr>cs_sliding := True\<rparr>) else s\<lparr>cs_sliding := True\<rparr>)"
  have view: "cs_items s2 = cs_items s" "cs_handlers s2 = []" "cs_sliding s2" "cs_options s2 = cs_options s"
    using a by (auto simp: s2_def)
  have ok2: "carousel_ok s2" using a view by (auto simp: carousel_ok_def)
  have single: "\<exists>b < ?n. ?nxt = [b]"
  proof (cases "next")
    case None
    then show ?thesis
      using siblings_single[OF act(2) _ assms(2)] assms(2) act(2)
      by (cases "?n = 1") (auto simp: siblings_def fallback_def)
  next
    case (Some i)
    then show ?thesis using assms(3) by simp
  qed
  then obtain b where b: "b < ?n" "?nxt = [b]" by blast
  define s3 where "s3 = (case cs_indicators s2 of None \<Rightarrow> s2
     | Some ins \<Rightarrow> s2\<lparr>cs_indicators := Some (map (remove_class ''active'') ins),
                      cs_listeners := cs_listeners s2 @ [SetIndicator]\<rparr>)"
  have view3: "cs_items s3 = cs_items s" "cs_handlers s3 = []" "cs_sliding s3" "cs_options s3 = cs_options s"
    using view by (auto simp: s3_def split: option.splits)
  have ok3: "carousel_ok s3" using a view3 by (auto simp: carousel_ok_def)
  have ok4: "carousel_ok (slide_with_transition t [a] [b] s3)" if "a \<noteq> b"
    using start_moving[OF a(1,3) b(1) that assms(2)] view3
    by (auto simp: carousel_ok_def slide_with_transition_def Let_def)
  have ok5: "carousel_ok (slide_without_transition [a] [b] s3)"
    using swap_active[OF a(1) b(1)] swap_clean[OF a(3)] view3
    by (auto simp: carousel_ok_def slide_without_transition_def Let_def)
  have cyc: "carousel_ok x \<Longrightarrow> carousel_ok (cycle False x)" for x
    by (simp add: carousel_ok_def)
  show ?thesis
  proof (cases "?cand = [] \<and> \<not> oc_wrap (cs_options s)")
    case True
    then have "slide prevented t next s = s" by (simp add: slide_def Let_def act(1))
    then show ?thesis using idle_ok[OF assms(1)] by simp
  next
    case False
    then have "slide prevented t next s =
        (if \<exists>i\<in>set ?nxt. has_class ''active'' (cs_items s2 ! i) then s2
         else if prevented then s3
         else (if cs_interval s then cycle False else id)
           (if oc_transition (cs_options s3) then slide_with_transition t [a] ?nxt s3
            else slide_without_transition [a] ?nxt s3))"
      unfolding slide_def Let_def act(1) s2_def[symmetric] s3_def[symmetric] by (simp only: if_False split: if_split) simp
    then have eq: "slide prevented t next s =
        (if has_class ''active'' (cs_items s ! b) then s2
         else if prevented then s3
         else (if cs_interval s then cycle False else id)
           (if oc_transition (cs_options s3) then slide_with_transition t [a] [b] s3
            else slide_without_transition [a] [b] s3))"
      unfolding b(2) view(1) by simp
    show ?thesis
    proof (cases "has_class ''active'' (cs_items s ! b)")
      case True
      then show ?thesis unfolding eq using ok2 by simp
    next
      case False
      then have "a \<noteq> b" using a(1) b(1) by (auto simp: one_active_def)
      then show ?thesis unfolding eq using ok3 ok4 ok5 False cyc by simp
    qed
  qed
qed

lemma next_ok: "carousel_ok s \<Longrightarrow> carousel_ok (next_item p s)"
  by (simp add: next_item_def slide_ok not_sliding_idle)

lemma prev_ok: "carousel_ok s \<Longrightarrow> carousel_ok (prev_item p s)"
  by (simp add: prev_item_def slide_ok not_sliding_idle)

lemma view_ok: "carousel_ok s \<Longrightarrow> cs_items t = cs_items s \<Longrightarrow> cs_handlers t = cs_handlers s \<Longrightarrow>
    cs_sliding t = cs_sliding s \<Longrightarrow> carousel_ok t"
  by (simp add: carousel_ok_def)

lemma go_to_ok: "carousel_ok s \<Longrightarrow> carousel_ok (go_to p pos s)"
  unfolding go_to_def Let_def
  by (auto intro!: slide_ok not_sliding_idle elim: view_ok split: if_splits)

lemma transition_end_ok: "carousel_ok s \<Longrightarrow> carousel_ok (transition_end i s)"
proof -
  assume ok: "carousel_ok s"
  then obtain a where a: "one_active a (cs_items s)" by (auto simp: carousel_ok_def)
  from ok consider "cs_handlers s = []"
    | b t where "cs_handlers s = [\<lparr>h_item = a, h_active = [a], h_next = [b], h_type = t\<rparr>]"
        "moving a b t (cs_items s)"
    using a by (auto simp: carousel_ok_def one_active_def)
  then show ?thesis
  proof cases
    case 1
    then show ?thesis using ok by (simp add: transition_end_def carousel_ok_def)
  next
    case (2 b t)
    then show ?thesis
      using end_moving[OF a 2(2)] ok
      by (cases "i = a") (auto simp: transition_end_def carousel_ok_def Let_def)
  qed
qed

lemma listener_ok: "carousel_ok s \<Longrightarrow> carousel_ok (run_listener p l s)"
  by (cases l) (auto intro: go_to_ok elim: view_ok)

lemma listeners_ok: "carousel_ok s \<Longrightarrow> carousel_ok (foldl (\<lambda>s l. run_listener p l s) s ls)"
  by (induction ls arbitrary: s) (auto intro: listener_ok)

lemma carousel_step_ok: "carousel_ok s \<Longrightarrow> carousel_ok (carousel_step e s)"
  by (cases e)
     (auto simp: slid_timeout_def next_ok prev_ok go_to_ok transition_end_ok intro!: listeners_ok elim: view_ok)

interpretation carousel_machine: invariant_machine carousel_step carousel_ok
  by unfold_locales (rule carousel_step_ok)


lemma new_carousel_idle:
  "one_active a items \<Longrightarrow> clean items \<Longrightarrow> idle (new_carousel opts items inds)"
  by (auto simp: idle_def new_carousel_def)

text \<open>
  C21. Whatever is clicked, whichever timers and transitions fire and in whatever order, the carousel
  shows exactly one item as active at every moment, and once no transition is under way no item
  keeps a class of one.
\<close>

theorem carousel_shows_one_item:
  assumes "one_active a items" "clean items"
  shows "(\<exists>b. find_class ''active'' (cs_items (run_events carousel_step es (new_carousel opts items inds))) = [b]) \<and>
         (cs_handlers (run_events carousel_step es (new_carousel opts items inds)) = [] \<longrightarrow>
          clean (cs_items (run_events carousel_step es (new_carousel opts items inds))))"
  using carousel_machine.run_keeps[OF idle_ok[OF new_carousel_idle[OF assms]], of es opts inds]
  by (auto simp: carousel_ok_def dest: one_active_find)

definition demo_items :: "classes list" where
  "demo_items = [[''item'', ''active''], [''item''], [''item'']]"

lemma demo_items_ok: "one_active 0 demo_items" "clean demo_items"
  by (auto simp: one_active_def clean_def markers_ball demo_items_def less_Suc_eq nth_Cons')

definition demo_options :: "bool \<Rightarrow> options_c" where
  "demo_options t = \<lparr>oc_interval = 5000, oc_wrap = True, oc_transition = t\<rparr>"

theorem carousel_shows_one_item_witness:
  "\<exists>b. find_class ''active'' (cs_items (run_events carousel_step [To False 2, Next False, TransitionEnd 0, SlidTimeout False]
      (new_carousel (demo_options True) demo_items None))) = [b]"
  using carousel_shows_one_item[OF demo_items_ok] by blast

section \<open>A prevented slide blocks the carousel\<close>

definition stuck :: "classes list \<Rightarrow> carousel \<Rightarrow> bool" where
  "stuck items s \<longleftrightarrow> cs_items s = items \<and> cs_sliding s \<and> cs_handlers s = [] \<and> cs_slid_due s = 0"

lemma stuck_view [simp]:
  "cs_slid_due (cycle e s) = cs_slid_due s" "cs_slid_due (pause e s) = cs_slid_due s"
  "cs_slid_due (set_indicator s) = cs_slid_due s"
  by (simp_all add: cycle_def pause_def set_indicator_def Let_def split: option.splits)

interpretation stuck_machine: invariant_machine carousel_step "stuck items" for items
  by (unfold_locales, case_tac e)
     (auto simp: stuck_def next_item_def prev_item_def go_to_def transition_end_def slid_timeout_def Let_def)

lemma prevented_slide_stuck:
  assumes "idle s" "cs_slid_due s = 0" "oc_wrap (cs_options s)" "t = ''next'' \<or> t = ''prev''"
  shows "stuck (cs_items s) (slide True t None s)"
proof -
  have "\<not> (siblings t acts n = [] \<and> \<not> True)" for acts n by simp
  then show ?thesis
    using assms by (auto simp: slide_def Let_def stuck_def idle_def split: option.splits)
qed

text \<open>
  A carousel whose \<open>slide\<close> event was prevented once never moves again: \<open>sliding\<close> stays set, so
  no later click, timer or call changes its items.
\<close>

theorem prevented_slide_blocks_forever:
  assumes "idle s" "cs_slid_due s = 0" "oc_wrap (cs_options s)" "\<not> cs_sliding s"
  shows "cs_items (run_events carousel_step (Next True # es) s) = cs_items s"
proof -
  have "stuck (cs_items s) (carousel_step (Next True) s)"
    using prevented_slide_stuck[OF assms(1-3), of "''next''"] assms(4) by (simp add: next_item_def)
  from stuck_machine.run_keeps[OF this, of es] show ?thesis by (simp add: stuck_def)
qed

theorem prevented_slide_blocks_forever_witness:
  "cs_items (run_events carousel_step (Next True # [Next False, To False 2, Tick False])
     (new_carousel (demo_options False) demo_items None)) = demo_items"
  using prevented_slide_blocks_forever[OF new_carousel_idle[OF demo_items_ok, of "demo_options False" None],
      of "[Next False, To False 2, Tick False]"]
  by (simp add: new_carousel_def demo_options_def)

section \<open>Stepping through the items\<close>

lemma next_without_transition:
  assumes "one_active a (cs_items s)" "\<not> cs_sliding s" "oc_wrap (cs_options s)" "\<not> oc_transition (cs_options s)"
    and "2 \<le> length (cs_items s)"
  shows "one_active (Suc a mod length (cs_items s)) (cs_items (next_item False s)) \<and>
    \<not> cs_sliding (next_item False s) \<and> cs_options (next_item False s) = cs_options s \<and>
    length (cs_items (next_item False s)) = length (cs_items s)"
proof -
  let ?n = "length (cs_items s)"
  let ?b = "Suc a mod ?n"
  have act: "find_class ''active'' (cs_items s) = [a]" "a < ?n"
    using one_active_find[OF assms(1)] assms(1) by (auto simp: one_active_def)
  have b: "?b < ?n" "?b \<noteq> a" using assms(5) act(2) by (auto simp: mod_Suc)
  have nxt: "(if siblings ''next'' [a] ?n = [] then fallback ''next'' ?n else siblings ''next'' [a] ?n) = [?b]"
    using assms(5) act(2) by (auto simp: siblings_def fallback_def mod_Suc)
  have inactive: "\<not> has_class ''active'' (cs_items s ! ?b)"
    using assms(1) b by (simp add: one_active_def)
  have opts: "cs_options (foldl (\<lambda>s l. set_indicator s) x ls) = cs_options x" for x ls
    by (induction ls arbitrary: x) simp_all
  show ?thesis
    using assms(2-4) swap_active[OF assms(1) b(1)] inactive
    by (simp add: next_item_def slide_def Let_def act(1) nxt slide_without_transition_def opts split: option.split)
qed

text \<open>
  In a wrapping carousel without transitions, \<open>k\<close> steps forward from item \<open>a\<close> of \<open>n\<close> show item
  \<open>(a + k) mod n\<close>, timer ticks and clicks alike.
\<close>

theorem next_steps_wrap:
  assumes "one_active a (cs_items s)" "\<not> cs_sliding s" "oc_wrap (cs_options s)" "\<not> oc_transition (cs_options s)"
    and "2 \<le> length (cs_items s)"
  shows "get_active_index (run_events carousel_step (replicate k (Next False)) s) =
         int ((a + k) mod length (cs_items s))"
  using assms
proof (induction k arbitrary: s a)
  case 0
  then show ?case
    using one_active_find[OF 0(1)] by (simp add: get_active_index_def one_active_def)
next
  case (Suc k)
  from next_without_transition[OF Suc.prems]
  have "get_active_index (run_events carousel_step (replicate k (Next False)) (next_item False s)) =
      int ((Suc a mod length (cs_items s) + k) mod length (cs_items s))"
    using Suc.IH[of "Suc a mod length (cs_items s)" "next_item False s"] Suc.prems by simp
  then show ?case by (simp add: mod_add_left_eq)
qed

theorem next_steps_wrap_witness:
  "get_active_index (run_events carousel_step (replicate 5 (Next False))
     (new_carousel (demo_options False) demo_items None)) = 2"
proof -
  let ?s = "new_carousel (demo_options False) demo_items None"
  have "one_active 0 (cs_items ?s)" "\<not> cs_sliding ?s" "oc_wrap (cs_options ?s)" "\<not> oc_transition (cs_options ?s)"
    "2 \<le> length (cs_items ?s)"
    using demo_items_ok by (simp_all add: new_carousel_def demo_options_def demo_items_def)
  from next_steps_wrap[OF this, of 5] show ?thesis by (simp add: new_carousel_def demo_items_def)
qed

end
