(* ===== verification/Modal.thy ===== *)
theory Modal
  imports Dom
begin

text \<open>
  The modal dialog of \<open>public/js/bootstrap.js\<close> as a state machine: the fields of the \<open>Modal\<close> object,
  what it does to its element, the backdrops it leaves in the document, the handlers it installs, and
  the handlers of transitions that have not ended yet. Whether a listener prevents the \<open>show\<close> or
  \<open>hide\<close> event is an argument of the calls.
\<close>

section \<open>State\<close>

text \<open>\<open>CbShow\<close> is the callback of \<open>show\<close>, \<open>CbRemove\<close> that of \<open>hideModal\<close>.\<close>

datatype backdrop_cb = CbShow | CbRemove

text \<open>
  Handlers of a transition's end: on a backdrop, on the dialog inside the element, on the element.
\<close>

datatype waiting = OnBackdrop nat backdrop_cb | OnDialog | OnElement

fun on_backdrop :: "nat \<Rightarrow> waiting \<Rightarrow> bool" where
  "on_backdrop b (OnBackdrop b' _) = (b = b')"
| "on_backdrop b _ = False"

record modal_opts =
  mo_backdrop :: bool
  mo_static :: bool
  mo_keyboard :: bool
  mo_fade :: bool
  mo_support :: bool

record modal =
  md_opts :: modal_opts
  md_shown :: bool
  md_in :: bool
  md_visible :: bool
  md_aria_hidden :: bool
  md_keyup :: nat
  md_dismiss :: nat
  md_backdrop_click :: nat
  md_focusin :: bool
  md_document :: "(nat \<times> bool) list"
  md_backdrop :: "nat option"
  md_next :: nat
  md_waiting :: "waiting list"
  md_body_open :: bool
  md_shown_events :: nat
  md_hidden_events :: nat

text \<open>
  \<open>md_document\<close> lists the backdrops in the document (number and class \<open>in\<close>), \<open>md_backdrop\<close> is
  \<open>this.$backdrop\<close>. The counters \<open>md_keyup\<close>, \<open>md_dismiss\<close> and \<open>md_backdrop_click\<close> are the handlers
  installed for the escape key, the dismiss buttons and clicks beside the dialog.
\<close>

definition animated :: "modal \<Rightarrow> bool" where
  "animated m \<longleftrightarrow> mo_support (md_opts m) \<and> mo_fade (md_opts m)"

section \<open>Methods\<close>

definition remove_backdrop :: "modal \<Rightarrow> modal" where
  "remove_backdrop m =
     (case md_backdrop m of
        None \<Rightarrow> m
      | Some b \<Rightarrow> m\<lparr>md_document := filter (\<lambda>(i, _). i \<noteq> b) (md_document m), md_backdrop := None,
                    md_waiting := filter (\<lambda>w. \<not> on_backdrop b w) (md_waiting m)\<rparr>)"

definition escape :: "modal \<Rightarrow> modal" where
  "escape m =
     (if md_shown m \<and> mo_keyboard (md_opts m) then m\<lparr>md_keyup := md_keyup m + 1\<rparr>
      else if \<not> md_shown m then m\<lparr>md_keyup := 0\<rparr> else m)"

definition enforce_focus :: "modal \<Rightarrow> modal" where
  "enforce_focus m = m\<lparr>md_focusin := True\<rparr>"

definition shown_cb :: "modal \<Rightarrow> modal" where
  "shown_cb m =
     (let m1 = enforce_focus (m\<lparr>md_visible := True, md_in := True, md_aria_hidden := False\<rparr>)
      in if animated m1 then m1\<lparr>md_waiting := md_waiting m1 @ [OnDialog]\<rparr>
         else m1\<lparr>md_shown_events := md_shown_events m1 + 1\<rparr>)"

text \<open>The document removes \<open>modal-open\<close> from the body on \<open>hidden.bs.modal\<close>.\<close>

definition removed_cb :: "modal \<Rightarrow> modal" where
  "removed_cb m =
     (let m1 = remove_backdrop m
      in m1\<lparr>md_body_open := False, md_hidden_events := md_hidden_events m1 + 1\<rparr>)"

fun run_cb :: "backdrop_cb \<Rightarrow> modal \<Rightarrow> modal" where
  "run_cb CbShow m = shown_cb m"
| "run_cb CbRemove m = removed_cb m"

definition backdrop :: "backdrop_cb \<Rightarrow> modal \<Rightarrow> modal" where
  "backdrop cb m =
     (if md_shown m \<and> mo_backdrop (md_opts m) then
        let b = md_next m;
            m1 = m\<lparr>md_document := md_document m @ [(b, True)], md_backdrop := Some b, md_next := b + 1,
                   md_backdrop_click := md_backdrop_click m + 1\<rparr>
        in if animated m1 then m1\<lparr>md_waiting := md_waiting m1 @ [OnBackdrop b cb]\<rparr> else run_cb cb m1
      else
        (case md_backdrop m of
           Some b \<Rightarrow>
             if \<not> md_shown m then
               let m1 = m\<lparr>md_document := map (\<lambda>(i, v). (i, if i = b then False else v)) (md_document m)\<rparr>
               in if animated m1 then m1\<lparr>md_waiting := md_waiting m1 @ [OnBackdrop b cb]\<rparr> else run_cb cb m1
             else run_cb cb m
         | None \<Rightarrow> run_cb cb m))"

text \<open>The document adds \<open>modal-open\<close> to the body whenever \<open>show.bs.modal\<close> is triggered.\<close>

definition show_modal :: "bool \<Rightarrow> modal \<Rightarrow> modal" where
  "show_modal prevented m =
     (let m0 = m\<lparr>md_body_open := True\<rparr>
      in if md_shown m0 \<or> prevented then m0
         else
           let m1 = escape (m0\<lparr>md_shown := True\<rparr>);
               m2 = m1\<lparr>md_dismiss := md_dismiss m1 + 1\<rparr>
           in backdrop CbShow m2)"

definition hide_modal :: "modal \<Rightarrow> modal" where
  "hide_modal m = backdrop CbRemove (m\<lparr>md_visible := False\<rparr>)"

definition hide :: "bool \<Rightarrow> modal \<Rightarrow> modal" where
  "hide prevented m =
     (if \<not> md_shown m \<or> prevented then m
      else
        let m1 = escape (m\<lparr>md_shown := False\<rparr>);
            m2 = m1\<lparr>md_focusin := False, md_in := False, md_aria_hidden := True,
                    md_dismiss := 0, md_backdrop_click := 0\<rparr>
        in if animated m2 then m2\<lparr>md_waiting := md_waiting m2 @ [OnElement]\<rparr> else hide_modal m2)"

definition toggle :: "bool \<Rightarrow> modal \<Rightarrow> modal" where
  "toggle prevented m = (if \<not> md_shown m then show_modal prevented m else hide prevented m)"

section \<open>Events\<close>

definition backdrop_end :: "nat \<Rightarrow> modal \<Rightarrow> modal" where
  "backdrop_end b m =
     foldl (\<lambda>m w. case w of OnBackdrop _ cb \<Rightarrow> run_cb cb m | _ \<Rightarrow> m)
       (m\<lparr>md_waiting := filter (\<lambda>w. \<not> on_backdrop b w) (md_waiting m)\<rparr>)
       (filter (on_backdrop b) (md_waiting m))"

definition element_end :: "modal \<Rightarrow> modal" where
  "element_end m =
     foldl (\<lambda>m _. hide_modal m) (m\<lparr>md_waiting := filter (\<lambda>w. w \<noteq> OnElement) (md_waiting m)\<rparr>)
       (filter (\<lambda>w. w = OnElement) (md_waiting m))"

text \<open>The event of the dialog bubbles up to the element around it.\<close>

definition dialog_end :: "modal \<Rightarrow> modal" where
  "dialog_end m =
     element_end (m\<lparr>md_waiting := filter (\<lambda>w. w \<noteq> OnDialog) (md_waiting m),
       md_shown_events := md_shown_events m + length (filter (\<lambda>w. w = OnDialog) (md_waiting m))\<rparr>)"

datatype modal_event =
    MShow bool
  | MHide bool
  | MToggle bool
  | MEscapeKey bool
  | MDismissClick bool
  | MBesideClick bool
  | MBackdropEnd nat
  | MElementEnd
  | MDialogEnd

fun modal_step :: "modal_event \<Rightarrow> modal \<Rightarrow> modal" where
  "modal_step (MShow p) m = show_modal p m"
| "modal_step (MHide p) m = hide p m"
| "modal_step (MToggle p) m = toggle p m"
| "modal_step (MEscapeKey p) m = (if md_keyup m > 0 then hide p m else m)"
| "modal_step (MDismissClick p) m = (if md_dismiss m > 0 then hide p m else m)"
| "modal_step (MBesideClick p) m =
     (if md_backdrop_click m > 0 \<and> \<not> mo_static (md_opts m) then hide p m else m)"
| "modal_step (MBackdropEnd b) m = backdrop_end b m"
| "modal_step MElementEnd m = element_end m"
| "modal_step MDialogEnd m = dialog_end m"

definition new_modal :: "modal_opts \<Rightarrow> modal" where
  "new_modal opts =
     \<lparr>md_opts = opts, md_shown = False, md_in = False, md_visible = False, md_aria_hidden = True,
      md_keyup = 0, md_dismiss = 0, md_backdrop_click = 0, md_focusin = False, md_document = [],
      md_backdrop = None, md_next = 0, md_waiting = [], md_body_open = False, md_shown_events = 0,
      md_hidden_events = 0\<rparr>"

text \<open>The oldest transition ends; \<open>settle n\<close> lets up to \<open>n\<close> of them end.\<close>

definition end_first :: "modal \<Rightarrow> modal" where
  "end_first m =
     (case md_waiting m of
        [] \<Rightarrow> m
      | OnBackdrop b c # _ \<Rightarrow> backdrop_end b m
      | OnDialog # _ \<Rightarrow> dialog_end m
      | OnElement # _ \<Rightarrow> element_end m)"

fun settle :: "nat \<Rightarrow> modal \<Rightarrow> modal" where
  "settle 0 m = m"
| "settle (Suc n) m = settle n (end_first m)"

section \<open>Handlers are installed exactly while the dialog is shown\<close>

definition handlers_ok :: "modal \<Rightarrow> bool" where
  "handlers_ok m \<longleftrightarrow>
     md_keyup m = (if md_shown m \<and> mo_keyboard (md_opts m) then 1 else 0) \<and>
     md_dismiss m = (if md_shown m then 1 else 0) \<and>
     (\<not> md_shown m \<longrightarrow> md_backdrop_click m = 0)"

lemma cb_handlers: "handlers_ok m \<Longrightarrow> handlers_ok (run_cb cb m)"
  by (cases cb)
     (auto simp: handlers_ok_def shown_cb_def removed_cb_def remove_backdrop_def enforce_focus_def Let_def
        split: option.splits)

lemma handlers_view [simp]:
  "handlers_ok (m\<lparr>md_waiting := w\<rparr>) \<longleftrightarrow> handlers_ok m" "handlers_ok (m\<lparr>md_document := d\<rparr>) \<longleftrightarrow> handlers_ok m"
  "handlers_ok (m\<lparr>md_body_open := b\<rparr>) \<longleftrightarrow> handlers_ok m" "handlers_ok (m\<lparr>md_visible := b\<rparr>) \<longleftrightarrow> handlers_ok m"
  "handlers_ok (m\<lparr>md_waiting := w, md_shown_events := n\<rparr>) \<longleftrightarrow> handlers_ok m"
  by (simp_all add: handlers_ok_def)

lemma new_backdrop_handlers:
  "handlers_ok m \<Longrightarrow> md_shown m \<Longrightarrow>
   handlers_ok (m\<lparr>md_document := d, md_backdrop := b, md_next := n, md_backdrop_click := k\<rparr>)"
  by (simp add: handlers_ok_def)

lemma backdrop_handlers: "handlers_ok m \<Longrightarrow> handlers_ok (backdrop cb m)"
  unfolding backdrop_def Let_def
  by (simp split: option.split if_split add: cb_handlers new_backdrop_handlers)

lemma hide_modal_handlers: "handlers_ok m \<Longrightarrow> handlers_ok (hide_modal m)"
  unfolding hide_modal_def by (rule backdrop_handlers) simp

lemma show_handlers: "handlers_ok m \<Longrightarrow> handlers_ok (show_modal p m)"
proof -
  assume ok: "handlers_ok m"
  then have "\<not> md_shown m \<Longrightarrow>
      handlers_ok ((escape (m\<lparr>md_body_open := True, md_shown := True\<rparr>))\<lparr>md_dismiss :=
        md_dismiss (escape (m\<lparr>md_body_open := True, md_shown := True\<rparr>)) + 1\<rparr>)"
    by (simp add: handlers_ok_def escape_def)
  with ok show ?thesis by (simp add: show_modal_def Let_def backdrop_handlers)
qed

lemma hide_handlers: "handlers_ok m \<Longrightarrow> handlers_ok (hide p m)"
proof -
  assume ok: "handlers_ok m"
  then have "handlers_ok ((escape (m\<lparr>md_shown := False\<rparr>))\<lparr>md_focusin := False, md_in := False, md_aria_hidden := True,
      md_dismiss := 0, md_backdrop_click := 0\<rparr>)"
    by (simp add: handlers_ok_def escape_def)
  with ok show ?thesis by (simp add: hide_def Let_def hide_modal_handlers)
qed

lemma backdrop_end_handlers: "handlers_ok m \<Longrightarrow> handlers_ok (backdrop_end b m)"
proof -
  have "handlers_ok m \<Longrightarrow> handlers_ok (foldl (\<lambda>m w. case w of OnBackdrop _ cb \<Rightarrow> run_cb cb m | _ \<Rightarrow> m) m ws)" for m ws
    by (induction ws arbitrary: m) (auto intro: cb_handlers split: waiting.splits)
  moreover assume "handlers_ok m"
  ultimately show ?thesis by (simp add: backdrop_end_def)
qed

lemma element_end_handlers: "handlers_ok m \<Longrightarrow> handlers_ok (element_end m)"
proof -
  have "handlers_ok m \<Longrightarrow> handlers_ok (foldl (\<lambda>m _. hide_modal m) m ws)" for m and ws :: "waiting list"
    by (induction ws arbitrary: m) (auto intro: hide_modal_handlers)
  moreover assume "handlers_ok m"
  ultimately show ?thesis by (simp add: element_end_def)
qed

lemma dialog_end_handlers: "handlers_ok m \<Longrightarrow> handlers_ok (dialog_end m)"
  unfolding dialog_end_def by (rule element_end_handlers) simp

interpretation modal_machine: invariant_machine modal_step handlers_ok
proof
  fix m e
  assume "handlers_ok m"
  then show "handlers_ok (modal_step e m)"
    by (cases e)
       (auto simp: toggle_def intro: show_handlers hide_handlers backdrop_end_handlers element_end_handlers dialog_end_handlers)
qed


text \<open>
  Whatever is clicked and whenever transitions end, the modal's escape-key and dismiss handlers are
  installed exactly once while it is shown and not at all while it is not, so no handler
  survives the dialog or fires twice.
\<close>

theorem modal_handlers_match_shown:
  "handlers_ok (run_events modal_step es (new_modal opts))"
  by (rule modal_machine.run_keeps) (simp add: handlers_ok_def new_modal_def)

section \<open>A cycle at rest\<close>

definition closed :: "modal \<Rightarrow> bool" where
  "closed m \<longleftrightarrow> \<not> md_shown m \<and> \<not> md_in m \<and> \<not> md_visible m \<and> md_aria_hidden m \<and> md_keyup m = 0 \<and> md_dismiss m = 0 \<and>
     md_backdrop_click m = 0 \<and> \<not> md_focusin m \<and> md_document m = [] \<and> md_backdrop m = None \<and> md_waiting m = [] \<and>
     \<not> md_body_open m"

definition opened :: "modal \<Rightarrow> bool" where
  "opened m \<longleftrightarrow> md_shown m \<and> md_in m \<and> md_visible m \<and> \<not> md_aria_hidden m \<and> md_focusin m \<and> md_waiting m = [] \<and>
     md_body_open m \<and>
     (if mo_backdrop (md_opts m) then \<exists>b. md_document m = [(b, True)] \<and> md_backdrop m = Some b
      else md_document m = [] \<and> md_backdrop m = None)"

lemmas modal_ops =
  show_modal_def hide_def hide_modal_def backdrop_def shown_cb_def removed_cb_def remove_backdrop_def
  escape_def enforce_focus_def animated_def end_first_def backdrop_end_def element_end_def dialog_end_def

text \<open>The two states in full.\<close>

definition closed_modal :: "modal_opts \<Rightarrow> nat \<Rightarrow> nat \<Rightarrow> nat \<Rightarrow> modal" where
  "closed_modal opts n x y =
     \<lparr>md_opts = opts, md_shown = False, md_in = False, md_visible = False, md_aria_hidden = True,
      md_keyup = 0, md_dismiss = 0, md_backdrop_click = 0, md_focusin = False, md_document = [],
      md_backdrop = None, md_next = n, md_waiting = [], md_body_open = False, md_shown_events = x,
      md_hidden_events = y\<rparr>"

definition open_modal :: "modal_opts \<Rightarrow> nat \<Rightarrow> nat \<Rightarrow> nat \<Rightarrow> nat \<Rightarrow> modal" where
  "open_modal opts n k x y =
     \<lparr>md_opts = opts, md_shown = True, md_in = True, md_visible = True, md_aria_hidden = False,
      md_keyup = (if mo_keyboard opts then 1 else 0), md_dismiss = 1,
      md_backdrop_click = (if mo_backdrop opts then 1 else 0), md_focusin = True,
      md_document = (if mo_backdrop opts then [(n, True)] else []),
      md_backdrop = (if mo_backdrop opts then Some n else None), md_next = k, md_waiting = [], md_body_open = True,
      md_shown_events = x, md_hidden_events = y\<rparr>"

lemma closed_iff: "closed m \<longleftrightarrow> (\<exists>opts n x y. m = closed_modal opts n x y)"
  by (cases m) (auto simp: closed_def closed_modal_def)

lemma modal_show_settled:
  "settle 2 (show_modal False (closed_modal opts n x y)) =
   open_modal opts n (if mo_backdrop opts then n + 1 else n) (x + 1) y"
  by (cases "mo_backdrop opts"; cases "mo_fade opts"; cases "mo_support opts"; cases "mo_keyboard opts")
     (simp_all add: closed_modal_def open_modal_def modal_ops Let_def numeral_2_eq_2)

lemma modal_hide_settled:
  "settle 2 (hide False (open_modal opts n k x y)) = closed_modal opts k x (y + 1)"
  by (cases "mo_backdrop opts"; cases "mo_fade opts"; cases "mo_support opts"; cases "mo_keyboard opts")
     (simp_all add: closed_modal_def open_modal_def modal_ops Let_def numeral_2_eq_2)

lemma open_modal_opened: "opened (open_modal opts n k x y)"
  by (simp add: opened_def open_modal_def)

text \<open>
  C24. A dialog that is shown, given time, and hidden, given time, is back in its closed state, with
  its backdrop gone from the document, its handlers removed and the page scrollable, having
  announced \<open>shown\<close> and \<open>hidden\<close> once each; two transitions are all it waits for each way.
\<close>

theorem modal_cycle_leaves_nothing:
  assumes "closed m"
  shows "opened (settle 2 (show_modal False m)) \<and>
         closed (settle 2 (hide False (settle 2 (show_modal False m)))) \<and>
         md_shown_events (settle 2 (show_modal False m)) = md_shown_events m + 1 \<and>
         md_hidden_events (settle 2 (hide False (settle 2 (show_modal False m)))) =
         md_hidden_events (settle 2 (show_modal False m)) + 1"
proof -
  from assms obtain opts n x y where m: "m = closed_modal opts n x y" by (auto simp: closed_iff)
  have "closed (closed_modal opts a b c)" for a b c by (auto simp: closed_iff)
  then show ?thesis
    unfolding m modal_show_settled modal_hide_settled
    using open_modal_opened by (simp add: closed_modal_def open_modal_def)
qed

definition demo_modal :: modal where
  "demo_modal = new_modal \<lparr>mo_backdrop = True, mo_static = False, mo_keyboard = True, mo_fade = True, mo_support = True\<rparr>"

theorem modal_cycle_leaves_nothing_witness:
  "opened (settle 2 (show_modal False demo_modal)) \<and> closed (settle 2 (hide False (settle 2 (show_modal False demo_modal))))"
proof -
  have "closed demo_modal" by (simp add: closed_def demo_modal_def new_modal_def)
  from modal_cycle_leaves_nothing[OF this] show ?thesis by blast
qed

text \<open>
  Showing the dialog again while it is still fading out leaves it broken: all transitions over, it
  believes to be shown but is invisible, a backdrop without owner stays in the document, and
  hiding it again does not remove that backdrop.
\<close>

theorem modal_reopened_while_hiding:
  "(let m = settle 4 (show_modal False (hide False (settle 2 (show_modal False demo_modal))))
    in md_waiting m = [] \<and> md_shown m \<and> md_document m \<noteq> [] \<and> md_backdrop m = None \<and>
       md_document (settle 4 (hide False m)) \<noteq> [])"
  by code_simp


text \<open>
  A prevented \<open>show\<close> still locks the page: the document has added \<open>modal-open\<close> to the body, and nothing
  removes it, because the dialog is never hidden.
\<close>

lemma prevented_show_locks_page:
  "closed m \<Longrightarrow> md_body_open (show_modal True m) \<and> \<not> md_shown (show_modal True m) \<and>
   hide False (show_modal True m) = show_modal True m"
  by (simp add: closed_def show_modal_def hide_def Let_def)

end
