(* ===== verification/Scroll_Widgets.thy ===== *)
theory Scroll_Widgets
  imports Dom
begin

text \<open>
  The scroll spy and the affix of \<open>public/js/bootstrap.js\<close>: decisions on scroll positions. Positions
  and sizes are integers (pixels).
\<close>

section \<open>ScrollSpy\<close>

text \<open>
  The links the spy looks after (\<open>this.selector\<close>) and the elements around them. Elements are numbered;
  \<open>ml_parents\<close> and \<open>mn_parents\<close> are the ancestors of a link and of an element, the nearest first
  (\<open>parents()\<close>).
\<close>

record menu_link =
  ml_data :: "string option"
  ml_href :: "string option"
  ml_parents :: "nat list"

record menu_node =
  mn_tag :: string
  mn_classes :: classes
  mn_parents :: "nat list"

record spy =
  sp_offsets :: "int list"
  sp_targets :: "string list"
  sp_active :: "string option"
  sp_links :: "menu_link list"
  sp_nodes :: "menu_node list"

text \<open>
  A navigation link as \<open>refresh\<close> reads it: its target, whether that is of the form \<open>#\<close> and a word
  character, and where the target is (\<open>None\<close> when it is not in the page). \<open>scrolled\<close> is what is added for
  an element that is not the window.
\<close>

record nav_link =
  nl_href :: string
  nl_hash :: bool
  nl_top :: "int option"

definition refresh :: "int \<Rightarrow> nav_link list \<Rightarrow> spy \<Rightarrow> spy" where
  "refresh scrolled links s =
     (let found = concat (map (\<lambda>l. case nl_top l of
                                   Some t \<Rightarrow> if nl_hash l then [(t + scrolled, nl_href l)] else []
                                 | None \<Rightarrow> []) links);
          ordered = sort_key fst found
      in s\<lparr>sp_offsets := map fst ordered, sp_targets := map snd ordered\<rparr>)"

text \<open>
  \<open>activate\<close>: the ancestors of the links lose the class \<open>active\<close>; the list items around the links to the
  target get it, and so does the nearest \<open>li.dropdown\<close> of each of them when one of them lies directly in a
  \<open>.dropdown-menu\<close>. The target goes into an attribute selector, so it is compared as a string (it has no
  quote or backslash); a missing one reads \<open>undefined\<close> there.
\<close>

definition on_nodes :: "nat list \<Rightarrow> (classes \<Rightarrow> classes) \<Rightarrow> menu_node list \<Rightarrow> menu_node list" where
  "on_nodes is f nodes = at_all is (\<lambda>n. n\<lparr>mn_classes := f (mn_classes n)\<rparr>) nodes"

definition spy_parents :: "(menu_link \<Rightarrow> bool) \<Rightarrow> spy \<Rightarrow> nat list" where
  "spy_parents P s = concat (map ml_parents (filter P (sp_links s)))"

definition links_to :: "string option \<Rightarrow> menu_link \<Rightarrow> bool" where
  "links_to target l =
     (let name = (case target of Some t \<Rightarrow> t | None \<Rightarrow> ''undefined'')
      in ml_data l = Some name \<or> ml_href l = Some name)"

definition items_of :: "string option \<Rightarrow> spy \<Rightarrow> nat list" where
  "items_of target s = filter (\<lambda>i. mn_tag (sp_nodes s ! i) = ''li'') (spy_parents (links_to target) s)"

definition closest_dropdown :: "menu_node list \<Rightarrow> nat \<Rightarrow> nat list" where
  "closest_dropdown nodes i =
     take 1 (filter (\<lambda>j. mn_tag (nodes ! j) = ''li'' \<and> has_class ''dropdown'' (mn_classes (nodes ! j)))
                    (i # mn_parents (nodes ! i)))"

definition in_dropdown_menu :: "menu_node list \<Rightarrow> nat \<Rightarrow> bool" where
  "in_dropdown_menu nodes i \<longleftrightarrow>
     (case mn_parents (nodes ! i) of [] \<Rightarrow> False | p # _ \<Rightarrow> has_class ''dropdown-menu'' (mn_classes (nodes ! p)))"

definition activate :: "string option \<Rightarrow> spy \<Rightarrow> spy" where
  "activate target s =
     (let cleared = on_nodes (filter (\<lambda>i. has_class ''active'' (mn_classes (sp_nodes s ! i))) (spy_parents (\<lambda>_. True) s))
                       (remove_class ''active'') (sp_nodes s);
          items = items_of target s;
          marked = on_nodes items (add_class ''active'') cleared;
          nodes = (if \<exists>i \<in> set items. in_dropdown_menu marked i
                   then on_nodes (concat (map (closest_dropdown marked) items)) (add_class ''active'') marked
                   else marked)
      in s\<lparr>sp_active := target, sp_nodes := nodes\<rparr>)"

text \<open>
  The loop of \<open>process\<close>, from the last offset down; \<open>active\<close> is the target that was active when it
  started. An offset that is missing or 0 counts as absent (\<open>!offsets[i + 1]\<close>).
\<close>

fun spy_loop :: "int \<Rightarrow> string option \<Rightarrow> nat \<Rightarrow> spy \<Rightarrow> spy" where
  "spy_loop pos active 0 s = s"
| "spy_loop pos active (Suc i) s =
     (let next = js_at (sp_offsets s) (i + 1);
          hit = (active \<noteq> js_at (sp_targets s) i \<and> pos \<ge> sp_offsets s ! i \<and>
                 (next = None \<or> next = Some 0 \<or> pos \<le> the next))
      in spy_loop pos active i (if hit then activate (js_at (sp_targets s) i) s else s))"

definition process :: "int \<Rightarrow> int \<Rightarrow> spy \<Rightarrow> spy" where
  "process pos max_scroll s =
     (if pos \<ge> max_scroll then
        let i = js_at (sp_targets s) (length (sp_targets s) - 1)
        in if sp_active s \<noteq> i then activate i s else s
      else spy_loop pos (sp_active s) (length (sp_offsets s)) s)"

lemma activate_keeps [simp]:
  "sp_offsets (activate t s) = sp_offsets s" "sp_targets (activate t s) = sp_targets s"
  "sp_links (activate t s) = sp_links s" "sp_active (activate t s) = t"
  by (simp_all add: activate_def Let_def)

lemma spy_loop_keeps [simp]:
  "sp_offsets (spy_loop pos active n s) = sp_offsets s" "sp_targets (spy_loop pos active n s) = sp_targets s"
  by (induction n arbitrary: s) (simp_all add: Let_def)

subsection \<open>Which elements are marked\<close>

text \<open>
  The elements of a page: the ancestors of a link are listed without repetition, and the ancestors of one
  of them are the rest of the list.
\<close>

definition chain_ok :: "menu_node list \<Rightarrow> nat list \<Rightarrow> bool" where
  "chain_ok nodes is \<longleftrightarrow>
     (\<forall>k < length is. is ! k < length nodes \<and> mn_parents (nodes ! (is ! k)) = drop (Suc k) is)"

definition menu_ok :: "spy \<Rightarrow> bool" where
  "menu_ok s \<longleftrightarrow> (\<forall>l \<in> set (sp_links s). chain_ok (sp_nodes s) (ml_parents l))"

definition marks_target :: "string option \<Rightarrow> spy \<Rightarrow> bool" where
  "marks_target t s \<longleftrightarrow>
     (\<forall>i \<in> set (spy_parents (\<lambda>_. True) s).
        has_class ''active'' (mn_classes (sp_nodes s ! i)) \<longleftrightarrow> i \<in> set (items_of t s))"

definition spy_ok :: "spy \<Rightarrow> bool" where
  "spy_ok s \<longleftrightarrow> menu_ok s \<and> (sp_active s \<noteq> None \<longrightarrow> marks_target (sp_active s) s)"

lemma length_on_nodes [simp]: "length (on_nodes is f nodes) = length nodes"
  by (simp add: on_nodes_def)

lemma nth_on_nodes [simp]:
  "i < length nodes \<Longrightarrow> mn_tag (on_nodes is f nodes ! i) = mn_tag (nodes ! i)"
  "i < length nodes \<Longrightarrow> mn_parents (on_nodes is f nodes ! i) = mn_parents (nodes ! i)"
  "i < length nodes \<Longrightarrow> mn_classes (on_nodes is f nodes ! i) =
     (if i \<in> set is then f (mn_classes (nodes ! i)) else mn_classes (nodes ! i))"
  by (simp_all add: on_nodes_def)

lemma activate_shape [simp]:
  "length (sp_nodes (activate t s)) = length (sp_nodes s)"
  "i < length (sp_nodes s) \<Longrightarrow> mn_tag (sp_nodes (activate t s) ! i) = mn_tag (sp_nodes s ! i)"
  "i < length (sp_nodes s) \<Longrightarrow> mn_parents (sp_nodes (activate t s) ! i) = mn_parents (sp_nodes s ! i)"
  by (simp_all add: activate_def Let_def)

lemma spy_parents_activate [simp]: "spy_parents P (activate t s) = spy_parents P s"
  by (simp add: spy_parents_def)

lemma menu_parents: "menu_ok s \<Longrightarrow> i \<in> set (spy_parents P s) \<Longrightarrow> i < length (sp_nodes s)"
  by (auto simp: menu_ok_def chain_ok_def spy_parents_def) (metis in_set_conv_nth)

lemma items_of_cong:
  assumes "menu_ok s" shows "set (items_of t (activate u s)) = set (items_of t s)"
  using menu_parents[OF assms] by (auto simp: items_of_def)

text \<open>The ancestors of an item that are list items are items too, so the last part of \<open>activate\<close> marks nothing new.\<close>

lemma item_ancestors:
  assumes "menu_ok s" "i \<in> set (spy_parents P s)" "j \<in> set (mn_parents (sp_nodes s ! i))"
  shows "j \<in> set (spy_parents P s)"
proof -
  obtain l where l: "l \<in> set (sp_links s)" "P l" "i \<in> set (ml_parents l)"
    using assms(2) by (auto simp: spy_parents_def)
  then obtain k where k: "k < length (ml_parents l)" "i = ml_parents l ! k" by (auto simp: in_set_conv_nth)
  have "mn_parents (sp_nodes s ! i) = drop (Suc k) (ml_parents l)"
    using assms(1) l(1) k by (simp add: menu_ok_def chain_ok_def)
  then have "j \<in> set (ml_parents l)" using assms(3) by (metis in_set_dropD)
  then show ?thesis using l by (auto simp: spy_parents_def)
qed

lemma closest_dropdown_item:
  assumes "menu_ok s" "i \<in> set (items_of t s)" "j \<in> set (closest_dropdown nodes i)"
    and n: "\<And>k. k < length (sp_nodes s) \<Longrightarrow> mn_tag (nodes ! k) = mn_tag (sp_nodes s ! k) \<and>
              mn_parents (nodes ! k) = mn_parents (sp_nodes s ! k)"
  shows "j \<in> set (items_of t s)"
proof -
  have i: "i \<in> set (spy_parents (links_to t) s)" using assms(2) by (simp add: items_of_def)
  have jl: "mn_tag (nodes ! j) = ''li''" "j = i \<or> j \<in> set (mn_parents (nodes ! i))"
    using in_set_takeD[OF assms(3)[unfolded closest_dropdown_def]] by (simp_all split: if_splits) blast+
  have "mn_parents (nodes ! i) = mn_parents (sp_nodes s ! i)" using n menu_parents[OF assms(1) i] by blast
  then have j: "j \<in> set (spy_parents (links_to t) s)" using jl(2) i item_ancestors[OF assms(1) i] by metis
  then show ?thesis using jl(1) n menu_parents[OF assms(1) j] by (simp add: items_of_def)
qed

lemma activate_marks:
  assumes "menu_ok s" shows "marks_target t (activate t s)"
  unfolding marks_target_def
proof
  fix i assume "i \<in> set (spy_parents (\<lambda>_. True) (activate t s))"
  then have i: "i \<in> set (spy_parents (\<lambda>_. True) s)" by simp
  then have il: "i < length (sp_nodes s)" by (rule menu_parents[OF assms])
  let ?c = "on_nodes (filter (\<lambda>i. has_class ''active'' (mn_classes (sp_nodes s ! i))) (spy_parents (\<lambda>_. True) s))
              (remove_class ''active'') (sp_nodes s)"
  let ?m = "on_nodes (items_of t s) (add_class ''active'') ?c"
  have more: "set (concat (map (closest_dropdown ?m) (items_of t s))) \<subseteq> set (items_of t s)"
    using closest_dropdown_item[OF assms, of _ t _ ?m] by auto
  have "has_class ''active'' (mn_classes (sp_nodes (activate t s) ! i)) \<longleftrightarrow> i \<in> set (items_of t s)"
    using i il more by (auto simp: activate_def Let_def)
  then show "has_class ''active'' (mn_classes (sp_nodes (activate t s) ! i)) \<longleftrightarrow> i \<in> set (items_of t (activate t s))"
    using items_of_cong[OF assms] by blast
qed

lemma menu_ok_activate: "menu_ok s \<Longrightarrow> menu_ok (activate t s)"
  by (auto simp: menu_ok_def chain_ok_def)

lemma spy_ok_activate: "spy_ok s \<Longrightarrow> spy_ok (activate t s)"
  by (simp add: spy_ok_def menu_ok_activate activate_marks)

lemma spy_ok_loop: "spy_ok s \<Longrightarrow> spy_ok (spy_loop pos active n s)"
  by (induction n arbitrary: s) (simp_all add: Let_def spy_ok_activate)

lemma spy_ok_process: "spy_ok s \<Longrightarrow> spy_ok (process pos m s)"
  by (simp add: process_def Let_def spy_ok_loop spy_ok_activate)

lemma spy_ok_refresh: "spy_ok s \<Longrightarrow> spy_ok (refresh n ls s)"
  by (simp add: spy_ok_def menu_ok_def marks_target_def items_of_def spy_parents_def refresh_def Let_def)

datatype spy_event = SpyRefresh int "nav_link list" | SpyScroll int int

fun spy_event_step :: "spy_event \<Rightarrow> spy \<Rightarrow> spy" where
  "spy_event_step (SpyRefresh n ls) s = refresh n ls s"
| "spy_event_step (SpyScroll pos m) s = process pos m s"

interpretation spy_machine: invariant_machine spy_event_step spy_ok
proof unfold_locales
  show "spy_ok s \<Longrightarrow> spy_ok (spy_event_step e s)" for e s
    by (cases e) (simp_all add: spy_ok_refresh spy_ok_process)
qed

definition new_spy :: "menu_link list \<Rightarrow> menu_node list \<Rightarrow> spy" where
  "new_spy links nodes = \<lparr>sp_offsets = [], sp_targets = [], sp_active = None, sp_links = links, sp_nodes = nodes\<rparr>"

subsection \<open>Which target is active\<close>

text \<open>Nothing is activated below the entry whose range contains the position.\<close>

lemma spy_loop_below:
  assumes "\<forall>j < n. \<not> (pos \<ge> sp_offsets s ! j \<and> (js_at (sp_offsets s) (j + 1) = None \<or>
      js_at (sp_offsets s) (j + 1) = Some 0 \<or> pos \<le> the (js_at (sp_offsets s) (j + 1))))"
  shows "spy_loop pos active n s = s"
  using assms by (induction n) (auto simp: Let_def)

lemma spy_loop_above:
  assumes "\<forall>j. i \<le> j \<and> j < n \<longrightarrow> pos < sp_offsets s ! j"
  shows "i \<le> n \<Longrightarrow> spy_loop pos active n s = spy_loop pos active i s"
  using assms
proof (induction n)
  case (Suc n)
  show ?case
  proof (cases "i = Suc n")
    case False
    then have "i \<le> n" using Suc.prems by simp
    then have "\<not> sp_offsets s ! n \<le> pos" using Suc.prems by auto
    then show ?thesis using Suc.IH \<open>i \<le> n\<close> Suc.prems by (simp add: Let_def)
  qed simp
qed simp

lemma spy_section:
  assumes "sorted_wrt (<) (sp_offsets s)" "\<forall>x \<in> set (sp_offsets s). 0 < x"
    and "length (sp_targets s) = length (sp_offsets s)" "i < length (sp_offsets s)"
    and "sp_offsets s ! i \<le> pos" "\<forall>j. i < j \<and> j < length (sp_offsets s) \<longrightarrow> pos < sp_offsets s ! j"
    and "0 < i \<longrightarrow> sp_offsets s ! i < pos"
  shows "sp_active (spy_loop pos (sp_active s) (length (sp_offsets s)) s) = Some (sp_targets s ! i)"
proof -
  let ?n = "length (sp_offsets s)"
  let ?s = "if sp_active s = Some (sp_targets s ! i) then s else activate (Some (sp_targets s ! i)) s"
  have "spy_loop pos (sp_active s) ?n s = spy_loop pos (sp_active s) (Suc i) s"
    by (rule spy_loop_above) (use assms(4,6) in auto)
  also have "\<dots> = spy_loop pos (sp_active s) i ?s"
    using assms(3-6) by (auto simp: Let_def js_at_def)
  also have "\<dots> = ?s"
  proof (rule spy_loop_below, intro allI impI)
    fix j assume j: "j < i"
    have "sp_offsets s ! (j + 1) \<le> sp_offsets s ! i"
      using sorted_wrt_nth_less[OF assms(1), of "j + 1" i] j assms(4) by (cases "j + 1 = i") auto
    moreover have "sp_offsets s ! (j + 1) \<noteq> 0"
      using assms(2,4) j by (metis Suc_eq_plus1 less_irrefl less_trans_Suc nth_mem)
    ultimately show "\<not> (pos \<ge> sp_offsets ?s ! j \<and> (js_at (sp_offsets ?s) (j + 1) = None \<or>
        js_at (sp_offsets ?s) (j + 1) = Some 0 \<or> pos \<le> the (js_at (sp_offsets ?s) (j + 1))))"
      using assms(4,7) j by (auto simp: js_at_def)
  qed
  finally show ?thesis by simp
qed


text \<open>Three sections, each linked from an item of one list; the author has marked the first.\<close>

definition demo_links :: "menu_link list" where
  "demo_links = [\<lparr>ml_data = None, ml_href = Some ''#a'', ml_parents = [1, 0]\<rparr>,
     \<lparr>ml_data = None, ml_href = Some ''#b'', ml_parents = [2, 0]\<rparr>,
     \<lparr>ml_data = Some ''#c'', ml_href = Some ''#'', ml_parents = [3, 0]\<rparr>]"

definition demo_nodes :: "menu_node list" where
  "demo_nodes = [\<lparr>mn_tag = ''ul'', mn_classes = [''nav''], mn_parents = []\<rparr>,
     \<lparr>mn_tag = ''li'', mn_classes = [''active''], mn_parents = [0]\<rparr>,
     \<lparr>mn_tag = ''li'', mn_classes = [], mn_parents = [0]\<rparr>, \<lparr>mn_tag = ''li'', mn_classes = [], mn_parents = [0]\<rparr>]"

definition demo_navs :: "nav_link list" where
  "demo_navs = [\<lparr>nl_href = ''#a'', nl_hash = True, nl_top = Some 100\<rparr>,
     \<lparr>nl_href = ''#b'', nl_hash = True, nl_top = Some 200\<rparr>, \<lparr>nl_href = ''#c'', nl_hash = True, nl_top = Some 300\<rparr>]"


text \<open>
  Exactly on the border of two sections the spy never settles: both entries match, and the loop
  ends with the one that was not active, so every further scroll event at the same position
  switches between the two.
\<close>

theorem spy_flickers_on_border:
  assumes "0 < a" "a < b" "b < max_scroll" "t \<noteq> u"
    and "sp_offsets s = [a, b]" "sp_targets s = [t, u]" "sp_active s = Some t"
  shows "sp_active (process b max_scroll s) = Some u \<and>
         sp_active (process b max_scroll (process b max_scroll s)) = Some t"
  using assms by (simp add: process_def Let_def js_at_def)

theorem spy_flickers_on_border_witness:
  "let s = \<lparr>sp_offsets = [100, 200], sp_targets = [''#a'', ''#b''], sp_active = Some ''#a'', sp_links = [], sp_nodes = []\<rparr>
   in sp_active (process 200 900 (process 200 900 s)) = Some ''#a''"
  unfolding Let_def
  by (rule spy_flickers_on_border[of 100 200 900 "''#a''" "''#b''", THEN conjunct2]) simp_all

section \<open>Affix\<close>

datatype affixed = Unset | Off | Bottom | Top

datatype affix_offset = OffsetNumber int | OffsetObject "int option" "int option"

record affix =
  af_offset :: affix_offset
  af_affixed :: affixed
  af_unpin :: "int option"
  af_classes :: classes

record view =
  vw_visible :: bool
  vw_height :: int
  vw_scroll :: int
  vw_top :: int
  vw_size :: int

text \<open>\<open>vw_height\<close> is the document's height, \<open>vw_top\<close> and \<open>vw_size\<close> the element's position and height.\<close>

definition offset_top :: "affix \<Rightarrow> int option" where
  "offset_top a = (case af_offset a of OffsetNumber n \<Rightarrow> Some n | OffsetObject t _ \<Rightarrow> t)"

definition offset_bottom :: "affix \<Rightarrow> int option" where
  "offset_bottom a = (case af_offset a of OffsetNumber n \<Rightarrow> Some n | OffsetObject _ b \<Rightarrow> b)"

definition decide_affix :: "view \<Rightarrow> affix \<Rightarrow> affixed" where
  "decide_affix v a =
     (if af_unpin a \<noteq> None \<and> vw_scroll v + the (af_unpin a) \<le> vw_top v then Off
      else if offset_bottom a \<noteq> None \<and> vw_top v + vw_size v \<ge> vw_height v - the (offset_bottom a) then Bottom
      else if offset_top a \<noteq> None \<and> vw_scroll v \<le> the (offset_top a) then Top
      else Off)"

fun affix_class :: "affixed \<Rightarrow> string" where
  "affix_class Bottom = ''affix-bottom''"
| "affix_class Top = ''affix-top''"
| "affix_class _ = ''affix''"

definition check_position :: "view \<Rightarrow> affix \<Rightarrow> affix" where
  "check_position v a =
     (if \<not> vw_visible v then a
      else
        let d = decide_affix v a in
        if af_affixed a = d then a
        else a\<lparr>af_affixed := d, af_unpin := (if d = Bottom then Some (vw_top v - vw_scroll v) else None),
               af_classes := add_class (affix_class d)
                 (remove_class ''affix-bottom'' (remove_class ''affix-top'' (remove_class ''affix'' (af_classes a))))\<rparr>)"

definition affix_ok :: "affix \<Rightarrow> bool" where
  "affix_ok a \<longleftrightarrow>
     (af_affixed a \<noteq> Unset \<longrightarrow>
       (\<forall>c \<in> {''affix'', ''affix-top'', ''affix-bottom''}. has_class c (af_classes a) \<longleftrightarrow> c = affix_class (af_affixed a))) \<and>
     (af_unpin a \<noteq> None \<longleftrightarrow> af_affixed a = Bottom)"

lemma check_position_ok: "affix_ok a \<Longrightarrow> affix_ok (check_position v a)"
  by (cases "decide_affix v a") (auto simp: affix_ok_def check_position_def Let_def)

interpretation affix_machine: invariant_machine check_position affix_ok
  by unfold_locales (rule check_position_ok)

lemma affix_set: "vw_visible v \<Longrightarrow> af_affixed (check_position v a) = decide_affix v a"
  by (auto simp: check_position_def Let_def)

lemma decide_not_unset: "decide_affix v a \<noteq> Unset"
  by (simp add: decide_affix_def)

text \<open>
  After any scrolling, an affixed element has exactly one of the three affix classes, the one of its
  current state, which is the state the last visible position asks for; and it remembers a pin exactly
  while it is at the bottom.
\<close>

theorem affix_has_one_class:
  fixes vs v off cs
  assumes "vw_visible v"
  defines "a \<equiv> run_events check_position (vs @ [v]) \<lparr>af_offset = off, af_affixed = Unset, af_unpin = None, af_classes = cs\<rparr>"
  shows "filter (\<lambda>c. has_class c (af_classes a)) [''affix'', ''affix-top'', ''affix-bottom''] = [affix_class (af_affixed a)] \<and>
         (af_unpin a \<noteq> None \<longleftrightarrow> af_affixed a = Bottom)"
proof -
  let ?a0 = "\<lparr>af_offset = off, af_affixed = Unset, af_unpin = None, af_classes = cs\<rparr>"
  have "affix_ok ?a0" by (simp add: affix_ok_def)
  then have ok: "affix_ok a" unfolding a_def by (rule affix_machine.run_keeps)
  have "af_affixed a \<noteq> Unset"
    using assms affix_set[OF assms(1)] decide_not_unset by (simp add: a_def run_events_append)
  with ok show ?thesis by (cases "af_affixed a") (auto simp: affix_ok_def)
qed

theorem affix_has_one_class_witness:
  "af_affixed (run_events check_position ([] @ [\<lparr>vw_visible = True, vw_height = 1000, vw_scroll = 5, vw_top = 20, vw_size = 50\<rparr>])
      \<lparr>af_offset = OffsetNumber 10, af_affixed = Unset, af_unpin = None, af_classes = [''nav'']\<rparr>) = Top \<and>
   filter (\<lambda>c. has_class c (af_classes (run_events check_position ([] @ [\<lparr>vw_visible = True, vw_height = 1000, vw_scroll = 5, vw_top = 20, vw_size = 50\<rparr>])
      \<lparr>af_offset = OffsetNumber 10, af_affixed = Unset, af_unpin = None, af_classes = [''nav'']\<rparr>)))
      [''affix'', ''affix-top'', ''affix-bottom''] = [''affix-top'']"
proof -
  let ?v = "\<lparr>vw_visible = True, vw_height = 1000, vw_scroll = 5, vw_top = 20, vw_size = 50\<rparr>"
  let ?a = "run_events check_position ([] @ [?v]) \<lparr>af_offset = OffsetNumber 10, af_affixed = Unset, af_unpin = None, af_classes = [''nav'']\<rparr>"
  have "vw_visible ?v" by simp
  from affix_has_one_class[OF this, of "[]" "OffsetNumber 10" "[''nav'']"]
  have f: "filter (\<lambda>c. has_class c (af_classes ?a)) [''affix'', ''affix-top'', ''affix-bottom''] = [affix_class (af_affixed ?a)]"
    by blast
  have t: "af_affixed ?a = Top"
    by (simp add: check_position_def decide_affix_def offset_top_def offset_bottom_def Let_def)
  show ?thesis using f t by simp
qed

end
