(* ===== verification/Menus.thy ===== *)
theory Menus
  imports Dom
begin

text \<open>
  The dropdown, tab, button and alert plugins of \<open>public/js/bootstrap.js\<close>. Listeners that prevent an
  event are predicates or flags of the calls.
\<close>

section \<open>Dropdown\<close>

text \<open>
  The menus of a page: which parents are open, and for each toggle its parent (\<open>getParent\<close>), whether
  it is disabled and how many visible items its menu has; the focused item, and the backdrop of touch
  devices.
\<close>

record menu_toggle =
  mt_parent :: nat
  mt_disabled :: bool
  mt_items :: nat

record menus =
  ms_open :: "bool list"
  ms_toggles :: "menu_toggle list"
  ms_focus :: "(nat \<times> nat) option"
  ms_touch :: bool
  ms_backdrop :: bool

definition clear_one :: "(nat \<Rightarrow> bool) \<Rightarrow> menus \<Rightarrow> menu_toggle \<Rightarrow> menus" where
  "clear_one prevents m t =
     (if \<not> ms_open m ! mt_parent t then m
      else if prevents (mt_parent t) then m
      else m\<lparr>ms_open := (ms_open m)[mt_parent t := False]\<rparr>)"

definition clear_menus :: "(nat \<Rightarrow> bool) \<Rightarrow> menus \<Rightarrow> menus" where
  "clear_menus prevents m = foldl (clear_one prevents) (m\<lparr>ms_backdrop := False\<rparr>) (ms_toggles m)"

text \<open>
  A click on toggle \<open>i\<close>. When the handler does not return \<open>false\<close> the click reaches the document,
  which clears the menus.
\<close>

definition click_toggle :: "(nat \<Rightarrow> bool) \<Rightarrow> (nat \<Rightarrow> bool) \<Rightarrow> nat \<Rightarrow> menus \<Rightarrow> menus" where
  "click_toggle prevents_hide prevents_show i m =
     (let t = ms_toggles m ! i; p = mt_parent t in
      if mt_disabled t then clear_menus prevents_hide m
      else
        let active = ms_open m ! p;
            m1 = clear_menus prevents_hide m
        in if active then m1
           else
             let m2 = (if ms_touch m1 then m1\<lparr>ms_backdrop := True\<rparr> else m1)
             in if prevents_show p then clear_menus prevents_hide m2
                else m2\<lparr>ms_open := (ms_open m2)[p := \<not> ms_open m2 ! p], ms_focus := None\<rparr>)"

text \<open>\<open>/(38|40|27)/.test(e.keyCode)\<close>: the digits may be anywhere in the code.\<close>

definition key_handled :: "nat \<Rightarrow> bool" where
  "key_handled k \<longleftrightarrow> (\<exists>pat \<in> {''38'', ''40'', ''27''}. find_sub pat (show_nat k) \<noteq> None)"

definition next_index :: "nat \<Rightarrow> nat \<Rightarrow> int \<Rightarrow> int" where
  "next_index key n index =
     (let i1 = (if key = 38 \<and> index > 0 then index - 1 else index);
          i2 = (if key = 40 \<and> i1 < int n - 1 then i1 + 1 else i1)
      in if i2 = -1 then 0 else i2)"

definition focus_index :: "nat \<Rightarrow> menus \<Rightarrow> int" where
  "focus_index i m = (case ms_focus m of Some (j, k) \<Rightarrow> if j = i then int k else -1 | None \<Rightarrow> -1)"

definition keydown :: "(nat \<Rightarrow> bool) \<Rightarrow> (nat \<Rightarrow> bool) \<Rightarrow> nat \<Rightarrow> nat \<Rightarrow> menus \<Rightarrow> menus" where
  "keydown prevents_hide prevents_show key i m =
     (let t = ms_toggles m ! i in
      if \<not> key_handled key then m
      else if mt_disabled t then m
      else
        let active = ms_open m ! mt_parent t in
        if \<not> active \<or> key = 27 then
          click_toggle prevents_hide prevents_show i (if key = 27 then m\<lparr>ms_focus := None\<rparr> else m)
        else if mt_items t = 0 then m
        else m\<lparr>ms_focus := Some (i, nat (next_index key (mt_items t) (focus_index i m)))\<rparr>)"

definition menus_ok :: "menus \<Rightarrow> bool" where
  "menus_ok m \<longleftrightarrow>
     (\<forall>t \<in> set (ms_toggles m). mt_parent t < length (ms_open m)) \<and>
     (\<forall>p < length (ms_open m). \<exists>t \<in> set (ms_toggles m). mt_parent t = p) \<and>
     (\<forall>p < length (ms_open m). \<forall>q < length (ms_open m). ms_open m ! p \<and> ms_open m ! q \<longrightarrow> p = q)"

lemma clear_foldl:
  "(\<forall>t \<in> set ts. mt_parent t < length (ms_open m)) \<Longrightarrow>
   length (ms_open (foldl (clear_one (\<lambda>_. False)) m ts)) = length (ms_open m) \<and>
   ms_toggles (foldl (clear_one (\<lambda>_. False)) m ts) = ms_toggles m \<and>
   (\<forall>p < length (ms_open m). ms_open (foldl (clear_one (\<lambda>_. False)) m ts) ! p \<longleftrightarrow>
      ms_open m ! p \<and> p \<notin> mt_parent ` set ts)"
proof (induction ts arbitrary: m)
  case (Cons t ts)
  have "length (ms_open (clear_one (\<lambda>_. False) m t)) = length (ms_open m)"
    "ms_toggles (clear_one (\<lambda>_. False) m t) = ms_toggles m"
    "p < length (ms_open m) \<Longrightarrow> ms_open (clear_one (\<lambda>_. False) m t) ! p \<longleftrightarrow> ms_open m ! p \<and> p \<noteq> mt_parent t" for p
    using Cons.prems by (auto simp: clear_one_def nth_update_if)
  with Cons.IH[of "clear_one (\<lambda>_. False) m t"] Cons.prems show ?case by auto
qed simp

lemma clear_closes_all:
  assumes "menus_ok m"
  shows "length (ms_open (clear_menus (\<lambda>_. False) m)) = length (ms_open m)"
    "ms_toggles (clear_menus (\<lambda>_. False) m) = ms_toggles m"
    "\<And>p. p < length (ms_open m) \<Longrightarrow> \<not> ms_open (clear_menus (\<lambda>_. False) m) ! p"
  using clear_foldl[of "ms_toggles m" "m\<lparr>ms_backdrop := False\<rparr>"] assms
  by (auto simp: clear_menus_def menus_ok_def)

lemma clear_ok: "menus_ok m \<Longrightarrow> menus_ok (clear_menus (\<lambda>_. False) m)"
  using clear_closes_all[of m] by (simp add: menus_ok_def)

lemma menus_ok_more [simp]:
  "menus_ok (m\<lparr>ms_backdrop := b\<rparr>) = menus_ok m" "menus_ok (m\<lparr>ms_focus := f\<rparr>) = menus_ok m"
  by (simp_all add: menus_ok_def)

lemma open_one_ok:
  assumes "menus_ok m" "p < length (ms_open m)" "\<And>q. q < length (ms_open m) \<Longrightarrow> \<not> ms_open m ! q"
  shows "menus_ok (m\<lparr>ms_open := (ms_open m)[p := \<not> ms_open m ! p], ms_focus := None\<rparr>)"
  using assms by (auto simp: menus_ok_def nth_update_if)

lemma click_ok:
  assumes "menus_ok m" "i < length (ms_toggles m)"
  shows "menus_ok (click_toggle (\<lambda>_. False) ps i m)"
proof -
  let ?p = "mt_parent (ms_toggles m ! i)"
  have p: "?p < length (ms_open m)" using assms by (auto simp: menus_ok_def)
  let ?m1 = "clear_menus (\<lambda>_. False) m"
  let ?m2 = "if ms_touch ?m1 then ?m1\<lparr>ms_backdrop := True\<rparr> else ?m1"
  have m2: "menus_ok ?m2" "ms_open ?m2 = ms_open ?m1" using clear_ok[OF assms(1)] by auto
  have "menus_ok (?m2\<lparr>ms_open := (ms_open ?m2)[?p := \<not> ms_open ?m2 ! ?p], ms_focus := None\<rparr>)"
    by (rule open_one_ok[OF m2(1)]) (use m2(2) p clear_closes_all[OF assms(1)] in auto)
  then show ?thesis
    using clear_ok[OF assms(1)] clear_ok[OF m2(1)] by (simp add: click_toggle_def Let_def split del: if_split split: if_splits)
qed

datatype menu_event = ClickToggle nat | ClickPage | Key nat nat

fun menu_step :: "(nat \<Rightarrow> bool) \<Rightarrow> menu_event \<Rightarrow> menus \<Rightarrow> menus" where
  "menu_step ps (ClickToggle i) m = (if i < length (ms_toggles m) then click_toggle (\<lambda>_. False) ps i m else m)"
| "menu_step ps ClickPage m = clear_menus (\<lambda>_. False) m"
| "menu_step ps (Key k i) m = (if i < length (ms_toggles m) then keydown (\<lambda>_. False) ps k i m else m)"

lemma keydown_ok: "menus_ok m \<Longrightarrow> i < length (ms_toggles m) \<Longrightarrow> menus_ok (keydown (\<lambda>_. False) ps k i m)"
  by (auto simp: keydown_def Let_def intro!: click_ok)

interpretation menu_machine: invariant_machine "menu_step ps" menus_ok for ps
proof
  fix m e
  assume "menus_ok m"
  then show "menus_ok (menu_step ps e m)"
    by (cases e) (auto intro: click_ok keydown_ok clear_ok)
qed

text \<open>
  At most one menu is open, whatever is clicked and pressed, as long as no listener refuses to let
  a menu close.
\<close>

theorem one_menu_open:
  assumes "menus_ok m" "p < length (ms_open (run_events (menu_step ps) es m))"
    "q < length (ms_open (run_events (menu_step ps) es m))"
    "ms_open (run_events (menu_step ps) es m) ! p" "ms_open (run_events (menu_step ps) es m) ! q"
  shows "p = q"
  using menu_machine.run_keeps[OF assms(1), of ps es] assms(2-5) by (auto simp: menus_ok_def)

definition demo_menus :: menus where
  "demo_menus = \<lparr>ms_open = [False, False],
     ms_toggles = [\<lparr>mt_parent = 0, mt_disabled = False, mt_items = 3\<rparr>, \<lparr>mt_parent = 1, mt_disabled = False, mt_items = 0\<rparr>],
     ms_focus = None, ms_touch = False, ms_backdrop = False\<rparr>"

lemma demo_menus_ok: "menus_ok demo_menus"
  by (auto simp: menus_ok_def demo_menus_def less_Suc_eq)

theorem one_menu_open_witness:
  "ms_open (run_events (menu_step (\<lambda>_. False)) [ClickToggle 0, ClickToggle 1] demo_menus) ! 1 \<and> (1 :: nat) = 1"
proof -
  let ?m = "run_events (menu_step (\<lambda>_. False)) [ClickToggle 0, ClickToggle 1] demo_menus"
  have "(1 :: nat) < length (ms_open ?m)" "ms_open ?m ! 1" by code_simp+
  with one_menu_open[OF demo_menus_ok, of 1 "\<lambda>_. False" "[ClickToggle 0, ClickToggle 1]" 1] show ?thesis by blast
qed

fun presses :: "nat \<Rightarrow> nat \<Rightarrow> nat \<Rightarrow> int \<Rightarrow> int" where
  "presses key n 0 index = index"
| "presses key n (Suc k) index = presses key n k (next_index key n index)"

text \<open>
  The arrow keys walk the items of a menu and stop at its ends: from an unfocused menu of \<open>n\<close>
  items, \<open>k + 1\<close> presses of the down key focus item \<open>min k (n - 1)\<close>, and from item \<open>i\<close>, \<open>k\<close> presses of
  the up key focus item \<open>i - k\<close>, or the first.
\<close>

theorem arrow_keys_walk:
  assumes "0 < n" "i < n"
  shows "presses 40 n (Suc k) (-1) = min (int k) (int n - 1) \<and> presses 38 n k (int i) = max 0 (int i - int k)"
proof (rule conjI)
  have down: "presses 40 n k (int j) = min (int j + int k) (int n - 1)" if "j < n" for j
    using that
  proof (induction k arbitrary: j)
    case (Suc k)
    then show ?case
    proof (cases "Suc j < n")
      case True
      then have "next_index 40 n (int j) = int (Suc j)" by (simp add: next_index_def)
      then show ?thesis using Suc.IH[OF True] by simp
    next
      case False
      then have "next_index 40 n (int j) = int j" using Suc.prems by (simp add: next_index_def)
      then show ?thesis using Suc.IH[OF Suc.prems] Suc.prems False by simp
    qed
  qed simp
  have "next_index 40 n (-1) = int 0" using assms(1) by (simp add: next_index_def)
  then show "presses 40 n (Suc k) (-1) = min (int k) (int n - 1)" using down[OF assms(1)] by simp
  show "presses 38 n k (int i) = max 0 (int i - int k)"
    using assms(2)
  proof (induction k arbitrary: i)
    case (Suc k)
    have "next_index 38 n (int i) = int (i - 1)"
      by (cases i) (simp_all add: next_index_def)
    then show ?case using Suc.IH[of "i - 1"] Suc.prems by (cases i) simp_all
  qed simp
qed


theorem arrow_keys_walk_witness:
  "presses 40 3 (Suc 9) (-1) = 2 \<and> presses 38 3 9 (int 2) = 0"
  using arrow_keys_walk[of 3 2 9] by simp

section \<open>Tabs\<close>

text \<open>
  The tabs of a page: the classes of the list items and of the panes, item \<open>i\<close> standing for pane \<open>i\<close>.
  A pending handler is bound to a pane and keeps the panes that were active and the one to show.
\<close>

record tabs =
  tb_items :: "classes list"
  tb_panes :: "classes list"
  tb_pending :: "(nat \<times> nat list \<times> nat) list"
  tb_support :: bool
  tb_shown :: nat

definition next_pane :: "bool \<Rightarrow> nat list \<Rightarrow> nat \<Rightarrow> classes list \<Rightarrow> classes list" where
  "next_pane transition actives i els =
     (let e1 = at_all actives (remove_class ''active'') els;
          e2 = at_all [i] (add_class ''active'') e1
      in at_all [i] (if transition then add_class ''in'' else remove_class ''fade'') e2)"

definition activate_item :: "nat \<Rightarrow> tabs \<Rightarrow> tabs" where
  "activate_item i t =
     (let actives = find_class ''active'' (tb_items t)
      in t\<lparr>tb_items := at_all actives (remove_class ''in'') (next_pane False actives i (tb_items t))\<rparr>)"

definition activate_pane :: "nat \<Rightarrow> tabs \<Rightarrow> tabs" where
  "activate_pane i t =
     (let actives = find_class ''active'' (tb_panes t);
          transition = (tb_support t \<and> (\<exists>a \<in> set actives. has_class ''fade'' (tb_panes t ! a)));
          t1 = (if transition then t\<lparr>tb_pending := tb_pending t @ map (\<lambda>a. (a, actives, i)) actives\<rparr>
                else t\<lparr>tb_panes := next_pane False actives i (tb_panes t), tb_shown := tb_shown t + 1\<rparr>)
      in t1\<lparr>tb_panes := at_all actives (remove_class ''in'') (tb_panes t1)\<rparr>)"

definition tab_show :: "bool \<Rightarrow> nat \<Rightarrow> tabs \<Rightarrow> tabs" where
  "tab_show prevented i t =
     (if has_class ''active'' (tb_items t ! i) then t
      else if prevented then t
      else activate_pane i (activate_item i t))"

definition pane_transition_end :: "nat \<Rightarrow> tabs \<Rightarrow> tabs" where
  "pane_transition_end a t =
     foldl (\<lambda>t (_, actives, i). t\<lparr>tb_panes := next_pane True actives i (tb_panes t), tb_shown := tb_shown t + 1\<rparr>)
       (t\<lparr>tb_pending := filter (\<lambda>(b, _). b \<noteq> a) (tb_pending t)\<rparr>) (filter (\<lambda>(b, _). b = a) (tb_pending t))"

definition settle_tabs :: "tabs \<Rightarrow> tabs" where
  "settle_tabs t = foldl (\<lambda>t (a, _). pane_transition_end a t) t (tb_pending t)"

definition tabs_at :: "nat \<Rightarrow> tabs \<Rightarrow> bool" where
  "tabs_at a t \<longleftrightarrow> find_class ''active'' (tb_items t) = [a] \<and> find_class ''active'' (tb_panes t) = [a] \<and> tb_pending t = []"

lemma next_pane_active:
  assumes "find_class ''active'' els = [a]" "i < length els"
  shows "find_class ''active'' (next_pane tr [a] i els) = [i]" "length (next_pane tr [a] i els) = length els"
  using find_class_singleD[OF assms(1)] assms(2)
  by (auto simp: next_pane_def Let_def intro!: find_class_single split: if_splits)

lemma at_all_in_active:
  "find_class ''active'' (at_all as (remove_class ''in'') els) = find_class ''active'' els"
  by (rule find_class_eqI) (auto split: if_splits)

text \<open>
  Showing a tab at rest makes it and its pane the only active ones, with or without a fade, once
  the fade is over, and announces it once.
\<close>

theorem tab_show_selects:
  assumes "tabs_at a t" "i \<noteq> a" "i < length (tb_items t)" "i < length (tb_panes t)"
  shows "tabs_at i (settle_tabs (tab_show False i t)) \<and>
         tb_shown (settle_tabs (tab_show False i t)) = tb_shown t + 1"
proof -
  have a: "find_class ''active'' (tb_items t) = [a]" "find_class ''active'' (tb_panes t) = [a]" "tb_pending t = []"
    using assms(1) by (simp_all add: tabs_at_def)
  have inactive: "\<not> has_class ''active'' (tb_items t ! i)"
    using find_class_singleD[OF a(1)] assms(2,3) by simp
  have items: "find_class ''active'' (tb_items (activate_item i t)) = [i]"
    "tb_panes (activate_item i t) = tb_panes t" "tb_pending (activate_item i t) = []"
    "tb_support (activate_item i t) = tb_support t" "tb_shown (activate_item i t) = tb_shown t"
    using next_pane_active(1)[OF a(1) assms(3)] a by (simp_all add: activate_item_def Let_def at_all_in_active)
  have faded: "find_class ''active'' (at_all [a] (remove_class ''in'') (tb_panes t)) = [a]"
    using a(2) by (simp add: at_all_in_active)
  show ?thesis
  proof (cases "tb_support t \<and> has_class ''fade'' (tb_panes t ! a)")
    case True
    then show ?thesis
      using items a inactive next_pane_active(1)[OF faded, of i True] assms(4)
      by (simp add: tabs_at_def tab_show_def activate_pane_def Let_def settle_tabs_def pane_transition_end_def)
  next
    case False
    then show ?thesis
      using items a inactive next_pane_active(1)[OF a(2) assms(4), of False]
      by (auto simp: tabs_at_def tab_show_def activate_pane_def Let_def settle_tabs_def at_all_in_active)
  qed
qed

definition demo_tabs :: tabs where
  "demo_tabs = \<lparr>tb_items = [[''active''], [], []],
     tb_panes = [[''tab-pane'', ''fade'', ''in'', ''active''], [''tab-pane'', ''fade''], [''tab-pane'', ''fade'']],
     tb_pending = [], tb_support = True, tb_shown = 0\<rparr>"

theorem tab_show_selects_witness:
  "tabs_at 2 (settle_tabs (tab_show False 2 demo_tabs))"
proof -
  have "tabs_at 0 demo_tabs" by code_simp
  from tab_show_selects[OF this, of 2] show ?thesis by (simp add: demo_tabs_def)
qed

text \<open>
  Two quick clicks break the tabs: while the first pane still fades out it is the active one for the
  second click as well, and both of the clicked panes end up active.
\<close>

theorem tab_race:
  "find_class ''active'' (tb_items (settle_tabs (tab_show False 2 (tab_show False 1 demo_tabs)))) = [2] \<and>
   find_class ''active'' (tb_panes (settle_tabs (tab_show False 2 (tab_show False 1 demo_tabs)))) = [1, 2]"
  by code_simp

section \<open>Buttons\<close>

datatype input_type = Radio | Checkbox | NoInput

text \<open>
  A group of buttons (\<open>data-toggle="buttons"\<close>) with the same type of input: the class \<open>active\<close> and the
  property \<open>checked\<close> of each. Checking a radio input unchecks the others of its group.
\<close>

record button_group =
  bg_type :: input_type
  bg_active :: "bool list"
  bg_checked :: "bool list"

definition set_checked :: "nat \<Rightarrow> bool \<Rightarrow> button_group \<Rightarrow> button_group" where
  "set_checked i v g =
     (if bg_type g = Radio \<and> v then g\<lparr>bg_checked := map (\<lambda>k. k = i) [0..<length (bg_checked g)]\<rparr>
      else g\<lparr>bg_checked := (bg_checked g)[i := v]\<rparr>)"

definition toggle_button :: "nat \<Rightarrow> button_group \<Rightarrow> button_group" where
  "toggle_button i g =
     (let changed = \<not> (bg_type g = Radio \<and> bg_checked g ! i \<and> bg_active g ! i);
          g1 = (if bg_type g = Radio \<and> changed then g\<lparr>bg_active := map (\<lambda>_. False) (bg_active g)\<rparr> else g);
          g2 = (if changed \<and> bg_type g \<noteq> NoInput then set_checked i (\<not> bg_active g1 ! i) g1 else g1)
      in if changed then g2\<lparr>bg_active := (bg_active g2)[i := \<not> bg_active g2 ! i]\<rparr> else g2)"

definition group_ok :: "button_group \<Rightarrow> bool" where
  "group_ok g \<longleftrightarrow> length (bg_checked g) = length (bg_active g) \<and>
     (bg_type g = Radio \<longrightarrow>
       (\<forall>i < length (bg_active g). bg_checked g ! i \<and> bg_active g ! i \<longrightarrow>
          (\<forall>k < length (bg_active g). bg_checked g ! k = (k = i) \<and> bg_active g ! k = (k = i))))"

lemma toggle_radio:
  assumes "group_ok g" "bg_type g = Radio" "i < length (bg_active g)"
  shows "bg_type (toggle_button i g) = Radio \<and> length (bg_active (toggle_button i g)) = length (bg_active g) \<and>
    length (bg_checked (toggle_button i g)) = length (bg_checked g) \<and>
    (\<forall>k < length (bg_active g). bg_active (toggle_button i g) ! k = (k = i) \<and> bg_checked (toggle_button i g) ! k = (k = i))"
proof (cases "bg_checked g ! i \<and> bg_active g ! i")
  case True
  then have "toggle_button i g = g" using assms(2) by (simp add: toggle_button_def Let_def)
  moreover from assms True have "\<forall>k < length (bg_active g). bg_checked g ! k = (k = i) \<and> bg_active g ! k = (k = i)"
    unfolding group_ok_def by blast
  ultimately show ?thesis using assms(2) by simp
next
  case False
  then have "toggle_button i g = g\<lparr>bg_active := (map (\<lambda>_. False) (bg_active g))[i := True],
      bg_checked := map (\<lambda>k. k = i) [0..<length (bg_checked g)]\<rparr>"
    using assms(2,3) by (simp add: toggle_button_def set_checked_def Let_def)
  then show ?thesis using assms by (simp add: group_ok_def nth_update_if)
qed

lemma toggle_radio_ok:
  assumes "group_ok g" "bg_type g = Radio" "i < length (bg_active g)"
  shows "group_ok (toggle_button i g)"
proof -
  have "length (bg_checked g) = length (bg_active g)" using assms(1) unfolding group_ok_def by blast
  with toggle_radio[OF assms] show ?thesis unfolding group_ok_def by auto
qed

text \<open>
  In a group of radio buttons exactly the button clicked last is active and checked, however often
  and in whatever order the buttons are clicked.
\<close>

theorem radio_group_selects_last:
  assumes "group_ok g" "bg_type g = Radio" "\<forall>i \<in> set is. i < length (bg_active g)" "i < length (bg_active g)"
    and "k < length (bg_active g)"
  shows "bg_active (run_events toggle_button (is @ [i]) g) ! k = (k = i) \<and>
         bg_checked (run_events toggle_button (is @ [i]) g) ! k = (k = i)"
  using assms
proof (induction "is" arbitrary: g)
  case Nil
  then show ?case using toggle_radio[of g i] by simp
next
  case (Cons j js)
  then show ?case using toggle_radio[of g j] toggle_radio_ok[of g j] by simp
qed

theorem radio_group_selects_last_witness:
  "bg_active (run_events toggle_button ([0, 2, 2] @ [1]) \<lparr>bg_type = Radio, bg_active = [False, False, False],
     bg_checked = [False, False, False]\<rparr>) ! 1 = True"
  using radio_group_selects_last[of "\<lparr>bg_type = Radio, bg_active = [False, False, False], bg_checked = [False, False, False]\<rparr>"
      "[0, 2, 2]" 1 1]
  by (auto simp: group_ok_def less_Suc_eq)

text \<open>
  \<open>setState\<close>: the text shown and the texts by state name (\<open>data()\<close> and the options); the class
  \<open>disabled\<close> follows in a timeout, which is run here.
\<close>

record button =
  bt_content :: string
  bt_data :: "string obj"
  bt_options :: "string obj"
  bt_disabled :: bool

definition text_of :: "string obj \<Rightarrow> string \<Rightarrow> string option" where
  "text_of ob k = (case map_of ob k of Some s \<Rightarrow> if s = [] then None else Some s | None \<Rightarrow> None)"

definition set_state :: "string \<Rightarrow> button \<Rightarrow> button" where
  "set_state st b =
     (let key = st @ ''Text'';
          data = (if text_of (bt_data b) ''resetText'' = None then obj_set ''resetText'' (bt_content b) (bt_data b)
                  else bt_data b);
          content = (case text_of data key of
                       Some s \<Rightarrow> s
                     | None \<Rightarrow> (case map_of (bt_options b) key of Some s \<Rightarrow> s | None \<Rightarrow> bt_content b))
      in b\<lparr>bt_data := data, bt_content := content, bt_disabled := (key = ''loadingText'')\<rparr>)"

section \<open>Alerts\<close>

record alert =
  al_in :: bool
  al_fade :: bool
  al_present :: bool
  al_pending :: bool
  al_support :: bool

definition close_alert :: "bool \<Rightarrow> alert \<Rightarrow> alert" where
  "close_alert prevented a =
     (if prevented then a
      else
        let a1 = a\<lparr>al_in := False\<rparr>
        in if al_support a1 \<and> al_fade a1 then a1\<lparr>al_pending := True\<rparr> else a1\<lparr>al_present := False\<rparr>)"

definition alert_transition_end :: "alert \<Rightarrow> alert" where
  "alert_transition_end a = (if al_pending a then a\<lparr>al_pending := False, al_present := False\<rparr> else a)"

end
