(* ===== verification/Plugins.thy ===== *)
theory Plugins
  imports Carousel Modal Scroll_Widgets Menus
begin

text \<open>
  How the pages reach the plugins of \<open>public/js/bootstrap.js\<close>: the functions \<open>$.fn.x\<close> and the handlers
  that links with \<open>data-\<close> attributes run. Each function makes the object of an element once, keeps it
  in the element's data, and then runs the method that a string names. Calling a method that the
  prototype does not have is a type error; the names that every object inherits are not considered.
\<close>

section \<open>Options\<close>

datatype js_val = VBool bool | VNum int | VStr string

type_synonym js_opts = "js_val obj"

fun truthy :: "js_val \<Rightarrow> bool" where
  "truthy (VBool b) = b"
| "truthy (VNum n) = (n \<noteq> 0)"
| "truthy (VStr s) = (s \<noteq> [])"

definition opt_on :: "string \<Rightarrow> js_opts \<Rightarrow> bool" where
  "opt_on k opts = (case map_of opts k of Some v \<Rightarrow> truthy v | None \<Rightarrow> False)"

text \<open>\<open>$.extend\<close> of an object by another.\<close>

definition extend_opts :: "'v obj \<Rightarrow> 'v obj \<Rightarrow> 'v obj" where
  "extend_opts a b = foldl (\<lambda>ob (k, v). obj_set k v ob) a b"

lemma map_of_extend_opts: "distinct (map fst b) \<Longrightarrow> map_of (extend_opts a b) = map_of a ++ map_of b"
proof (induction b arbitrary: a)
  case (Cons kv b)
  obtain k v where "kv = (k, v)" by (cases kv)
  moreover have "k \<notin> dom (map_of b)" using Cons.prems calculation by (auto simp: dom_map_of_conv_image_fst)
  ultimately show ?case
    using Cons by (auto simp: extend_opts_def fun_eq_iff map_add_def dom_def split: option.splits)
qed (simp add: extend_opts_def)

text \<open>The argument of a plugin's function.\<close>

datatype 'o js_option = OAbsent | OString string | OObject 'o

fun option_object :: "'v obj js_option \<Rightarrow> 'v obj" where
  "option_object (OObject opts) = opts"
| "option_object _ = []"

section \<open>Calling a method by its name\<close>

datatype 's method_call = Done 's | TypeError string

definition call_method :: "(string \<times> ('s \<Rightarrow> 's method_call)) list \<Rightarrow> string \<Rightarrow> 's \<Rightarrow> 's method_call" where
  "call_method methods name s = (case map_of methods name of Some f \<Rightarrow> f s | None \<Rightarrow> TypeError name)"

fun map_call :: "('a \<Rightarrow> 'b) \<Rightarrow> 'a method_call \<Rightarrow> 'b method_call" where
  "map_call f (Done s) = Done (f s)"
| "map_call f (TypeError n) = TypeError n"

lemma map_call_Done: "map_call f c = Done s \<longleftrightarrow> (\<exists>t. c = Done t \<and> s = f t)"
  by (cases c) auto

lemma call_method_Done:
  "call_method methods name s = Done t \<longleftrightarrow> (\<exists>f. map_of methods name = Some f \<and> f s = Done t)"
  by (simp add: call_method_def split: option.splits)

fun plugin_calls :: "('o js_option \<Rightarrow> 's \<Rightarrow> 's method_call) \<Rightarrow> 'o js_option list \<Rightarrow> 's \<Rightarrow> 's method_call" where
  "plugin_calls plugin [] s = Done s"
| "plugin_calls plugin (x # xs) s = (case plugin x s of Done t \<Rightarrow> plugin_calls plugin xs t | TypeError n \<Rightarrow> TypeError n)"

text \<open>
  The contract of the functions that take options: after a call the element has an object, and what an
  object was made with stays. (A tip can be destroyed by name, so the tooltip is no instance.)
\<close>

locale plugin_function =
  fixes plugin :: "'o js_option \<Rightarrow> 's \<Rightarrow> 's method_call"
    and made_with :: "'s \<Rightarrow> 'c option"
  assumes makes: "plugin x s = Done t \<Longrightarrow> made_with t \<noteq> None"
    and keeps: "made_with s = Some c \<Longrightarrow> plugin x s = Done t \<Longrightarrow> made_with t = Some c"
begin

lemma calls_keep: "made_with s = Some c \<Longrightarrow> plugin_calls plugin xs s = Done t \<Longrightarrow> made_with t = Some c"
  by (induction xs arbitrary: s) (auto split: method_call.splits dest: keeps)

lemma first_call_decides:
  assumes "plugin_calls plugin (x # xs) s = Done t"
  shows "\<exists>u c. plugin x s = Done u \<and> made_with u = Some c \<and> made_with t = Some c"
proof -
  from assms obtain u where u: "plugin x s = Done u" "plugin_calls plugin xs u = Done t" by (auto split: method_call.splits)
  moreover from makes[OF u(1)] obtain c where "made_with u = Some c" by auto
  ultimately show ?thesis using calls_keep by blast
qed

end

section \<open>The target of a link\<close>

text \<open>
  \<open>href.replace(/.*(?=#[^\s]+$)/, '')\<close> on an address without line breaks: what is before the last \<open>#\<close>
  that is followed by characters other than white space, up to the end, is dropped. Two plugins use
  \<open>*\<close> for \<open>+\<close>; then the \<open>#\<close> may also be the last character.
\<close>

definition fragment_at :: "bool \<Rightarrow> string \<Rightarrow> nat \<Rightarrow> bool" where
  "fragment_at nonempty s i \<longleftrightarrow>
     s ! i = CHR ''#'' \<and> (nonempty \<longrightarrow> i + 1 < length s) \<and> list_all (\<lambda>c. \<not> is_space c) (drop (i + 1) s)"

definition strip_href :: "bool \<Rightarrow> string \<Rightarrow> string" where
  "strip_href nonempty s =
     (case find (fragment_at nonempty s) (rev [0..<length s]) of Some i \<Rightarrow> drop i s | None \<Rightarrow> s)"

text \<open>The selector of a link: its \<open>data-target\<close> if it is not empty, else what its address has after the host.\<close>

definition link_selector :: "string option \<Rightarrow> string option \<Rightarrow> string" where
  "link_selector data_target href =
     (case data_target of
        Some (c # s) \<Rightarrow> c # s
      | _ \<Rightarrow> (case href of Some h \<Rightarrow> strip_href True h | None \<Rightarrow> []))"

lemma find_rev_last:
  "find P (rev [0..<n]) = Some i \<longleftrightarrow> i < n \<and> P i \<and> (\<forall>j. i < j \<and> j < n \<longrightarrow> \<not> P j)"
proof (induction n)
  case (Suc n)
  then show ?case by (auto simp: less_Suc_eq)
qed simp

lemma strip_href_fragment:
  assumes "CHR ''#'' \<notin> set frag" "list_all (\<lambda>c. \<not> is_space c) frag" "nonempty \<Longrightarrow> frag \<noteq> []"
  shows "strip_href nonempty (url @ CHR ''#'' # frag) = CHR ''#'' # frag"
proof -
  let ?s = "url @ CHR ''#'' # frag"
  have "find (fragment_at nonempty ?s) (rev [0..<length ?s]) = Some (length url)"
  proof (subst find_rev_last, intro conjI allI impI)
    show "length url < length ?s" by simp
    show "fragment_at nonempty ?s (length url)" using assms(2,3) by (auto simp: fragment_at_def)
    fix j assume j: "length url < j \<and> j < length ?s"
    then have "?s ! j = frag ! (j - length url - 1)" by (auto simp: nth_append nth_Cons')
    moreover have "frag ! (j - length url - 1) \<in> set frag" using j by (intro nth_mem) auto
    ultimately show "\<not> fragment_at nonempty ?s j" using assms(1) by (auto simp: fragment_at_def)
  qed
  then show ?thesis by (simp add: strip_href_def)
qed

section \<open>Modal\<close>

text \<open>
  An element with its data attributes, its class \<open>fade\<close>, its object, and the addresses the constructor
  loaded into it. \<open>prevents\<close> is what a listener does with the \<open>show\<close> and \<open>hide\<close> events.
\<close>

record modal_el =
  me_data :: js_opts
  me_fade :: bool
  me_support :: bool
  me_modal :: "modal option"
  me_loaded :: "js_val list"

definition modal_defaults :: js_opts where
  "modal_defaults = [(''backdrop'', VBool True), (''keyboard'', VBool True), (''show'', VBool True)]"

definition modal_opts_of :: "modal_el \<Rightarrow> js_opts \<Rightarrow> modal_opts" where
  "modal_opts_of e opts =
     \<lparr>mo_backdrop = opt_on ''backdrop'' opts, mo_static = (map_of opts ''backdrop'' = Some (VStr ''static'')),
      mo_keyboard = opt_on ''keyboard'' opts, mo_fade = me_fade e, mo_support = me_support e\<rparr>"

definition make_modal :: "js_opts \<Rightarrow> modal_el \<Rightarrow> modal_el" where
  "make_modal opts e =
     e\<lparr>me_modal := Some (new_modal (modal_opts_of e opts)),
       me_loaded := me_loaded e @ (case map_of opts ''remote'' of Some v \<Rightarrow> if truthy v then [v] else [] | None \<Rightarrow> [])\<rparr>"

text \<open>\<open>backdrop\<close> called by its name has no callback; without a transition it calls \<open>undefined\<close> when hidden.\<close>

definition backdrop_alone :: "modal \<Rightarrow> modal method_call" where
  "backdrop_alone m =
     (if md_shown m \<and> mo_backdrop (md_opts m) then
        Done (m\<lparr>md_document := md_document m @ [(md_next m, True)], md_backdrop := Some (md_next m),
                md_next := md_next m + 1, md_backdrop_click := md_backdrop_click m + 1\<rparr>)
      else
        (case md_backdrop m of
           Some b \<Rightarrow>
             if md_shown m then Done m
             else if animated m then
               Done (m\<lparr>md_document := map (\<lambda>(i, v). (i, if i = b then False else v)) (md_document m)\<rparr>)
             else TypeError ''callback''
         | None \<Rightarrow> Done m))"

definition modal_methods :: "bool \<Rightarrow> (string \<times> (modal \<Rightarrow> modal method_call)) list" where
  "modal_methods prevents =
     [(''toggle'', \<lambda>m. Done (Modal.toggle prevents m)),
      (''show'', \<lambda>m. Done (show_modal prevents m)),
      (''hide'', \<lambda>m. Done (Modal.hide prevents m)),
      (''enforceFocus'', \<lambda>m. Done (enforce_focus m)),
      (''escape'', \<lambda>m. Done (escape m)),
      (''hideModal'', \<lambda>m. Done (hide_modal m)),
      (''removeBackdrop'', \<lambda>m. Done (remove_backdrop m)),
      (''backdrop'', backdrop_alone)]"

definition on_modal :: "(modal \<Rightarrow> modal method_call) \<Rightarrow> modal_el \<Rightarrow> modal_el method_call" where
  "on_modal f e =
     (case me_modal e of Some m \<Rightarrow> map_call (\<lambda>m'. e\<lparr>me_modal := Some m'\<rparr>) (f m) | None \<Rightarrow> Done e)"

definition modal_plugin :: "bool \<Rightarrow> js_opts js_option \<Rightarrow> modal_el \<Rightarrow> modal_el method_call" where
  "modal_plugin prevents option e =
     (let options = extend_opts (extend_opts modal_defaults (me_data e)) (option_object option);
          e1 = (if me_modal e = None then make_modal options e else e)
      in case option of
           OString name \<Rightarrow> on_modal (call_method (modal_methods prevents) name) e1
         | _ \<Rightarrow> if opt_on ''show'' options then on_modal (\<lambda>m. Done (show_modal prevents m)) e1 else Done e1)"

text \<open>
  A click on a link with \<open>data-toggle="modal"\<close>. It asks for the data \<open>modal\<close>, where no object is ever kept
  (the plugin uses the key \<open>bs.modal\<close>), only an attribute \<open>data-modal\<close> could be.
\<close>

definition remote_of :: "string option \<Rightarrow> js_val" where
  "remote_of href =
     (case href of Some h \<Rightarrow> if CHR ''#'' \<in> set h then VBool False else VStr h | None \<Rightarrow> VBool False)"

definition click_modal_link :: "bool \<Rightarrow> string option \<Rightarrow> js_opts \<Rightarrow> modal_el \<Rightarrow> modal_el method_call" where
  "click_modal_link prevents href link_data e =
     modal_plugin prevents
       (if opt_on ''modal'' (me_data e) then OString ''toggle''
        else OObject (extend_opts (extend_opts [(''remote'', remote_of href)] (me_data e)) link_data)) e"

lemma opts_kept [simp]:
  "md_opts (escape m) = md_opts m" "md_opts (remove_backdrop m) = md_opts m" "md_opts (shown_cb m) = md_opts m"
  "md_opts (removed_cb m) = md_opts m"
  by (simp_all add: escape_def remove_backdrop_def shown_cb_def removed_cb_def enforce_focus_def Let_def split: option.split)

lemma opts_kept_cb [simp]: "md_opts (run_cb cb m) = md_opts m"
  by (cases cb) simp_all

lemma opts_kept_backdrop [simp]: "md_opts (backdrop cb m) = md_opts m"
  by (simp add: backdrop_def Let_def split: option.split)

lemma opts_kept_methods [simp]:
  "md_opts (show_modal p m) = md_opts m" "md_opts (hide_modal m) = md_opts m" "md_opts (Modal.hide p m) = md_opts m"
  "md_opts (Modal.toggle p m) = md_opts m" "md_opts (enforce_focus m) = md_opts m"
  by (simp_all add: show_modal_def hide_modal_def Modal.hide_def Modal.toggle_def enforce_focus_def Let_def)

lemma opts_kept_backdrop_alone: "backdrop_alone m = Done m' \<Longrightarrow> md_opts m' = md_opts m"
  by (auto simp: backdrop_alone_def split: if_splits option.splits)

lemma modal_methods_keep:
  "call_method (modal_methods prevents) name m = Done m' \<Longrightarrow> md_opts m' = md_opts m"
  by (auto simp: call_method_Done modal_methods_def opts_kept_backdrop_alone split: if_splits)

definition modal_made_with :: "modal_el \<Rightarrow> modal_opts option" where
  "modal_made_with e = map_option md_opts (me_modal e)"

lemma on_modal_keeps:
  assumes "\<And>m m'. f m = Done m' \<Longrightarrow> md_opts m' = md_opts m" "on_modal f e = Done e'"
  shows "modal_made_with e' = modal_made_with e"
  using assms by (auto simp: on_modal_def modal_made_with_def map_call_Done split: option.splits)

lemma modal_plugin_decides:
  assumes "modal_plugin prevents x e = Done e'"
  shows "modal_made_with e' =
    (case modal_made_with e of
       Some c \<Rightarrow> Some c
     | None \<Rightarrow> Some (modal_opts_of e (extend_opts (extend_opts modal_defaults (me_data e)) (option_object x))))"
proof -
  let ?e1 = "if me_modal e = None then make_modal (extend_opts (extend_opts modal_defaults (me_data e)) (option_object x)) e else e"
  have named: "on_modal (call_method (modal_methods prevents) name) ?e1 = Done e' \<Longrightarrow> modal_made_with e' = modal_made_with ?e1" for name
    by (rule on_modal_keeps[OF modal_methods_keep])
  have shown: "on_modal (\<lambda>m. Done (show_modal prevents m)) ?e1 = Done e' \<Longrightarrow> modal_made_with e' = modal_made_with ?e1"
    by (rule on_modal_keeps) auto
  have "modal_made_with e' = modal_made_with ?e1"
    using assms named shown
    by (cases x) (simp_all only: modal_plugin_def Let_def js_option.case method_call.inject split: if_split_asm)
  then show ?thesis
    by (auto simp: modal_made_with_def make_modal_def new_modal_def split: option.splits)
qed

interpretation modal_fn: plugin_function "modal_plugin prevents" modal_made_with for prevents
  by unfold_locales (auto dest: modal_plugin_decides split: option.splits)

text \<open>
  The options of a dialog are those of the first call: whatever is called afterwards, by name or with
  other options, the object keeps what the defaults, the data attributes and the first call gave it.
\<close>

theorem first_modal_options_stay:
  assumes "me_modal e = None" "plugin_calls (modal_plugin prevents) (x # xs) e = Done e'"
  shows "modal_made_with e' = Some (modal_opts_of e (extend_opts (extend_opts modal_defaults (me_data e)) (option_object x)))"
  using modal_fn.first_call_decides[OF assms(2)] assms(1)
  by (auto dest: modal_plugin_decides simp: modal_made_with_def)

definition demo_dialog :: modal_el where
  "demo_dialog = \<lparr>me_data = [(''backdrop'', VStr ''static'')], me_fade = True, me_support = True, me_modal = None, me_loaded = []\<rparr>"

theorem first_modal_options_stay_witness:
  "\<exists>e. plugin_calls (modal_plugin False) [OObject [(''keyboard'', VBool False)], OString ''hide'', OObject [(''keyboard'', VBool True)]]
     demo_dialog = Done e \<and> modal_made_with e = Some \<lparr>mo_backdrop = True, mo_static = True, mo_keyboard = False, mo_fade = True, mo_support = True\<rparr>"
proof -
  let ?xs = "[OString ''hide'', OObject [(''keyboard'', VBool True)]]"
  let ?x = "OObject [(''keyboard'', VBool False)]"
  have n: "me_modal demo_dialog = None" by (simp add: demo_dialog_def)
  obtain e where e: "plugin_calls (modal_plugin False) (?x # ?xs) demo_dialog = Done e"
  proof (cases "plugin_calls (modal_plugin False) (?x # ?xs) demo_dialog")
    case (TypeError t)
    moreover have "case plugin_calls (modal_plugin False) (?x # ?xs) demo_dialog of Done _ \<Rightarrow> True | TypeError _ \<Rightarrow> False" by code_simp
    ultimately show ?thesis by simp
  qed
  from first_modal_options_stay[OF n this] have "modal_made_with e =
      Some \<lparr>mo_backdrop = True, mo_static = True, mo_keyboard = False, mo_fade = True, mo_support = True\<rparr>"
    by (simp add: demo_dialog_def modal_opts_of_def modal_defaults_def extend_opts_def opt_on_def)
  with e show ?thesis by blast
qed

text \<open>A link opens a dialog, but a second click does not close it.\<close>

lemma link_never_closes:
  assumes "\<not> opt_on ''modal'' (me_data e)" "me_modal e = Some m" "md_shown m"
    and "click_modal_link prevents href link_data e = Done e'"
  shows "\<exists>m'. me_modal e' = Some m' \<and> md_shown m'"
  using assms
  by (auto simp: click_modal_link_def modal_plugin_def Let_def on_modal_def show_modal_def split: if_split_asm)

section \<open>Affix\<close>

text \<open>
  The element, the object once there is one, what the window shows, and the checks a click has put off
  by a millisecond.
\<close>

record affix_el =
  ae_classes :: classes
  ae_view :: view
  ae_affix :: "affix option"
  ae_due :: nat

text \<open>\<open>Affix.DEFAULTS\<close> has the offset 0.\<close>

definition new_affix :: "affix_offset option \<Rightarrow> classes \<Rightarrow> affix" where
  "new_affix offset cs =
     \<lparr>af_offset = (case offset of Some off \<Rightarrow> off | None \<Rightarrow> OffsetNumber 0), af_affixed = Unset,
      af_unpin = None, af_classes = cs\<rparr>"

definition check_now :: "affix_el \<Rightarrow> affix_el" where
  "check_now e = e\<lparr>ae_affix := map_option (check_position (ae_view e)) (ae_affix e)\<rparr>"

definition check_position_with_event_loop :: "affix_el \<Rightarrow> affix_el" where
  "check_position_with_event_loop e = e\<lparr>ae_due := ae_due e + 1\<rparr>"

definition affix_methods :: "(string \<times> (affix_el \<Rightarrow> affix_el method_call)) list" where
  "affix_methods =
     [(''checkPosition'', \<lambda>e. Done (check_now e)),
      (''checkPositionWithEventLoop'', \<lambda>e. Done (check_position_with_event_loop e))]"

definition affix_plugin :: "affix_offset option js_option \<Rightarrow> affix_el \<Rightarrow> affix_el method_call" where
  "affix_plugin option e =
     (let given = (case option of OObject off \<Rightarrow> off | _ \<Rightarrow> None);
          e1 = (if ae_affix e = None then check_now (e\<lparr>ae_affix := Some (new_affix given (ae_classes e))\<rparr>) else e)
      in case option of OString name \<Rightarrow> call_method affix_methods name e1 | _ \<Rightarrow> Done e1)"

datatype affix_event = Scrolled view | Clicked | CheckDue

fun affix_el_step :: "affix_event \<Rightarrow> affix_el \<Rightarrow> affix_el" where
  "affix_el_step (Scrolled v) e = check_now (e\<lparr>ae_view := v\<rparr>)"
| "affix_el_step Clicked e = check_position_with_event_loop e"
| "affix_el_step CheckDue e = (if ae_due e = 0 then e else check_now (e\<lparr>ae_due := ae_due e - 1\<rparr>))"

text \<open>
  The load handler, for one element: its data \<open>offset\<close>, \<open>offsetBottom\<close> and \<open>offsetTop\<close>. The script is strict,
  so setting a property of a number is an error.
\<close>

definition put_offset :: "(affix_offset \<Rightarrow> int \<Rightarrow> affix_offset) \<Rightarrow> string \<Rightarrow> int option \<Rightarrow> affix_offset \<Rightarrow> affix_offset method_call" where
  "put_offset put name given off =
     (case given of
        Some n \<Rightarrow>
          if n = 0 then Done off
          else (case off of OffsetNumber _ \<Rightarrow> TypeError name | OffsetObject _ _ \<Rightarrow> Done (put off n))
      | None \<Rightarrow> Done off)"

fun set_bottom :: "affix_offset \<Rightarrow> int \<Rightarrow> affix_offset" where
  "set_bottom (OffsetObject t b) n = OffsetObject t (Some n)"
| "set_bottom off n = off"

fun set_top :: "affix_offset \<Rightarrow> int \<Rightarrow> affix_offset" where
  "set_top (OffsetObject t b) n = OffsetObject (Some n) b"
| "set_top off n = off"

definition affix_load :: "affix_offset option \<Rightarrow> int option \<Rightarrow> int option \<Rightarrow> affix_el \<Rightarrow> affix_el method_call" where
  "affix_load offset bot_data top_data e =
     (let off = (case offset of Some o' \<Rightarrow> if o' = OffsetNumber 0 then OffsetObject None None else o'
                 | None \<Rightarrow> OffsetObject None None)
      in case put_offset set_bottom ''bottom'' bot_data off of
           TypeError n \<Rightarrow> TypeError n
         | Done off1 \<Rightarrow>
             (case put_offset set_top ''top'' top_data off1 of
                TypeError n \<Rightarrow> TypeError n
              | Done off2 \<Rightarrow> affix_plugin (OObject (Some off2)) e))"

definition affix_made_with :: "affix_el \<Rightarrow> affix_offset option" where
  "affix_made_with e = map_option af_offset (ae_affix e)"

lemma affix_made_with_simps [simp]:
  "affix_made_with (check_now e) = affix_made_with e"
  "affix_made_with (check_position_with_event_loop e) = affix_made_with e"
  by (cases "ae_affix e";
      simp add: affix_made_with_def check_now_def check_position_with_event_loop_def check_position_def Let_def)+

lemma affix_plugin_decides:
  assumes "affix_plugin x e = Done e'"
  shows "affix_made_with e' =
    (case affix_made_with e of
       Some c \<Rightarrow> Some c
     | None \<Rightarrow> Some (case x of OObject (Some off) \<Rightarrow> off | _ \<Rightarrow> OffsetNumber 0))"
proof -
  let ?off = "case x of OObject off \<Rightarrow> off | _ \<Rightarrow> None"
  let ?e1 = "if ae_affix e = None then check_now (e\<lparr>ae_affix := Some (new_affix ?off (ae_classes e))\<rparr>) else e"
  have "affix_made_with e' = affix_made_with ?e1"
    using assms by (cases x) (auto simp: affix_plugin_def Let_def call_method_Done affix_methods_def split: if_splits)
  then show ?thesis
    by (cases "ae_affix e"; cases x) (auto simp: affix_made_with_def new_affix_def check_now_def check_position_def Let_def split: option.splits)
qed

interpretation affix_fn: plugin_function affix_plugin affix_made_with
  by unfold_locales (auto dest: affix_plugin_decides split: option.splits)

text \<open>
  An element with \<open>data-offset="60"\<close> and a \<open>data-offset-top\<close> (or bottom) as well stops the load
  handler with an error, and every affix after it in the page is never made.
\<close>

lemma affix_load_fails:
  assumes "k \<noteq> 0" "n \<noteq> 0"
  shows "affix_load (Some (OffsetNumber k)) None (Some n) e = TypeError ''top''"
    "affix_load (Some (OffsetNumber k)) (Some n) t e = TypeError ''bottom''"
  using assms by (simp_all add: affix_load_def put_offset_def)

lemma affix_load_offsets:
  "ae_affix e = None \<Longrightarrow> t \<noteq> 0 \<Longrightarrow> b \<noteq> 0 \<Longrightarrow>
   \<exists>e'. affix_load None (Some b) (Some t) e = Done e' \<and> affix_made_with e' = Some (OffsetObject (Some t) (Some b))"
  by (simp add: affix_load_def put_offset_def affix_plugin_def Let_def)
     (simp add: affix_made_with_def new_affix_def)

section \<open>ScrollSpy\<close>

text \<open>
  The element: where it is scrolled to and where its end is, what is added to the positions of the targets, and the links that the
  selector of the constructor finds, with the elements around them.
\<close>

record spy_el =
  se_href :: "string option"
  se_scroll :: int
  se_max :: int
  se_added :: int
  se_links :: "string \<Rightarrow> nav_link list"
  se_menu :: "string \<Rightarrow> menu_link list \<times> menu_node list"
  se_spy :: "(int \<times> string \<times> spy) option"

definition spy_selector :: "string option \<Rightarrow> string option \<Rightarrow> string" where
  "spy_selector target href =
     (case target of
        Some (c # s) \<Rightarrow> c # s
      | _ \<Rightarrow> (case href of Some h \<Rightarrow> strip_href True h | None \<Rightarrow> [])) @ '' .nav li > a''"

text \<open>An object is its offset option (10 by default), its selector and the state of \<open>Scroll_Widgets\<close>.\<close>

definition spy_refresh :: "spy_el \<Rightarrow> spy_el" where
  "spy_refresh e =
     e\<lparr>se_spy := map_option (\<lambda>(off, sel, s). (off, sel, refresh (se_added e) (se_links e sel) s)) (se_spy e)\<rparr>"

definition spy_process :: "spy_el \<Rightarrow> spy_el" where
  "spy_process e = e\<lparr>se_spy := map_option (\<lambda>(off, sel, s). (off, sel, process (se_scroll e + off) (se_max e) s)) (se_spy e)\<rparr>"

text \<open>\<open>activate\<close> called by its name: no target is active then.\<close>

definition spy_deactivate :: "spy_el \<Rightarrow> spy_el" where
  "spy_deactivate e = e\<lparr>se_spy := map_option (\<lambda>(off, sel, s). (off, sel, activate None s)) (se_spy e)\<rparr>"

definition spy_methods :: "(string \<times> (spy_el \<Rightarrow> spy_el method_call)) list" where
  "spy_methods =
     [(''refresh'', \<lambda>e. Done (spy_refresh e)),
      (''process'', \<lambda>e. Done (spy_process e)),
      (''activate'', \<lambda>e. Done (spy_deactivate e))]"

definition make_spy :: "int option \<times> string option \<Rightarrow> spy_el \<Rightarrow> spy_el" where
  "make_spy given e =
     (let sel = spy_selector (snd given) (se_href e)
      in spy_process (spy_refresh (e\<lparr>se_spy := Some ((case fst given of Some n \<Rightarrow> n | None \<Rightarrow> 10), sel,
           new_spy (fst (se_menu e sel)) (snd (se_menu e sel)))\<rparr>)))"

definition spy_plugin :: "(int option \<times> string option) js_option \<Rightarrow> spy_el \<Rightarrow> spy_el method_call" where
  "spy_plugin option e =
     (let given = (case option of OObject g \<Rightarrow> g | _ \<Rightarrow> (None, None));
          e1 = (if se_spy e = None then make_spy given e else e)
      in case option of OString name \<Rightarrow> call_method spy_methods name e1 | _ \<Rightarrow> Done e1)"

definition spy_load :: "int option \<times> string option \<Rightarrow> spy_el \<Rightarrow> spy_el method_call" where
  "spy_load given e = spy_plugin (OObject given) e"

definition spy_made_with :: "spy_el \<Rightarrow> (int \<times> string) option" where
  "spy_made_with e = map_option (\<lambda>(off, sel, s). (off, sel)) (se_spy e)"

lemma spy_made_with_simps [simp]:
  "spy_made_with (spy_refresh e) = spy_made_with e" "spy_made_with (spy_process e) = spy_made_with e"
  "spy_made_with (spy_deactivate e) = spy_made_with e"
  by (cases "se_spy e"; simp add: spy_made_with_def spy_refresh_def spy_process_def spy_deactivate_def case_prod_beta)+

interpretation spy_fn: plugin_function spy_plugin spy_made_with
proof
  fix x e e'
  assume c: "spy_plugin x e = Done e'"
  let ?g = "case x of OObject g \<Rightarrow> g | _ \<Rightarrow> (None, None)"
  have e': "spy_made_with e' = spy_made_with (if se_spy e = None then make_spy ?g e else e)"
    using c by (cases x) (auto simp: spy_plugin_def Let_def call_method_Done spy_methods_def split: if_splits)
  then show "spy_made_with e' \<noteq> None" by (auto simp: make_spy_def Let_def spy_made_with_def[of "_\<lparr>se_spy := _\<rparr>"] spy_made_with_def[of e])
  show "spy_made_with e = Some k \<Longrightarrow> spy_made_with e' = Some k" for k
    using e' by (auto simp: spy_made_with_def[of e])
qed

section \<open>Carousel\<close>

text \<open>
  The element of a carousel, with the options its defaults and data give a new object, and the object.
\<close>

record carousel_el =
  ce_items :: "classes list"
  ce_indicators :: "classes list option"
  ce_options :: options_c
  ce_carousel :: "carousel option"

text \<open>
  A click on a link with \<open>data-slide\<close> (\<open>action\<close>, \<open>PNone\<close> without) or \<open>data-slide-to\<close> (\<open>index\<close>): with
  an index the options of this call have no interval, which matters when they make the object and
  when there is no action.
\<close>

definition carousel_of :: "options_c \<Rightarrow> carousel_el \<Rightarrow> carousel" where
  "carousel_of opts e =
     (case ce_carousel e of Some c \<Rightarrow> c | None \<Rightarrow> new_carousel opts (ce_items e) (ce_indicators e))"

definition click_slide_link :: "bool \<Rightarrow> plugin_option \<Rightarrow> int option \<Rightarrow> carousel_el \<Rightarrow> carousel_el" where
  "click_slide_link prevented action index e =
     (let opts = (if index = None then ce_options e else (ce_options e)\<lparr>oc_interval := 0\<rparr>);
          c = carousel_of opts e;
          c1 = (if action \<noteq> PNone then carousel_plugin prevented action c
                else if oc_interval opts \<noteq> 0 then cycle False (pause False c) else c);
          c2 = (case index of Some i \<Rightarrow> go_to prevented i c1 | None \<Rightarrow> c1)
      in e\<lparr>ce_carousel := Some c2\<rparr>)"

text \<open>The load handler of the page, for an element with \<open>data-ride="carousel"\<close>.\<close>

definition ride :: "bool \<Rightarrow> plugin_option \<Rightarrow> carousel_el \<Rightarrow> carousel_el" where
  "ride prevented action e = click_slide_link prevented action None e"

text \<open>Both only do what the events of the machine in \<open>Carousel\<close> do.\<close>

fun action_events :: "bool \<Rightarrow> plugin_option \<Rightarrow> carousel_event list" where
  "action_events p (PIndex i) = [To p i]"
| "action_events p PNext = [Next p]"
| "action_events p PPrev = [Prev p]"
| "action_events p PPause = [Pause False]"
| "action_events p PCycle = [Cycle False]"
| "action_events p PNone = []"

definition link_events :: "bool \<Rightarrow> plugin_option \<Rightarrow> int option \<Rightarrow> carousel_el \<Rightarrow> carousel_event list" where
  "link_events p action index e =
     (if action \<noteq> PNone then action_events p action
      else if index = None \<and> oc_interval (ce_options e) \<noteq> 0 then [Pause False, Cycle False] else []) @
     (case index of Some i \<Rightarrow> [To p i] | None \<Rightarrow> [])"

lemma click_slide_link_events:
  "ce_carousel e = Some c \<Longrightarrow>
   ce_carousel (click_slide_link p action index e) = Some (run_events carousel_step (link_events p action index e) c)"
  by (cases action; cases index) (simp_all add: click_slide_link_def link_events_def carousel_of_def Let_def)

section \<open>Dropdown\<close>

text \<open>The page's menus, and the toggles that have an object, which has bound a click handler of its own.\<close>

record menu_page =
  mp_menus :: menus
  mp_made :: "nat list"

definition toggle_menu :: "(nat \<Rightarrow> bool) \<Rightarrow> (nat \<Rightarrow> bool) \<Rightarrow> nat \<Rightarrow> menus \<Rightarrow> menus" where
  "toggle_menu prevents_hide prevents_show i m =
     (let t = ms_toggles m ! i; p = mt_parent t in
      if mt_disabled t then m
      else
        let m1 = clear_menus prevents_hide m in
        if ms_open m ! p then m1
        else
          let m2 = (if ms_touch m1 then m1\<lparr>ms_backdrop := True\<rparr> else m1)
          in if prevents_show p then m2
             else m2\<lparr>ms_open := (ms_open m2)[p := \<not> ms_open m2 ! p], ms_focus := None\<rparr>)"

definition dropdown_plugin ::
  "(nat \<Rightarrow> bool) \<Rightarrow> (nat \<Rightarrow> bool) \<Rightarrow> nat \<Rightarrow> unit js_option \<Rightarrow> menu_page \<Rightarrow> menu_page method_call" where
  "dropdown_plugin ph ps i option g =
     (let g1 = (if i \<in> set (mp_made g) then g else g\<lparr>mp_made := mp_made g @ [i]\<rparr>)
      in case option of
           OString name \<Rightarrow>
             call_method [(''toggle'', \<lambda>g. Done (g\<lparr>mp_menus := toggle_menu ph ps i (mp_menus g)\<rparr>))] name g1
         | _ \<Rightarrow> Done g1)"

text \<open>
  A click on a toggle with an object: its own handler ends the event with \<open>false\<close>, unless it returned
  early; then the handlers of the document follow.
\<close>

definition click_made_toggle :: "(nat \<Rightarrow> bool) \<Rightarrow> (nat \<Rightarrow> bool) \<Rightarrow> nat \<Rightarrow> menus \<Rightarrow> menus" where
  "click_made_toggle ph ps i m =
     (let t = ms_toggles m ! i; m1 = toggle_menu ph ps i m
      in if mt_disabled t \<or> \<not> ms_open m ! mt_parent t \<and> ps (mt_parent t) then click_toggle ph ps i m1 else m1)"

lemma toggle_menu_is_click:
  "\<not> mt_disabled (ms_toggles m ! i) \<Longrightarrow> \<not> ps (mt_parent (ms_toggles m ! i)) \<Longrightarrow>
   toggle_menu ph ps i m = click_toggle ph ps i m"
  by (simp add: toggle_menu_def click_toggle_def Let_def)

lemma click_made_toggle_same:
  "ps = (\<lambda>_. False) \<Longrightarrow> click_made_toggle ph ps i m = click_toggle ph ps i m"
  by (auto simp: click_made_toggle_def Let_def toggle_menu_is_click) (simp add: toggle_menu_def)

section \<open>Tab\<close>

record tab_page =
  tg_tabs :: tabs
  tg_made :: "nat list"

text \<open>The method \<open>activate\<close> needs its arguments and fails without them, as an unknown name does.\<close>

definition tab_plugin :: "bool \<Rightarrow> nat \<Rightarrow> unit js_option \<Rightarrow> tab_page \<Rightarrow> tab_page method_call" where
  "tab_plugin prevented i option g =
     (let g1 = (if i \<in> set (tg_made g) then g else g\<lparr>tg_made := tg_made g @ [i]\<rparr>)
      in case option of
           OString name \<Rightarrow> call_method [(''show'', \<lambda>g. Done (g\<lparr>tg_tabs := tab_show prevented i (tg_tabs g)\<rparr>))] name g1
         | _ \<Rightarrow> Done g1)"

definition click_tab :: "bool \<Rightarrow> nat \<Rightarrow> tab_page \<Rightarrow> tab_page method_call" where
  "click_tab prevented i g = tab_plugin prevented i (OString ''show'') g"

lemma click_tab_shows:
  "\<exists>g'. click_tab prevented i g = Done g' \<and> tg_tabs g' = tab_show prevented i (tg_tabs g)"
  by (simp add: click_tab_def tab_plugin_def call_method_def Let_def)

section \<open>Button\<close>

text \<open>The button \<open>bl_at\<close> of its group, its content and data, and whether it has an object.\<close>

record button_el =
  bl_group :: button_group
  bl_at :: nat
  bl_button :: button
  bl_made :: bool

definition button_defaults :: "string obj" where
  "button_defaults = [(''loadingText'', ''loading...'')]"

definition make_button :: "string obj \<Rightarrow> button_el \<Rightarrow> button_el" where
  "make_button given e =
     e\<lparr>bl_made := True, bl_button := (bl_button e)\<lparr>bt_options := extend_opts button_defaults given\<rparr>\<rparr>"

text \<open>An object is true as well: it reaches \<open>setState\<close>, which turns it into a string.\<close>

definition button_plugin :: "string obj js_option \<Rightarrow> button_el \<Rightarrow> button_el method_call" where
  "button_plugin option e =
     (let e1 = (if bl_made e then e else make_button (option_object option) e)
      in case option of
           OAbsent \<Rightarrow> Done e1
         | OString s \<Rightarrow>
             if s = ''toggle'' then Done (e1\<lparr>bl_group := toggle_button (bl_at e1) (bl_group e1)\<rparr>)
             else if s = [] then Done e1
             else Done (e1\<lparr>bl_button := set_state s (bl_button e1)\<rparr>)
         | OObject given \<Rightarrow> Done (e1\<lparr>bl_button := set_state ''[object Object]'' (bl_button e1)\<rparr>))"

text \<open>A click inside a button: \<open>is_btn\<close> says whether the element clicked or one around it has the class \<open>btn\<close>.\<close>

definition click_button :: "bool \<Rightarrow> button_el \<Rightarrow> button_el method_call" where
  "click_button is_btn e = (if is_btn then button_plugin (OString ''toggle'') e else Done e)"

definition button_made_with :: "button_el \<Rightarrow> string obj option" where
  "button_made_with e = (if bl_made e then Some (bt_options (bl_button e)) else None)"

lemma set_state_options [simp]: "bt_options (set_state st b) = bt_options b"
  by (simp add: set_state_def Let_def)

interpretation button_fn: plugin_function button_plugin button_made_with
  by unfold_locales
     (auto simp: button_plugin_def button_made_with_def make_button_def Let_def split: js_option.splits if_splits)

text \<open>Giving a button options enables it, whatever they are.\<close>

lemma options_enable_button:
  "\<exists>e'. button_plugin (OObject given) e = Done e' \<and> \<not> bt_disabled (bl_button e')"
  by (simp add: button_plugin_def set_state_def Let_def)

section \<open>Alert\<close>

record alert_el =
  an_alert :: alert
  an_made :: bool

definition alert_plugin :: "bool \<Rightarrow> unit js_option \<Rightarrow> alert_el \<Rightarrow> alert_el method_call" where
  "alert_plugin prevented option e =
     (let e1 = e\<lparr>an_made := True\<rparr>
      in case option of
           OString name \<Rightarrow> call_method [(''close'', \<lambda>e. Done (e\<lparr>an_alert := close_alert prevented (an_alert e)\<rparr>))] name e1
         | _ \<Rightarrow> Done e1)"

text \<open>
  A click on the dismiss button: the handler that the constructor bound, if there is an object, and
  the handler of the document close the alert.
\<close>

definition click_dismiss :: "bool \<Rightarrow> alert_el \<Rightarrow> alert_el" where
  "click_dismiss prevented e =
     (let a = (if an_made e then close_alert prevented (an_alert e) else an_alert e)
      in e\<lparr>an_alert := close_alert prevented a\<rparr>)"

lemma close_alert_twice [simp]: "close_alert p (close_alert p a) = close_alert p a"
  by (simp add: close_alert_def Let_def)

lemma click_dismiss_closes: "an_alert (click_dismiss p e) = close_alert p (an_alert e)"
  by (simp add: click_dismiss_def Let_def)

end
