(* ===== verification/Tooltip.thy ===== *)
theory Tooltip
  imports Dom Complex_Main
begin

text \<open>
  The tooltip of \<open>public/js/bootstrap.js\<close> and the popover that extends it: hovering with delays as a
  state machine, and the geometry of placing the tip. The element's title is fixed; \<open>prevented\<close> says
  whether a listener prevents the \<open>show\<close> or \<open>hide\<close> event. Sizes and positions are rationals.
\<close>

section \<open>State\<close>

datatype hover = HNone | HIn | HOut

datatype timer = TShow | THide

record tip_opts =
  to_title :: string
  to_content :: string
  to_popover :: bool
  to_animation :: bool
  to_delay_show :: nat
  to_delay_hide :: nat
  to_support :: bool

record tip =
  tp_opts :: tip_opts
  tp_enabled :: bool
  tp_hover :: hover
  tp_timer :: "timer option"
  tp_classes :: classes
  tp_attached :: bool
  tp_ending :: nat

text \<open>A delay given as one number stands for both delays (\<open>getOptions\<close>); \<open>0\<close> is no delay.\<close>

definition with_delay :: "nat \<Rightarrow> tip_opts \<Rightarrow> tip_opts" where
  "with_delay d opts = (if d \<noteq> 0 then opts\<lparr>to_delay_show := d, to_delay_hide := d\<rparr> else opts)"

definition get_title :: "tip \<Rightarrow> string" where
  "get_title t = to_title (tp_opts t)"

text \<open>The popover also shows for its content alone.\<close>

definition has_content :: "tip \<Rightarrow> bool" where
  "has_content t \<longleftrightarrow> get_title t \<noteq> [] \<or> to_popover (tp_opts t) \<and> to_content (tp_opts t) \<noteq> []"

definition set_content :: "tip \<Rightarrow> tip" where
  "set_content t = t\<lparr>tp_classes := foldr remove_class [''fade'', ''in'', ''top'', ''bottom'', ''left'', ''right''] (tp_classes t)\<rparr>"

section \<open>Placement\<close>

record box =
  bx_top :: rat
  bx_left :: rat
  bx_width :: rat
  bx_height :: rat

definition get_calculated_offset :: "string \<Rightarrow> box \<Rightarrow> rat \<Rightarrow> rat \<Rightarrow> rat \<times> rat" where
  "get_calculated_offset placement pos w h =
     (if placement = ''bottom'' then (bx_top pos + bx_height pos, bx_left pos + bx_width pos / 2 - w / 2)
      else if placement = ''top'' then (bx_top pos - h, bx_left pos + bx_width pos / 2 - w / 2)
      else if placement = ''left'' then (bx_top pos + bx_height pos / 2 - h / 2, bx_left pos - w)
      else (bx_top pos + bx_height pos / 2 - h / 2, bx_left pos + bx_width pos))"

text \<open>
  The automatic placement: \<open>parent\<close> is the region the tip should stay in (its width, height and left
  edge), \<open>right\<close> the right edge of the element.
\<close>

definition auto_place :: "string \<Rightarrow> box \<Rightarrow> rat \<Rightarrow> rat \<Rightarrow> rat \<Rightarrow> rat \<Rightarrow> rat \<Rightarrow> rat \<Rightarrow> rat \<Rightarrow> string" where
  "auto_place placement pos right w h scroll parent_width parent_height parent_left =
     (if placement = ''bottom'' \<and> bx_top pos + bx_height pos + h - scroll > parent_height then ''top''
      else if placement = ''top'' \<and> bx_top pos - scroll - h < 0 then ''bottom''
      else if placement = ''right'' \<and> right + w > parent_width then ''left''
      else if placement = ''left'' \<and> bx_left pos - w < parent_left then ''right''
      else placement)"

text \<open>
  \<open>applyPlacement\<close> for a tip whose size becomes \<open>(w1, h1)\<close> when it is placed, and \<open>(w2, h2)\<close> when it is
  moved to the left edge: where it ends up (top, left), and the arrow's offset in percent.
\<close>

definition replace_arrow :: "rat \<Rightarrow> rat \<Rightarrow> rat option" where
  "replace_arrow delta dimension = (if delta \<noteq> 0 then Some (50 * (1 - delta / dimension)) else None)"

definition apply_placement ::
  "rat \<times> rat \<Rightarrow> string \<Rightarrow> rat \<times> rat \<Rightarrow> rat \<times> rat \<Rightarrow> rat \<times> rat \<Rightarrow> rat \<times> rat \<Rightarrow> (rat \<times> rat) \<times> rat option" where
  "apply_placement offset placement margins size0 size1 size2 =
     (let top = fst offset + fst margins;
          left = snd offset + snd margins;
          top1 = (if placement = ''top'' \<and> snd size1 \<noteq> snd size0 then top + snd size0 - snd size1 else top)
      in if placement = ''top'' \<or> placement = ''bottom'' then
           (if left < 0 then ((top1, 0), replace_arrow (left * -2 - fst size0 + fst size2) (fst size2))
            else ((top1, left), replace_arrow (0 - fst size0 + fst size1) (fst size1)))
         else ((top1, left), replace_arrow (snd size1 - snd size0) (snd size1)))"

section \<open>Showing and hiding\<close>

definition show_tip :: "bool \<Rightarrow> string \<Rightarrow> tip \<Rightarrow> tip" where
  "show_tip prevented placement t =
     (if has_content t \<and> tp_enabled t then
        if prevented then t
        else
          let t1 = set_content t;
              t2 = (if to_animation (tp_opts t1) then t1\<lparr>tp_classes := add_class ''fade'' (tp_classes t1)\<rparr> else t1)
          in t2\<lparr>tp_attached := True, tp_classes := add_class ''in'' (add_class placement (tp_classes t2))\<rparr>
      else t)"

definition tip_complete :: "tip \<Rightarrow> tip" where
  "tip_complete t = (if tp_hover t \<noteq> HIn then t\<lparr>tp_attached := False\<rparr> else t)"

definition hide_tip :: "bool \<Rightarrow> tip \<Rightarrow> tip" where
  "hide_tip prevented t =
     (if prevented then t
      else
        let t1 = t\<lparr>tp_classes := remove_class ''in'' (tp_classes t)\<rparr>
        in if to_support (tp_opts t1) \<and> has_class ''fade'' (tp_classes t1)
           then t1\<lparr>tp_ending := tp_ending t1 + 1\<rparr> else tip_complete t1)"

definition enter :: "bool \<Rightarrow> string \<Rightarrow> tip \<Rightarrow> tip" where
  "enter prevented placement t =
     (let t1 = t\<lparr>tp_timer := None, tp_hover := HIn\<rparr>
      in if to_delay_show (tp_opts t1) = 0 then show_tip prevented placement t1
         else t1\<lparr>tp_timer := Some TShow\<rparr>)"

definition leave :: "bool \<Rightarrow> tip \<Rightarrow> tip" where
  "leave prevented t =
     (let t1 = t\<lparr>tp_timer := None, tp_hover := HOut\<rparr>
      in if to_delay_hide (tp_opts t1) = 0 then hide_tip prevented t1
         else t1\<lparr>tp_timer := Some THide\<rparr>)"

definition toggle_tip :: "bool \<Rightarrow> string \<Rightarrow> tip \<Rightarrow> tip" where
  "toggle_tip prevented placement t =
     (if has_class ''in'' (tp_classes t) then leave prevented t else enter prevented placement t)"

definition timeout :: "bool \<Rightarrow> string \<Rightarrow> tip \<Rightarrow> tip" where
  "timeout prevented placement t =
     (case tp_timer t of
        None \<Rightarrow> t
      | Some TShow \<Rightarrow>
          let t1 = t\<lparr>tp_timer := None\<rparr> in if tp_hover t1 = HIn then show_tip prevented placement t1 else t1
      | Some THide \<Rightarrow>
          let t1 = t\<lparr>tp_timer := None\<rparr> in if tp_hover t1 = HOut then hide_tip prevented t1 else t1)"

text \<open>The end of the tip's transition runs every waiting \<open>complete\<close> once.\<close>

definition tip_transition_end :: "tip \<Rightarrow> tip" where
  "tip_transition_end t =
     (if tp_ending t = 0 then t else tip_complete (t\<lparr>tp_ending := 0\<rparr>))"

definition enable :: "tip \<Rightarrow> tip" where
  "enable t = t\<lparr>tp_enabled := True\<rparr>"

definition disable :: "tip \<Rightarrow> tip" where
  "disable t = t\<lparr>tp_enabled := False\<rparr>"

definition toggle_enabled :: "tip \<Rightarrow> tip" where
  "toggle_enabled t = t\<lparr>tp_enabled := \<not> tp_enabled t\<rparr>"

definition new_tip :: "tip_opts \<Rightarrow> tip" where
  "new_tip opts = \<lparr>tp_opts = opts, tp_enabled = True, tp_hover = HNone, tp_timer = None,
     tp_classes = [''tooltip''], tp_attached = False, tp_ending = 0\<rparr>"

section \<open>Hovering settles on the last movement\<close>

datatype tip_event = Enter | Leave | Toggle | Timeout | TransitionDone

fun tip_step :: "string \<Rightarrow> tip_event \<Rightarrow> tip \<Rightarrow> tip" where
  "tip_step placement Enter t = enter False placement t"
| "tip_step placement Leave t = leave False t"
| "tip_step placement Toggle t = toggle_tip False placement t"
| "tip_step placement Timeout t = timeout False placement t"
| "tip_step placement TransitionDone t = tip_transition_end t"

definition on_screen :: "tip \<Rightarrow> bool" where
  "on_screen t \<longleftrightarrow> tp_attached t \<and> has_class ''in'' (tp_classes t)"

text \<open>
  The invariant: a waiting timer agrees with the last movement; once it has fired, the tip is on
  screen after a movement in; after a movement out it is not \<open>in\<close> and gone or about to go.
\<close>

definition tip_ok :: "tip \<Rightarrow> bool" where
  "tip_ok t \<longleftrightarrow> tp_enabled t \<and> has_content t \<and>
     (case (tp_hover t, tp_timer t) of
        (HIn, None) \<Rightarrow> on_screen t
      | (HIn, Some TShow) \<Rightarrow> True
      | (HOut, None) \<Rightarrow> \<not> has_class ''in'' (tp_classes t) \<and> (tp_attached t \<longrightarrow> 0 < tp_ending t)
      | (HOut, Some THide) \<Rightarrow> True
      | (HNone, None) \<Rightarrow> \<not> tp_attached t \<and> \<not> has_class ''in'' (tp_classes t)
      | _ \<Rightarrow> False)"

lemma show_tip_effect:
  "has_content t \<Longrightarrow> tp_enabled t \<Longrightarrow>
   on_screen (show_tip False p t) \<and> tp_enabled (show_tip False p t) \<and> has_content (show_tip False p t) \<and>
   tp_hover (show_tip False p t) = tp_hover t \<and> tp_timer (show_tip False p t) = tp_timer t"
  by (simp add: show_tip_def on_screen_def set_content_def has_content_def get_title_def Let_def)

lemma hide_tip_effect:
  "tp_hover t = HOut \<Longrightarrow>
   \<not> has_class ''in'' (tp_classes (hide_tip False t)) \<and>
   (tp_attached (hide_tip False t) \<longrightarrow> 0 < tp_ending (hide_tip False t)) \<and>
   tp_enabled (hide_tip False t) = tp_enabled t \<and> has_content (hide_tip False t) = has_content t \<and>
   tp_hover (hide_tip False t) = HOut \<and> tp_timer (hide_tip False t) = tp_timer t"
  by (simp add: hide_tip_def tip_complete_def has_content_def get_title_def Let_def)

lemma enter_ok: "tp_enabled t \<Longrightarrow> has_content t \<Longrightarrow> tip_ok (enter False p t) \<and> tp_hover (enter False p t) = HIn"
  using show_tip_effect[of "t\<lparr>tp_timer := None, tp_hover := HIn\<rparr>" p]
  by (auto simp: enter_def tip_ok_def Let_def has_content_def get_title_def)

lemma leave_ok: "tp_enabled t \<Longrightarrow> has_content t \<Longrightarrow> tip_ok (leave False t) \<and> tp_hover (leave False t) = HOut"
  using hide_tip_effect[of "t\<lparr>tp_timer := None, tp_hover := HOut\<rparr>"]
  by (auto simp: leave_def tip_ok_def Let_def has_content_def get_title_def)

lemma timeout_ok:
  assumes "tip_ok t"
  shows "tip_ok (timeout False p t) \<and> tp_hover (timeout False p t) = tp_hover t \<and> tp_timer (timeout False p t) = None"
proof -
  have h: "has_content (t\<lparr>tp_timer := None\<rparr>) = has_content t" by (simp add: has_content_def get_title_def)
  from assms consider "tp_timer t = None" | "tp_timer t = Some TShow" "tp_hover t = HIn"
    | "tp_timer t = Some THide" "tp_hover t = HOut"
    by (cases "tp_hover t"; cases "tp_timer t"; cases "the (tp_timer t)"; simp add: tip_ok_def)
  then show ?thesis
  proof cases
    case 1
    then show ?thesis using assms by (simp add: timeout_def)
  next
    case 2
    then show ?thesis
      using assms show_tip_effect[of "t\<lparr>tp_timer := None\<rparr>" p] by (simp add: timeout_def tip_ok_def h)
  next
    case 3
    then show ?thesis
      using assms hide_tip_effect[of "t\<lparr>tp_timer := None\<rparr>"] by (simp add: timeout_def tip_ok_def h)
  qed
qed

lemma tip_transition_end_ok:
  assumes "tip_ok t"
  shows "tip_ok (tip_transition_end t) \<and> tp_hover (tip_transition_end t) = tp_hover t \<and>
   tp_timer (tip_transition_end t) = tp_timer t \<and> (tp_hover t = HOut \<and> tp_timer t = None \<longrightarrow> \<not> tp_attached (tip_transition_end t))"
proof (cases "tp_ending t = 0")
  case True
  then have "tip_transition_end t = t" by (simp add: tip_transition_end_def)
  then show ?thesis using assms True by (cases "tp_hover t"; cases "tp_timer t"; simp add: tip_ok_def)
next
  case False
  have h: "has_content (t\<lparr>tp_ending := 0\<rparr>) = has_content t" "has_content (t\<lparr>tp_ending := 0, tp_attached := False\<rparr>) = has_content t"
    by (simp_all add: has_content_def get_title_def)
  from False show ?thesis
    using assms
    by (cases "tp_hover t"; cases "tp_timer t"; cases "the (tp_timer t)";
        simp add: tip_transition_end_def tip_complete_def tip_ok_def on_screen_def h)
qed

lemma tip_step_ok: "tip_ok t \<Longrightarrow> tip_ok (tip_step p e t)"
proof -
  assume ok: "tip_ok t"
  then have "tp_enabled t" "has_content t" by (simp_all add: tip_ok_def)
  with ok show ?thesis
    by (cases e) (simp_all add: enter_ok leave_ok timeout_ok tip_transition_end_ok toggle_tip_def)
qed

interpretation tip_machine: invariant_machine "tip_step p" tip_ok for p
  by unfold_locales (rule tip_step_ok)

text \<open>
  Hovering settles on the last movement: after any sequence of entering, leaving, toggling clicks,
  expiring delays and finished fades, followed by one last movement and time for its delay and
  fade, the tip is on screen exactly when that movement was an entering; otherwise it is detached.
\<close>

theorem tooltip_settles:
  assumes "has_content (new_tip opts)" "mv = Enter \<or> mv = Leave"
  shows "let t = run_events (tip_step p) (es @ [mv, Timeout, TransitionDone]) (new_tip opts)
         in (on_screen t \<longleftrightarrow> mv = Enter) \<and> (tp_attached t \<longleftrightarrow> mv = Enter) \<and> tp_timer t = None"
proof -
  have "tip_ok (new_tip opts)"
    using assms(1) by (simp add: tip_ok_def new_tip_def)
  then have ok: "tip_ok (run_events (tip_step p) es (new_tip opts))" (is "tip_ok ?t") by (rule tip_machine.run_keeps)
  then have c: "tp_enabled ?t" "has_content ?t" by (simp_all add: tip_ok_def)
  let ?u = "tip_step p mv ?t"
  let ?v = "timeout False p ?u"
  let ?w = "tip_transition_end ?v"
  have u: "tip_ok ?u" "tp_hover ?u = (if mv = Enter then HIn else HOut)"
    using assms(2) enter_ok[OF c, of p] leave_ok[OF c] by (elim disjE; simp)+
  have v: "tip_ok ?v" "tp_hover ?v = tp_hover ?u" "tp_timer ?v = None"
    using timeout_ok[OF u(1), of p] by simp_all
  have w: "tip_ok ?w" "tp_hover ?w = tp_hover ?u" "tp_timer ?w = None" "tp_hover ?u = HOut \<longrightarrow> \<not> tp_attached ?w"
    using tip_transition_end_ok[OF v(1)] v(2,3) by simp_all
  have "(on_screen ?w \<longleftrightarrow> mv = Enter) \<and> (tp_attached ?w \<longleftrightarrow> mv = Enter) \<and> tp_timer ?w = None"
  proof (cases "mv = Enter")
    case True
    then show ?thesis using w u(2) by (simp add: tip_ok_def on_screen_def)
  next
    case False
    then show ?thesis using w u(2) by (simp add: on_screen_def)
  qed
  then show ?thesis by (simp add: run_events_append Let_def)
qed

theorem tooltip_settles_witness:
  "let t = run_events (tip_step ''top'') ([Enter, Leave, Toggle, TransitionDone] @ [Enter, Timeout, TransitionDone])
     (new_tip \<lparr>to_title = ''hint'', to_content = [], to_popover = False, to_animation = True,
        to_delay_show = 100, to_delay_hide = 0, to_support = True\<rparr>)
   in (on_screen t \<longleftrightarrow> Enter = Enter) \<and> (tp_attached t \<longleftrightarrow> Enter = Enter) \<and> tp_timer t = None"
  by (rule tooltip_settles) (simp_all add: has_content_def get_title_def new_tip_def)

section \<open>The tip never covers its element\<close>

definition disjoint_boxes :: "box \<Rightarrow> box \<Rightarrow> bool" where
  "disjoint_boxes a b \<longleftrightarrow>
     bx_left a + bx_width a \<le> bx_left b \<or> bx_left b + bx_width b \<le> bx_left a \<or>
     bx_top a + bx_height a \<le> bx_top b \<or> bx_top b + bx_height b \<le> bx_top a"

text \<open>
  Placed by \<open>getCalculatedOffset\<close>, the tip touches but never covers its element, whatever the
  placement and the sizes, and is centred on it along the shared edge.
\<close>

theorem tip_beside_element:
  fixes pos w h placement
  defines "offset \<equiv> get_calculated_offset placement pos w h"
  defines "tip_box \<equiv> \<lparr>bx_top = fst offset, bx_left = snd offset, bx_width = w, bx_height = h\<rparr>"
  shows "disjoint_boxes tip_box pos \<and>
         (if placement = ''top'' \<or> placement = ''bottom''
          then 2 * bx_left tip_box + w = 2 * bx_left pos + bx_width pos
          else 2 * bx_top tip_box + h = 2 * bx_top pos + bx_height pos)"
  by (auto simp: tip_box_def offset_def disjoint_boxes_def get_calculated_offset_def field_simps)

end
