(* ===== verification/Popover.thy ===== *)
theory Popover
  imports Plugins Tooltip
begin

text \<open>
  The objects of the tooltip and of the popover that extends it (\<open>public/js/bootstrap.js\<close>): their options,
  the events they bind, the title they take from the element, delegation to the elements that a
  selector names, and their end. What a tip does once it is told to come or go is in \<open>Tooltip\<close>.
\<close>

section \<open>Options\<close>

text \<open>\<open>Number(s)\<close> for texts of whole numbers; the empty text is 0.\<close>

definition js_number :: "string \<Rightarrow> int option" where
  "js_number s =
     (let t = trim_str s
      in if t = [] then Some 0
         else if list_all is_digit t then Some (int (digits_val 0 t))
         else if hd t = CHR ''-'' \<and> tl t \<noteq> [] \<and> list_all is_digit (tl t) then Some (- int (digits_val 0 (tl t)))
         else None)"

fun js_to_number :: "js_val \<Rightarrow> int option" where
  "js_to_number (VBool b) = Some (if b then 1 else 0)"
| "js_to_number (VNum n) = Some n"
| "js_to_number (VStr s) = js_number s"

text \<open>The comparison \<open>==\<close>.\<close>

fun loosely_equal :: "js_val \<Rightarrow> js_val \<Rightarrow> bool" where
  "loosely_equal (VStr s) (VStr t) = (s = t)"
| "loosely_equal v w = (js_to_number v \<noteq> None \<and> js_to_number v = js_to_number w)"

lemma loosely_equal_refl [simp]: "loosely_equal v v"
  by (cases v) simp_all

definition tooltip_defaults :: js_opts where
  "tooltip_defaults =
     [(''animation'', VBool True), (''placement'', VStr ''top''), (''selector'', VBool False),
      (''template'', VStr ''<div class=\"tooltip\"><div class=\"tooltip-arrow\"></div><div class=\"tooltip-inner\"></div></div>''),
      (''trigger'', VStr ''hover focus''), (''title'', VStr ''''), (''delay'', VNum 0), (''html'', VBool False),
      (''container'', VBool False)]"

definition popover_defaults :: js_opts where
  "popover_defaults = extend_opts tooltip_defaults
     [(''placement'', VStr ''right''), (''trigger'', VStr ''click''), (''content'', VStr ''''),
      (''template'', VStr ''<div class=\"popover\"><div class=\"arrow\"></div><h3 class=\"popover-title\"></h3><div class=\"popover-content\"></div></div>'')]"

text \<open>\<open>getDefaults\<close>; the type is \<open>tooltip\<close> or \<open>popover\<close>.\<close>

definition get_defaults :: "string \<Rightarrow> js_opts" where
  "get_defaults ty = (if ty = ''popover'' then popover_defaults else tooltip_defaults)"

text \<open>The text an option stands for where it is tested and shown.\<close>

definition opt_text :: "string \<Rightarrow> js_opts \<Rightarrow> string" where
  "opt_text k opts =
     (case map_of opts k of
        Some (VStr s) \<Rightarrow> s
      | Some (VNum n) \<Rightarrow> if n = 0 then [] else show_int n
      | Some (VBool True) \<Rightarrow> ''true''
      | _ \<Rightarrow> [])"

section \<open>Elements and objects\<close>

datatype tip_handler = OnEnter | OnLeave | OnToggle

record tip_obj =
  ti_options :: js_opts
  ti_delegate :: "js_opts option"
  ti_tip :: tip
  ti_invalid :: bool

text \<open>
  The attributes of an element, what it has bound, whether it is in the document, its object, and the
  tips of objects it no longer has.
\<close>

record tip_el =
  tl_title :: "string option"
  tl_original :: "string option"
  tl_content :: "string option"
  tl_data :: js_opts
  tl_support :: bool
  tl_bound :: "(string \<times> tip_handler) list"
  tl_in_document :: bool
  tl_obj :: "tip_obj option"
  tl_left :: "tip list"

definition nonempty_text :: "string option \<Rightarrow> bool" where
  "nonempty_text t \<longleftrightarrow> t \<noteq> None \<and> t \<noteq> Some []"

definition fix_title :: "tip_el \<Rightarrow> tip_el" where
  "fix_title e =
     (if nonempty_text (tl_title e) \<or> tl_original e = None
      then e\<lparr>tl_original := Some (if nonempty_text (tl_title e) then the (tl_title e) else []), tl_title := Some []\<rparr>
      else e)"

definition title_of :: "js_opts \<Rightarrow> tip_el \<Rightarrow> string" where
  "title_of opts e = (if nonempty_text (tl_original e) then the (tl_original e) else opt_text ''title'' opts)"

definition content_of :: "js_opts \<Rightarrow> tip_el \<Rightarrow> string" where
  "content_of opts e = (if nonempty_text (tl_content e) then the (tl_content e) else opt_text ''content'' opts)"

definition popover_has_content :: "js_opts \<Rightarrow> tip_el \<Rightarrow> bool" where
  "popover_has_content opts e \<longleftrightarrow> title_of opts e \<noteq> [] \<or> content_of opts e \<noteq> []"

text \<open>The part of the options that the machine of \<open>Tooltip\<close> needs.\<close>

definition tip_opts_of :: "string \<Rightarrow> js_opts \<Rightarrow> tip_el \<Rightarrow> tip_opts" where
  "tip_opts_of ty opts e =
     with_delay (case map_of opts ''delay'' of Some (VNum n) \<Rightarrow> nat n | _ \<Rightarrow> 0)
       \<lparr>to_title = title_of opts e, to_content = content_of opts e, to_popover = (ty = ''popover''),
        to_animation = opt_on ''animation'' opts, to_delay_show = 0, to_delay_hide = 0, to_support = tl_support e\<rparr>"

text \<open>The handlers for the words of the option \<open>trigger\<close>, from the last to the first.\<close>

definition bind_trigger :: "string \<Rightarrow> string \<Rightarrow> (string \<times> tip_handler) list" where
  "bind_trigger ty trigger =
     (if trigger = ''click'' then [(''click.'' @ ty, OnToggle)]
      else if trigger = ''manual'' then []
      else if trigger = ''hover'' then [(''mouseenter.'' @ ty, OnEnter), (''mouseleave.'' @ ty, OnLeave)]
      else [(''focus.'' @ ty, OnEnter), (''blur.'' @ ty, OnLeave)])"

definition bindings :: "string \<Rightarrow> js_opts \<Rightarrow> (string \<times> tip_handler) list" where
  "bindings ty opts = concat (map (bind_trigger ty) (rev (split_on CHR '' '' (opt_text ''trigger'' opts))))"

definition make_tip :: "string \<Rightarrow> js_opts \<Rightarrow> tip_el \<Rightarrow> tip_el" where
  "make_tip ty given e =
     (let opts = extend_opts (extend_opts (get_defaults ty) (tl_data e)) given;
          e1 = e\<lparr>tl_bound := tl_bound e @ bindings ty opts\<rparr>;
          delegate = (if opt_on ''selector'' opts
                      then Some (extend_opts opts [(''trigger'', VStr ''manual''), (''selector'', VStr '''')]) else None);
          e2 = (if delegate = None then fix_title e1 else e1)
      in e2\<lparr>tl_obj := Some \<lparr>ti_options = opts, ti_delegate = delegate, ti_tip = new_tip (tip_opts_of ty opts e2),
                             ti_invalid = False\<rparr>\<rparr>)"

section \<open>Delegation\<close>

text \<open>Only the options that differ (\<open>!=\<close>) from the defaults are passed on.\<close>

definition get_delegate_options :: "string \<Rightarrow> tip_obj \<Rightarrow> js_opts" where
  "get_delegate_options ty t =
     (case ti_delegate t of
        None \<Rightarrow> []
      | Some opts \<Rightarrow>
          filter (\<lambda>(k, v). case map_of (get_defaults ty) k of Some d \<Rightarrow> \<not> loosely_equal d v | None \<Rightarrow> True) opts)"

text \<open>The object of the element an event happened on, made with the delegate's options if need be.\<close>

definition tip_for :: "string \<Rightarrow> tip_obj \<Rightarrow> tip_el \<Rightarrow> tip_el" where
  "tip_for ty parent child = (if tl_obj child = None then make_tip ty (get_delegate_options ty parent) child else child)"

lemma distinct_extend_opts: "distinct (map fst a) \<Longrightarrow> distinct (map fst (extend_opts a b))"
  unfolding extend_opts_def by (induction b arbitrary: a) auto

lemma distinct_defaults: "distinct (map fst (get_defaults ty))"
  by (auto simp: get_defaults_def popover_defaults_def tooltip_defaults_def intro!: distinct_extend_opts)

lemma map_of_filter_distinct:
  "distinct (map fst xs) \<Longrightarrow>
   map_of (filter (\<lambda>(k, v). P k v) xs) k = (case map_of xs k of Some v \<Rightarrow> if P k v then Some v else None | None \<Rightarrow> None)"
  by (induction xs) (auto split: option.splits simp: dom_map_of_conv_image_fst[symmetric] dom_def)

lemma make_tip_obj:
  "\<exists>t. tl_obj (make_tip ty given e) = Some t \<and>
     ti_options t = extend_opts (extend_opts (get_defaults ty) (tl_data e)) given \<and>
     ti_delegate t = (if opt_on ''selector'' (ti_options t)
       then Some (extend_opts (ti_options t) [(''trigger'', VStr ''manual''), (''selector'', VStr '''')]) else None) \<and>
     tl_bound (make_tip ty given e) = tl_bound e @ bindings ty (ti_options t)"
  by (auto simp: make_tip_def Let_def fix_title_def)

lemma default_keys: "dom (map_of (get_defaults ty)) \<subseteq> dom (map_of (extend_opts (extend_opts (get_defaults ty) a) b))"
proof -
  have "dom (map_of x) \<subseteq> dom (map_of (extend_opts x y))" for x y :: js_opts
    unfolding extend_opts_def
  proof (induction y arbitrary: x)
    case (Cons kv y)
    have "dom (map_of x) \<subseteq> dom (map_of (obj_set (fst kv) (snd kv) x))" by auto
    then have "dom (map_of x) \<subseteq> dom (map_of (foldl (\<lambda>ob (k, v). obj_set k v ob) (obj_set (fst kv) (snd kv) x) y))"
      by (rule subset_trans) (rule Cons)
    then show ?case by (cases kv) simp
  qed simp
  then show ?thesis by (meson order_trans)
qed

lemma default_trigger_selector:
  "\<exists>s. map_of (get_defaults ty) ''trigger'' = Some (VStr s) \<and> s \<noteq> ''manual''"
  "map_of (get_defaults ty) ''selector'' = Some (VBool False)"
  by (simp_all add: get_defaults_def popover_defaults_def tooltip_defaults_def extend_opts_def)

text \<open>
  Delegation carries the options over: the tip that is made for an element a selector matches has
  the options of the tip that delegates to it, each one equal to it by \<open>==\<close>, except that it binds no
  events and delegates no further.
\<close>

theorem delegation_keeps_options:
  assumes "tl_obj (make_tip ty given e) = Some t" "opt_on ''selector'' (ti_options t)"
    and "distinct (map fst given)" "distinct (map fst (tl_data e))"
    and "tl_obj child = None" "tl_data child = []"
  shows "\<exists>c. tl_obj (tip_for ty t child) = Some c \<and> tl_bound (tip_for ty t child) = tl_bound child \<and> ti_delegate c = None \<and>
    (\<forall>k. k \<noteq> ''trigger'' \<and> k \<noteq> ''selector'' \<longrightarrow>
       rel_option loosely_equal (map_of (ti_options c) k) (map_of (ti_options t) k))"
proof -
  let ?D = "get_defaults ty"
  let ?O = "ti_options t"
  let ?M = "extend_opts ?O [(''trigger'', VStr ''manual''), (''selector'', VStr '''')]"
  let ?G = "get_delegate_options ty t"
  have t: "?O = extend_opts (extend_opts ?D (tl_data e)) given" "ti_delegate t = Some ?M"
    using make_tip_obj[of ty given e] assms(1,2) by auto
  have dist: "distinct (map fst ?O)" "distinct (map fst ?M)"
    unfolding t(1) by (intro distinct_extend_opts distinct_defaults)+
  have G: "map_of ?G k = (case map_of ?M k of None \<Rightarrow> None
      | Some v \<Rightarrow> (case map_of ?D k of Some d \<Rightarrow> if loosely_equal d v then None else Some v | None \<Rightarrow> Some v))" for k
    using map_of_filter_distinct[OF dist(2), of "\<lambda>k v. case map_of ?D k of Some d \<Rightarrow> \<not> loosely_equal d v | None \<Rightarrow> True" k]
    by (auto simp: get_delegate_options_def t(2) split: option.splits)
  have Gd: "distinct (map fst ?G)"
    using dist(2) by (simp add: get_delegate_options_def t(2) distinct_map_filter)
  obtain c where c: "tl_obj (tip_for ty t child) = Some c" "ti_options c = extend_opts ?D ?G"
    "ti_delegate c = (if opt_on ''selector'' (ti_options c)
       then Some (extend_opts (ti_options c) [(''trigger'', VStr ''manual''), (''selector'', VStr '''')]) else None)"
    "tl_bound (tip_for ty t child) = tl_bound child @ bindings ty (ti_options c)"
    using make_tip_obj[of ty ?G child] assms(5,6) by (auto simp: tip_for_def extend_opts_def[of _ "[]"])
  have C: "map_of (ti_options c) k = (case map_of ?G k of Some v \<Rightarrow> Some v | None \<Rightarrow> map_of ?D k)" for k
    using map_of_extend_opts[OF Gd, of ?D] by (simp add: c(2) map_add_def)
  have M: "map_of ?M k = (if k = ''trigger'' then Some (VStr ''manual'') else if k = ''selector'' then Some (VStr '''') else map_of ?O k)" for k
    by (simp add: extend_opts_def)
  have "map_of (ti_options c) ''trigger'' = Some (VStr ''manual'')"
    using default_trigger_selector(1)[of ty] by (auto simp: C G M)
  then have "bindings ty (ti_options c) = []"
    by (simp add: bindings_def opt_text_def bind_trigger_def)
  moreover have "\<not> opt_on ''selector'' (ti_options c)"
    using default_trigger_selector(2)[of ty] by (auto simp: C G M opt_on_def split: if_splits)
  moreover have "rel_option loosely_equal (map_of (ti_options c) k) (map_of ?O k)"
    if "k \<noteq> ''trigger''" "k \<noteq> ''selector''" for k
  proof (cases "map_of ?O k")
    case None
    then have "map_of ?D k = None" using default_keys[of ty "tl_data e" given] by (auto simp: t(1)[symmetric])
    then show ?thesis using that None by (simp add: C G M)
  next
    case (Some v)
    then show ?thesis using that by (cases "map_of ?D k") (auto simp: C G M)
  qed
  ultimately show ?thesis using c(1,3,4) by auto
qed

definition plain_el :: tip_el where
  "plain_el = \<lparr>tl_title = Some ''Hint'', tl_original = None, tl_content = None, tl_data = [], tl_support = True,
     tl_bound = [], tl_in_document = True, tl_obj = None, tl_left = []\<rparr>"

theorem delegation_keeps_options_witness:
  "\<exists>t c. tl_obj (make_tip ''tooltip'' [(''selector'', VStr ''a''), (''placement'', VStr ''left'')] plain_el) = Some t \<and>
     tl_obj (tip_for ''tooltip'' t plain_el) = Some c \<and>
     rel_option loosely_equal (map_of (ti_options c) ''placement'') (Some (VStr ''left''))"
proof -
  let ?given = "[(''selector'', VStr ''a''), (''placement'', VStr ''left'')]"
  obtain t where t: "tl_obj (make_tip ''tooltip'' ?given plain_el) = Some t"
    "ti_options t = extend_opts (extend_opts (get_defaults ''tooltip'') (tl_data plain_el)) ?given"
    using make_tip_obj by blast
  have o: "opt_on ''selector'' (ti_options t)" "map_of (ti_options t) ''placement'' = Some (VStr ''left'')"
    by (simp_all add: t(2) opt_on_def extend_opts_def plain_el_def)
  have "distinct (map fst ?given)" "distinct (map fst (tl_data plain_el))" "tl_obj plain_el = None" "tl_data plain_el = []"
    by (simp_all add: plain_el_def)
  from delegation_keeps_options[OF t(1) o(1) this] obtain c where c: "tl_obj (tip_for ''tooltip'' t plain_el) = Some c"
    "\<And>k. k \<noteq> ''trigger'' \<and> k \<noteq> ''selector'' \<Longrightarrow> rel_option loosely_equal (map_of (ti_options c) k) (map_of (ti_options t) k)"
    by blast
  from c(2)[of "''placement''"] have "rel_option loosely_equal (map_of (ti_options c) ''placement'') (Some (VStr ''left''))"
    using o(2) by simp
  with t(1) c(1) show ?thesis by blast
qed

section \<open>Methods by name\<close>

text \<open>The object's tip with the title and the content the element has now.\<close>

definition current_tip :: "tip_el \<Rightarrow> tip_obj \<Rightarrow> tip" where
  "current_tip e t =
     (ti_tip t)\<lparr>tp_opts := (tp_opts (ti_tip t))\<lparr>to_title := title_of (ti_options t) e, to_content := content_of (ti_options t) e\<rparr>\<rparr>"

text \<open>After \<open>validate\<close> has given up an object, the methods that need the element or the options fail.\<close>

definition on_tip :: "(tip \<Rightarrow> tip) \<Rightarrow> tip_el \<Rightarrow> tip_el method_call" where
  "on_tip f e =
     (case tl_obj e of
        None \<Rightarrow> Done e
      | Some t \<Rightarrow> if ti_invalid t then TypeError ''$element''
                  else Done (e\<lparr>tl_obj := Some (t\<lparr>ti_tip := f (current_tip e t)\<rparr>)\<rparr>))"

definition on_enabled :: "(tip \<Rightarrow> tip) \<Rightarrow> tip_el \<Rightarrow> tip_el method_call" where
  "on_enabled f e = Done (e\<lparr>tl_obj := map_option (\<lambda>t. t\<lparr>ti_tip := f (ti_tip t)\<rparr>) (tl_obj e)\<rparr>)"

definition fix_title_call :: "tip_el \<Rightarrow> tip_el method_call" where
  "fix_title_call e = map_call fix_title (on_tip (\<lambda>t. t) e)"

definition validate :: "bool \<Rightarrow> tip_el \<Rightarrow> tip_el method_call" where
  "validate prevented e =
     (if tl_in_document e then on_tip (\<lambda>t. t) e
      else map_call (\<lambda>e. e\<lparr>tl_obj := map_option (\<lambda>t. t\<lparr>ti_invalid := True\<rparr>) (tl_obj e)\<rparr>) (on_tip (hide_tip prevented) e))"

text \<open>
  \<open>destroy\<close> hides the tip first; when that is prevented \<open>hide\<close> returns nothing, and the rest fails. The
  object is gone then, but its tip is still there.
\<close>

definition unbind_type :: "string \<Rightarrow> (string \<times> tip_handler) list \<Rightarrow> (string \<times> tip_handler) list" where
  "unbind_type ty bs = filter (\<lambda>(name, _). last (split_on CHR ''.'' name) \<noteq> ty) bs"

definition destroy_tip :: "string \<Rightarrow> bool \<Rightarrow> tip_el \<Rightarrow> tip_el method_call" where
  "destroy_tip ty prevented e =
     (case tl_obj e of
        None \<Rightarrow> Done e
      | Some t \<Rightarrow>
          if ti_invalid t \<or> prevented then TypeError ''$element''
          else Done (e\<lparr>tl_obj := None, tl_bound := unbind_type ty (tl_bound e),
                       tl_left := tl_left e @ [hide_tip False (current_tip e t)]\<rparr>))"

text \<open>
  The methods that make sense without arguments; \<open>enter\<close> and \<open>leave\<close> need the event, and fail without it.
\<close>

definition tip_methods :: "string \<Rightarrow> bool \<Rightarrow> string \<Rightarrow> (string \<times> (tip_el \<Rightarrow> tip_el method_call)) list" where
  "tip_methods ty prevented placement =
     [(''show'', on_tip (show_tip prevented placement)),
      (''hide'', on_tip (hide_tip prevented)),
      (''toggle'', on_tip (toggle_tip prevented placement)),
      (''enable'', on_enabled enable),
      (''disable'', on_enabled disable),
      (''toggleEnabled'', on_enabled toggle_enabled),
      (''setContent'', on_tip set_content),
      (''fixTitle'', fix_title_call),
      (''validate'', validate prevented),
      (''destroy'', destroy_tip ty prevented),
      (''getTitle'', on_tip (\<lambda>t. t)), (''hasContent'', on_tip (\<lambda>t. t)), (''getPosition'', on_tip (\<lambda>t. t)),
      (''getDefaults'', Done), (''getDelegateOptions'', Done), (''tip'', Done), (''arrow'', Done)] @
     (if ty = ''popover'' then [(''getContent'', on_tip (\<lambda>t. t))] else [])"

definition tip_plugin :: "string \<Rightarrow> bool \<Rightarrow> string \<Rightarrow> js_opts js_option \<Rightarrow> tip_el \<Rightarrow> tip_el method_call" where
  "tip_plugin ty prevented placement option e =
     (let e1 = (if tl_obj e = None then make_tip ty (option_object option) e else e)
      in case option of
           OString name \<Rightarrow> call_method (tip_methods ty prevented placement) name e1
         | _ \<Rightarrow> Done e1)"

definition tooltip_plugin :: "bool \<Rightarrow> string \<Rightarrow> js_opts js_option \<Rightarrow> tip_el \<Rightarrow> tip_el method_call" where
  "tooltip_plugin = tip_plugin ''tooltip''"

definition popover_plugin :: "bool \<Rightarrow> string \<Rightarrow> js_opts js_option \<Rightarrow> tip_el \<Rightarrow> tip_el method_call" where
  "popover_plugin = tip_plugin ''popover''"

text \<open>An event on an element that a selector of \<open>parent\<close> matches.\<close>

definition delegated_event :: "string \<Rightarrow> (tip \<Rightarrow> tip) \<Rightarrow> tip_obj \<Rightarrow> tip_el \<Rightarrow> tip_el method_call" where
  "delegated_event ty f parent child = on_tip f (tip_for ty parent child)"

section \<open>The title\<close>

lemma fix_title_idem [simp]: "fix_title (fix_title e) = fix_title e"
  by (auto simp: fix_title_def nonempty_text_def)

lemma fix_title_moves: "nonempty_text (tl_title e) \<Longrightarrow> title_of opts (fix_title e) = the (tl_title e) \<and> tl_title (fix_title e) = Some []"
  by (auto simp: fix_title_def title_of_def nonempty_text_def)

text \<open>
  The title a tip shows is the element's own, which the browser no longer shows; and fixing it again
  changes nothing.
\<close>

lemma tip_shows_title:
  assumes "nonempty_text (tl_title e)" "\<not> opt_on ''selector'' (extend_opts (extend_opts (get_defaults ty) (tl_data e)) given)"
  shows "\<exists>t. tl_obj (make_tip ty given e) = Some t \<and>
    to_title (tp_opts (current_tip (make_tip ty given e) t)) = the (tl_title e) \<and> tl_title (make_tip ty given e) = Some []"
proof -
  have m: "tl_original (make_tip ty given e) = tl_original (fix_title e)" "tl_title (make_tip ty given e) = tl_title (fix_title e)"
    using assms(2) by (simp_all add: make_tip_def Let_def) (auto simp: fix_title_def)
  obtain t where t: "tl_obj (make_tip ty given e) = Some t" using make_tip_obj by blast
  have "title_of opts (make_tip ty given e) = the (tl_title e) \<and> tl_title (make_tip ty given e) = Some []" for opts
    using fix_title_moves[OF assms(1), of opts] m by (simp add: title_of_def split: if_splits)
  with t show ?thesis by (simp add: current_tip_def)
qed

section \<open>The popover's content\<close>

text \<open>The tip of a popover: title and content, each with whether it was set as HTML.\<close>

record popover_view =
  pv_title :: "bool \<times> string"
  pv_content :: "bool \<times> string"
  pv_title_hidden :: bool
  pv_classes :: classes

definition popover_set_content :: "js_opts \<Rightarrow> tip_el \<Rightarrow> popover_view \<Rightarrow> popover_view" where
  "popover_set_content opts e p =
     (let html = opt_on ''html'' opts;
          p1 = p\<lparr>pv_title := (html, title_of opts e), pv_content := (html, content_of opts e),
                 pv_classes := foldr remove_class [''fade'', ''top'', ''bottom'', ''left'', ''right'', ''in''] (pv_classes p)\<rparr>
      in if snd (pv_title p1) = [] then p1\<lparr>pv_title_hidden := True\<rparr> else p1)"

text \<open>Once a popover has been shown without a title, no later title is visible.\<close>

lemma popover_title_stays_hidden:
  "title_of opts e = [] \<Longrightarrow> pv_title_hidden (popover_set_content opts' e' (popover_set_content opts e p))"
  by (simp add: popover_set_content_def Let_def)

lemma popover_content_agrees:
  "popover_has_content opts e \<longleftrightarrow> has_content (new_tip (tip_opts_of ''popover'' opts e))"
  by (simp add: popover_has_content_def has_content_def get_title_def new_tip_def tip_opts_of_def with_delay_def)

section \<open>The end of a tip\<close>

text \<open>
  Destroying a tip that has settled after the pointer left, or was never shown, leaves nothing: the
  object and its handlers are gone, and once its fade has ended the tip is not in the document.
\<close>

theorem destroyed_tip_is_gone:
  assumes "tl_obj e = Some t" "\<not> ti_invalid t" "tip_ok (ti_tip t)" "tp_hover (ti_tip t) \<noteq> HIn"
    and "tip_plugin ty False placement (OString ''destroy'') e = Done e'"
  shows "tl_obj e' = None \<and> (\<forall>(name, h) \<in> set (tl_bound e'). last (split_on CHR ''.'' name) \<noteq> ty) \<and>
    (\<exists>left. tl_left e' = tl_left e @ [left] \<and> \<not> on_screen left \<and> \<not> tp_attached (tip_transition_end left))"
proof -
  let ?left = "hide_tip False (current_tip e t)"
  have e': "e' = e\<lparr>tl_obj := None, tl_bound := unbind_type ty (tl_bound e), tl_left := tl_left e @ [?left]\<rparr>"
    using assms(1,2,5) by (simp add: tip_plugin_def call_method_def tip_methods_def destroy_tip_def Let_def)
  have h: "tp_hover (current_tip e t) \<noteq> HIn" using assms(4) by (simp add: current_tip_def)
  have "\<not> has_class ''in'' (tp_classes ?left) \<and> \<not> tp_attached (tip_transition_end ?left)"
    using h by (auto simp: hide_tip_def tip_complete_def tip_transition_end_def Let_def)
  then show ?thesis by (auto simp: e' unbind_type_def on_screen_def)
qed

definition shown_el :: "nat \<Rightarrow> tip_event list \<Rightarrow> tip_el" where
  "shown_el delay es =
     (let e = make_tip ''tooltip'' [(''delay'', VNum (int delay))] (plain_el\<lparr>tl_support := False\<rparr>)
      in e\<lparr>tl_obj := map_option (\<lambda>t. t\<lparr>ti_tip := run_events (tip_step ''top'') es (ti_tip t)\<rparr>) (tl_obj e)\<rparr>)"

theorem destroyed_tip_is_gone_witness:
  "\<exists>e'. tip_plugin ''tooltip'' False ''top'' (OString ''destroy'') (shown_el 0 [Enter, Leave]) = Done e' \<and>
     tl_obj e' = None \<and> tl_left e' \<noteq> []"
proof -
  obtain t where t: "tl_obj (shown_el 0 [Enter, Leave]) = Some t"
    using make_tip_obj[of "''tooltip''" "[(''delay'', VNum (int 0))]" "plain_el\<lparr>tl_support := False\<rparr>"]
    by (auto simp: shown_el_def Let_def)
  have "(case tl_obj (shown_el 0 [Enter, Leave]) of
      Some t \<Rightarrow> \<not> ti_invalid t \<and> tip_ok (ti_tip t) \<and> tp_hover (ti_tip t) \<noteq> HIn | None \<Rightarrow> False)" by code_simp
  with t have p: "\<not> ti_invalid t" "tip_ok (ti_tip t)" "tp_hover (ti_tip t) \<noteq> HIn" by simp_all
  then obtain e' where "tip_plugin ''tooltip'' False ''top'' (OString ''destroy'') (shown_el 0 [Enter, Leave]) = Done e'"
    using t by (simp add: tip_plugin_def call_method_def tip_methods_def destroy_tip_def Let_def)
  moreover from destroyed_tip_is_gone[OF t p this] have "tl_obj e' = None" "tl_left e' \<noteq> []" by auto
  ultimately show ?thesis by blast
qed

text \<open>
  In the other states the end is not clean: the tip of a hovered element stays in the document, a
  waiting delay shows the tip of an object that no longer exists, and a prevented \<open>hide\<close> is an error.
\<close>

lemma destroyed_while_hovered:
  "case tip_plugin ''tooltip'' False ''top'' (OString ''destroy'') (shown_el 0 [Enter]) of
     Done e \<Rightarrow> tl_obj e = None \<and> map tp_attached (tl_left e) = [True] \<and> map (tp_attached \<circ> tip_transition_end) (tl_left e) = [True]
   | TypeError _ \<Rightarrow> False"
  by code_simp

lemma destroyed_while_waiting:
  "case tip_plugin ''tooltip'' False ''top'' (OString ''destroy'') (shown_el 100 [Enter]) of
     Done e \<Rightarrow> tl_obj e = None \<and> map on_screen (tl_left e) = [False] \<and> map (on_screen \<circ> timeout False ''top'') (tl_left e) = [True]
   | TypeError _ \<Rightarrow> False"
  by code_simp

lemma prevented_destroy_fails:
  "tl_obj e = Some t \<Longrightarrow> tip_plugin ty True placement (OString ''destroy'') e = TypeError ''$element''"
  by (simp add: tip_plugin_def call_method_def tip_methods_def destroy_tip_def Let_def)
section \<open>The elements of a tip\<close>

text \<open>
  \<open>tip()\<close> makes the tip from the template when it is first asked for, and \<open>arrow()\<close> keeps the part it finds in
  it, or that there is none. \<open>parts\<close> are the classes in the template, \<open>fresh\<close> is the number of a new element.
\<close>

record tip_parts =
  tp_tip :: "nat option"
  tp_arrow :: "(nat \<times> string) option option"

definition tip_element :: "nat \<Rightarrow> tip_parts \<Rightarrow> nat \<times> tip_parts" where
  "tip_element fresh p =
     (case tp_tip p of Some t \<Rightarrow> (t, p) | None \<Rightarrow> (fresh, p\<lparr>tp_tip := Some fresh\<rparr>))"

definition arrow_class :: "string \<Rightarrow> string" where
  "arrow_class ty = (if ty = ''popover'' then ''arrow'' else ''tooltip-arrow'')"

definition arrow_element :: "string \<Rightarrow> string list \<Rightarrow> nat \<Rightarrow> tip_parts \<Rightarrow> (nat \<times> string) option \<times> tip_parts" where
  "arrow_element ty parts fresh p =
     (case tp_arrow p of
        Some a \<Rightarrow> (a, p)
      | None \<Rightarrow>
          let (t, p1) = tip_element fresh p;
              a = (if arrow_class ty \<in> set parts then Some (t, arrow_class ty) else None)
          in (a, p1\<lparr>tp_arrow := Some a\<rparr>))"

definition new_popover :: "js_opts \<Rightarrow> tip_el \<Rightarrow> tip_el" where
  "new_popover given e = make_tip ''popover'' given e"

text \<open>However often and in whatever order they are asked for, there is one tip, and the arrow is a part of it.\<close>

fun ask_parts :: "string \<Rightarrow> string list \<Rightarrow> (bool \<times> nat) list \<Rightarrow> tip_parts \<Rightarrow> tip_parts" where
  "ask_parts ty parts [] p = p"
| "ask_parts ty parts ((arrow, fresh) # qs) p =
     ask_parts ty parts qs (if arrow then snd (arrow_element ty parts fresh p) else snd (tip_element fresh p))"

definition parts_ok :: "tip_parts \<Rightarrow> bool" where
  "parts_ok p \<longleftrightarrow> (\<forall>t c. tp_arrow p = Some (Some (t, c)) \<longrightarrow> tp_tip p = Some t)"

lemma ask_parts_ok:
  assumes "parts_ok p" shows "parts_ok (ask_parts ty parts qs p)" "tp_tip p = Some t \<Longrightarrow> tp_tip (ask_parts ty parts qs p) = Some t"
proof -
  have step: "parts_ok (snd (arrow_element ty parts f q))" "parts_ok (snd (tip_element f q))"
    "tp_tip q = Some t \<Longrightarrow> tp_tip (snd (arrow_element ty parts f q)) = Some t"
    "tp_tip q = Some t \<Longrightarrow> tp_tip (snd (tip_element f q)) = Some t" if "parts_ok q" for ty parts f q
    using that by (auto simp: parts_ok_def arrow_element_def tip_element_def Let_def split: option.splits prod.splits)
  show "parts_ok (ask_parts ty parts qs p)" using assms
    by (induction ty parts qs p rule: ask_parts.induct) (auto simp: step split: if_splits)
  show "tp_tip p = Some t \<Longrightarrow> tp_tip (ask_parts ty parts qs p) = Some t" using assms
    by (induction ty parts qs p rule: ask_parts.induct) (auto simp: step split: if_splits)
qed

end
