(* ===== verification/Connect_Dispatch.thy ===== *)
theory Connect_Dispatch
  imports Connect_Utils
begin

text \<open>
  \<open>connect/lib/proto.js\<close>: the middleware stack (\<open>app.use\<close>) and its dispatcher (\<open>app.handle\<close> with
  its inner \<open>next\<close>). A layer's function is a parameter: given the pending error, the request and
  the response it returns what it does with \<open>next\<close> and the request and response as it left them.
  \<open>dispatch\<close> is \<open>next\<close>: the layers still to come are its list argument (\<open>stack[index++]\<close>), the
  variables \<open>removed\<close> and \<open>slashAdded\<close> are arguments, and it also returns the log of the calls made.
\<close>

section \<open>State\<close>

record http_error =
  err_status :: nat
  err_text :: string

record conn_req =
  cq_method :: string
  cq_url :: string
  cq_original :: string

datatype action = ANext "http_error option" | AHandled | AThrow http_error

record layer =
  l_route :: string
  l_arity :: nat
  l_handle :: "http_error option \<Rightarrow> conn_req \<Rightarrow> http_res \<Rightarrow> action \<times> conn_req \<times> http_res"

record call =
  c_index :: nat
  c_url :: string
  c_err :: "http_error option"

datatype outcome =
    Handled conn_req http_res
  | Delegated "http_error option" conn_req http_res
  | Finished http_res
  | SocketDestroyed
  | SetHeaderThrows

section \<open>use\<close>

text \<open>\<open>None\<close> is a call without a route.\<close>

definition use_route :: "string option \<Rightarrow> string" where
  "use_route route =
     (let r = (case route of None \<Rightarrow> ''/'' | Some r \<Rightarrow> r)
      in if r \<noteq> [] \<and> last r = CHR ''/'' then js_slice r 0 (-1) else r)"

definition app_use ::
  "string option \<Rightarrow> nat \<Rightarrow>
   (http_error option \<Rightarrow> conn_req \<Rightarrow> http_res \<Rightarrow> action \<times> conn_req \<times> http_res) \<Rightarrow> layer list \<Rightarrow> layer list" where
  "app_use route arity fn stack =
     stack @ [\<lparr>l_route = use_route route, l_arity = arity, l_handle = fn\<rparr>]"

section \<open>handle\<close>

definition index_of_from :: "string \<Rightarrow> string \<Rightarrow> nat \<Rightarrow> int" where
  "index_of_from s pat k =
     (case find_sub pat (drop k s) of None \<Rightarrow> -1 | Some n \<Rightarrow> int (k + n))"

definition url_fqdn :: "string \<Rightarrow> nat" where
  "url_fqdn url =
     (let search = nat (1 + index_of url ''?'');
          pathlength = (if search \<noteq> 0 then search - 1 else length url)
      in nat (1 + index_of (js_substr url 0 pathlength) ''://''))"

definition url_protohost :: "string \<Rightarrow> string" where
  "url_protohost url =
     (let fqdn = url_fqdn url
      in if fqdn \<noteq> 0 then js_substr url 0 (nat (index_of_from url ''/'' (2 + fqdn))) else [])"

text \<open>What \<open>next\<close> does to the URL on entry, and what it does before it calls a layer.\<close>

definition restore_url :: "string \<Rightarrow> string \<Rightarrow> bool \<Rightarrow> string \<Rightarrow> string" where
  "restore_url protohost removed slash_added url =
     (let u = (if slash_added then js_substr_from url 1 else url)
      in protohost @ removed @ js_substr_from u (length protohost))"

definition enter_url :: "string \<Rightarrow> bool \<Rightarrow> string \<Rightarrow> string \<Rightarrow> string \<times> bool" where
  "enter_url protohost fqdn route url =
     (let u = protohost @ js_substr_from url (length protohost + length route)
      in if \<not> fqdn \<and> js_at u 0 \<noteq> Some CHR ''/'' then (CHR ''/'' # u, True) else (u, False))"

definition layer_matches :: "string \<Rightarrow> string \<Rightarrow> bool" where
  "layer_matches route path \<longleftrightarrow>
     index_of (to_lower path) (to_lower route) = 0 \<and>
     (case js_at path (length route) of
        None \<Rightarrow> True
      | Some c \<Rightarrow> c = CHR ''/'' \<or> c = CHR ''.'')"

definition path_of :: "string \<Rightarrow> string" where
  "path_of url = (case url_pathname url of None \<Rightarrow> ''/'' | Some p \<Rightarrow> p)"

text \<open>
  The end of the stack. \<open>has_out\<close>: the dispatcher was given an \<open>out\<close> callback; \<open>status_text\<close> is
  \<open>http.STATUS_CODES\<close>, used in production.
\<close>

definition finish ::
  "(nat \<Rightarrow> string) \<Rightarrow> bool \<Rightarrow> bool \<Rightarrow> http_error option \<Rightarrow> conn_req \<Rightarrow> http_res \<Rightarrow> outcome" where
  "finish status_text production has_out err req res =
     (if has_out then Delegated err req res
      else case err of
        Some e \<Rightarrow>
          let s1 = (if hr_status res < 400 then 500 else hr_status res);
              s2 = (if err_status e \<noteq> 0 then err_status e else s1);
              msg = escape_html (if production then status_text s2 else err_text e)
          in if hr_ended res then SocketDestroyed
             else
               let r = set_header ''Content-Length'' (show_nat (byte_length msg))
                         (set_header ''Content-Type'' ''text/html'' (res\<lparr>hr_status := s2\<rparr>))
               in Finished (end_with (if cq_method req = ''HEAD'' then None else Some msg) r)
      | None \<Rightarrow>
          if hr_ended res then SetHeaderThrows
          else
            let r = set_header ''Content-Type'' ''text/html'' (res\<lparr>hr_status := 404\<rparr>)
            in Finished (end_with
                 (if cq_method req = ''HEAD'' then None
                  else Some (''Cannot '' @ escape_html (cq_method req) @ '' '' @ escape_html (cq_original req))) r))"

definition restore_req :: "string \<Rightarrow> string \<Rightarrow> bool \<Rightarrow> conn_req \<Rightarrow> conn_req" where
  "restore_req protohost removed slash_added req =
     (let u = restore_url protohost removed slash_added (cq_url req)
      in req\<lparr>cq_url := u, cq_original := (if cq_original req = [] then u else cq_original req)\<rparr>)"

text \<open>With an error pending only a four-argument layer is called, without one only a shorter one.\<close>

definition layer_runs :: "http_error option \<Rightarrow> layer \<Rightarrow> bool" where
  "layer_runs err l \<longleftrightarrow> (if err \<noteq> None then l_arity l = 4 else l_arity l < 4)"

fun dispatch ::
  "(http_error option \<Rightarrow> conn_req \<Rightarrow> http_res \<Rightarrow> outcome) \<Rightarrow> string \<Rightarrow> bool \<Rightarrow> nat \<Rightarrow> layer list \<Rightarrow>
   string \<Rightarrow> bool \<Rightarrow> http_error option \<Rightarrow> conn_req \<Rightarrow> http_res \<Rightarrow> call list \<times> outcome" where
  "dispatch fin ph fqdn i [] removed slash err req0 res =
     ([], fin err (restore_req ph removed slash req0) res)"
| "dispatch fin ph fqdn i (l # ls) removed slash err req0 res =
     (let req = restore_req ph removed slash req0 in
      if hr_ended res then ([], fin err req res)
      else if \<not> layer_matches (l_route l) (path_of (cq_url req))
      then dispatch fin ph fqdn (Suc i) ls [] False err req res
      else
        let (u, sl) = enter_url ph fqdn (l_route l) (cq_url req);
            req1 = req\<lparr>cq_url := u\<rparr>
        in if \<not> layer_runs err l then dispatch fin ph fqdn (Suc i) ls (l_route l) sl err req1 res
           else
             let (act, req2, res2) = l_handle l err req1 res;
                 c = \<lparr>c_index = i, c_url = u, c_err = err\<rparr>
             in (case act of
                   AHandled \<Rightarrow> ([c], Handled req2 res2)
                 | ANext e \<Rightarrow>
                     let (cs, r) = dispatch fin ph fqdn (Suc i) ls (l_route l) sl e req2 res2 in (c # cs, r)
                 | AThrow e \<Rightarrow>
                     let (cs, r) = dispatch fin ph fqdn (Suc i) ls (l_route l) sl (Some e) req2 res2
                     in (c # cs, r)))"

definition app_handle ::
  "(nat \<Rightarrow> string) \<Rightarrow> bool \<Rightarrow> bool \<Rightarrow> layer list \<Rightarrow> conn_req \<Rightarrow> http_res \<Rightarrow> call list \<times> outcome" where
  "app_handle status_text production has_out stack req res =
     dispatch (finish status_text production has_out) (url_protohost (cq_url req))
       (url_fqdn (cq_url req) \<noteq> 0) 0 stack [] False None req res"

section \<open>Order and kind of the calls\<close>

text \<open>One layer at a time: how the dispatcher's equation reads when the layer is called.\<close>

lemma dispatch_call:
  assumes "\<not> hr_ended res" "layer_matches (l_route l) (path_of (cq_url (restore_req ph removed slash req)))"
    and "layer_runs err l"
    and "enter_url ph fqdn (l_route l) (cq_url (restore_req ph removed slash req)) = (u, sl)"
    and "l_handle l err ((restore_req ph removed slash req)\<lparr>cq_url := u\<rparr>) res = (act, q, s)"
  shows "dispatch fin ph fqdn i (l # ls) removed slash err req res =
    (case act of
       AHandled \<Rightarrow> ([\<lparr>c_index = i, c_url = u, c_err = err\<rparr>], Handled q s)
     | ANext e \<Rightarrow>
         (\<lparr>c_index = i, c_url = u, c_err = err\<rparr> # fst (dispatch fin ph fqdn (Suc i) ls (l_route l) sl e q s),
          snd (dispatch fin ph fqdn (Suc i) ls (l_route l) sl e q s))
     | AThrow e \<Rightarrow>
         (\<lparr>c_index = i, c_url = u, c_err = err\<rparr> # fst (dispatch fin ph fqdn (Suc i) ls (l_route l) sl (Some e) q s),
          snd (dispatch fin ph fqdn (Suc i) ls (l_route l) sl (Some e) q s)))"
  using assms by (cases act) (simp_all add: Let_def split: prod.splits)

lemma dispatch_pass:
  assumes "\<not> hr_ended res" "layer_matches (l_route l) (path_of (cq_url (restore_req ph removed slash req)))"
    and "\<not> layer_runs err l"
    and "enter_url ph fqdn (l_route l) (cq_url (restore_req ph removed slash req)) = (u, sl)"
  shows "dispatch fin ph fqdn i (l # ls) removed slash err req res =
    dispatch fin ph fqdn (Suc i) ls (l_route l) sl err ((restore_req ph removed slash req)\<lparr>cq_url := u\<rparr>) res"
  using assms by (simp add: Let_def)

lemma dispatch_other:
  assumes "\<not> hr_ended res" "\<not> layer_matches (l_route l) (path_of (cq_url (restore_req ph removed slash req)))"
  shows "dispatch fin ph fqdn i (l # ls) removed slash err req res =
    dispatch fin ph fqdn (Suc i) ls [] False err (restore_req ph removed slash req) res"
  using assms by (simp add: Let_def)

lemma dispatch_ended:
  "hr_ended res \<Longrightarrow> fst (dispatch fin ph fqdn i ls removed slash err req res) = []"
  by (cases ls) (simp_all add: Let_def)

declare dispatch.simps(2) [simp del]

text \<open>The three ways one layer is dealt with: the stack ends, it is passed over, or it is called.\<close>

lemma dispatch_Cons_cases:
  assumes "dispatch fin ph fqdn i (l # ls) removed slash err req res = (cs, r)"
  obtains (stop) "cs = []"
  | (skip) rm sl q where "dispatch fin ph fqdn (Suc i) ls rm sl err q res = (cs, r)"
  | (call) c cs' where "cs = c # cs'" "c_index c = i" "layer_runs (c_err c) l"
      "cs' = [] \<or> (\<exists>rm sl e q s. dispatch fin ph fqdn (Suc i) ls rm sl e q s = (cs', r))"
proof (cases "hr_ended res")
  case True
  then show thesis using assms stop dispatch_ended by (metis fst_conv)
next
  case going: False
  let ?req = "restore_req ph removed slash req"
  obtain u sl where u: "enter_url ph fqdn (l_route l) (cq_url ?req) = (u, sl)"
    by (cases "enter_url ph fqdn (l_route l) (cq_url ?req)") simp
  obtain act q s where h: "l_handle l err (?req\<lparr>cq_url := u\<rparr>) res = (act, q, s)"
    by (cases "l_handle l err (?req\<lparr>cq_url := u\<rparr>) res") auto
  show thesis
  proof (cases "layer_matches (l_route l) (path_of (cq_url ?req))")
    case False
    then show thesis using assms skip dispatch_other[OF going] by metis
  next
    case match: True
    show thesis
    proof (cases "layer_runs err l")
      case False
      then show thesis using assms skip dispatch_pass[OF going match _ u] by metis
    next
      case True
      note d = dispatch_call[OF going match True u h, of fin i ls]
      show thesis
      proof (cases act)
        case AHandled
        then show thesis using d assms True call[of "\<lparr>c_index = i, c_url = u, c_err = err\<rparr>" "[]"] by simp
      next
        case (ANext e)
        then show thesis
          using d assms True call[of "\<lparr>c_index = i, c_url = u, c_err = err\<rparr>"]
          by simp (metis prod.collapse)
      next
        case (AThrow e)
        then show thesis
          using d assms True call[of "\<lparr>c_index = i, c_url = u, c_err = err\<rparr>"]
          by simp (metis prod.collapse)
      qed
    qed
  qed
qed

definition log_ok :: "nat \<Rightarrow> layer list \<Rightarrow> call list \<Rightarrow> bool" where
  "log_ok i ls cs \<longleftrightarrow>
     sorted_wrt (<) (map c_index cs) \<and>
     (\<forall>c \<in> set cs. i \<le> c_index c \<and> c_index c < i + length ls \<and> layer_runs (c_err c) (ls ! (c_index c - i)))"

lemma log_ok_shift: "log_ok (Suc i) ls cs \<Longrightarrow> log_ok i (l # ls) cs"
  by (auto simp: log_ok_def nth_Cons' Suc_diff_le dest: Suc_le_lessD)

lemma dispatch_log_ok:
  "dispatch fin ph fqdn i ls removed slash err req res = (cs, r) \<Longrightarrow> log_ok i ls cs"
proof (induction ls arbitrary: i removed slash err req res cs r)
  case Nil
  then show ?case by (simp add: log_ok_def)
next
  case (Cons l ls)
  from Cons.prems show ?case
  proof (cases rule: dispatch_Cons_cases)
    case stop
    then show ?thesis by (simp add: log_ok_def)
  next
    case skip
    then show ?thesis using Cons.IH log_ok_shift by blast
  next
    case (call c cs')
    from call(4) have "log_ok (Suc i) ls cs'"
      by (elim disjE) (simp add: log_ok_def, use Cons.IH in blast)
    then have "log_ok i (l # ls) cs'" "\<forall>d \<in> set cs'. i < c_index d"
      by (auto intro: log_ok_shift simp: log_ok_def Suc_le_eq)
    with call(1-3) show ?thesis
      by (auto simp: log_ok_def)
  qed
qed

text \<open>
  C16. For every stack of middleware, request and behaviour of the handlers: the layers run in
  stack order, each at most once; a layer runs with a pending error only if it takes four
  arguments, and without one only if it takes fewer.
\<close>

theorem layers_run_in_order_by_arity:
  "sorted_wrt (<) (map c_index (fst (app_handle status_text production has_out stack req res))) \<and>
   list_all (\<lambda>c. c_index c < length stack \<and> l_arity (stack ! c_index c) \<le> 4 \<and>
       (l_arity (stack ! c_index c) = 4) = (c_err c \<noteq> None))
     (fst (app_handle status_text production has_out stack req res))"
proof -
  obtain cs r where d: "app_handle status_text production has_out stack req res = (cs, r)"
    by (cases "app_handle status_text production has_out stack req res") simp
  then have "log_ok 0 stack cs"
    unfolding app_handle_def by (rule dispatch_log_ok)
  then show ?thesis using d by (fastforce simp: log_ok_def list_all_iff layer_runs_def split: if_splits)
qed

section \<open>The URL a layer sees\<close>

text \<open>
  \<open>exact_mount\<close>: the URL is the scheme and host, then the mount point as the layer was registered,
  then the rest; without scheme and host there is no prefix.
\<close>

definition exact_mount :: "string \<Rightarrow> bool \<Rightarrow> string \<Rightarrow> string \<Rightarrow> bool" where
  "exact_mount ph fqdn route url \<longleftrightarrow> (\<exists>rest. url = ph @ route @ rest) \<and> (fqdn \<or> ph = [])"

lemma restore_enter:
  "exact_mount ph fqdn route url \<Longrightarrow> enter_url ph fqdn route url = (u, sl) \<Longrightarrow>
   restore_url ph route sl u = url"
  by (auto simp: exact_mount_def enter_url_def restore_url_def js_substr_from_def Let_def split: if_splits)

lemma restore_none: "starts_with ph url \<Longrightarrow> restore_url ph [] False url = url"
  by (auto simp: restore_url_def js_substr_from_def starts_with_iff)

text \<open>A handler that hands on the URL it was given.\<close>

definition keeps_url :: "layer \<Rightarrow> bool" where
  "keeps_url l \<longleftrightarrow> (\<forall>e q s. cq_url (fst (snd (l_handle l e q s))) = cq_url q)"

lemma restore_req_url: "cq_url (restore_req ph rm sl q) = restore_url ph rm sl (cq_url q)"
  by (simp add: restore_req_def Let_def)

lemma dispatch_urls:
  assumes "list_all keeps_url ls" "starts_with ph url"
    and "list_all (\<lambda>l. layer_matches (l_route l) (path_of url) \<longrightarrow> exact_mount ph fqdn (l_route l) url) ls"
    and "restore_url ph removed slash (cq_url req) = url"
    and "dispatch fin ph fqdn i ls removed slash err req res = (cs, r)"
  shows "\<forall>c \<in> set cs. i \<le> c_index c \<and> c_url c = fst (enter_url ph fqdn (l_route (ls ! (c_index c - i))) url)"
  using assms
proof (induction ls arbitrary: i removed slash err req res cs r)
  case Nil
  then show ?case by simp
next
  case (Cons l ls)
  have url: "cq_url (restore_req ph removed slash req) = url"
    using Cons.prems(4) by (simp add: restore_req_url)
  obtain u sl where u: "enter_url ph fqdn (l_route l) url = (u, sl)"
    by (cases "enter_url ph fqdn (l_route l) url") simp
  let ?req1 = "(restore_req ph removed slash req)\<lparr>cq_url := u\<rparr>"
  obtain act q s where h: "l_handle l err ?req1 res = (act, q, s)"
    by (cases "l_handle l err ?req1 res") auto
  have "cq_url (fst (snd (l_handle l err ?req1 res))) = cq_url ?req1"
    using Cons.prems(1) by (simp add: keeps_url_def)
  then have q: "cq_url q = u"
    using h by simp
  have tail: "\<forall>c \<in> set cs'. i \<le> c_index c \<and>
      c_url c = fst (enter_url ph fqdn (l_route ((l # ls) ! (c_index c - i))) url)"
    if "dispatch fin ph fqdn (Suc i) ls rm sl' e q' s' = (cs', r')" "restore_url ph rm sl' (cq_url q') = url"
    for rm sl' e q' s' cs' r'
  proof -
    have "\<forall>c \<in> set cs'. Suc i \<le> c_index c \<and>
        c_url c = fst (enter_url ph fqdn (l_route (ls ! (c_index c - Suc i))) url)"
      using Cons.IH[OF _ Cons.prems(2) _ that(2,1)] Cons.prems(1,3) by simp
    then show ?thesis by (auto simp: nth_Cons' Suc_diff_le Suc_le_eq dest: less_imp_le)
  qed
  show ?case
  proof (cases "hr_ended res")
    case True
    then show ?thesis using Cons.prems(5) dispatch_ended[OF True] by (metis empty_iff empty_set fst_conv)
  next
    case going: False
    show ?thesis
    proof (cases "layer_matches (l_route l) (path_of url)")
      case False
      then show ?thesis
        using Cons.prems(5) dispatch_other[OF going, of l ph removed slash req] url tail restore_none[OF Cons.prems(2)]
        by metis
    next
      case match: True
      then have restored: "restore_url ph (l_route l) sl u = url"
        using Cons.prems(3) restore_enter[OF _ u] by auto
      show ?thesis
      proof (cases "layer_runs err l")
        case False
        then show ?thesis
          using Cons.prems(5) dispatch_pass[OF going _ False, of ph removed slash req fqdn u sl] match u url tail restored
          by simp
      next
        case True
        have d: "dispatch fin ph fqdn i (l # ls) removed slash err req res = (case act of
            AHandled \<Rightarrow> ([\<lparr>c_index = i, c_url = u, c_err = err\<rparr>], Handled q s)
          | ANext e \<Rightarrow>
              (\<lparr>c_index = i, c_url = u, c_err = err\<rparr> # fst (dispatch fin ph fqdn (Suc i) ls (l_route l) sl e q s),
               snd (dispatch fin ph fqdn (Suc i) ls (l_route l) sl e q s))
          | AThrow e \<Rightarrow>
              (\<lparr>c_index = i, c_url = u, c_err = err\<rparr> # fst (dispatch fin ph fqdn (Suc i) ls (l_route l) sl (Some e) q s),
               snd (dispatch fin ph fqdn (Suc i) ls (l_route l) sl (Some e) q s)))"
          by (rule dispatch_call) (use going match True u h url in simp_all)
        obtain cs' where cs: "cs = \<lparr>c_index = i, c_url = u, c_err = err\<rparr> # cs'"
          and rest: "cs' = [] \<or> (\<exists>e r'. dispatch fin ph fqdn (Suc i) ls (l_route l) sl e q s = (cs', r'))"
        proof (cases act)
          case AHandled
          then show thesis using that[of "[]"] d Cons.prems(5) by simp
        next
          case (ANext e)
          let ?d = "dispatch fin ph fqdn (Suc i) ls (l_route l) sl e q s"
          have "cs = \<lparr>c_index = i, c_url = u, c_err = err\<rparr> # fst ?d"
            using d Cons.prems(5) ANext by simp
          moreover have "?d = (fst ?d, snd ?d)" by simp
          ultimately show thesis using that by blast
        next
          case (AThrow e)
          let ?d = "dispatch fin ph fqdn (Suc i) ls (l_route l) sl (Some e) q s"
          have "cs = \<lparr>c_index = i, c_url = u, c_err = err\<rparr> # fst ?d"
            using d Cons.prems(5) AThrow by simp
          moreover have "?d = (fst ?d, snd ?d)" by simp
          ultimately show thesis using that by blast
        qed
        have "\<forall>c \<in> set cs'. i \<le> c_index c \<and>
            c_url c = fst (enter_url ph fqdn (l_route ((l # ls) ! (c_index c - i))) url)"
          using rest tail restored q by auto
        then show ?thesis using cs u by simp
      qed
    qed
  qed
qed

text \<open>
  C15. When no handler changes the URL and the mount point of every layer that matches occurs in the URL
  case for case, every layer that runs sees the request's original URL with exactly its own mount point
  removed: what the dispatcher strips for one layer is put back before the next. Without the second
  condition it is not (\<open>mount_case_is_lost\<close> below).
\<close>

theorem layers_see_original_url:
  assumes "list_all keeps_url stack"
    and "starts_with (url_protohost (cq_url req)) (cq_url req)"
    and "list_all (\<lambda>l. layer_matches (l_route l) (path_of (cq_url req)) \<longrightarrow>
           exact_mount (url_protohost (cq_url req)) (url_fqdn (cq_url req) \<noteq> 0) (l_route l) (cq_url req)) stack"
  shows "list_all (\<lambda>c. c_url c = fst (enter_url (url_protohost (cq_url req)) (url_fqdn (cq_url req) \<noteq> 0)
             (l_route (stack ! c_index c)) (cq_url req)))
           (fst (app_handle status_text production has_out stack req res))"
proof -
  obtain cs r where d: "app_handle status_text production has_out stack req res = (cs, r)"
    by (cases "app_handle status_text production has_out stack req res") simp
  from dispatch_urls[OF assms(1,2,3) restore_none[OF assms(2)] d[unfolded app_handle_def]] d
  show ?thesis by (simp add: list_all_iff)
qed

definition pass_layer :: "string \<Rightarrow> layer" where
  "pass_layer route = \<lparr>l_route = route, l_arity = 3, l_handle = (\<lambda>e q s. (ANext e, q, s))\<rparr>"

theorem layers_see_original_url_witness:
  "list_all (\<lambda>c. c_url c = fst (enter_url [] False
       (l_route ([pass_layer ''/api'', pass_layer []] ! c_index c)) ''/api/threads''))
     (fst (app_handle (\<lambda>_. []) False False [pass_layer ''/api'', pass_layer []]
        \<lparr>cq_method = ''GET'', cq_url = ''/api/threads'', cq_original = []\<rparr> fresh_res))"
proof -
  let ?q = "\<lparr>cq_method = ''GET'', cq_url = ''/api/threads'', cq_original = []\<rparr>"
  have u: "url_fqdn ''/api/threads'' = 0" "url_protohost ''/api/threads'' = []"
    by code_simp+
  then show ?thesis
    using layers_see_original_url[of "[pass_layer ''/api'', pass_layer []]" ?q "\<lambda>_. []" False False fresh_res]
    by (simp add: keeps_url_def pass_layer_def exact_mount_def)
qed

text \<open>
  The mount point put back is the registered one, not the one of the request: routes match
  without regard to case, so a request for \<open>/Admin/x\<close> that passes a layer mounted at \<open>/admin\<close> goes on
  as \<open>/admin/x\<close>.
\<close>

theorem mount_case_is_lost:
  "layer_matches ''/admin'' (path_of ''/Admin/x'') \<and>
   restore_url [] ''/admin'' (snd (enter_url [] False ''/admin'' ''/Admin/x''))
     (fst (enter_url [] False ''/admin'' ''/Admin/x'')) = ''/admin/x''"
  by code_simp

section \<open>Requests nobody answers\<close>

lemma dispatch_no_match:
  assumes "list_all (\<lambda>l. \<not> layer_matches (l_route l) (path_of url)) ls"
    and "starts_with ph url" "\<not> hr_ended res"
    and "restore_req ph removed slash req = req'" "cq_url req' = url" "url \<noteq> []"
  shows "dispatch fin ph fqdn i ls removed slash err req res = ([], fin err req' res)"
  using assms
proof (induction ls arbitrary: i removed slash req)
  case Nil
  then show ?case by simp
next
  case (Cons l ls)
  have "restore_req ph [] False req' = req'"
    using Cons.prems(4,5,6) restore_none[OF Cons.prems(2)] by (auto simp: restore_req_def Let_def split: if_splits)
  then show ?case
    using Cons.IH[of "[]" False req' "Suc i"] Cons.prems dispatch_other[OF Cons.prems(3), of l ph removed slash req]
    by simp
qed

text \<open>
  A request no layer matches is answered 404 by a page that names its method and its original
  URL, both escaped, so the page carries no markup from the request.
\<close>

theorem unmatched_request_is_404:
  assumes "list_all (\<lambda>l. \<not> layer_matches (l_route l) (path_of (cq_url req))) stack"
    and "starts_with (url_protohost (cq_url req)) (cq_url req)" "\<not> hr_ended res"
    and "cq_original req = []" "cq_url req \<noteq> []" "cq_method req \<noteq> ''HEAD''"
  shows "\<exists>r. app_handle status_text production False stack req res = ([], Finished r) \<and>
           hr_status r = 404 \<and> hr_ended r \<and>
           hr_body r = Some (''Cannot '' @ escape_html (cq_method req) @ '' '' @ escape_html (cq_url req))"
proof -
  have "app_handle status_text production False stack req res =
      ([], finish status_text production False None (req\<lparr>cq_original := cq_url req\<rparr>) res)"
    unfolding app_handle_def
    by (rule dispatch_no_match[OF assms(1,2,3)])
       (use assms restore_none[OF assms(2)] in \<open>simp_all add: restore_req_def Let_def\<close>)
  then show ?thesis
    using assms by (simp add: finish_def Let_def end_with_def set_header_def)
qed

theorem unmatched_request_is_404_witness:
  "\<exists>r. app_handle (\<lambda>_. []) False False [pass_layer ''/admin''] \<lparr>cq_method = ''GET'', cq_url = ''/x<b>'', cq_original = []\<rparr> fresh_res =
      ([], Finished r) \<and> hr_status r = 404 \<and> hr_ended r \<and>
      hr_body r = Some (''Cannot '' @ escape_html ''GET'' @ '' '' @ escape_html ''/x<b>'')"
proof -
  have "\<not> layer_matches ''/admin'' (path_of ''/x<b>'')" "url_protohost ''/x<b>'' = []"
    by code_simp+
  then show ?thesis
    using unmatched_request_is_404[of "\<lparr>cq_method = ''GET'', cq_url = ''/x<b>'', cq_original = []\<rparr>"
        "[pass_layer ''/admin'']" fresh_res "\<lambda>_. []" False]
    by (simp add: pass_layer_def fresh_res_def)
qed

end
