(* ===== verification/Redis_Queue.thy ===== *)
theory Redis_Queue
  imports JS_Prelude
begin

text \<open>
  \<open>redis/lib/queue.js\<close>: the queue of the Redis client, two arrays and an offset into the first,
  and the interface the client relies on as a locale.
\<close>

section \<open>The interface\<close>

text \<open>Shifting \<open>n\<close> times: the results in order and the queue left.\<close>

fun shifts :: "('q \<Rightarrow> 'a option \<times> 'q) \<Rightarrow> nat \<Rightarrow> 'q \<Rightarrow> 'a option list \<times> 'q" where
  "shifts shift 0 q = ([], q)"
| "shifts shift (Suc n) q =
     (let (x, q1) = shift q; (xs, q2) = shifts shift n q1 in (x # xs, q2))"

locale fifo =
  fixes items :: "'q \<Rightarrow> 'a list"
    and ok :: "'q \<Rightarrow> bool"
    and push_op :: "'a \<Rightarrow> 'q \<Rightarrow> 'q"
    and shift_op :: "'q \<Rightarrow> 'a option \<times> 'q"
    and size_op :: "'q \<Rightarrow> nat"
  assumes push_ok: "ok q \<Longrightarrow> ok (push_op x q)"
    and push_items: "ok q \<Longrightarrow> items (push_op x q) = items q @ [x]"
    and shift_ok: "ok q \<Longrightarrow> ok (snd (shift_op q))"
    and shift_items: "ok q \<Longrightarrow> items (snd (shift_op q)) = tl (items q)"
    and shift_result: "ok q \<Longrightarrow> fst (shift_op q) = (case items q of [] \<Rightarrow> None | x # _ \<Rightarrow> Some x)"
    and size_items: "ok q \<Longrightarrow> size_op q = length (items q)"
begin

lemma pushes: "ok q \<Longrightarrow> ok (fold push_op xs q) \<and> items (fold push_op xs q) = items q @ xs"
  by (induction xs arbitrary: q) (auto simp: push_ok push_items)

lemma shifts_prefix:
  "ok q \<Longrightarrow> n \<le> length (items q) \<Longrightarrow>
   fst (shifts shift_op n q) = map Some (take n (items q)) \<and> ok (snd (shifts shift_op n q)) \<and>
   items (snd (shifts shift_op n q)) = drop n (items q)"
proof (induction n arbitrary: q)
  case 0
  then show ?case by simp
next
  case (Suc n)
  obtain x q1 where s: "shift_op q = (x, q1)" by (cases "shift_op q")
  from Suc.prems obtain y ys where q: "items q = y # ys" by (cases "items q") auto
  have "x = Some y" "ok q1" "items q1 = ys"
    using shift_result[OF Suc.prems(1)] shift_ok[OF Suc.prems(1)] shift_items[OF Suc.prems(1)] s q by auto
  then show ?case
    using Suc.IH[of q1] Suc.prems q s by (auto simp: Let_def split: prod.splits)
qed

lemma push_then_shift:
  "ok q \<Longrightarrow> fst (shifts shift_op (length (items q) + length xs) (fold push_op xs q)) = map Some (items q @ xs)"
  using pushes[of q xs] shifts_prefix[of "fold push_op xs q" "length (items q) + length xs"] by simp

end

section \<open>The implementation\<close>

record 'a queue =
  q_tail :: "'a list"
  q_head :: "'a list"
  q_offset :: nat

definition new_queue :: "'a queue" where
  "new_queue = \<lparr>q_tail = [], q_head = [], q_offset = 0\<rparr>"

definition shift_queue :: "'a queue \<Rightarrow> 'a option \<times> 'a queue" where
  "shift_queue q =
     (if q_offset q = length (q_head q) then
        let q1 = q\<lparr>q_head := q_tail q, q_tail := [], q_offset := 0\<rparr>
        in if length (q_head q1) = 0 then (None, q1)
           else (js_at (q_head q1) (q_offset q1), q1\<lparr>q_offset := q_offset q1 + 1\<rparr>)
      else (js_at (q_head q) (q_offset q), q\<lparr>q_offset := q_offset q + 1\<rparr>))"

text \<open>The result of \<open>push\<close> is the new length of the tail array.\<close>

definition push_queue :: "'a \<Rightarrow> 'a queue \<Rightarrow> nat \<times> 'a queue" where
  "push_queue item q =
     (let t = q_tail q @ [item] in (length t, q\<lparr>q_tail := t\<rparr>))"

text \<open>\<open>forEach\<close>: the array it returns, and the arguments \<open>(item, index)\<close> of its callbacks in order.\<close>

definition for_each_queue :: "'a queue \<Rightarrow> 'a list \<times> ('a \<times> nat) list" where
  "for_each_queue q =
     (let array = js_slice_from (q_head q) (int (q_offset q)) @ q_tail q
      in (array, zip array [0..<length array]))"

definition queue_length :: "'a queue \<Rightarrow> int" where
  "queue_length q = int (length (q_head q)) - int (q_offset q) + int (length (q_tail q))"

definition queue_items :: "'a queue \<Rightarrow> 'a list" where
  "queue_items q = drop (q_offset q) (q_head q) @ q_tail q"

definition queue_ok :: "'a queue \<Rightarrow> bool" where
  "queue_ok q \<longleftrightarrow> q_offset q \<le> length (q_head q)"

lemma queue_ok_new: "queue_ok new_queue" "queue_items new_queue = []"
  by (simp_all add: queue_ok_def queue_items_def new_queue_def)

interpretation rq: fifo queue_items queue_ok "\<lambda>x q. snd (push_queue x q)" shift_queue "\<lambda>q. nat (queue_length q)"
proof
  fix q :: "'a queue" and x
  assume ok: "queue_ok q"
  show "queue_ok (snd (push_queue x q))" "queue_items (snd (push_queue x q)) = queue_items q @ [x]"
    using ok by (simp_all add: queue_ok_def queue_items_def push_queue_def Let_def)
  show "queue_ok (snd (shift_queue q))"
    using ok by (auto simp: queue_ok_def shift_queue_def Let_def Suc_le_eq)
  show "queue_items (snd (shift_queue q)) = tl (queue_items q)"
    using ok by (auto simp: queue_ok_def queue_items_def shift_queue_def Let_def tl_drop drop_Suc)
  show "fst (shift_queue q) = (case queue_items q of [] \<Rightarrow> None | x # _ \<Rightarrow> Some x)"
    using ok by (auto simp: queue_ok_def queue_items_def shift_queue_def Let_def js_at_def
        Cons_nth_drop_Suc[symmetric] split: list.splits)
  show "nat (queue_length q) = length (queue_items q)"
    using ok by (simp add: queue_ok_def queue_items_def queue_length_def)
qed

text \<open>
  The queue is first in, first out over any mix of states: after any number of pushes onto a
  queue, shifting it empty returns the items it held followed by the pushed ones, in order.
\<close>

theorem queue_is_fifo:
  assumes "queue_ok q"
  shows "fst (shifts shift_queue (length (queue_items q) + length xs) (fold (\<lambda>x q. snd (push_queue x q)) xs q)) =
         map Some (queue_items q @ xs)"
  using assms by (rule rq.push_then_shift)

theorem queue_is_fifo_witness:
  "fst (shifts shift_queue 3 (fold (\<lambda>x q. snd (push_queue x q)) [2, 3] \<lparr>q_tail = [], q_head = [0, 1], q_offset = 1\<rparr>)) =
   [Some 1, Some 2, Some (3::nat)]"
  using queue_is_fifo[of "\<lparr>q_tail = [], q_head = [0, 1], q_offset = 1\<rparr>" "[2, 3::nat]"]
  by (simp add: queue_ok_def queue_items_def numeral_3_eq_3)

end
