(* ===== verification/Redis_Parser.thy ===== *)
theory Redis_Parser
  imports JS_Prelude
begin

text \<open>
  \<open>redis/lib/parser/javascript.js\<close>: the incremental parser of Redis replies. A buffer is a
  character list (one character per byte) and an offset into it; the exception
  \<open>IncompleteReadBuffer\<close> is the result \<open>Incomplete\<close>. \<open>dec\<close> is \<open>buffer.toString(encoding)\<close>.
  The depth of nested replies is bounded by a fuel argument, the length of the buffer, which
  is enough because every level takes bytes of its own. A header that is not a size
  JavaScript's number conversion reads as an integer is the result \<open>Corrupt\<close>.
\<close>

section \<open>Values and wire format\<close>

datatype reply = RUndef | RNull | RStr string | RNum "int option" | RArr "reply list"

datatype presult = Incomplete | Corrupt | POk reply nat

datatype event = EReply reply | EError reply

text \<open>What a server sends, and its encoding.\<close>

datatype wire =
    WSimple string
  | WError string
  | WInt int
  | WBulk string
  | WNil
  | WArr "wire list"
  | WNilArr

abbreviation crlf :: string where
  "crlf \<equiv> [CHR 0x0D, CHR 0x0A]"

fun encode :: "wire \<Rightarrow> string" where
  "encode (WSimple s) = CHR ''+'' # s @ crlf"
| "encode (WError s) = CHR ''-'' # s @ crlf"
| "encode (WInt i) = CHR '':'' # show_int i @ crlf"
| "encode (WBulk s) = CHR ''$'' # show_nat (length s) @ crlf @ s @ crlf"
| "encode WNil = ''$-1'' @ crlf"
| "encode (WArr ws) = CHR ''*'' # show_nat (length ws) @ crlf @ concat (map encode ws)"
| "encode WNilArr = ''*-1'' @ crlf"

section \<open>The parser\<close>

text \<open>\<open>+s\<close> for a decimal number; the empty string is 0.\<close>

definition to_number :: "string \<Rightarrow> int option" where
  "to_number s =
     (let t = trim_str s in
      if t = [] then Some 0
      else if hd t = CHR ''-'' then
        (if tl t \<noteq> [] \<and> list_all is_digit (tl t) then Some (- int (digits_val 0 (tl t))) else None)
      else if list_all is_digit t then Some (int (digits_val 0 t)) else None)"

function packet_end_offset :: "string \<Rightarrow> nat \<Rightarrow> nat option" where
  "packet_end_offset buf offset =
     (if js_at buf offset \<noteq> Some CHR 0x0D \<and> js_at buf (offset + 1) \<noteq> Some CHR 0x0A then
        (if offset + 1 \<ge> length buf then None else packet_end_offset buf (offset + 1))
      else Some (offset + 1))"
  by pat_completeness auto
termination
  by (relation "measure (\<lambda>(buf, offset). length buf - offset)") auto

declare packet_end_offset.simps [simp del]

definition parse_header :: "string \<Rightarrow> nat \<Rightarrow> (string \<times> nat) option" where
  "parse_header buf offset =
     (case packet_end_offset buf offset of
        None \<Rightarrow> None
      | Some e \<Rightarrow> Some (take (e - 1 - offset) (drop offset buf), e + 1))"

definition bytes_remaining :: "string \<Rightarrow> nat \<Rightarrow> nat" where
  "bytes_remaining buf offset = length buf - offset"

text \<open>A line up to the delimiter (\<open>+\<close>, \<open>-\<close> and \<open>:\<close>): its text and the offset after it.\<close>

definition parse_line :: "string \<Rightarrow> nat \<Rightarrow> (string \<times> nat) option" where
  "parse_line buf offset =
     (case packet_end_offset buf offset of
        None \<Rightarrow> None
      | Some p \<Rightarrow>
          let e = p - 1 in
          if e > length buf then None
          else Some (take (e - offset) (drop offset buf), e + 2))"

fun parse_result :: "(string \<Rightarrow> string) \<Rightarrow> nat \<Rightarrow> string \<Rightarrow> char option \<Rightarrow> nat \<Rightarrow> presult"
  and parse_items :: "(string \<Rightarrow> string) \<Rightarrow> nat \<Rightarrow> string \<Rightarrow> nat \<Rightarrow> nat \<Rightarrow> reply list \<Rightarrow> presult" where
  "parse_result dec 0 buf type offset = Corrupt"
| "parse_result dec (Suc fuel) buf type offset =
     (if type = Some CHR ''+'' \<or> type = Some CHR ''-'' then
        (case parse_line buf offset of
           None \<Rightarrow> Incomplete
         | Some (s, off) \<Rightarrow> POk (RStr (if length s < 65536 then s else dec s)) off)
      else if type = Some CHR '':'' then
        (case parse_line buf offset of
           None \<Rightarrow> Incomplete
         | Some (s, off) \<Rightarrow> POk (RNum (to_number s)) off)
      else if type = Some CHR ''$'' then
        (case parse_header buf offset of
           None \<Rightarrow> Incomplete
         | Some (h, start) \<Rightarrow>
             (case to_number h of
                None \<Rightarrow> Corrupt
              | Some sz \<Rightarrow>
                  if sz = -1 then POk RUndef start
                  else if sz < 0 then Corrupt
                  else
                    let e = start + nat sz in
                    if e > length buf then Incomplete
                    else POk (RStr (dec (take (e - start) (drop start buf)))) (e + 2)))
      else if type = Some CHR ''*'' then
        (case parse_header buf offset of
           None \<Rightarrow> Incomplete
         | Some (h, start) \<Rightarrow>
             (case to_number h of
                None \<Rightarrow> Corrupt
              | Some sz \<Rightarrow>
                  if sz < 0 then POk RNull start
                  else if nat sz > bytes_remaining buf start then Incomplete
                  else parse_items dec fuel buf (nat sz) start []))
      else POk RUndef offset)"
| "parse_items dec fuel buf 0 offset acc = POk (RArr acc) offset"
| "parse_items dec fuel buf (Suc n) offset acc =
     (if offset + 1 > length buf then Incomplete
      else
        (case parse_result dec fuel buf (js_at buf offset) (offset + 1) of
           POk res off \<Rightarrow>
             parse_items dec fuel buf n off (acc @ [if res = RUndef then RNull else res])
         | Incomplete \<Rightarrow> Incomplete
         | Corrupt \<Rightarrow> Corrupt))"

lemma packet_end_offset_gt: "packet_end_offset buf offset = Some e \<Longrightarrow> offset < e"
proof (induction buf offset rule: packet_end_offset.induct)
  case (1 buf offset)
  then show ?case
    by (subst (asm) (2) packet_end_offset.simps) (auto split: if_splits)
qed

lemma parse_line_mono: "parse_line buf offset = Some (s, off) \<Longrightarrow> offset \<le> off"
  by (auto simp: parse_line_def Let_def dest!: packet_end_offset_gt split: if_splits option.splits)

lemma parse_header_mono: "parse_header buf offset = Some (s, off) \<Longrightarrow> offset \<le> off"
  by (auto simp: parse_header_def dest!: packet_end_offset_gt split: option.splits)

lemma parse_offset_mono:
  "parse_result dec fuel buf type offset = POk r off \<Longrightarrow> offset \<le> off"
  "parse_items dec fuel buf n offset acc = POk r off \<Longrightarrow> offset \<le> off"
proof (induction dec fuel buf type offset and dec fuel buf n offset acc arbitrary: r off and r off
    rule: parse_result_parse_items.induct)
  case (2 dec fuel buf type offset)
  note IH = 2(1)
  show ?case
  proof (cases "type = Some CHR ''*''")
    case True
    with 2(2) obtain h start where h: "parse_header buf offset = Some (h, start)"
      by (auto split: option.splits)
    have IH': "to_number h = Some sz \<Longrightarrow> \<not> sz < 0 \<Longrightarrow> \<not> bytes_remaining buf start < nat sz \<Longrightarrow>
        parse_items dec fuel buf (nat sz) start [] = POk r off \<Longrightarrow> start \<le> off" for sz
      using True by (intro IH[OF _ _ _ True h refl]) auto
    from parse_header_mono[OF h] True 2(2) h IH' show ?thesis
      by (fastforce split: option.splits if_splits)
  next
    case False
    with 2(2) show ?thesis
      by (fastforce simp: Let_def dest!: parse_line_mono parse_header_mono
          split: option.splits if_splits)
  qed
next
  case (4 dec fuel buf n offset acc)
  from 4(3) obtain res off1 where r: "\<not> offset + 1 > length buf"
    "parse_result dec fuel buf (js_at buf offset) (offset + 1) = POk res off1"
    "parse_items dec fuel buf n off1 (acc @ [if res = RUndef then RNull else res]) = POk r off"
    by (auto split: if_splits presult.splits)
  from 4(1)[OF r(1,2)] 4(2)[OF r(1,2,3)] show ?case by simp
qed auto

section \<open>execute\<close>

text \<open>
  The loop of \<open>execute\<close> on a buffer: the events emitted and the offset left. \<open>None\<close> for a corrupt
  header. An unknown type byte is skipped; the \<open>break\<close> on a \<open>null\<close> result leaves the offset where
  it is.
\<close>

function exec_loop :: "(string \<Rightarrow> string) \<Rightarrow> string \<Rightarrow> nat \<Rightarrow> event list \<Rightarrow> (event list \<times> nat) option" where
  "exec_loop dec buf offset out =
     (if bytes_remaining buf offset < 4 then Some (out, offset)
      else
        let type = js_at buf offset in
        if type \<in> {Some CHR ''+'', Some CHR ''-'', Some CHR '':'', Some CHR ''$'', Some CHR ''*''} then
          (case parse_result dec (length buf) buf type (offset + 1) of
             Incomplete \<Rightarrow> Some (out, offset)
           | Corrupt \<Rightarrow> None
           | POk ret off \<Rightarrow>
               if ret = RNull \<and> type \<noteq> Some CHR ''*'' then Some (out, off)
               else
                 let ret' = (if type = Some CHR ''$'' \<and> ret = RUndef then RNull else ret);
                     ev = (if type = Some CHR ''-'' then EError ret' else EReply ret')
                 in exec_loop dec buf off (out @ [ev]))
        else exec_loop dec buf (offset + 1) out)"
  by pat_completeness auto
termination
  by (relation "measure (\<lambda>(dec, buf, offset, out). length buf - offset)")
     (auto simp: bytes_remaining_def dest!: parse_offset_mono(1) split: if_splits)

declare exec_loop.simps [simp del]

record parser =
  rp_buffer :: "string option"
  rp_offset :: nat

definition new_parser :: parser where
  "new_parser = \<lparr>rp_buffer = None, rp_offset = 0\<rparr>"

definition append_buffer :: "string \<Rightarrow> parser \<Rightarrow> parser" where
  "append_buffer new p =
     (case rp_buffer p of
        None \<Rightarrow> p\<lparr>rp_buffer := Some new\<rparr>
      | Some b \<Rightarrow>
          if rp_offset p \<ge> length b then p\<lparr>rp_buffer := Some new, rp_offset := 0\<rparr>
          else p\<lparr>rp_buffer := Some (js_slice_from b (int (rp_offset p)) @ new), rp_offset := 0\<rparr>)"

definition execute :: "(string \<Rightarrow> string) \<Rightarrow> string \<Rightarrow> parser \<Rightarrow> (event list \<times> parser) option" where
  "execute dec new p =
     (let p1 = append_buffer new p in
      (case rp_buffer p1 of
         None \<Rightarrow> Some ([], p1)
       | Some b \<Rightarrow>
           (case exec_loop dec b (rp_offset p1) [] of
              None \<Rightarrow> None
            | Some (out, off) \<Rightarrow> Some (out, p1\<lparr>rp_offset := off\<rparr>))))"

end
