(* ===== verification/Redis_Stream.thy ===== *)
theory Redis_Stream
  imports Redis_Parser
begin

text \<open>
  What the parser of Redis replies promises to the client: the bytes of a sequence of replies,
  cut into chunks anywhere, give exactly those replies, in order. The lemmas follow the parser:
  the end of a line, a header, one reply, the items of a multi bulk reply, the loop of
  \<open>execute\<close>, a run over chunks. The received bytes \<open>drop offset buf\<close> are always a prefix of
  what the server sends: \<open>drop offset buf @ S\<close> with \<open>S\<close> the bytes still to come.
\<close>

section \<open>Well-formed replies\<close>

text \<open>
  A status or error line has no line break; an integer is one a JavaScript number holds exactly.
\<close>

definition line_ok :: "string \<Rightarrow> bool" where
  "line_ok s \<longleftrightarrow> list_all (\<lambda>c. c \<noteq> CHR 0x0D \<and> c \<noteq> CHR 0x0A) s"

fun wire_ok :: "wire \<Rightarrow> bool" where
  "wire_ok (WSimple s) \<longleftrightarrow> line_ok s"
| "wire_ok (WError s) \<longleftrightarrow> line_ok s"
| "wire_ok (WInt i) \<longleftrightarrow> \<bar>i\<bar> \<le> 2 ^ 53"
| "wire_ok (WArr ws) \<longleftrightarrow> list_all wire_ok ws"
| "wire_ok w \<longleftrightarrow> True"

text \<open>The value the client sees.\<close>

fun value_of :: "(string \<Rightarrow> string) \<Rightarrow> wire \<Rightarrow> reply" where
  "value_of dec (WSimple s) = RStr (if length s < 65536 then s else dec s)"
| "value_of dec (WError s) = RStr (if length s < 65536 then s else dec s)"
| "value_of dec (WInt i) = RNum (Some i)"
| "value_of dec (WBulk s) = RStr (dec s)"
| "value_of dec WNil = RNull"
| "value_of dec (WArr ws) = RArr (map (value_of dec) ws)"
| "value_of dec WNilArr = RNull"

fun event_of :: "(string \<Rightarrow> string) \<Rightarrow> wire \<Rightarrow> event" where
  "event_of dec (WError s) = EError (value_of dec (WError s))"
| "event_of dec w = EReply (value_of dec w)"

definition raw_of :: "(string \<Rightarrow> string) \<Rightarrow> wire \<Rightarrow> reply" where
  "raw_of dec w = (if w = WNil then RUndef else value_of dec w)"

lemma value_not_undef [simp]: "value_of dec w \<noteq> RUndef"
  by (cases w) auto

lemma raw_of_simps [simp]:
  "w \<noteq> WNil \<Longrightarrow> raw_of dec w = value_of dec w"
  "raw_of dec WNil = RUndef"
  "(if raw_of dec w = RUndef then RNull else raw_of dec w) = value_of dec w"
  by (auto simp: raw_of_def)

section \<open>Lines and headers\<close>

lemma prefix_nth:
  "drop n buf @ S = X \<Longrightarrow> n + i < length buf \<Longrightarrow> buf ! (n + i) = X ! i"
  by (metis add.commute length_drop less_diff_conv less_imp_le_nat nth_append nth_drop add_leD1 linorder_not_le
      trans_less_add1)

lemma packet_end_prefix:
  assumes "line_ok s" "drop offset buf @ S = s @ crlf @ X" "offset \<le> length buf"
  shows "packet_end_offset buf offset =
         (if offset + length s < length buf then Some (offset + length s + 1) else None)"
  using assms
proof (induction s arbitrary: offset)
  case Nil
  show ?case
  proof (cases "offset < length buf")
    case True
    then have "js_at buf offset = Some CHR 0x0D"
      using prefix_nth[OF Nil(2), of 0] by (simp add: js_at_def)
    then show ?thesis using True by (simp add: packet_end_offset.simps)
  next
    case False
    then show ?thesis by (simp add: packet_end_offset.simps js_at_def)
  qed
next
  case (Cons c s)
  have c: "c \<noteq> CHR 0x0D" "c \<noteq> CHR 0x0A" "line_ok s" using Cons.prems(1) by (auto simp: line_ok_def)
  show ?case
  proof (cases "offset < length buf")
    case True
    then have d: "drop offset buf = c # drop (Suc offset) buf" "drop (Suc offset) buf @ S = s @ crlf @ X"
      using Cons.prems(2) Cons_nth_drop_Suc[OF True] by (metis append_Cons list.inject)+
    have at0: "js_at buf offset = Some c"
      using True d(1) Cons_nth_drop_Suc[OF True] by (simp add: js_at_def)
    have "js_at buf (offset + 1) \<noteq> Some CHR 0x0A"
    proof (cases "Suc offset < length buf")
      case T: True
      have "buf ! (Suc offset) = (s @ crlf @ X) ! 0"
        using prefix_nth[OF d(2), of 0] T by simp
      moreover have "(s @ crlf @ X) ! 0 \<noteq> CHR 0x0A"
        using c(3) by (cases s) (auto simp: line_ok_def)
      ultimately show ?thesis by (simp add: js_at_def)
    qed (simp add: js_at_def)
    with at0 c show ?thesis
      using Cons.IH[OF c(3) d(2)] True
      by (subst packet_end_offset.simps) auto
  next
    case False
    then show ?thesis by (simp add: packet_end_offset.simps js_at_def)
  qed
qed

lemma prefix_take:
  assumes "drop n buf @ S = s @ X" "n + length s \<le> length buf"
  shows "take (length s) (drop n buf) = s"
proof -
  have "take (length s) (drop n buf @ S) = s" using assms(1) by simp
  then show ?thesis using assms(2) by (simp add: min_def split: if_splits)
qed

lemma prefix_drop:
  assumes "drop n buf @ S = s @ X" "n + length s \<le> length buf"
  shows "drop (n + length s) buf @ S = X"
proof -
  have "drop (length s) (drop n buf @ S) = X" using assms(1) by simp
  then show ?thesis using assms(2) by (simp add: add.commute)
qed

lemma parse_line_prefix:
  assumes "line_ok s" "drop offset buf @ S = s @ crlf @ X" "offset \<le> length buf"
  shows "parse_line buf offset =
         (if offset + length s < length buf then Some (s, offset + length s + 2) else None)"
  using packet_end_prefix[OF assms] prefix_take[OF assms(2)]
  by (simp add: parse_line_def Let_def)

lemma parse_header_prefix:
  assumes "line_ok s" "drop offset buf @ S = s @ crlf @ X" "offset \<le> length buf"
  shows "parse_header buf offset =
         (if offset + length s < length buf then Some (s, offset + length s + 2) else None)"
  using packet_end_prefix[OF assms] prefix_take[OF assms(2)]
  by (simp add: parse_header_def)

lemma digits_trim:
  assumes "list_all is_digit s"
  shows "trim_str s = s" "trim_str (CHR ''-'' # s) = CHR ''-'' # s" "line_ok s" "line_ok (CHR ''-'' # s)"
proof -
  have d: "\<forall>c\<in>set s. is_digit c" using assms by (simp add: list_all_iff)
  have sp: "\<forall>c\<in>set s. \<not> is_space c" using d digit_facts by blast
  show "trim_str s = s" "trim_str (CHR ''-'' # s) = CHR ''-'' # s"
    using sp by (intro trim_str_id; cases "s = []"; auto simp: is_space_def)+
  show "line_ok s" using d by (auto simp: line_ok_def list_all_iff is_digit_def)
  then show "line_ok (CHR ''-'' # s)" by (simp add: line_ok_def)
qed

lemma show_nat_all: "list_all is_digit (show_nat n)"
  using show_nat_digits by (simp add: list_all_iff)

lemma show_nat_not_minus: "hd (show_nat n) \<noteq> CHR ''-''"
  using show_nat_digits[of n] digit_facts hd_in_set[OF show_nat_nonempty] by metis

lemma to_number_show_nat [simp]: "to_number (show_nat n) = Some (int n)"
  using digits_trim[OF show_nat_all] by (simp add: to_number_def Let_def show_nat_all digits_val_show_nat show_nat_not_minus)

lemma to_number_show_int [simp]: "to_number (show_int i) = Some i"
  using digits_trim[OF show_nat_all]
  by (simp add: show_int_def to_number_def Let_def show_nat_all digits_val_show_nat show_nat_not_minus)

lemma line_ok_show [simp]: "line_ok (show_nat n)" "line_ok (show_int i)"
  using digits_trim[OF show_nat_all] by (auto simp: show_int_def)


section \<open>One reply\<close>

lemma encode_ge3: "3 \<le> length (encode w)"
  by (cases w) (auto simp: numeral_3_eq_3 Suc_le_eq)

lemma length_encodes_ge: "3 * length ws \<le> length (concat (map encode ws))"
proof (induction ws)
  case (Cons w ws)
  then show ?case using encode_ge3[of w] by simp
qed simp

lemma prefix_len: "drop n buf @ S = b @ X \<Longrightarrow> n \<le> length buf \<Longrightarrow>
    length buf + length S = n + length b + length X"
  by (drule arg_cong[where f = length]) simp

text \<open>
  What parsing a reply, or the items of one, of \<open>n\<close> bytes at \<open>offset\<close> may give when possibly only
  a prefix of it has arrived: the value and the offset after it, where at most the last two bytes
  (the delimiter) are missing; or a request for more data, only when bytes are missing.
\<close>

definition good :: "nat \<Rightarrow> nat \<Rightarrow> reply \<Rightarrow> nat \<Rightarrow> presult \<Rightarrow> bool" where
  "good len offset v n p \<longleftrightarrow>
     (p = POk v (offset + n) \<and> offset + n \<le> len + 2) \<or> (p = Incomplete \<and> len < offset + n)"

lemma goodI_ok: "p = POk v (offset + n) \<Longrightarrow> offset + n \<le> len + 2 \<Longrightarrow> good len offset v n p"
  by (simp add: good_def)

lemma goodI_more: "p = Incomplete \<Longrightarrow> len < offset + n \<Longrightarrow> good len offset v n p"
  by (simp add: good_def)

lemma good_shift: "good len (offset + m) v n p \<Longrightarrow> good len offset v (m + n) p"
  by (auto simp: good_def)

lemma encode_Cons: obtains t body where "encode w = t # body"
  using encode_ge3[of w] by (cases "encode w") auto

lemma items_late:
  "length buf < offset \<Longrightarrow> offset \<le> length buf + 2 \<Longrightarrow>
   good (length buf) offset (RArr (acc @ map (value_of dec) ws)) (length (concat (map encode ws)))
     (parse_items dec fuel buf (length ws) offset acc)"
  by (cases ws) (auto simp: good_def)

lemma items_prefix:
  assumes one: "\<And>w t body offset S X. w \<in> set ws \<Longrightarrow> encode w = t # body \<Longrightarrow>
      drop offset buf @ S = body @ X \<Longrightarrow> offset \<le> length buf \<Longrightarrow> start < offset \<Longrightarrow>
      good (length buf) offset (raw_of dec w) (length body) (parse_result dec fuel buf (Some t) offset)"
    and "drop offset buf @ S = concat (map encode ws) @ X" "offset \<le> length buf" "start \<le> offset"
  shows "good (length buf) offset (RArr (acc @ map (value_of dec) ws)) (length (concat (map encode ws)))
     (parse_items dec fuel buf (length ws) offset acc)"
  using assms
proof (induction ws arbitrary: offset acc)
  case Nil
  then show ?case by (simp add: good_def)
next
  case (Cons w ws)
  obtain t body where w: "encode w = t # body" by (rule encode_Cons)
  let ?n = "length (concat (map encode ws))"
  show ?case
  proof (cases "offset < length buf")
    case False
    then show ?thesis using Cons.prems(3) w by (simp add: good_def)
  next
    case True
    from Cons.prems(2) w have "drop offset buf @ S = t # body @ concat (map encode ws) @ X" by simp
    then have d: "js_at buf offset = Some t"
        "drop (Suc offset) buf @ S = body @ concat (map encode ws) @ X"
      using Cons_nth_drop_Suc[OF True] True by (metis append_Cons list.inject js_at_def)+
    have "good (length buf) (Suc offset) (raw_of dec w) (length body)
            (parse_result dec fuel buf (Some t) (Suc offset))"
      using Cons.prems(1)[OF _ w d(2)] Cons.prems(4) True by simp
    then consider
        "parse_result dec fuel buf (Some t) (Suc offset) = POk (raw_of dec w) (offset + length (encode w))"
        "offset + length (encode w) \<le> length buf + 2"
      | "parse_result dec fuel buf (Some t) (Suc offset) = Incomplete"
        "length buf < offset + length (encode w)"
      using w by (auto simp: good_def)
    then show ?thesis
    proof cases
      case 1
      let ?off = "offset + length (encode w)"
      have "good (length buf) ?off (RArr ((acc @ [value_of dec w]) @ map (value_of dec) ws)) ?n
              (parse_items dec fuel buf (length ws) ?off (acc @ [value_of dec w]))"
      proof (cases "?off \<le> length buf")
        case le: True
        have "drop ?off buf @ S = concat (map encode ws) @ X"
          using Cons.prems(2) le by (intro prefix_drop) auto
        then show ?thesis using Cons.prems(1,4) le by (intro Cons.IH) auto
      next
        case False
        then show ?thesis using 1(2) by (intro items_late) auto
      qed
      from good_shift[OF this] show ?thesis
        using 1(1) d(1) True by simp
    next
      case 2
      then show ?thesis using d(1) True by (simp add: good_def)
    qed
  qed
qed

lemma parse_prefix:
  "wire_ok w \<Longrightarrow> encode w = t # body \<Longrightarrow> drop offset buf @ S = body @ X \<Longrightarrow> offset \<le> length buf \<Longrightarrow>
   length buf < offset + fuel \<Longrightarrow>
   good (length buf) offset (raw_of dec w) (length body) (parse_result dec fuel buf (Some t) offset)"
proof (induction fuel arbitrary: w t body offset S X)
  case 0
  then show ?case by simp
next
  case (Suc fuel)
  show ?case
  proof (cases w)
    case (WSimple s)
    then show ?thesis using Suc.prems parse_line_prefix[of s offset buf S X] by (auto simp: good_def)
  next
    case (WError s)
    then show ?thesis using Suc.prems parse_line_prefix[of s offset buf S X] by (auto simp: good_def)
  next
    case (WInt i)
    then show ?thesis using Suc.prems parse_line_prefix[of "show_int i" offset buf S X] by (auto simp: good_def)
  next
    case WNil
    then show ?thesis using Suc.prems parse_header_prefix[of "''-1''" offset buf S X]
      by (auto simp: good_def line_ok_def to_number_def trim_str_def is_space_def is_digit_def digit_val_def Let_def)
  next
    case WNilArr
    then show ?thesis using Suc.prems parse_header_prefix[of "''-1''" offset buf S X]
      by (auto simp: good_def line_ok_def to_number_def trim_str_def is_space_def is_digit_def digit_val_def Let_def)
  next
    case (WBulk s)
    let ?h = "show_nat (length s)"
    have b: "t = CHR ''$''" "body = ?h @ crlf @ s @ crlf" using WBulk Suc.prems(2) by auto
    have hd: "parse_header buf offset =
        (if offset + length ?h < length buf then Some (?h, offset + length ?h + 2) else None)"
      using Suc.prems(3,4) b by (intro parse_header_prefix[where S = S and X = "s @ crlf @ X"]) auto
    show ?thesis
    proof (cases "offset + length ?h + 2 + length s \<le> length buf")
      case True
      have "drop (offset + length (?h @ crlf)) buf @ S = s @ crlf @ X"
        using Suc.prems(3) b True by (intro prefix_drop) auto
      then have "take (length s) (drop (offset + length ?h + 2) buf) = s"
        using True prefix_take[of "offset + length ?h + 2" buf S s "crlf @ X"] by simp
      then show ?thesis using True hd b WBulk by (intro goodI_ok) (auto simp: Let_def)
    next
      case False
      then show ?thesis using hd b by (intro goodI_more) (auto simp: Let_def)
    qed
  next
    case (WArr ws)
    let ?h = "show_nat (length ws)"
    have b: "t = CHR ''*''" "body = ?h @ crlf @ concat (map encode ws)" using WArr Suc.prems(2) by auto
    have hd: "parse_header buf offset =
        (if offset + length ?h < length buf then Some (?h, offset + length ?h + 2) else None)"
      using Suc.prems(3,4) b
      by (intro parse_header_prefix[where S = S and X = "concat (map encode ws) @ X"]) auto
    let ?start = "offset + (length ?h + 2)"
    show ?thesis
    proof (cases "offset + length ?h < length buf \<and> length ws \<le> bytes_remaining buf ?start")
      case True
      have ok: "\<forall>w'\<in>set ws. wire_ok w'"
        using Suc.prems(1) WArr by (simp add: list_all_iff)
      have "good (length buf) ?start (RArr ([] @ map (value_of dec) ws)) (length (concat (map encode ws)))
              (parse_items dec fuel buf (length ws) ?start [])"
      proof (cases "?start \<le> length buf")
        case le: True
        have "drop (offset + length (?h @ crlf)) buf @ S = concat (map encode ws) @ X"
          using Suc.prems(3) b le by (intro prefix_drop) auto
        then show ?thesis
          using ok le Suc.prems(5) by (intro items_prefix[where start = ?start]) (auto intro!: Suc.IH)
      next
        case False
        then show ?thesis using True by (intro items_late) auto
      qed
      from good_shift[OF this] show ?thesis
        using True hd b WArr by (simp add: add.assoc add.commute add.left_commute)
    next
      case False
      have "parse_result dec (Suc fuel) buf (Some t) offset = Incomplete"
        using False hd b by (auto simp: add.assoc)
      moreover have "length buf < offset + length body"
        using False b length_encodes_ge[of ws] by (auto simp: bytes_remaining_def)
      ultimately show ?thesis by (rule goodI_more)
    qed
  qed
qed

section \<open>The loop and the chunks\<close>

text \<open>
  The loop on a buffer whose unread bytes start with junk (a delimiter that arrived late) and
  continue as the replies \<open>ws\<close>: it emits some of them and leaves a position of the same kind;
  if every byte had arrived it emits all of them.
\<close>

definition junk :: "string \<Rightarrow> bool" where
  "junk j \<longleftrightarrow> (\<forall>c \<in> set j. c = CHR 0x0D \<or> c = CHR 0x0A) \<and> length j \<le> 2"

definition stream_at :: "wire list \<Rightarrow> string \<Rightarrow> nat \<Rightarrow> string \<Rightarrow> bool" where
  "stream_at ws buf offset S \<longleftrightarrow>
     (\<exists>j. junk j \<and> drop offset buf @ S = j @ concat (map encode ws))"

definition sendable :: "wire list \<Rightarrow> bool" where
  "sendable ws \<longleftrightarrow> list_all (\<lambda>w. wire_ok w \<and> 4 \<le> length (encode w)) ws"

lemma encode_type: "encode w = t # body \<Longrightarrow>
    t \<in> {CHR ''+'', CHR ''-'', CHR '':'', CHR ''$'', CHR ''*''} \<and>
    (t = CHR ''-'' \<longleftrightarrow> (\<exists>s. w = WError s)) \<and> (w = WNil \<longrightarrow> t = CHR ''$'') \<and> (t = CHR ''*'' \<longleftrightarrow> (\<exists>ws. w = WArr ws) \<or> w = WNilArr)"
  by (cases w) auto

lemma value_RNull: "value_of dec w = RNull \<longleftrightarrow> w = WNil \<or> w = WNilArr"
  by (cases w) auto

lemma exec_junk:
  "js_at buf offset = Some c \<Longrightarrow> c = CHR 0x0D \<or> c = CHR 0x0A \<Longrightarrow> \<not> length buf - offset < 4 \<Longrightarrow>
   exec_loop dec buf offset out = exec_loop dec buf (Suc offset) out"
  by (subst exec_loop.simps) (auto simp: bytes_remaining_def Let_def)

lemma exec_one:
  assumes "wire_ok w" "encode w = t # body" "drop (Suc offset) buf @ S = body @ X"
    and "js_at buf offset = Some t" "\<not> length buf - offset < 4"
  shows "exec_loop dec buf offset out = exec_loop dec buf (offset + length (encode w)) (out @ [event_of dec w]) \<and>
           offset + length (encode w) \<le> length buf + 2 \<or>
         exec_loop dec buf offset out = Some (out, offset) \<and> length buf < offset + length (encode w)"
proof -
  have g: "good (length buf) (Suc offset) (raw_of dec w) (length body)
          (parse_result dec (length buf) buf (Some t) (Suc offset))"
    using assms by (intro parse_prefix[where S = S and X = X]) auto
  have ev: "(if t = CHR ''-'' then EError (value_of dec w) else EReply (value_of dec w)) = event_of dec w"
    using encode_type[OF assms(2)] by (cases w) auto
  from g show ?thesis
  proof (unfold good_def, elim disjE conjE)
    assume a: "parse_result dec (length buf) buf (Some t) (Suc offset) = POk (raw_of dec w) (Suc offset + length body)"
      "Suc offset + length body \<le> length buf + 2"
    have "exec_loop dec buf offset out = exec_loop dec buf (Suc offset + length body) (out @ [event_of dec w])"
      using a(1) encode_type[OF assms(2)] assms(4,5) ev value_RNull[of dec w]
      by (subst exec_loop.simps) (auto simp: bytes_remaining_def Let_def raw_of_def)
    then show ?thesis using a(2) assms(2) by simp
  next
    assume a: "parse_result dec (length buf) buf (Some t) (Suc offset) = Incomplete"
      "length buf < Suc offset + length body"
    have "exec_loop dec buf offset out = Some (out, offset)"
      using a(1) encode_type[OF assms(2)] assms(4,5)
      by (subst exec_loop.simps) (auto simp: bytes_remaining_def Let_def)
    then show ?thesis using a(2) assms(2) by simp
  qed
qed

lemma encode_crlf: "\<exists>pre. encode w = pre @ crlf"
proof (induction w)
  case (WArr ws)
  show ?case
  proof (cases ws rule: rev_cases)
    case (snoc us u)
    with WArr obtain pre where "encode u = pre @ crlf" by auto
    with snoc show ?thesis by simp
  qed simp
qed auto

lemma junk_tail:
  assumes "length (encode w) \<le> n + 2"
  shows "junk (drop n (encode w))"
proof -
  obtain pre where "encode w = pre @ crlf" using encode_crlf by blast
  with assms have "drop n (encode w) = drop (n - length pre) crlf" "length (drop n (encode w)) \<le> 2"
    by auto
  then show ?thesis using set_drop_subset[of "n - length pre" crlf] by (auto simp: junk_def)
qed

lemma stream_at_next:
  assumes "drop offset buf @ S = encode w @ concat (map encode ws)" "offset \<le> length buf"
    and "offset + length (encode w) \<le> length buf + 2"
  shows "stream_at ws buf (offset + length (encode w)) S"
proof (cases "offset + length (encode w) \<le> length buf")
  case True
  then have "drop (offset + length (encode w)) buf @ S = concat (map encode ws)"
    using assms(1) by (rule prefix_drop[rotated])
  then show ?thesis by (simp add: stream_at_def junk_def)
next
  case False
  let ?n = "length buf - offset"
  have "drop ?n (drop offset buf @ S) = drop ?n (encode w) @ concat (map encode ws)"
    using assms False by simp
  then have "drop (offset + length (encode w)) buf @ S = drop ?n (encode w) @ concat (map encode ws)"
    using False by simp
  moreover have "junk (drop ?n (encode w))" using assms(2,3) by (intro junk_tail) simp
  ultimately show ?thesis by (auto simp: stream_at_def)
qed

lemma sendable_Cons [simp]:
  "sendable (w # ws) \<longleftrightarrow> wire_ok w \<and> 4 \<le> length (encode w) \<and> sendable ws"
  by (auto simp: sendable_def)

lemma exec_stops:
  assumes "exec_loop dec buf offset out = Some (out, offset)" "stream_at ws buf offset S"
    and "S = [] \<Longrightarrow> ws = []"
  shows "\<exists>k off. exec_loop dec buf offset out = Some (out @ map (event_of dec) (take k ws), off) \<and>
           stream_at (drop k ws) buf off S \<and> (S = [] \<longrightarrow> drop k ws = [])"
  using assms by (intro exI[of _ 0] exI[of _ offset]) simp

lemma exec_prefix:
  "stream_at ws buf offset S \<Longrightarrow> sendable ws \<Longrightarrow>
   \<exists>k off. exec_loop dec buf offset out = Some (out @ map (event_of dec) (take k ws), off) \<and>
           stream_at (drop k ws) buf off S \<and> (S = [] \<longrightarrow> drop k ws = [])"
proof (induction "length buf - offset" arbitrary: offset ws out rule: less_induct)
  case less
  from less.prems(1) obtain j where j: "junk j" "drop offset buf @ S = j @ concat (map encode ws)"
    by (auto simp: stream_at_def)
  show ?case
  proof (cases "length buf - offset < 4")
    case True
    have "S = [] \<Longrightarrow> ws = []"
    proof -
      assume "S = []"
      then have "length (concat (map encode ws)) < 4" using arg_cong[OF j(2), of length] True by simp
      then show "ws = []" using less.prems(2) by (cases ws) auto
    qed
    then show ?thesis using True less.prems(1)
      by (intro exec_stops) (simp_all add: exec_loop.simps bytes_remaining_def)
  next
    case False
    then have lt: "offset < length buf" by simp
    show ?thesis
    proof (cases j)
      case (Cons c j')
      from j(2) Cons lt have "js_at buf offset = Some c" "drop (Suc offset) buf @ S = j' @ concat (map encode ws)"
        using Cons_nth_drop_Suc[OF lt] by (metis append_Cons list.inject js_at_def)+
      moreover have "c = CHR 0x0D \<or> c = CHR 0x0A" "junk j'" using j(1) Cons by (auto simp: junk_def)
      ultimately show ?thesis
        using less.hyps[of "Suc offset" ws out] less.prems(2) lt exec_junk[of buf offset c dec out] False
        by (auto simp: stream_at_def)
    next
      case Nil
      have "ws \<noteq> []" using j(2) Nil lt by auto
      then obtain w ws' where ws: "ws = w # ws'" by (cases ws) auto
      obtain t body where w: "encode w = t # body" by (rule encode_Cons)
      have d0: "drop offset buf @ S = encode w @ concat (map encode ws')" using j(2) Nil ws by simp
      have d: "js_at buf offset = Some t" "drop (Suc offset) buf @ S = body @ concat (map encode ws')"
        using d0 w Cons_nth_drop_Suc[OF lt] lt by (metis append_Cons list.inject js_at_def)+
      from exec_one[OF _ w d(2,1) False, of dec out] less.prems(2) ws
      consider "exec_loop dec buf offset out = exec_loop dec buf (offset + length (encode w)) (out @ [event_of dec w])"
          "offset + length (encode w) \<le> length buf + 2"
        | "exec_loop dec buf offset out = Some (out, offset)" "length buf < offset + length (encode w)"
        by auto
      then show ?thesis
      proof cases
        case 1
        have "stream_at ws' buf (offset + length (encode w)) S"
          using d0 lt 1(2) by (intro stream_at_next) auto
        moreover have shorter: "length buf - (offset + length (encode w)) < length buf - offset"
          using lt w by simp
        moreover have sendable': "sendable ws'" using less.prems(2) ws by simp
        ultimately obtain k off where
          "exec_loop dec buf (offset + length (encode w)) (out @ [event_of dec w]) =
             Some ((out @ [event_of dec w]) @ map (event_of dec) (take k ws'), off)"
          "stream_at (drop k ws') buf off S" "S = [] \<longrightarrow> drop k ws' = []"
          using less.hyps[OF shorter _ sendable'] by blast
        then show ?thesis using 1(1) ws by (intro exI[of _ "Suc k"] exI[of _ off]) simp
      next
        case 2
        have "S = [] \<Longrightarrow> ws = []" using arg_cong[OF d0, of length] 2(2) lt by simp
        then show ?thesis using 2(1) less.prems(1) by (intro exec_stops)
      qed
    qed
  qed
qed

text \<open>Feeding the chunks of a transmission one \<open>data\<close> event at a time.\<close>

fun execute_all :: "(string \<Rightarrow> string) \<Rightarrow> string list \<Rightarrow> parser \<Rightarrow> (event list \<times> parser) option" where
  "execute_all dec [] p = Some ([], p)"
| "execute_all dec (c # cs) p =
     (case execute dec c p of
        None \<Rightarrow> None
      | Some (out, p1) \<Rightarrow>
          (case execute_all dec cs p1 of
             None \<Rightarrow> None
           | Some (out', p2) \<Rightarrow> Some (out @ out', p2)))"

definition pending :: "parser \<Rightarrow> string" where
  "pending p = (case rp_buffer p of None \<Rightarrow> [] | Some b \<Rightarrow> drop (rp_offset p) b)"

definition fresh_ok :: "parser \<Rightarrow> bool" where
  "fresh_ok p \<longleftrightarrow> (rp_buffer p = None \<longrightarrow> rp_offset p = 0)"

lemma append_pending:
  assumes "fresh_ok p"
  shows "\<exists>b. rp_buffer (append_buffer c p) = Some b \<and> rp_offset (append_buffer c p) = 0 \<and> b = pending p @ c \<or>
             rp_buffer (append_buffer c p) = Some b \<and> drop (rp_offset (append_buffer c p)) b = pending p @ c"
  using assms
  by (auto simp: append_buffer_def pending_def fresh_ok_def js_slice_from_def js_clamp_def min_def split: option.splits)

lemma chunks_prefix:
  "fresh_ok p \<Longrightarrow> junk j \<Longrightarrow> pending p @ concat cs = j @ concat (map encode ws) \<Longrightarrow> sendable ws \<Longrightarrow> cs \<noteq> [] \<Longrightarrow>
   \<exists>p'. execute_all dec cs p = Some (map (event_of dec) ws, p')"
proof (induction cs arbitrary: p j ws)
  case Nil
  then show ?case by simp
next
  case (Cons c cs)
  obtain b where b: "rp_buffer (append_buffer c p) = Some b"
    "drop (rp_offset (append_buffer c p)) b = pending p @ c"
    using append_pending[OF Cons.prems(1), of c] by auto
  let ?o = "rp_offset (append_buffer c p)"
  have "stream_at ws b ?o (concat cs)"
    using Cons.prems(2,3) b(2) by (auto simp: stream_at_def)
  then obtain k off where k: "exec_loop dec b ?o [] = Some (map (event_of dec) (take k ws), off)"
    "stream_at (drop k ws) b off (concat cs)" "concat cs = [] \<longrightarrow> drop k ws = []"
    using exec_prefix[of ws b ?o "concat cs" dec "[]"] Cons.prems(4) by auto
  let ?p = "(append_buffer c p)\<lparr>rp_offset := off\<rparr>"
  have ex: "execute dec c p = Some (map (event_of dec) (take k ws), ?p)"
    using b(1) k(1) by (simp add: execute_def Let_def)
  show ?case
  proof (cases cs)
    case Nil
    then show ?thesis using ex k(3) by simp
  next
    case (Cons c' cs')
    from k(2) obtain j' where "junk j'" "pending ?p @ concat cs = j' @ concat (map encode (drop k ws))"
      using b(1) by (auto simp: stream_at_def pending_def)
    moreover have "fresh_ok ?p" using b(1) by (simp add: fresh_ok_def)
    moreover have "sendable (drop k ws)"
      using Cons.prems(4) by (auto simp: sendable_def list_all_iff dest: in_set_dropD)
    ultimately obtain p' where "execute_all dec cs ?p = Some (map (event_of dec) (drop k ws), p')"
      using Cons.IH[of ?p j' "drop k ws"] Cons by blast
    then show ?thesis
      using ex by (auto simp flip: map_append)
  qed
qed

text \<open>
  C10. Reply streams survive any chunking. When the bytes of a sequence of well-formed replies (status
  and error lines without line breaks, integers a JavaScript number holds, bulk strings with
  arbitrary bytes, arbitrarily nested multi bulk replies, null replies; each of at least the four
  bytes \<open>execute\<close> waits for) reach the parser in any chunks, cut anywhere, the parser emits
  exactly one event per reply, in order and with the reply's value, and never reports corruption.
\<close>

theorem replies_survive_chunking:
  assumes "sendable ws" and "concat chunks = concat (map encode ws)"
  shows "map_option fst (execute_all dec chunks new_parser) = Some (map (event_of dec) ws)"
proof (cases chunks)
  case Nil
  then have "ws = []" using assms by (cases ws) auto
  then show ?thesis using Nil by simp
next
  case (Cons c cs)
  have "fresh_ok new_parser" "pending new_parser @ concat chunks = [] @ concat (map encode ws)" "junk []"
    using assms(2) by (simp_all add: fresh_ok_def new_parser_def pending_def junk_def)
  then show ?thesis using chunks_prefix[of new_parser "[]" chunks ws dec] assms(1) Cons by auto
qed

theorem replies_survive_chunking_witness:
  "map_option fst (execute_all id [''*2'', CHR 0x0D # CHR 0x0A # ''$3'', CHR 0x0D # CHR 0x0A # ''a'' @ [CHR 0x0D],
       ''b'', CHR 0x0D # CHR 0x0A # ''$-1'', crlf @ ''-no'' @ [CHR 0x0D], [CHR 0x0A]] new_parser) =
   Some [EReply (RArr [RStr (''a'' @ [CHR 0x0D] @ ''b''), RNull]), EError (RStr ''no'')]"
  (is "map_option fst (execute_all id ?chunks new_parser) = Some ?events")
proof -
  let ?ws = "[WArr [WBulk (''a'' @ [CHR 0x0D] @ ''b''), WNil], WError ''no'']"
  have "sendable ?ws" by code_simp
  moreover have "concat ?chunks = concat (map encode ?ws)" by code_simp
  ultimately have "map_option fst (execute_all id ?chunks new_parser) = Some (map (event_of id) ?ws)"
    by (rule replies_survive_chunking)
  moreover have "map (event_of id) ?ws = ?events" by simp
  ultimately show ?thesis by (simp only:)
qed

end
