(* ===== verification/Collapse.thy ===== *)
theory Collapse
  imports Dom
begin

text \<open>
  The collapsible panels of \<open>public/js/bootstrap.js\<close>. A page is a list of panel elements and the
  \<open>Collapse\<close> objects created for them; a panel's \<open>data('bs.collapse')\<close> is the index of its object.
  An accordion parent is shared by the panels marked \<open>pn_grouped\<close> (the children
  \<open>> .panel > *\<close> of the parent). \<open>prevents\<close> says for which elements a listener prevents the
  default of the \<open>show\<close> and \<open>hide\<close> events.
\<close>

section \<open>State\<close>

record panel =
  pn_classes :: classes
  pn_data :: "nat option"
  pn_grouped :: bool

record cobj =
  co_el :: nat
  co_parent :: bool
  co_trans :: bool

text \<open>A pending end of a transition: the element, the object, and whether it completes a show.\<close>

record page =
  pg_panels :: "panel list"
  pg_objs :: "cobj list"
  pg_pending :: "(nat \<times> nat \<times> bool) list"
  pg_support :: bool

definition panel_has :: "string \<Rightarrow> page \<Rightarrow> nat \<Rightarrow> bool" where
  "panel_has c p i \<longleftrightarrow> has_class c (pn_classes (pg_panels p ! i))"

definition on_panel :: "nat \<Rightarrow> (classes \<Rightarrow> classes) \<Rightarrow> page \<Rightarrow> page" where
  "on_panel i f p = p\<lparr>pg_panels := (pg_panels p)[i := (pg_panels p ! i)\<lparr>pn_classes := f (pn_classes (pg_panels p ! i))\<rparr>]\<rparr>"

definition set_trans :: "nat \<Rightarrow> bool \<Rightarrow> page \<Rightarrow> page" where
  "set_trans ob t p = p\<lparr>pg_objs := (pg_objs p)[ob := (pg_objs p ! ob)\<lparr>co_trans := t\<rparr>]\<rparr>"

definition set_data :: "nat \<Rightarrow> nat option \<Rightarrow> page \<Rightarrow> page" where
  "set_data i d p = p\<lparr>pg_panels := (pg_panels p)[i := (pg_panels p ! i)\<lparr>pn_data := d\<rparr>]\<rparr>"

section \<open>Methods\<close>

text \<open>The two \<open>complete\<close> functions.\<close>

definition show_complete :: "nat \<Rightarrow> page \<Rightarrow> page" where
  "show_complete ob p =
     set_trans ob False (on_panel (co_el (pg_objs p ! ob)) (\<lambda>c. add_class ''in'' (remove_class ''collapsing'' c)) p)"

definition hide_complete :: "nat \<Rightarrow> page \<Rightarrow> page" where
  "hide_complete ob p =
     on_panel (co_el (pg_objs p ! ob)) (\<lambda>c. add_class ''collapse'' (remove_class ''collapsing'' c)) (set_trans ob False p)"

definition hide :: "(nat \<Rightarrow> bool) \<Rightarrow> nat \<Rightarrow> page \<Rightarrow> page" where
  "hide prevents ob p =
     (let el = co_el (pg_objs p ! ob) in
      if co_trans (pg_objs p ! ob) \<or> \<not> panel_has ''in'' p el then p
      else if prevents el then p
      else
        let p1 = on_panel el (\<lambda>c. remove_class ''in'' (remove_class ''collapse'' (add_class ''collapsing'' c))) p;
            p2 = set_trans ob True p1
        in if \<not> pg_support p then hide_complete ob p2
           else p2\<lparr>pg_pending := pg_pending p2 @ [(el, ob, False)]\<rparr>)"

text \<open>
  \<open>$(el).collapse('hide')\<close> for an element with class \<open>in\<close>: without an object one is created,
  whose \<open>toggle\<close> option already hides the element before the explicit call.
\<close>

definition plugin_hide :: "(nat \<Rightarrow> bool) \<Rightarrow> nat \<Rightarrow> page \<Rightarrow> page" where
  "plugin_hide prevents el p =
     (case pn_data (pg_panels p ! el) of
        Some ob \<Rightarrow> hide prevents ob p
      | None \<Rightarrow>
          let ob = length (pg_objs p);
              p1 = p\<lparr>pg_objs := pg_objs p @ [\<lparr>co_el = el, co_parent = False, co_trans = False\<rparr>]\<rparr>;
              p2 = hide prevents ob p1;
              p3 = set_data el (Some ob) p2
          in hide prevents ob p3)"

definition actives :: "page \<Rightarrow> nat list" where
  "actives p = filter (\<lambda>i. pn_grouped (pg_panels p ! i) \<and> panel_has ''in'' p i) [0..<length (pg_panels p)]"

definition show_rest :: "nat \<Rightarrow> page \<Rightarrow> page" where
  "show_rest ob p =
     (let el = co_el (pg_objs p ! ob);
          p1 = on_panel el (\<lambda>c. add_class ''collapsing'' (remove_class ''collapse'' c)) p;
          p2 = set_trans ob True p1
      in if \<not> pg_support p then show_complete ob p2
         else p2\<lparr>pg_pending := pg_pending p2 @ [(el, ob, True)]\<rparr>)"

definition show_panel :: "(nat \<Rightarrow> bool) \<Rightarrow> nat \<Rightarrow> page \<Rightarrow> page" where
  "show_panel prevents ob p =
     (let el = co_el (pg_objs p ! ob) in
      if co_trans (pg_objs p ! ob) \<or> panel_has ''in'' p el then p
      else if prevents el then p
      else
        let acts = (if co_parent (pg_objs p ! ob) then actives p else []) in
        if acts = [] then show_rest ob p
        else
          (case pn_data (pg_panels p ! hd acts) of
             Some od \<Rightarrow>
               if co_trans (pg_objs p ! od) then p
               else show_rest ob (foldl (\<lambda>p i. plugin_hide prevents i p) p acts)
           | None \<Rightarrow>
               show_rest ob (foldl (\<lambda>p i. set_data i None p) (foldl (\<lambda>p i. plugin_hide prevents i p) p acts) acts)))"

definition toggle_panel :: "(nat \<Rightarrow> bool) \<Rightarrow> nat \<Rightarrow> page \<Rightarrow> page" where
  "toggle_panel prevents ob p =
     (if panel_has ''in'' p (co_el (pg_objs p ! ob)) then hide prevents ob p else show_panel prevents ob p)"

text \<open>
  A click on a panel's heading: \<open>collapse('toggle')\<close> for an element with an object, otherwise
  \<open>collapse(options)\<close>, which creates the object (its constructor toggles) before storing it.
\<close>

definition click_heading :: "(nat \<Rightarrow> bool) \<Rightarrow> bool \<Rightarrow> nat \<Rightarrow> page \<Rightarrow> page" where
  "click_heading prevents parent el p =
     (case pn_data (pg_panels p ! el) of
        Some ob \<Rightarrow> toggle_panel prevents ob p
      | None \<Rightarrow>
          let ob = length (pg_objs p);
              p1 = p\<lparr>pg_objs := pg_objs p @ [\<lparr>co_el = el, co_parent = parent, co_trans = False\<rparr>]\<rparr>
          in set_data el (Some ob) (toggle_panel prevents ob p1))"

text \<open>The end of the transitions of an element: every handler bound to it runs once.\<close>

definition panel_transition_end :: "nat \<Rightarrow> page \<Rightarrow> page" where
  "panel_transition_end el p =
     foldl (\<lambda>p (_, ob, sh). if sh then show_complete ob p else hide_complete ob p)
       (p\<lparr>pg_pending := filter (\<lambda>(e, _). e \<noteq> el) (pg_pending p)\<rparr>)
       (filter (\<lambda>(e, _). e = el) (pg_pending p))"

text \<open>All pending transitions run to their end, in the order in which they started.\<close>

definition settle :: "page \<Rightarrow> page" where
  "settle p = foldl (\<lambda>p (el, _). panel_transition_end el p) p (pg_pending p)"

definition open_panels :: "page \<Rightarrow> nat list" where
  "open_panels p = filter (panel_has ''in'' p) [0..<length (pg_panels p)]"

definition accordion :: "bool \<Rightarrow> nat \<Rightarrow> page" where
  "accordion support n =
     \<lparr>pg_panels = replicate n \<lparr>pn_classes = [''panel-collapse'', ''collapse''], pn_data = None, pn_grouped = True\<rparr>,
      pg_objs = [], pg_pending = [], pg_support = support\<rparr>"

section \<open>The accordion contract\<close>

lemma panel_has_on_panel [simp]:
  "panel_has c (on_panel i f p) k =
     (if k = i \<and> i < length (pg_panels p) then has_class c (f (pn_classes (pg_panels p ! k))) else panel_has c p k)"
  by (auto simp: panel_has_def on_panel_def nth_update_if)

lemma panel_view [simp]:
  "panel_has c (set_trans ob t p) k = panel_has c p k"
  "panel_has c (p\<lparr>pg_pending := q\<rparr>) k = panel_has c p k"
  "panel_has c (p\<lparr>pg_objs := os\<rparr>) k = panel_has c p k"
  "panel_has c (set_data i d p) k = panel_has c p k"
  by (auto simp: panel_has_def set_trans_def set_data_def nth_update_if)

lemma page_fields [simp]:
  "pg_objs (on_panel i f p) = pg_objs p" "pg_pending (on_panel i f p) = pg_pending p"
  "pg_support (on_panel i f p) = pg_support p" "length (pg_panels (on_panel i f p)) = length (pg_panels p)"
  "pg_panels (set_trans ob t p) = pg_panels p" "pg_pending (set_trans ob t p) = pg_pending p"
  "pg_support (set_trans ob t p) = pg_support p" "length (pg_objs (set_trans ob t p)) = length (pg_objs p)"
  "pg_objs (set_data i d p) = pg_objs p" "pg_pending (set_data i d p) = pg_pending p"
  "pg_support (set_data i d p) = pg_support p" "length (pg_panels (set_data i d p)) = length (pg_panels p)"
  by (simp_all add: on_panel_def set_trans_def set_data_def)

lemma page_nth [simp]:
  "i < length (pg_panels p) \<Longrightarrow> pn_data (pg_panels (on_panel k f p) ! i) = pn_data (pg_panels p ! i)"
  "i < length (pg_panels p) \<Longrightarrow> pn_grouped (pg_panels (on_panel k f p) ! i) = pn_grouped (pg_panels p ! i)"
  "i < length (pg_panels p) \<Longrightarrow> pn_grouped (pg_panels (set_data k d p) ! i) = pn_grouped (pg_panels p ! i)"
  "i < length (pg_panels p) \<Longrightarrow> pn_data (pg_panels (set_data k d p) ! i) = (if i = k then d else pn_data (pg_panels p ! i))"
  "i < length (pg_panels p) \<Longrightarrow> pn_classes (pg_panels (set_data k d p) ! i) = pn_classes (pg_panels p ! i)"
  "i < length (pg_panels p) \<Longrightarrow> pn_classes (pg_panels (on_panel k f p) ! i) =
     (if i = k then f (pn_classes (pg_panels p ! i)) else pn_classes (pg_panels p ! i))"
  "ob < length (pg_objs p) \<Longrightarrow> co_el (pg_objs (set_trans o2 t p) ! ob) = co_el (pg_objs p ! ob)"
  "ob < length (pg_objs p) \<Longrightarrow> co_parent (pg_objs (set_trans o2 t p) ! ob) = co_parent (pg_objs p ! ob)"
  "ob < length (pg_objs p) \<Longrightarrow> co_trans (pg_objs (set_trans o2 t p) ! ob) = (if ob = o2 then t else co_trans (pg_objs p ! ob))"
  by (auto simp: on_panel_def set_data_def set_trans_def nth_update_if)

text \<open>A page at rest: no transition under way, every object belongs to its panel.\<close>

definition at_rest :: "page \<Rightarrow> bool" where
  "at_rest p \<longleftrightarrow> pg_pending p = [] \<and>
     (\<forall>ob < length (pg_objs p). \<not> co_trans (pg_objs p ! ob)) \<and>
     (\<forall>i < length (pg_panels p). pn_grouped (pg_panels p ! i) \<and>
        (\<forall>ob. pn_data (pg_panels p ! i) = Some ob \<longrightarrow>
           ob < length (pg_objs p) \<and> co_el (pg_objs p ! ob) = i \<and> co_parent (pg_objs p ! ob)))"

text \<open>One object's show or hide, followed by the end of its transition.\<close>

lemma settle_one:
  "pg_pending p = [(el, ob, sh)] \<Longrightarrow>
   settle p = (if sh then show_complete ob else hide_complete ob) (p\<lparr>pg_pending := []\<rparr>)"
  by (simp add: settle_def panel_transition_end_def)

lemma settle_two:
  "pg_pending p = [(e1, o1, s1), (e2, o2, s2)] \<Longrightarrow> e1 \<noteq> e2 \<Longrightarrow>
   settle p = (if s2 then show_complete o2 else hide_complete o2)
     ((if s1 then show_complete o1 else hide_complete o1) (p\<lparr>pg_pending := [(e2, o2, s2)]\<rparr>)\<lparr>pg_pending := []\<rparr>)"
  by (auto simp: settle_def panel_transition_end_def show_complete_def hide_complete_def)

lemma settle_none: "pg_pending p = [] \<Longrightarrow> settle p = p"
  by (simp add: settle_def)


lemma at_restD:
  assumes "at_rest p" "i < length (pg_panels p)" "pn_data (pg_panels p ! i) = Some ob"
  shows "ob < length (pg_objs p)" "co_el (pg_objs p ! ob) = i" "co_parent (pg_objs p ! ob)" "\<not> co_trans (pg_objs p ! ob)"
  using assms by (auto simp: at_rest_def)

lemma more_objs [simp]:
  "ob < length (pg_objs p) \<Longrightarrow> pg_objs (p\<lparr>pg_objs := pg_objs p @ xs\<rparr>) ! ob = pg_objs p ! ob"
  by (simp add: nth_append)

text \<open>What hiding and showing one panel of a page without pending transitions leads to.\<close>

definition toggled :: "nat \<Rightarrow> bool \<Rightarrow> page \<Rightarrow> page \<Rightarrow> bool" where
  "toggled el v p q \<longleftrightarrow> pg_pending q = [] \<and> length (pg_panels q) = length (pg_panels p) \<and>
     pg_objs q = pg_objs p \<and> pg_support q = pg_support p \<and>
     (\<forall>k < length (pg_panels p). pn_data (pg_panels q ! k) = pn_data (pg_panels p ! k) \<and>
        pn_grouped (pg_panels q ! k) = pn_grouped (pg_panels p ! k) \<and>
        (panel_has ''in'' q k \<longleftrightarrow> (if k = el then v else panel_has ''in'' p k)))"

lemma set_trans_back:
  "ob < length (pg_objs p) \<Longrightarrow> \<not> co_trans (pg_objs p ! ob) \<Longrightarrow> (pg_objs p)[ob := (pg_objs p ! ob)\<lparr>co_trans := False\<rparr>] = pg_objs p"
  by (metis (full_types) cobj.surjective cobj.update_convs(3) list_update_id)

lemma set_trans_objs: "pg_objs (set_trans ob t p) = (pg_objs p)[ob := (pg_objs p ! ob)\<lparr>co_trans := t\<rparr>]"
  by (simp add: set_trans_def)

lemma hide_settled:
  assumes "pg_pending p = []" "ob < length (pg_objs p)" "co_el (pg_objs p ! ob) = el" "el < length (pg_panels p)"
    and "\<not> co_trans (pg_objs p ! ob)" "panel_has ''in'' p el"
  shows "toggled el False p (settle (hide (\<lambda>_. False) ob p))"
  using assms
  by (cases "pg_support p")
     (simp_all add: toggled_def hide_def Let_def settle_one settle_none hide_complete_def set_trans_objs set_trans_back)

lemma show_settled:
  assumes "pg_pending p = []" "ob < length (pg_objs p)" "co_el (pg_objs p ! ob) = el" "el < length (pg_panels p)"
    and "\<not> co_trans (pg_objs p ! ob)"
  shows "toggled el True p (settle (show_rest ob p))"
  using assms
  by (cases "pg_support p")
     (simp_all add: toggled_def show_rest_def Let_def settle_one settle_none show_complete_def set_trans_objs set_trans_back)


definition same_objs :: "page \<Rightarrow> page \<Rightarrow> bool" where
  "same_objs p q \<longleftrightarrow> length (pg_objs q) = length (pg_objs p) \<and>
     (\<forall>ob < length (pg_objs p). co_el (pg_objs q ! ob) = co_el (pg_objs p ! ob) \<and>
        co_parent (pg_objs q ! ob) = co_parent (pg_objs p ! ob) \<and> co_trans (pg_objs q ! ob) = co_trans (pg_objs p ! ob))"

definition swapped :: "nat \<Rightarrow> nat \<Rightarrow> page \<Rightarrow> page \<Rightarrow> bool" where
  "swapped j el p q \<longleftrightarrow> pg_pending q = [] \<and> length (pg_panels q) = length (pg_panels p) \<and> same_objs p q \<and>
     (\<forall>k < length (pg_panels p). pn_data (pg_panels q ! k) = pn_data (pg_panels p ! k) \<and>
        pn_grouped (pg_panels q ! k) = pn_grouped (pg_panels p ! k) \<and>
        (panel_has ''in'' q k \<longleftrightarrow> k = el \<or> k \<noteq> j \<and> panel_has ''in'' p k))"

text \<open>A step on one panel and its object: the panel's \<open>in\<close> and the object's flag may change.\<close>

definition upd :: "nat \<Rightarrow> bool \<Rightarrow> nat \<Rightarrow> bool \<Rightarrow> page \<Rightarrow> page \<Rightarrow> bool" where
  "upd j v od t p q \<longleftrightarrow> length (pg_panels q) = length (pg_panels p) \<and> length (pg_objs q) = length (pg_objs p) \<and>
     pg_support q = pg_support p \<and>
     (\<forall>k < length (pg_panels p). pn_data (pg_panels q ! k) = pn_data (pg_panels p ! k) \<and>
        pn_grouped (pg_panels q ! k) = pn_grouped (pg_panels p ! k) \<and>
        (panel_has ''in'' q k \<longleftrightarrow> (if k = j then v else panel_has ''in'' p k))) \<and>
     (\<forall>x < length (pg_objs p). co_el (pg_objs q ! x) = co_el (pg_objs p ! x) \<and>
        co_parent (pg_objs q ! x) = co_parent (pg_objs p ! x) \<and>
        co_trans (pg_objs q ! x) = (if x = od then t else co_trans (pg_objs p ! x)))"

definition owns :: "nat \<Rightarrow> nat \<Rightarrow> page \<Rightarrow> bool" where
  "owns ob el p \<longleftrightarrow> ob < length (pg_objs p) \<and> co_el (pg_objs p ! ob) = el \<and> el < length (pg_panels p)"

lemma upd_completes:
  assumes "owns od j p"
  shows "upd j (panel_has ''in'' p j) od False p (hide_complete od p)" "upd j True od False p (show_complete od p)"
  using assms by (simp_all add: owns_def upd_def hide_complete_def show_complete_def) (simp add: panel_has_def)

lemma upd_starts:
  assumes "owns od j p" "pg_support p"
  shows "\<not> co_trans (pg_objs p ! od) \<Longrightarrow> panel_has ''in'' p j \<Longrightarrow>
      upd j False od True p (hide (\<lambda>_. False) od p) \<and> pg_pending (hide (\<lambda>_. False) od p) = pg_pending p @ [(j, od, False)]"
    and "upd j (panel_has ''in'' p j) od True p (show_rest od p) \<and> pg_pending (show_rest od p) = pg_pending p @ [(j, od, True)]"
  using assms by (simp_all add: owns_def upd_def hide_def show_rest_def Let_def) (simp add: panel_has_def)

lemma upd_immediate:
  assumes "owns od j p" "\<not> pg_support p"
  shows "\<not> co_trans (pg_objs p ! od) \<Longrightarrow> panel_has ''in'' p j \<Longrightarrow>
      upd j False od False p (hide (\<lambda>_. False) od p) \<and> pg_pending (hide (\<lambda>_. False) od p) = pg_pending p"
    and "upd j True od False p (show_rest od p) \<and> pg_pending (show_rest od p) = pg_pending p"
  using assms by (simp_all add: owns_def upd_def hide_def show_rest_def Let_def hide_complete_def show_complete_def)

lemma upd_pending: "upd j v od t p (q\<lparr>pg_pending := x\<rparr>) \<longleftrightarrow> upd j v od t p q"
  "upd j v od t (p\<lparr>pg_pending := x\<rparr>) q \<longleftrightarrow> upd j v od t p q"
  by (simp_all add: upd_def)

lemma upd_owns: "upd j v od t p q \<Longrightarrow> owns ob el p \<Longrightarrow> owns ob el q"
  by (simp add: upd_def owns_def)

lemma owns_pending [simp]: "owns ob el (p\<lparr>pg_pending := x\<rparr>) \<longleftrightarrow> owns ob el p"
  by (simp add: owns_def)

lemma swap_compose:
  assumes "upd j False od True p p1" "upd el (panel_has ''in'' p1 el) ob True p1 p2"
    "upd j (panel_has ''in'' p2 j) od False p2 p3" "upd el True ob False p3 p4" "pg_pending p4 = []"
    and "od \<noteq> ob" "j \<noteq> el" "\<not> co_trans (pg_objs p ! ob)" "\<not> co_trans (pg_objs p ! od)"
  shows "swapped j el p p4"
  using assms unfolding swapped_def same_objs_def upd_def by (auto split: if_splits)

lemma swap_compose_immediate:
  assumes "upd j False od False p p1" "upd el True ob False p1 p2" "pg_pending p2 = []"
    and "od \<noteq> ob" "j \<noteq> el" "\<not> co_trans (pg_objs p ! ob)" "\<not> co_trans (pg_objs p ! od)"
  shows "swapped j el p p2"
  using assms unfolding swapped_def same_objs_def upd_def by (auto split: if_splits)

lemma hide_show_settled:
  assumes "pg_pending p = []" "owns ob el p" "\<not> co_trans (pg_objs p ! ob)"
    and "owns od j p" "\<not> co_trans (pg_objs p ! od)" "panel_has ''in'' p j" "j \<noteq> el"
  shows "swapped j el p (settle (show_rest ob (hide (\<lambda>_. False) od p)))"
proof -
  have ne: "od \<noteq> ob" using assms by (auto simp: owns_def)
  define p1 where "p1 = hide (\<lambda>_. False) od p"
  define p2 where "p2 = show_rest ob p1"
  have "swapped j el p (settle p2)"
  proof (cases "pg_support p")
    case True
    define p3 where "p3 = hide_complete od (p2\<lparr>pg_pending := [(el, ob, True)]\<rparr>)"
    define p4 where "p4 = show_complete ob (p3\<lparr>pg_pending := []\<rparr>)"
    have 1: "upd j False od True p p1" "pg_pending p1 = [(j, od, False)]"
      using upd_starts(1)[OF assms(4) True assms(5,6)] assms(1) by (simp_all add: p1_def)
    have "pg_support p1" using 1 True by (simp add: upd_def)
    then have 2: "upd el (panel_has ''in'' p1 el) ob True p1 p2" "pg_pending p2 = [(j, od, False), (el, ob, True)]"
      using upd_starts(2)[OF upd_owns[OF 1(1) assms(2)]] 1(2) by (simp_all add: p2_def)
    have "owns od j (p2\<lparr>pg_pending := [(el, ob, True)]\<rparr>)"
      using upd_owns[OF 2(1) upd_owns[OF 1(1) assms(4)]] by simp
    from upd_completes(1)[OF this] have 3: "upd j (panel_has ''in'' p2 j) od False p2 p3"
      by (simp add: upd_pending p3_def)
    have "owns ob el (p3\<lparr>pg_pending := []\<rparr>)"
      using upd_owns[OF 3 upd_owns[OF 2(1) upd_owns[OF 1(1) assms(2)]]] by simp
    from upd_completes(2)[OF this] have 4: "upd el True ob False p3 p4"
      by (simp add: upd_pending p4_def)
    have "pg_pending p4 = []" by (simp add: p4_def show_complete_def)
    moreover have "settle p2 = p4" using settle_two[OF 2(2) assms(7)] by (simp add: p3_def p4_def)
    ultimately show ?thesis using swap_compose[OF 1(1) 2(1) 3 4 _ ne assms(7,3,5)] by simp
  next
    case False
    have 1: "upd j False od False p p1" "pg_pending p1 = []"
      using upd_immediate(1)[OF assms(4) False assms(5,6)] assms(1) by (simp_all add: p1_def)
    have "\<not> pg_support p1" using 1 False by (simp add: upd_def)
    then have 2: "upd el True ob False p1 p2" "pg_pending p2 = []"
      using upd_immediate(2)[OF upd_owns[OF 1(1) assms(2)]] 1(2) by (simp_all add: p2_def)
    show ?thesis
      using swap_compose_immediate[OF 1(1) 2 ne assms(7,3,5)] settle_none[OF 2(2)] by simp
  qed
  then show ?thesis by (simp add: p1_def p2_def)
qed

lemma on_panel_set_data: "on_panel k f (set_data i d p) = set_data i d (on_panel k f p)"
proof (cases "i = k")
  case True
  then show ?thesis
    by (cases "k < length (pg_panels p)"; cases "pg_panels p ! k")
       (simp_all add: on_panel_def set_data_def list_update_beyond)
next
  case False
  then have "(pg_panels p)[i := x, k := y] = (pg_panels p)[k := y, i := x]" for x y
    by (rule list_update_swap)
  then show ?thesis using False by (simp add: on_panel_def set_data_def)
qed

lemma set_data_commutes:
  "on_panel k f (set_data i d p) = set_data i d (on_panel k f p)"
  "set_trans ob t (set_data i d p) = set_data i d (set_trans ob t p)"
  "(set_data i d p)\<lparr>pg_pending := q\<rparr> = set_data i d (p\<lparr>pg_pending := q\<rparr>)"
  by (rule on_panel_set_data, simp_all add: set_data_def set_trans_def)

lemma complete_set_data:
  "show_complete ob (set_data i d p) = set_data i d (show_complete ob p)"
  "hide_complete ob (set_data i d p) = set_data i d (hide_complete ob p)"
  by (simp_all add: show_complete_def hide_complete_def set_data_commutes(1-3))

lemma end_set_data: "panel_transition_end el (set_data i d p) = set_data i d (panel_transition_end el p)"
proof -
  have "foldl (\<lambda>p (_, ob, sh). if sh then show_complete ob p else hide_complete ob p) (set_data i d q) hs =
      set_data i d (foldl (\<lambda>p (_, ob, sh). if sh then show_complete ob p else hide_complete ob p) q hs)" for q and hs :: "(nat \<times> nat \<times> bool) list"
    by (induction hs arbitrary: q) (auto simp: complete_set_data)
  then show ?thesis by (simp add: panel_transition_end_def set_data_commutes(3))
qed

lemma settle_set_data: "settle (set_data i d p) = set_data i d (settle p)"
proof -
  have "foldl (\<lambda>p (el, _). panel_transition_end el p) (set_data i d q) hs =
      set_data i d (foldl (\<lambda>p (el, _). panel_transition_end el p) q hs)" for q and hs :: "(nat \<times> nat \<times> bool) list"
    by (induction hs arbitrary: q) (auto simp: end_set_data)
  then show ?thesis by (simp add: settle_def)
qed

lemma set_data_same: "pn_data (pg_panels p ! i) = d \<Longrightarrow> set_data i d p = p"
proof -
  assume "pn_data (pg_panels p ! i) = d"
  then have "(pg_panels p ! i)\<lparr>pn_data := d\<rparr> = pg_panels p ! i" by (cases "pg_panels p ! i") simp
  then show ?thesis by (simp add: set_data_def)
qed

lemma set_data_twice: "set_data i d (set_data i d' p) = set_data i d p"
  by (cases "i < length (pg_panels p)") (simp_all add: set_data_def list_update_beyond)

definition new_obj :: "nat \<Rightarrow> bool \<Rightarrow> page \<Rightarrow> page" where
  "new_obj el parent p = p\<lparr>pg_objs := pg_objs p @ [\<lparr>co_el = el, co_parent = parent, co_trans = False\<rparr>]\<rparr>"

lemma new_obj_view [simp]:
  "pg_panels (new_obj el b p) = pg_panels p" "pg_pending (new_obj el b p) = pg_pending p"
  "length (pg_objs (new_obj el b p)) = Suc (length (pg_objs p))"
  "x < length (pg_objs p) \<Longrightarrow> pg_objs (new_obj el b p) ! x = pg_objs p ! x"
  "pg_objs (new_obj el b p) ! length (pg_objs p) = \<lparr>co_el = el, co_parent = b, co_trans = False\<rparr>"
  "panel_has c (new_obj el b p) k = panel_has c p k" "actives (new_obj el b p) = actives p"
  by (simp_all add: new_obj_def nth_append panel_has_def actives_def)

text \<open>Hiding a panel that has no object: one is created, and the explicit second hide does nothing.\<close>

lemma plugin_hide_fresh:
  assumes "pn_data (pg_panels p ! j) = None" "j < length (pg_panels p)" "panel_has ''in'' p j"
  shows "plugin_hide (\<lambda>_. False) j p =
         set_data j (Some (length (pg_objs p))) (hide (\<lambda>_. False) (length (pg_objs p)) (new_obj j False p))"
proof -
  let ?od = "length (pg_objs p)"
  let ?h = "hide (\<lambda>_. False) ?od (new_obj j False p)"
  have own: "owns ?od j (new_obj j False p)" using assms(2) by (simp add: owns_def)
  have "co_trans (pg_objs ?h ! ?od) \<or> \<not> panel_has ''in'' ?h j"
  proof (cases "pg_support p")
    case True
    then have "pg_support (new_obj j False p)" by (simp add: new_obj_def)
    from upd_starts(1)[OF own this] assms(3) show ?thesis by (simp add: upd_def)
  next
    case False
    then have "\<not> pg_support (new_obj j False p)" by (simp add: new_obj_def)
    from upd_immediate(1)[OF own this] assms(2,3) show ?thesis by (simp add: upd_def)
  qed
  moreover have "co_el (pg_objs ?h ! ?od) = j"
    using own by (auto simp: hide_def Let_def owns_def hide_complete_def)
  ultimately have "hide (\<lambda>_. False) ?od (set_data j (Some ?od) ?h) = set_data j (Some ?od) ?h"
    by (auto simp: hide_def Let_def)
  then show ?thesis using assms(1) by (simp add: plugin_hide_def Let_def new_obj_def)
qed

definition kept :: "page \<Rightarrow> page \<Rightarrow> bool" where
  "kept p q \<longleftrightarrow> pg_pending q = [] \<and> length (pg_panels q) = length (pg_panels p) \<and>
     (\<forall>k < length (pg_panels p). pn_data (pg_panels q ! k) = pn_data (pg_panels p ! k) \<and>
        pn_grouped (pg_panels q ! k) = pn_grouped (pg_panels p ! k)) \<and>
     length (pg_objs p) \<le> length (pg_objs q) \<and>
     (\<forall>x < length (pg_objs p). co_el (pg_objs q ! x) = co_el (pg_objs p ! x) \<and>
        co_parent (pg_objs q ! x) = co_parent (pg_objs p ! x)) \<and>
     (\<forall>x < length (pg_objs q). \<not> co_trans (pg_objs q ! x))"

definition all_quiet :: "page \<Rightarrow> bool" where
  "all_quiet p \<longleftrightarrow> pg_pending p = [] \<and> (\<forall>x < length (pg_objs p). \<not> co_trans (pg_objs p ! x))"

lemma toggled_kept: "toggled el v p q \<Longrightarrow> all_quiet p \<Longrightarrow> kept p q"
  by (simp add: toggled_def kept_def all_quiet_def)

lemma swapped_kept: "swapped j el p q \<Longrightarrow> all_quiet p \<Longrightarrow> kept p q"
  by (simp add: swapped_def same_objs_def kept_def all_quiet_def)

lemma kept_new_obj: "kept (new_obj j b p) q \<Longrightarrow> kept p q"
  by (auto simp: kept_def)

lemma open_panels_iff: "k \<in> set (open_panels p) \<longleftrightarrow> k < length (pg_panels p) \<and> panel_has ''in'' p k"
  by (auto simp: open_panels_def)


text \<open>Toggling an object of a quiet page in which at most one panel is open.\<close>

lemma toggle_settled:
  assumes q: "all_quiet q" "owns ob el q" "co_parent (pg_objs q ! ob)"
    and grouped: "\<forall>i < length (pg_panels q). pn_grouped (pg_panels q ! i)"
    and data: "\<forall>i < length (pg_panels q). \<forall>od. pn_data (pg_panels q ! i) = Some od \<longrightarrow> owns od i q"
    and one: "\<forall>i < length (pg_panels q). \<forall>k < length (pg_panels q). panel_has ''in'' q i \<longrightarrow> panel_has ''in'' q k \<longrightarrow> i = k"
  defines "r \<equiv> settle (toggle_panel (\<lambda>_. False) ob q)"
  shows "kept q r \<and> (\<forall>k < length (pg_panels q). panel_has ''in'' r k \<longleftrightarrow> k = el \<and> \<not> panel_has ''in'' q el)"
proof -
  have el: "ob < length (pg_objs q)" "co_el (pg_objs q ! ob) = el" "el < length (pg_panels q)"
    "pg_pending q = []" "\<not> co_trans (pg_objs q ! ob)"
    using q by (auto simp: owns_def all_quiet_def)
  show ?thesis
  proof (cases "panel_has ''in'' q el")
    case True
    then have "r = settle (hide (\<lambda>_. False) ob q)" using el by (simp add: r_def toggle_panel_def)
    then have "toggled el False q r" using hide_settled[OF el(4,1-3,5) True] by simp
    with toggled_kept[OF this q(1)] show ?thesis
      using one True el(3) by (auto simp: toggled_def)
  next
    case False
    have r: "r = settle (show_panel (\<lambda>_. False) ob q)" using False el by (simp add: r_def toggle_panel_def)
    have acts: "set (actives q) = {i. i < length (pg_panels q) \<and> panel_has ''in'' q i}" "distinct (actives q)"
      using grouped by (auto simp: actives_def)
    show ?thesis
    proof (cases "actives q")
      case Nil
      then have "r = settle (show_rest ob q)" using r el False by (simp add: show_panel_def)
      then have "toggled el True q r" using show_settled[OF el(4,1-3,5)] by simp
      with toggled_kept[OF this q(1)] show ?thesis
        using acts Nil False by (auto simp: toggled_def)
    next
      case (Cons j js)
      then have j: "j < length (pg_panels q)" "panel_has ''in'' q j" using acts by auto
      have jel: "j \<noteq> el" using j False by auto
      have "js = []"
      proof (rule ccontr)
        assume "js \<noteq> []"
        then have "hd js \<in> set (actives q)" "j \<in> set (actives q)" "hd js \<noteq> j"
          using acts(2) Cons by (auto simp: neq_Nil_conv)
        then show False using one acts(1) by auto
      qed
      then have act: "actives q = [j]" using Cons by simp
      have only: "panel_has ''in'' q k \<longleftrightarrow> k = j" if "k < length (pg_panels q)" for k
        using one j that by blast
      show ?thesis
      proof (cases "pn_data (pg_panels q ! j)")
        case (Some od)
        then have od: "owns od j q" "\<not> co_trans (pg_objs q ! od)"
          using data j(1) q(1) by (auto simp: all_quiet_def owns_def)
        have "r = settle (show_rest ob (hide (\<lambda>_. False) od q))"
          using r el False act Some od q(3) by (simp add: show_panel_def plugin_hide_def)
        then have "swapped j el q r" using hide_show_settled[OF el(4) q(2) el(5) od j(2) jel] by simp
        with swapped_kept[OF this q(1)] show ?thesis using only False by (auto simp: swapped_def)
      next
        case None
        let ?q = "new_obj j False q"
        let ?od = "length (pg_objs q)"
        let ?h = "hide (\<lambda>_. False) ?od ?q"
        have od: "owns ?od j ?q" "\<not> co_trans (pg_objs ?q ! ?od)" using j(1) by (simp_all add: owns_def)
        have nodata: "pn_data (pg_panels ?h ! j) = None"
        proof (cases "pg_support ?q")
          case True
          from upd_starts(1)[OF od(1) True od(2)] j None show ?thesis by (simp add: upd_def)
        next
          case False
          from upd_immediate(1)[OF od(1) False od(2)] j None show ?thesis by (simp add: upd_def)
        qed
        have "r = settle (show_rest ob (set_data j None (set_data j (Some ?od) ?h)))"
          using r el False act None q(3) plugin_hide_fresh[OF None j] by (simp add: show_panel_def)
        then have "r = settle (show_rest ob ?h)"
          by (simp add: set_data_twice set_data_same[OF nodata])
        moreover have "owns ob el ?q" "\<not> co_trans (pg_objs ?q ! ob)" "pg_pending ?q = []"
          using el by (simp_all add: owns_def)
        ultimately have "swapped j el ?q r"
          using hide_show_settled[of ?q ob el ?od j] od j(2) jel by simp
        moreover have "all_quiet ?q" using q(1) by (auto simp: all_quiet_def less_Suc_eq)
        ultimately have "kept ?q r" "swapped j el ?q r" using swapped_kept by blast+
        then show ?thesis using kept_new_obj[of j False q r] only False by (auto simp: swapped_def)
      qed
    qed
  qed
qed


definition at_most_one_open :: "page \<Rightarrow> bool" where
  "at_most_one_open p \<longleftrightarrow> length (open_panels p) \<le> 1"

lemma at_most_oneD:
  assumes "at_most_one_open p" "i < length (pg_panels p)" "k < length (pg_panels p)" "panel_has ''in'' p i" "panel_has ''in'' p k"
  shows "i = k"
proof -
  have m: "i \<in> set (open_panels p)" "k \<in> set (open_panels p)" using assms by (simp_all add: open_panels_iff)
  then obtain x where "open_panels p = [x]"
    using assms(1) by (cases "open_panels p"; cases "tl (open_panels p)") (auto simp: at_most_one_open_def)
  with m show ?thesis by simp
qed

lemma open_panels_eq:
  assumes "\<And>k. k < length (pg_panels q) \<Longrightarrow> panel_has ''in'' q k \<longleftrightarrow> k = el \<and> v" "el < length (pg_panels q)"
  shows "open_panels q = (if v then [el] else [])"
proof (rule sorted_distinct_set_unique)
  show "sorted (open_panels q)" "distinct (open_panels q)"
    by (simp_all add: open_panels_def sorted_wrt_filter)
  show "set (open_panels q) = set (if v then [el] else [])"
    using assms by (auto simp: open_panels_iff)
qed simp_all

lemma at_rest_quiet: "at_rest p \<Longrightarrow> all_quiet p"
  by (simp add: at_rest_def all_quiet_def)

lemma click_settled:
  assumes "at_rest p" "el < length (pg_panels p)" "at_most_one_open p"
  shows "at_rest (settle (click_heading (\<lambda>_. False) True el p)) \<and>
         open_panels (settle (click_heading (\<lambda>_. False) True el p)) = (if panel_has ''in'' p el then [] else [el])"
proof -
  have grouped: "\<forall>i < length (pg_panels p). pn_grouped (pg_panels p ! i)"
    and owned: "\<And>i od. i < length (pg_panels p) \<Longrightarrow> pn_data (pg_panels p ! i) = Some od \<Longrightarrow>
        owns od i p \<and> co_parent (pg_objs p ! od)"
    using assms(1) by (auto simp: at_rest_def owns_def)
  have one: "\<forall>i < length (pg_panels p). \<forall>k < length (pg_panels p).
      panel_has ''in'' p i \<longrightarrow> panel_has ''in'' p k \<longrightarrow> i = k"
    using at_most_oneD[OF assms(3)] by blast
  show ?thesis
  proof (cases "pn_data (pg_panels p ! el)")
    case (Some ob)
    let ?r = "settle (toggle_panel (\<lambda>_. False) ob p)"
    have k: "kept p ?r \<and> (\<forall>k < length (pg_panels p). panel_has ''in'' ?r k \<longleftrightarrow> k = el \<and> \<not> panel_has ''in'' p el)"
      by (rule toggle_settled[OF at_rest_quiet[OF assms(1)]]) (use owned Some assms(2) grouped one in auto)
    then have "at_rest ?r"
      using owned grouped by (fastforce simp: at_rest_def kept_def owns_def)
    moreover have "open_panels ?r = (if \<not> panel_has ''in'' p el then [el] else [])"
      using k assms(2) by (intro open_panels_eq) (auto simp: kept_def)
    ultimately show ?thesis using Some by (simp add: click_heading_def)
  next
    case None
    let ?q = "new_obj el True p"
    let ?ob = "length (pg_objs p)"
    let ?r = "settle (toggle_panel (\<lambda>_. False) ?ob ?q)"
    have quiet: "all_quiet ?q" using at_rest_quiet[OF assms(1)] by (auto simp: all_quiet_def less_Suc_eq)
    have k: "kept ?q ?r \<and> (\<forall>k < length (pg_panels ?q). panel_has ''in'' ?r k \<longleftrightarrow> k = el \<and> \<not> panel_has ''in'' ?q el)"
    proof (rule toggle_settled[OF quiet])
      show "owns ?ob el ?q" using assms(2) by (simp add: owns_def)
      show "\<forall>i < length (pg_panels ?q). \<forall>od. pn_data (pg_panels ?q ! i) = Some od \<longrightarrow> owns od i ?q"
        using owned by (fastforce simp: owns_def)
    qed (use grouped one in auto)
    let ?s = "set_data el (Some ?ob) ?r"
    have new: "co_el (pg_objs ?r ! ?ob) = el" "co_parent (pg_objs ?r ! ?ob)" "?ob < length (pg_objs ?r)"
      "\<And>x. x < ?ob \<Longrightarrow> co_el (pg_objs ?r ! x) = co_el (pg_objs p ! x) \<and> co_parent (pg_objs ?r ! x) = co_parent (pg_objs p ! x)"
      using k by (auto simp: kept_def less_Suc_eq)
    have data: "ob < length (pg_objs ?r) \<and> co_el (pg_objs ?r ! ob) = i \<and> co_parent (pg_objs ?r ! ob)"
      if "i < length (pg_panels p)" "pn_data (pg_panels ?s ! i) = Some ob" for i ob
      using that new owned[of i ob] k by (cases "i = el") (auto simp: kept_def owns_def)
    then have "at_rest ?s"
      using grouped k unfolding at_rest_def by (simp add: kept_def)
    moreover have "open_panels ?s = (if \<not> panel_has ''in'' p el then [el] else [])"
      using k assms(2) by (intro open_panels_eq) (auto simp: kept_def)
    ultimately show ?thesis
      using None by (simp add: click_heading_def Let_def settle_set_data flip: new_obj_def)
  qed
qed

text \<open>
  The accordion keeps its promise when the page is at rest: a click on a heading opens its panel
  and closes the one that was open, or closes it when it was open, so at most one panel is open, and the
  page is at rest again when the transitions have ended (with and without transition support,
  and whether or not the panels have their objects yet).
\<close>

theorem accordion_click:
  assumes "at_rest p" "el < length (pg_panels p)" "at_most_one_open p"
  shows "at_rest (settle (click_heading (\<lambda>_. False) True el p)) \<and>
         open_panels (settle (click_heading (\<lambda>_. False) True el p)) = (if panel_has ''in'' p el then [] else [el])"
  by (rule click_settled[OF assms])

lemma accordion_rest: "at_rest (accordion t n)" "at_most_one_open (accordion t n)" "length (pg_panels (accordion t n)) = n"
  by (auto simp: at_rest_def accordion_def at_most_one_open_def open_panels_def panel_has_def has_class_def)

theorem accordion_click_witness:
  "at_rest (settle (click_heading (\<lambda>_. False) True 1 (accordion True 3))) \<and>
   open_panels (settle (click_heading (\<lambda>_. False) True 1 (accordion True 3))) = [1]"
proof -
  have "\<not> panel_has ''in'' (accordion True 3) 1" by (simp add: panel_has_def accordion_def has_class_def)
  then show ?thesis
    using accordion_click[OF accordion_rest(1), of 1 True 3] accordion_rest(2,3)[of True 3] by simp
qed

text \<open>
  The promise is lost while a transition runs: a panel that is opening is not \<open>in\<close> yet, so a
  second click during the first transition opens its panel too and both stay open.
\<close>

theorem accordion_race:
  "open_panels (settle (click_heading (\<lambda>_. False) True 1 (click_heading (\<lambda>_. False) True 0 (accordion True 2)))) = [0, 1]"
  by code_simp

end
