(* ===== verification/Block_UI.thy ===== *)
theory Block_UI
  imports JS_Prelude
begin

text \<open>
  \<open>web/public/js/jquery.blockUI.js\<close>: covering the page or an element with layers while something is
  going on. Blocking and unblocking, the timer that unblocks, the ends of the fades and the
  filter on keyboard and mouse events. A layer is a record with its place in the document; an element
  used as the message remembers where it came from. Fades and timers are pending until an event ends
  them. Callbacks of the user are logged in the order they are called. The branch for Internet
  Explorer 6 and 7 (style expressions), dragging and growl messages are in \<open>Block_Growl\<close> and \<open>Block_Legacy\<close>.
\<close>

section \<open>Options\<close>

datatype target = Window | Elem nat

datatype js_fun = FNull | FUndef | FFun nat

text \<open>
  The message: \<open>null\<close>, text, an element, or a jQuery set by its first element, if it has one.
\<close>

datatype message = MNull | MText string | MElem nat | MSet "nat option"

record bopts =
  bo_message :: message
  bo_title :: "string option"
  bo_theme :: bool
  bo_css :: "string obj"
  bo_themed_css :: "string obj"
  bo_overlay_css :: "string obj"
  bo_cursor_reset :: string
  bo_force_iframe :: bool
  bo_base_z :: int
  bo_bind_events :: bool
  bo_constrain_tab :: bool
  bo_fade_in :: nat
  bo_fade_out :: nat
  bo_timeout :: nat
  bo_show_overlay :: bool
  bo_on_block :: js_fun
  bo_on_unblock :: js_fun
  bo_on_overlay_click :: js_fun
  bo_msg_class :: string
  bo_ignore_if_blocked :: bool

definition default_css :: "string obj" where
  "default_css = [(''padding'', ''0''), (''margin'', ''0''), (''width'', ''30%''), (''top'', ''40%''), (''left'', ''35%''),
     (''textAlign'', ''center''), (''color'', ''#000''), (''border'', ''3px solid #aaa''),
     (''backgroundColor'', ''#fff''), (''cursor'', ''wait'')]"

definition default_themed_css :: "string obj" where
  "default_themed_css = [(''width'', ''30%''), (''top'', ''40%''), (''left'', ''35%'')]"

definition default_overlay_css :: "string obj" where
  "default_overlay_css = [(''backgroundColor'', ''#000''), (''opacity'', ''0.6''), (''cursor'', ''wait'')]"

definition growl_css :: "string obj" where
  "growl_css = [(''width'', ''350px''), (''top'', ''10px''), (''left'', ''''), (''right'', ''10px''), (''border'', ''none''),
     (''padding'', ''5px''), (''opacity'', ''0.6''), (''cursor'', ''default''), (''color'', ''#fff''),
     (''backgroundColor'', ''#000''), (''-webkit-border-radius'', ''10px''), (''-moz-border-radius'', ''10px''),
     (''border-radius'', ''10px'')]"

definition block_defaults :: bopts where
  "block_defaults = \<lparr>bo_message = MText ''<h1>Please wait...</h1>'', bo_title = None, bo_theme = False, bo_css = default_css,
     bo_themed_css = default_themed_css, bo_overlay_css = default_overlay_css, bo_cursor_reset = ''default'',
     bo_force_iframe = False, bo_base_z = 1000, bo_bind_events = True, bo_constrain_tab = True,
     bo_fade_in = 200, bo_fade_out = 400, bo_timeout = 0, bo_show_overlay = True, bo_on_block = FNull,
     bo_on_unblock = FNull, bo_on_overlay_click = FNull, bo_msg_class = ''blockMsg'', bo_ignore_if_blocked = False\<rparr>"

text \<open>
  The options of a call as what \<open>$.extend\<close> makes of the defaults; \<open>extend_style\<close> is the same for style objects.
\<close>

type_synonym override = "bopts \<Rightarrow> bopts"

definition extend_style :: "string obj \<Rightarrow> string obj \<Rightarrow> string obj" where
  "extend_style base over = foldl (\<lambda>st (k, v). obj_set k v st) base over"

fun truthy_msg :: "message \<Rightarrow> bool" where
  "truthy_msg MNull = False"
| "truthy_msg (MText s) = (s \<noteq> [])"
| "truthy_msg _ = True"

fun fun_of :: "js_fun \<Rightarrow> nat option" where
  "fun_of (FFun f) = Some f"
| "fun_of _ = None"

section \<open>The document\<close>

datatype kind = Shim | Overlay | Message

datatype anim = Still | FadingIn "nat option" | FadingOut nat

record block_layer =
  ly_id :: nat
  ly_kind :: kind
  ly_host :: "target option"
  ly_shown :: bool
  ly_anim :: anim
  ly_style :: "string obj"
  ly_classes :: "string list"
  ly_is_div :: bool

text \<open>
  An element that can be a message: where it hangs (in the page, in a layer, nowhere), its inline
  display and position, and what a style sheet says of its display.
\<close>

datatype place = Nowhere | InPage nat | InLayer nat

record node =
  nd_place :: place
  nd_display :: string
  nd_position :: string
  nd_css_hidden :: bool
  nd_default_display :: string

record history =
  hi_el :: nat
  hi_parent :: place
  hi_display :: string
  hi_position :: string

text \<open>\<open>$(el).data('blockUI.*')\<close> of one element.\<close>

record block_data =
  td_blocked :: bool
  td_history :: "history option"
  td_on_unblock :: js_fun
  td_timeout :: "nat option"
  td_static :: bool

text \<open>A running \<open>fadeOut\<close> of \<open>remove\<close> with what its closure captured.\<close>

record fade =
  fd_id :: nat
  fd_count :: nat
  fd_els :: "nat list"
  fd_hist :: "history option"
  fd_on_unblock :: js_fun
  fd_target :: target

datatype logged = LBlock nat | LUnblock nat target | LTypeError

text \<open>
  Siblings: \<open>bu_moved\<close> are the message elements that were appended to what they hang in after the page was
  loaded, in the order in which that happened. Of the elements of one parent those not in it stand first, in
  the order of the page; the others follow in this order. \<open>bu_handlers\<close> are the handlers bound to the document
  with their event types.
\<close>

record bstate =
  bu_msie :: bool
  bu_layers :: "block_layer list"
  bu_nodes :: "nat \<Rightarrow> node"
  bu_moved :: "nat list"
  bu_data :: "target \<Rightarrow> block_data"
  bu_position :: "target \<Rightarrow> string"
  bu_page_block :: "nat option"
  bu_handlers :: "(string \<times> bopts) list"
  bu_timers :: "(nat \<times> target \<times> bopts) list"
  bu_fades :: "fade list"
  bu_log :: "logged list"
  bu_next :: nat

definition on_layers :: "(block_layer \<Rightarrow> bool) \<Rightarrow> (block_layer \<Rightarrow> block_layer) \<Rightarrow> bstate \<Rightarrow> bstate" where
  "on_layers P f s = s\<lparr>bu_layers := map (\<lambda>l. if P l then f l else l) (bu_layers s)\<rparr>"

definition on_data :: "target \<Rightarrow> (block_data \<Rightarrow> block_data) \<Rightarrow> bstate \<Rightarrow> bstate" where
  "on_data t f s = s\<lparr>bu_data := (bu_data s)(t := f (bu_data s t))\<rparr>"

definition log_event :: "logged \<Rightarrow> bstate \<Rightarrow> bstate" where
  "log_event x s = s\<lparr>bu_log := bu_log s @ [x]\<rparr>"

definition log_opt_event :: "logged option \<Rightarrow> bstate \<Rightarrow> bstate" where
  "log_opt_event x s = (case x of None \<Rightarrow> s | Some y \<Rightarrow> log_event y s)"

text \<open>The layers in an element (of the body, for the window), in document order.\<close>

definition layers_at :: "target \<Rightarrow> bstate \<Rightarrow> nat list" where
  "layers_at t s = map ly_id (filter (\<lambda>l. ly_host l = Some t) (bu_layers s))"

section \<open>bind and reset\<close>

definition bound_events :: "string list" where
  "bound_events = [''mousedown'', ''mouseup'', ''keydown'', ''keypress'', ''keyup'', ''touchstart'', ''touchend'', ''touchmove'']"

definition move_last :: "nat \<Rightarrow> nat list \<Rightarrow> nat list" where
  "move_last n moved = filter (\<lambda>m. m \<noteq> n) moved @ [n]"

definition bind_block :: "bool \<Rightarrow> target \<Rightarrow> bopts \<Rightarrow> bstate \<Rightarrow> bstate" where
  "bind_block b t o' s =
     (if \<not> b \<and> (t = Window \<and> bu_page_block s = None \<or> t \<noteq> Window \<and> \<not> td_blocked (bu_data s t)) then s
      else
        let s1 = on_data t (\<lambda>d. d\<lparr>td_blocked := b\<rparr>) s
        in if t \<noteq> Window \<or> \<not> bo_bind_events o' \<or> b \<and> \<not> bo_show_overlay o' then s1
           else if b then s1\<lparr>bu_handlers := bu_handlers s1 @ map (\<lambda>e. (e, o')) bound_events\<rparr>
           else s1\<lparr>bu_handlers := filter (\<lambda>(e, _). e \<notin> set bound_events) (bu_handlers s1)\<rparr>)"

text \<open>The display and the position are set; \<open>appendChild\<close> makes the element the last child of its old parent.\<close>

definition restore_node :: "history \<Rightarrow> bstate \<Rightarrow> bstate" where
  "restore_node h s =
     (let n = (bu_nodes s (hi_el h))\<lparr>nd_display := hi_display h, nd_position := hi_position h\<rparr>;
          n1 = (if hi_parent h = Nowhere then n else n\<lparr>nd_place := hi_parent h\<rparr>)
      in s\<lparr>bu_nodes := (bu_nodes s)(hi_el h := n1),
           bu_moved := (if hi_parent h = Nowhere then bu_moved s else move_last (hi_el h) (bu_moved s))\<rparr>)"

definition reset_block :: "nat list \<Rightarrow> history option \<Rightarrow> js_fun \<Rightarrow> target \<Rightarrow> bstate \<Rightarrow> bstate" where
  "reset_block els hist onun t s =
     (if td_blocked (bu_data s t) then s
      else
        let s1 = on_layers (\<lambda>l. ly_id l \<in> set els) (\<lambda>l. l\<lparr>ly_host := None\<rparr>) s;
            s2 = (case hist of None \<Rightarrow> s1
                  | Some h \<Rightarrow> on_data t (\<lambda>d. d\<lparr>td_history := None\<rparr>) (restore_node h s1));
            s3 = (if td_static (bu_data s2 t) then s2\<lparr>bu_position := (bu_position s2)(t := ''static'')\<rparr> else s2)
        in log_opt_event (map_option (\<lambda>f. LUnblock f t) (fun_of onun)) s3)"

section \<open>remove\<close>

text \<open>
  \<open>els.stop().fadeOut(...)\<close>: running animations are dropped without their callbacks; a hidden layer
  is done at once. The callback counts down and the last one resets.
\<close>

definition fade_out :: "nat list \<Rightarrow> history option \<Rightarrow> js_fun \<Rightarrow> target \<Rightarrow> bstate \<Rightarrow> bstate" where
  "fade_out els hist onun t s =
     (let g = bu_next s;
          visible = length (filter (\<lambda>l. ly_id l \<in> set els \<and> ly_shown l) (bu_layers s));
          s1 = on_layers (\<lambda>l. ly_id l \<in> set els) (\<lambda>l. l\<lparr>ly_anim := (if ly_shown l then FadingOut g else Still)\<rparr>) s;
          s2 = s1\<lparr>bu_next := Suc g,
                  bu_fades := bu_fades s1 @ [\<lparr>fd_id = g, fd_count = visible, fd_els = els, fd_hist = hist,
                                             fd_on_unblock = onun, fd_target = t\<rparr>]\<rparr>
      in if els \<noteq> [] \<and> visible = 0 then reset_block els hist onun t s2 else s2)"

definition set_cursor :: "string \<Rightarrow> nat option \<Rightarrow> bstate \<Rightarrow> bstate" where
  "set_cursor c i s =
     (case i of None \<Rightarrow> s
      | Some x \<Rightarrow> on_layers (\<lambda>l. ly_id l = x) (\<lambda>l. l\<lparr>ly_style := obj_set ''cursor'' c (ly_style l)\<rparr>) s)"

definition cancel_timer :: "target \<Rightarrow> bstate \<Rightarrow> bstate" where
  "cancel_timer t s =
     (case td_timeout (bu_data s t) of None \<Rightarrow> s
      | Some i \<Rightarrow> on_data t (\<lambda>d. d\<lparr>td_timeout := None\<rparr>)
          (s\<lparr>bu_timers := filter (\<lambda>(j, _). j \<noteq> i) (bu_timers s)\<rparr>))"

text \<open>\<open>remove\<close> up to the fading: timer, handlers, the stored callback, the cursor, the page block.\<close>

definition drop_block :: "target \<Rightarrow> bopts \<Rightarrow> bstate \<Rightarrow> bstate" where
  "drop_block t o' s =
     (let s2 = bind_block False t o' (cancel_timer t s);
          s3 = (if bo_on_unblock o' = FNull then on_data t (\<lambda>d. d\<lparr>td_on_unblock := FUndef\<rparr>) s2 else s2);
          els = layers_at t s3;
          s4 = (if bo_cursor_reset o' = [] then s3
                else set_cursor (bo_cursor_reset o') (js_at els 2) (set_cursor (bo_cursor_reset o') (js_at els 1) s3))
      in if t = Window then s4\<lparr>bu_page_block := None\<rparr> else s4)"

definition remove_block :: "target \<Rightarrow> override \<Rightarrow> bstate \<Rightarrow> bstate" where
  "remove_block t ov s =
     (let hist = td_history (bu_data s t);
          o' = ov block_defaults;
          onun = (if bo_on_unblock o' = FNull then td_on_unblock (bu_data s t) else bo_on_unblock o');
          s1 = drop_block t o' s;
          els = layers_at t s1
      in if bo_fade_out o' \<noteq> 0 then fade_out els hist onun t s1 else reset_block els hist onun t s1)"

section \<open>install\<close>

definition frame_style :: "string obj" where
  "frame_style = [(''border'', ''none''), (''margin'', ''0''), (''padding'', ''0''), (''width'', ''100%''),
     (''height'', ''100%''), (''top'', ''0''), (''left'', ''0'')]"

text \<open>The three layers, hidden, with identifiers from \<open>i\<close> on.\<close>

definition make_layers :: "bool \<Rightarrow> target \<Rightarrow> bopts \<Rightarrow> nat \<Rightarrow> block_layer list" where
  "make_layers msie t o' i =
     (let full = (t = Window);
          iframe = (msie \<or> bo_force_iframe o');
          z1 = bo_base_z o' + (if iframe then 1 else 0);
          msg = truthy_msg (bo_message o');
          overlay_css = extend_style default_overlay_css (bo_overlay_css o');
          overlay_css1 = (if bo_on_overlay_click o' = FNull then overlay_css else obj_set ''cursor'' ''pointer'' overlay_css);
          theme_classes = (if bo_theme o' then [''ui-dialog'', ''ui-widget'', ''ui-corner-all''] else []);
          shim = \<lparr>ly_id = i, ly_kind = Shim, ly_host = Some t, ly_shown = False, ly_anim = Still,
            ly_style = (if iframe then (''z-index'', show_int (bo_base_z o')) # frame_style @
              [(''position'', ''absolute''), (''opacity'', ''0'')] else []),
            ly_classes = [''blockUI''], ly_is_div = (\<not> iframe)\<rparr>;
          overlay = \<lparr>ly_id = i + 1, ly_kind = Overlay, ly_host = Some t, ly_shown = False, ly_anim = Still,
            ly_style = obj_set ''position'' (if full then ''fixed'' else ''absolute'')
              (if bo_theme o' then [(''z-index'', show_int z1)]
               else extend_style ((''z-index'', show_int z1) # frame_style) overlay_css1),
            ly_classes = [''blockUI'', ''blockOverlay''] @ (if bo_theme o' then [''ui-widget-overlay''] else []),
            ly_is_div = True\<rparr>;
          box = \<lparr>ly_id = i + 2, ly_kind = Message, ly_host = Some t, ly_shown = False, ly_anim = Still,
            ly_style = extend_style
              [(''z-index'', show_int (z1 + 11)), (''position'', if full then ''fixed'' else ''absolute'')]
              (if \<not> msg then [] else if bo_theme o' then extend_style default_themed_css (bo_themed_css o')
               else extend_style default_css (bo_css o')),
            ly_classes = [''blockUI'', bo_msg_class o', if full then ''blockPage'' else ''blockElement''] @ theme_classes @
              (if msg \<and> bo_theme o' then [''ui-widget-content''] else []),
            ly_is_div = True\<rparr>
      in [shim, overlay, box])"

text \<open>
  An element used as the message is taken out of its place, which is noted. A jQuery set without an
  element has no \<open>parentNode\<close> to read: \<open>None\<close> is the exception.
\<close>

definition capture_node :: "target \<Rightarrow> nat \<Rightarrow> bstate \<Rightarrow> bstate" where
  "capture_node t n s =
     (let nd = bu_nodes s n;
          h = \<lparr>hi_el = n, hi_parent = nd_place nd, hi_display = nd_display nd, hi_position = nd_position nd\<rparr>
      in on_data t (\<lambda>d. d\<lparr>td_history := Some h\<rparr>)
           (s\<lparr>bu_nodes := (bu_nodes s)(n := nd\<lparr>nd_place := Nowhere\<rparr>),
              bu_moved := filter (\<lambda>m. m \<noteq> n) (bu_moved s)\<rparr>))"

definition capture :: "target \<Rightarrow> message \<Rightarrow> bstate \<Rightarrow> bstate option" where
  "capture t m s =
     (case m of
        MElem n \<Rightarrow> Some (if nd_place (bu_nodes s n) = Nowhere then s else capture_node t n s)
      | MSet (Some n) \<Rightarrow> Some (capture_node t n s)
      | MSet None \<Rightarrow> None
      | _ \<Rightarrow> Some s)"

text \<open>jQuery's \<open>show\<close> on the inline display.\<close>

definition show_node :: "node \<Rightarrow> node" where
  "show_node nd =
     (let d = (if nd_display nd = ''none'' then [] else nd_display nd)
      in nd\<lparr>nd_display := (if d = [] \<and> nd_css_hidden nd then nd_default_display nd else d)\<rparr>)"

definition append_message :: "nat \<Rightarrow> message \<Rightarrow> bstate \<Rightarrow> bstate" where
  "append_message box m s =
     (let put = (\<lambda>n. s\<lparr>bu_nodes := (bu_nodes s)(n := show_node ((bu_nodes s n)\<lparr>nd_place := InLayer box\<rparr>)),
                       bu_moved := move_last n (bu_moved s)\<rparr>)
      in case m of MElem n \<Rightarrow> put n | MSet (Some n) \<Rightarrow> put n | _ \<Rightarrow> s)"

definition show_layer :: "nat \<Rightarrow> anim \<Rightarrow> bstate \<Rightarrow> bstate" where
  "show_layer i a s = on_layers (\<lambda>l. ly_id l = i) (\<lambda>l. l\<lparr>ly_shown := True, ly_anim := a\<rparr>) s"

text \<open>The layers from \<open>i\<close> on are shown, fading or at once.\<close>

definition show_layers :: "nat \<Rightarrow> bopts \<Rightarrow> bstate \<Rightarrow> bstate" where
  "show_layers i o' s =
     (let msg = truthy_msg (bo_message o');
          cb = fun_of (bo_on_block o');
          s1 = (if (bu_msie s \<or> bo_force_iframe o') \<and> bo_show_overlay o' then show_layer i Still s else s)
      in if bo_fade_in o' \<noteq> 0 then
           let s2 = (if bo_show_overlay o' then show_layer (i + 1) (FadingIn (if msg then None else cb)) s1 else s1)
           in if msg then show_layer (i + 2) (FadingIn cb) s2 else s2
         else
           let s2 = (if bo_show_overlay o' then show_layer (i + 1) Still s1 else s1);
               s3 = (if msg then show_layer (i + 2) Still s2 else s2)
           in log_opt_event (map_option LBlock cb) s3)"

definition set_timer :: "target \<Rightarrow> bopts \<Rightarrow> bstate \<Rightarrow> bstate" where
  "set_timer t o' s =
     (if bo_timeout o' = 0 then s
      else on_data t (\<lambda>d. d\<lparr>td_timeout := Some (bu_next s)\<rparr>)
             (s\<lparr>bu_timers := bu_timers s @ [(bu_next s, t, o')], bu_next := Suc (bu_next s)\<rparr>))"

definition install :: "target \<Rightarrow> override \<Rightarrow> bstate \<Rightarrow> bstate" where
  "install t ov s =
     (let o' = ov block_defaults in
      if bo_ignore_if_blocked o' \<and> td_blocked (bu_data s t) then s
      else
        let s1 = (if t = Window \<and> bu_page_block s \<noteq> None
                  then remove_block Window (\<lambda>d. d\<lparr>bo_fade_out := 0\<rparr>) s else s)
        in case capture t (bo_message o') s1 of
             None \<Rightarrow> log_event LTypeError (on_data t (\<lambda>d. d\<lparr>td_history := None\<rparr>) s1)
           | Some s2 \<Rightarrow>
               let s3 = on_data t (\<lambda>d. d\<lparr>td_on_unblock := bo_on_unblock o'\<rparr>) s2;
                   i = bu_next s3;
                   s4 = s3\<lparr>bu_layers := bu_layers s3 @ make_layers (bu_msie s3) t o' i, bu_next := i + 3\<rparr>;
                   s5 = show_layers i o' (append_message (i + 2) (bo_message o') s4);
                   s6 = bind_block True t o' s5;
                   s7 = (if t = Window then s6\<lparr>bu_page_block := Some (i + 2)\<rparr> else s6)
               in set_timer t o' s7)"

section \<open>The plugin functions and events\<close>

text \<open>\<open>$(el).block(opts)\<close> and \<open>$.blockUI(opts)\<close>; \<open>$(el).unblock(opts)\<close> and \<open>$.unblockUI(opts)\<close>.\<close>

definition block_target :: "target \<Rightarrow> override \<Rightarrow> bstate \<Rightarrow> bstate" where
  "block_target t ov s =
     (if t = Window then install Window ov s
      else
        let s1 = (if bo_ignore_if_blocked (ov block_defaults) \<and> td_blocked (bu_data s t) then s
                  else remove_block t (\<lambda>d. d\<lparr>bo_fade_out := 0\<rparr>) s);
            s2 = (if bu_position s1 t = ''static''
                  then on_data t (\<lambda>d. d\<lparr>td_static := True\<rparr>) (s1\<lparr>bu_position := (bu_position s1)(t := ''relative'')\<rparr>)
                  else s1)
        in install t ov s2)"

definition growl_options :: "message \<Rightarrow> nat option \<Rightarrow> js_fun \<Rightarrow> override" where
  "growl_options m timeout on_close =
     (\<lambda>d. d\<lparr>bo_message := m, bo_fade_in := 700, bo_fade_out := 1000,
            bo_timeout := (case timeout of None \<Rightarrow> 3000 | Some ms \<Rightarrow> ms),
            bo_show_overlay := False, bo_on_unblock := (if on_close = FUndef then bo_on_unblock d else on_close),
            bo_css := growl_css\<rparr>)"

text \<open>The end of an animation of layer \<open>i\<close> (a fade in is shown, a fade out hides and counts down), and a timer that fires.\<close>

definition stop_layer :: "nat \<Rightarrow> (block_layer \<Rightarrow> bool) \<Rightarrow> bstate \<Rightarrow> bstate" where
  "stop_layer i shown s = on_layers (\<lambda>l. ly_id l = i) (\<lambda>l. l\<lparr>ly_anim := Still, ly_shown := shown l\<rparr>) s"

definition set_count :: "nat \<Rightarrow> nat \<Rightarrow> bstate \<Rightarrow> bstate" where
  "set_count g c s = s\<lparr>bu_fades := map (\<lambda>x. if fd_id x = g then x\<lparr>fd_count := c\<rparr> else x) (bu_fades s)\<rparr>"

definition fade_end :: "nat \<Rightarrow> bstate \<Rightarrow> bstate" where
  "fade_end i s =
     (case find (\<lambda>l. ly_id l = i) (bu_layers s) of
        None \<Rightarrow> s
      | Some l \<Rightarrow>
          (case ly_anim l of
             Still \<Rightarrow> s
           | FadingIn cb \<Rightarrow> log_opt_event (map_option LBlock cb) (stop_layer i ly_shown s)
           | FadingOut g \<Rightarrow>
               let s1 = stop_layer i (\<lambda>_. False) s
               in case find (\<lambda>f. fd_id f = g) (bu_fades s) of
                    None \<Rightarrow> s1
                  | Some f \<Rightarrow>
                      let c = fd_count f - 1;
                          s2 = set_count g c s1
                      in if c = 0 then reset_block (fd_els f) (fd_hist f) (fd_on_unblock f) (fd_target f) s2 else s2))"

definition timer_fires :: "nat \<Rightarrow> bstate \<Rightarrow> bstate" where
  "timer_fires i s =
     (case find (\<lambda>(j, _). j = i) (bu_timers s) of
        None \<Rightarrow> s
      | Some (j, t, o') \<Rightarrow>
          remove_block t (\<lambda>_. o') (s\<lparr>bu_timers := filter (\<lambda>(j, _). j \<noteq> i) (bu_timers s)\<rparr>))"

datatype block_event = Block target override | Unblock target override | FadeEnd nat | TimerFires nat

fun block_step :: "block_event \<Rightarrow> bstate \<Rightarrow> bstate" where
  "block_step (Block t ov) s = block_target t ov s"
| "block_step (Unblock t ov) s = remove_block t ov s"
| "block_step (FadeEnd i) s = fade_end i s"
| "block_step (TimerFires i) s = timer_fires i s"

definition fresh_page :: "bool \<Rightarrow> (nat \<Rightarrow> node) \<Rightarrow> (target \<Rightarrow> string) \<Rightarrow> bstate" where
  "fresh_page msie nodes position =
     \<lparr>bu_msie = msie, bu_layers = [], bu_nodes = nodes, bu_moved = [],
      bu_data = (\<lambda>_. \<lparr>td_blocked = False, td_history = None, td_on_unblock = FUndef, td_timeout = None, td_static = False\<rparr>),
      bu_position = position, bu_page_block = None, bu_handlers = [], bu_timers = [], bu_fades = [],
      bu_log = [], bu_next = 0\<rparr>"

section \<open>Keyboard and mouse while the page is blocked\<close>

text \<open>
  An event as the filter looks at it: \<open>ev_ancestors\<close> are the ancestors of its target that can hold
  layers (the body is \<open>Window\<close>), \<open>ev_message_classes\<close> the classes of the \<open>div\<close>s among its ancestors,
  \<open>ev_on_overlay\<close> whether the target is an overlay. \<open>els\<close> are the elements of the message that can
  have the focus.
\<close>

record ui_event =
  ev_type :: string
  ev_key :: nat
  ev_shift :: bool
  ev_target :: nat
  ev_on_overlay :: bool
  ev_message_classes :: "string list"
  ev_ancestors :: "target list"

text \<open>Whether the handler lets the event through, and the element the focus is then put on.\<close>

definition focus_element :: "bool \<Rightarrow> nat list \<Rightarrow> nat option" where
  "focus_element at_end els = js_at els (if at_end then length els - 1 else 0)"

definition handle_event :: "nat list \<Rightarrow> bopts \<Rightarrow> ui_event \<Rightarrow> bstate \<Rightarrow> bool \<times> nat option" where
  "handle_event els o' ev s =
     (let fwd = (\<not> ev_shift ev \<and> Some (ev_target ev) = js_at els (length els - 1));
          bwd = (ev_shift ev \<and> Some (ev_target ev) = js_at els 0)
      in if ev_type ev = ''keydown'' \<and> ev_key ev = 9 \<and> bu_page_block s \<noteq> None \<and> bo_constrain_tab o' \<and> (fwd \<or> bwd)
         then (False, focus_element bwd els)
         else if bo_msg_class o' \<in> set (ev_message_classes ev) then (True, None)
         else (\<not> (\<exists>l \<in> set (bu_layers s). ly_is_div l \<and> ''blockUI'' \<in> set (ly_classes l) \<and>
                    (\<exists>t \<in> set (ev_ancestors ev). ly_host l = Some t)), None))"

definition overlay_clicked :: "bopts \<Rightarrow> ui_event \<Rightarrow> nat option" where
  "overlay_clicked o' ev = (if ev_on_overlay ev then fun_of (bo_on_overlay_click o') else None)"

text \<open>An event is let through when every handler bound to its type lets it through.\<close>

definition event_allowed :: "nat list \<Rightarrow> ui_event \<Rightarrow> bstate \<Rightarrow> bool" where
  "event_allowed els ev s \<longleftrightarrow> list_all (\<lambda>(e, o'). e = ev_type ev \<longrightarrow> fst (handle_event els o' ev s)) (bu_handlers s)"

section \<open>Centering\<close>

text \<open>\<open>center\<close> along one direction: the style set, in half pixels (\<open>None\<close>: left alone).\<close>

definition center_pos :: "bool \<Rightarrow> int \<Rightarrow> int \<Rightarrow> int \<Rightarrow> int option" where
  "center_pos wanted parent own border =
     (if wanted then Some (let l = (parent - own) - 2 * border in if l > 0 then l else 0) else None)"

section \<open>What the operations leave alone\<close>

text \<open>
  \<open>skel\<close> is what of the layers only creation and \<open>reset\<close> change: identifier, kind (and whether it is
  a \<open>div.blockUI\<close>) and host.
\<close>

definition layer_kind :: "block_layer \<Rightarrow> kind \<times> bool" where
  "layer_kind l = (ly_kind l, ly_is_div l \<and> ''blockUI'' \<in> set (ly_classes l))"

definition skel :: "bstate \<Rightarrow> (nat \<times> (kind \<times> bool) \<times> target option) list" where
  "skel s = map (\<lambda>l. (ly_id l, layer_kind l, ly_host l)) (bu_layers s)"

definition detach :: "nat set \<Rightarrow> (nat \<times> 'k \<times> target option) list \<Rightarrow> (nat \<times> 'k \<times> target option) list" where
  "detach els = map (\<lambda>(i, k, h). (i, k, if i \<in> els then None else h))"

lemma skel_on_layers:
  "(\<And>l. ly_id (f l) = ly_id l \<and> ly_host (f l) = ly_host l \<and> ly_kind (f l) = ly_kind l \<and>
      ly_is_div (f l) = ly_is_div l \<and> ly_classes (f l) = ly_classes l) \<Longrightarrow> skel (on_layers P f s) = skel s"
  by (auto simp: skel_def on_layers_def layer_kind_def)

lemma skel_data [simp]: "skel (on_data t f s) = skel s" "skel (log_event x s) = skel s" "skel (log_opt_event y s) = skel s"
  by (auto simp: skel_def on_data_def log_event_def log_opt_event_def split: option.splits)

lemma skel_update [simp]:
  "skel (s\<lparr>bu_nodes := a\<rparr>) = skel s" "skel (s\<lparr>bu_nodes := a, bu_moved := m\<rparr>) = skel s" "skel (s\<lparr>bu_position := b\<rparr>) = skel s" "skel (s\<lparr>bu_page_block := c\<rparr>) = skel s"
  "skel (s\<lparr>bu_handlers := d\<rparr>) = skel s" "skel (s\<lparr>bu_timers := e\<rparr>) = skel s" "skel (s\<lparr>bu_fades := g\<rparr>) = skel s"
  "skel (s\<lparr>bu_next := n\<rparr>) = skel s"
  by (simp_all add: skel_def)

lemma on_layers_fields [simp]:
  "bu_data (on_layers P f s) = bu_data s" "bu_page_block (on_layers P f s) = bu_page_block s"
  "bu_handlers (on_layers P f s) = bu_handlers s" "bu_timers (on_layers P f s) = bu_timers s"
  "bu_fades (on_layers P f s) = bu_fades s" "bu_next (on_layers P f s) = bu_next s" "bu_msie (on_layers P f s) = bu_msie s"
  "bu_nodes (on_layers P f s) = bu_nodes s" "bu_moved (on_layers P f s) = bu_moved s"
  by (simp_all add: on_layers_def)

lemma on_data_fields [simp]:
  "bu_page_block (on_data t f s) = bu_page_block s" "bu_handlers (on_data t f s) = bu_handlers s"
  "bu_timers (on_data t f s) = bu_timers s" "bu_fades (on_data t f s) = bu_fades s" "bu_next (on_data t f s) = bu_next s"
  "bu_msie (on_data t f s) = bu_msie s" "bu_layers (on_data t f s) = bu_layers s" "bu_nodes (on_data t f s) = bu_nodes s" "bu_moved (on_data t f s) = bu_moved s"
  "bu_data (on_data t f s) u = (if u = t then f (bu_data s t) else bu_data s u)"
  by (simp_all add: on_data_def)

lemma log_fields [simp]:
  "bu_page_block (log_event x s) = bu_page_block s" "bu_handlers (log_event x s) = bu_handlers s"
  "bu_timers (log_event x s) = bu_timers s" "bu_fades (log_event x s) = bu_fades s" "bu_next (log_event x s) = bu_next s"
  "bu_msie (log_event x s) = bu_msie s" "bu_layers (log_event x s) = bu_layers s" "bu_nodes (log_event x s) = bu_nodes s" "bu_moved (log_event x s) = bu_moved s"
  "bu_data (log_event x s) = bu_data s"
  by (simp_all add: log_event_def)

lemma log_opt_fields [simp]:
  "bu_page_block (log_opt_event y s) = bu_page_block s" "bu_handlers (log_opt_event y s) = bu_handlers s"
  "bu_timers (log_opt_event y s) = bu_timers s" "bu_fades (log_opt_event y s) = bu_fades s"
  "bu_next (log_opt_event y s) = bu_next s" "bu_msie (log_opt_event y s) = bu_msie s"
  "bu_layers (log_opt_event y s) = bu_layers s" "bu_nodes (log_opt_event y s) = bu_nodes s" "bu_moved (log_opt_event y s) = bu_moved s"
  "bu_data (log_opt_event y s) = bu_data s"
  by (simp_all add: log_opt_event_def split: option.splits)

text \<open>The bookkeeping of a state: what the invariants on timers and on the page block speak of.\<close>

definition books :: "bstate \<Rightarrow> (nat \<times> target \<times> bopts) list \<times> nat option \<times> (string \<times> bopts) list \<times> (target \<Rightarrow> bool) \<times> (target \<Rightarrow> nat option)" where
  "books s = (bu_timers s, bu_page_block s, bu_handlers s, \<lambda>t. td_blocked (bu_data s t), \<lambda>t. td_timeout (bu_data s t))"

lemma books_eqD:
  assumes "books s = books s'"
  shows "bu_timers s = bu_timers s'" "bu_page_block s = bu_page_block s'" "bu_handlers s = bu_handlers s'"
    "td_blocked (bu_data s t) = td_blocked (bu_data s' t)" "td_timeout (bu_data s t) = td_timeout (bu_data s' t)"
  using assms unfolding books_def by (auto dest: fun_cong)

lemma books_data [simp]:
  "(\<And>d. td_blocked (f d) = td_blocked d \<and> td_timeout (f d) = td_timeout d) \<Longrightarrow> books (on_data t f s) = books s"
  by (auto simp: books_def)

lemma books_other [simp]:
  "books (on_layers P f s) = books s" "books (log_event x s) = books s" "books (log_opt_event y s) = books s"
  "books (s\<lparr>bu_nodes := a\<rparr>) = books s" "books (s\<lparr>bu_nodes := a, bu_moved := m\<rparr>) = books s" "books (s\<lparr>bu_position := b\<rparr>) = books s" "books (s\<lparr>bu_fades := g\<rparr>) = books s"
  "books (s\<lparr>bu_next := n\<rparr>) = books s" "books (s\<lparr>bu_layers := ls\<rparr>) = books s"
  by (simp_all add: books_def)

lemma restore_fields [simp]:
  "skel (restore_node h s) = skel s" "books (restore_node h s) = books s" "bu_fades (restore_node h s) = bu_fades s"
  "bu_next (restore_node h s) = bu_next s" "bu_layers (restore_node h s) = bu_layers s"
  "bu_data (restore_node h s) = bu_data s" "bu_msie (restore_node h s) = bu_msie s"
  by (simp_all add: restore_node_def books_def skel_def Let_def)

lemma reset_books [simp]:
  "books (reset_block els h u t s) = books s" "bu_fades (reset_block els h u t s) = bu_fades s"
  "bu_next (reset_block els h u t s) = bu_next s" "bu_msie (reset_block els h u t s) = bu_msie s"
  by (simp_all add: reset_block_def Let_def split: option.split)

lemma reset_skel:
  "skel (reset_block els h u t s) = (if td_blocked (bu_data s t) then skel s else detach (set els) (skel s))"
  by (simp add: reset_block_def Let_def detach_def split: option.split) (auto simp: skel_def on_layers_def layer_kind_def)

lemma fade_out_books [simp]: "books (fade_out els h u t s) = books s" "bu_msie (fade_out els h u t s) = bu_msie s"
  by (simp_all add: fade_out_def Let_def)

lemma fade_out_next [simp]: "bu_next (fade_out els h u t s) = Suc (bu_next s)"
  by (simp add: fade_out_def Let_def)

lemma fade_out_skel:
  "skel (fade_out els h u t s) = skel s \<or>
   \<not> td_blocked (bu_data s t) \<and> skel (fade_out els h u t s) = detach (set els) (skel s)"
  by (simp add: fade_out_def Let_def reset_skel skel_on_layers)

lemma cursor_fields [simp]:
  "books (set_cursor c i s) = books s" "skel (set_cursor c i s) = skel s" "bu_fades (set_cursor c i s) = bu_fades s"
  "bu_next (set_cursor c i s) = bu_next s" "bu_data (set_cursor c i s) = bu_data s" "bu_msie (set_cursor c i s) = bu_msie s"
  "bu_timers (set_cursor c i s) = bu_timers s" "bu_handlers (set_cursor c i s) = bu_handlers s"
  "bu_nodes (set_cursor c i s) = bu_nodes s" "bu_moved (set_cursor c i s) = bu_moved s" "bu_page_block (set_cursor c i s) = bu_page_block s"
  by (simp_all add: set_cursor_def skel_on_layers split: option.split)

lemma layers_at_skel: "layers_at t s = map fst (filter (\<lambda>(i, k, h). h = Some t) (skel s))"
  by (simp add: layers_at_def skel_def filter_map comp_def split_beta)

lemma bind_fields [simp]:
  "skel (bind_block b t o' s) = skel s" "bu_fades (bind_block b t o' s) = bu_fades s"
  "bu_next (bind_block b t o' s) = bu_next s" "bu_timers (bind_block b t o' s) = bu_timers s"
  "bu_page_block (bind_block b t o' s) = bu_page_block s" "bu_msie (bind_block b t o' s) = bu_msie s"
  "bu_layers (bind_block b t o' s) = bu_layers s" "bu_nodes (bind_block b t o' s) = bu_nodes s" "bu_moved (bind_block b t o' s) = bu_moved s"
  "td_timeout (bu_data (bind_block b t o' s) u) = td_timeout (bu_data s u)"
  "td_history (bu_data (bind_block b t o' s) u) = td_history (bu_data s u)"
  by (simp_all add: bind_block_def Let_def)

section \<open>Invariants\<close>

definition layers_ok :: "bstate \<Rightarrow> bool" where
  "layers_ok s \<longleftrightarrow>
     distinct (map fst (skel s)) \<and> (\<forall>x \<in> set (skel s). fst x < bu_next s) \<and> distinct (map fd_id (bu_fades s)) \<and>
     (\<forall>f \<in> set (bu_fades s). fd_id f < bu_next s \<and> (\<forall>i \<in> set (fd_els f). i < bu_next s) \<and>
        (\<forall>(i, k, h) \<in> set (skel s). i \<in> set (fd_els f) \<longrightarrow> h = None \<or> h = Some (fd_target f)))"

definition timers_ok :: "bstate \<Rightarrow> bool" where
  "timers_ok s \<longleftrightarrow>
     distinct (map fst (bu_timers s)) \<and>
     (\<forall>(i, t, o') \<in> set (bu_timers s). i < bu_next s \<and> td_timeout (bu_data s t) = Some i) \<and>
     (\<forall>t i. td_timeout (bu_data s t) = Some i \<longrightarrow> td_blocked (bu_data s t) \<and> (\<exists>o'. (i, t, o') \<in> set (bu_timers s)))"

definition page_ok :: "bstate \<Rightarrow> bool" where
  "page_ok s \<longleftrightarrow>
     td_blocked (bu_data s Window) = (bu_page_block s \<noteq> None) \<and>
     (\<forall>b. bu_page_block s = Some b \<longrightarrow> (b, (Message, True), Some Window) \<in> set (skel s))"

definition block_ok :: "bstate \<Rightarrow> bool" where
  "block_ok s \<longleftrightarrow> layers_ok s \<and> timers_ok s \<and> page_ok s"

lemma map_fst_detach [simp]: "map fst (detach els sk) = map fst sk"
  by (induction sk) (auto simp: detach_def)

lemma mem_detach: "(i, k, h) \<in> set (detach els sk) \<longleftrightarrow> (\<exists>h0. (i, k, h0) \<in> set sk \<and> h = (if i \<in> els then None else h0))"
  by (auto simp: detach_def image_iff split_beta) (metis fst_conv snd_conv)+

lemma layers_ok_reset:
  assumes "layers_ok s" shows "layers_ok (reset_block els h u t s)"
proof -
  have "fst ` set (detach (set els) (skel s)) = fst ` set (skel s)"
    by (metis map_fst_detach set_map)
  then have "(\<forall>x \<in> set (detach (set els) (skel s)). fst x < bu_next s) \<longleftrightarrow> (\<forall>x \<in> set (skel s). fst x < bu_next s)"
    by (metis (no_types, lifting) image_iff)
  moreover have "\<forall>(i, k, h) \<in> set (detach (set els) (skel s)). i \<in> E \<longrightarrow> h = None \<or> h = Some v"
    if "\<forall>(i, k, h) \<in> set (skel s). i \<in> E \<longrightarrow> h = None \<or> h = Some v" for E v
    using that by (auto simp: mem_detach split: if_splits)
  ultimately show ?thesis
    using assms by (simp add: layers_ok_def reset_skel)
qed

lemma layers_ok_cong:
  "layers_ok s \<Longrightarrow> skel s' = skel s \<Longrightarrow> bu_fades s' = bu_fades s \<Longrightarrow> bu_next s \<le> bu_next s' \<Longrightarrow> layers_ok s'"
  unfolding layers_ok_def by (fastforce dest: less_le_trans)

lemma layers_ok_fade_out:
  assumes "layers_ok s" "els = layers_at t s" shows "layers_ok (fade_out els h u t s)"
proof -
  let ?g = "bu_next s"
  let ?s1 = "on_layers (\<lambda>l. ly_id l \<in> set els) (\<lambda>l. l\<lparr>ly_anim := (if ly_shown l then FadingOut ?g else Still)\<rparr>) s"
  let ?n = "length (filter (\<lambda>l. ly_id l \<in> set els \<and> ly_shown l) (bu_layers s))"
  let ?s2 = "?s1\<lparr>bu_next := Suc ?g, bu_fades := bu_fades ?s1 @ [\<lparr>fd_id = ?g, fd_count = ?n, fd_els = els, fd_hist = h,
     fd_on_unblock = u, fd_target = t\<rparr>]\<rparr>"
  have sk: "skel ?s2 = skel s" by (simp add: skel_on_layers)
  have host: "h' = Some t" if mem: "(i, k, h') \<in> set (skel s)" and el: "i \<in> set els" for i k h'
  proof -
    obtain k' where "(i, k', Some t) \<in> set (skel s)" using el assms(2) by (auto simp: layers_at_skel)
    then show ?thesis
      using mem assms(1) eq_key_imp_eq_value[of "skel s" i "(k, h')" "(k', Some t)"] by (simp add: layers_ok_def)
  qed
  have small: "i < ?g" if "i \<in> set els" for i
    using that assms by (auto simp: layers_at_skel layers_ok_def)
  have "layers_ok ?s2"
    using assms(1) host small unfolding layers_ok_def sk by (fastforce simp: less_Suc_eq)
  then show ?thesis
    unfolding fade_out_def Let_def by (simp only: split: if_split) (use layers_ok_reset in blast)
qed

lemma cancel_fields [simp]:
  "skel (cancel_timer t s) = skel s" "bu_fades (cancel_timer t s) = bu_fades s" "bu_next (cancel_timer t s) = bu_next s"
  "bu_page_block (cancel_timer t s) = bu_page_block s" "bu_msie (cancel_timer t s) = bu_msie s"
  "bu_layers (cancel_timer t s) = bu_layers s" "bu_nodes (cancel_timer t s) = bu_nodes s" "bu_moved (cancel_timer t s) = bu_moved s"
  "bu_handlers (cancel_timer t s) = bu_handlers s"
  "td_blocked (bu_data (cancel_timer t s) u) = td_blocked (bu_data s u)"
  "td_history (bu_data (cancel_timer t s) u) = td_history (bu_data s u)"
  "td_timeout (bu_data (cancel_timer t s) u) = (if u = t then None else td_timeout (bu_data s u))"
  by (auto simp: cancel_timer_def skel_def split: option.split)

lemma drop_fields [simp]:
  "skel (drop_block t o' s) = skel s" "bu_fades (drop_block t o' s) = bu_fades s" "bu_next (drop_block t o' s) = bu_next s"
  "bu_msie (drop_block t o' s) = bu_msie s" "bu_nodes (drop_block t o' s) = bu_nodes s" "bu_moved (drop_block t o' s) = bu_moved s"
  "bu_timers (drop_block t o' s) = bu_timers (cancel_timer t s)"
  "bu_page_block (drop_block t o' s) = (if t = Window then None else bu_page_block s)"
  "td_history (bu_data (drop_block t o' s) u) = td_history (bu_data s u)"
  "td_timeout (bu_data (drop_block t o' s) u) = (if u = t then None else td_timeout (bu_data s u))"
  by (simp_all add: drop_block_def Let_def)

lemma drop_blocked:
  assumes "page_ok s"
  shows "td_blocked (bu_data (drop_block t o' s) u) = (u \<noteq> t \<and> td_blocked (bu_data s u))"
  using assms by (auto simp: drop_block_def Let_def bind_block_def page_ok_def)

lemma layers_at_cong: "skel s = skel s' \<Longrightarrow> layers_at t s = layers_at t s'"
  by (simp add: layers_at_skel)

lemma remove_books [simp]:
  "books (remove_block t ov s) = books (drop_block t (ov block_defaults) s)"
  by (simp add: remove_block_def Let_def)

lemma layers_ok_remove: "layers_ok s \<Longrightarrow> layers_ok (remove_block t ov s)"
proof -
  assume "layers_ok s"
  then have "layers_ok (drop_block t o' s)" for o' by (rule layers_ok_cong) simp_all
  then show ?thesis
    unfolding remove_block_def Let_def by (simp add: layers_ok_fade_out layers_ok_reset)
qed

lemma timers_ok_cong: "timers_ok s \<Longrightarrow> books s' = books s \<Longrightarrow> bu_next s \<le> bu_next s' \<Longrightarrow> timers_ok s'"
  unfolding timers_ok_def using books_eqD[of s' s] by (auto split: prod.splits)

lemma timers_okD:
  assumes "timers_ok s"
  shows "(i, u, o') \<in> set (bu_timers s) \<Longrightarrow> i < bu_next s \<and> td_timeout (bu_data s u) = Some i"
    and "td_timeout (bu_data s u) = Some i \<Longrightarrow> td_blocked (bu_data s u) \<and> (\<exists>o'. (i, u, o') \<in> set (bu_timers s))"
  using assms by (auto simp: timers_ok_def)

lemma timers_ok_cancel:
  assumes "timers_ok s"
  shows "distinct (map fst (bu_timers (cancel_timer t s)))"
    "(i, u, o') \<in> set (bu_timers (cancel_timer t s)) \<longleftrightarrow> (i, u, o') \<in> set (bu_timers s) \<and> u \<noteq> t"
proof -
  have d: "distinct (map fst (bu_timers s))" using assms by (simp add: timers_ok_def)
  show "distinct (map fst (bu_timers (cancel_timer t s)))"
    using d by (auto simp: cancel_timer_def distinct_map_filter split: option.split)
  show "(i, u, o') \<in> set (bu_timers (cancel_timer t s)) \<longleftrightarrow> (i, u, o') \<in> set (bu_timers s) \<and> u \<noteq> t"
  proof (cases "td_timeout (bu_data s t)")
    case None
    then show ?thesis using assms by (auto simp: cancel_timer_def timers_ok_def)
  next
    case (Some j)
    then obtain oj where j: "(j, t, oj) \<in> set (bu_timers s)" using timers_okD(2)[OF assms] by blast
    have "(i, u, o') \<in> set (bu_timers s) \<Longrightarrow> (u = t) = (i = j)"
      using timers_okD(1)[OF assms, of i u o'] Some j d
        eq_key_imp_eq_value[of "bu_timers s" j "(t, oj)" "(u, o')"] by auto
    then show ?thesis using Some by (auto simp: cancel_timer_def)
  qed
qed

lemma timers_ok_remove:
  assumes "timers_ok s" "page_ok s" shows "timers_ok (remove_block t ov s)"
proof -
  let ?s = "drop_block t (ov block_defaults) s"
  have "timers_ok ?s"
    using timers_ok_cancel[OF assms(1), where t = t] assms(1)
    unfolding timers_ok_def by (auto simp: drop_blocked[OF assms(2)] split: prod.splits) blast+
  then show ?thesis
    by (rule timers_ok_cong) (simp_all add: remove_block_def Let_def)
qed

text \<open>\<open>own els t s\<close>: the layers of a list are in \<open>t\<close> or nowhere.\<close>

definition own :: "nat list \<Rightarrow> target \<Rightarrow> bstate \<Rightarrow> bool" where
  "own els t s \<longleftrightarrow> (\<forall>(i, k, h) \<in> set (skel s). i \<in> set els \<longrightarrow> h = None \<or> h = Some t)"

lemma own_layers_at:
  assumes "layers_ok s" shows "own (layers_at t s) t s"
proof -
  have "h = Some t" if mem: "(i, k, h) \<in> set (skel s)" and el: "i \<in> set (layers_at t s)" for i k h
  proof -
    obtain k' where "(i, k', Some t) \<in> set (skel s)" using el by (auto simp: layers_at_skel)
    then show ?thesis
      using mem assms eq_key_imp_eq_value[of "skel s" i "(k, h)" "(k', Some t)"] by (simp add: layers_ok_def)
  qed
  then show ?thesis by (auto simp: own_def)
qed

lemma own_fade: "layers_ok s \<Longrightarrow> f \<in> set (bu_fades s) \<Longrightarrow> own (fd_els f) (fd_target f) s"
  by (simp add: own_def layers_ok_def)

lemma own_cong: "skel s = skel s' \<Longrightarrow> own els t s = own els t s'"
  by (simp add: own_def)

lemma page_ok_cong: "page_ok s \<Longrightarrow> skel s' = skel s \<Longrightarrow> books s' = books s \<Longrightarrow> page_ok s'"
  unfolding page_ok_def using books_eqD[of s' s] by simp

lemma page_ok_reset:
  assumes "page_ok s" "own els t s" shows "page_ok (reset_block els h u t s)"
proof (cases "td_blocked (bu_data s t)")
  case True
  then show ?thesis using assms(1) by (simp add: reset_block_def)
next
  case False
  have "t \<noteq> Window" if "bu_page_block s = Some b" for b
    using assms(1) False that by (auto simp: page_ok_def)
  then show ?thesis
    using assms books_eqD[of "reset_block els h u t s" s] unfolding page_ok_def own_def
    by (auto simp: reset_skel mem_detach)
qed

lemma page_ok_fade_out:
  assumes "page_ok s" "own els t s" shows "page_ok (fade_out els h u t s)"
proof -
  let ?g = "bu_next s"
  let ?s1 = "on_layers (\<lambda>l. ly_id l \<in> set els) (\<lambda>l. l\<lparr>ly_anim := (if ly_shown l then FadingOut ?g else Still)\<rparr>) s"
  have "page_ok (?s1\<lparr>bu_next := n, bu_fades := fs\<rparr>)" "own els t (?s1\<lparr>bu_next := n, bu_fades := fs\<rparr>)" for n fs
    using assms page_ok_cong[of s "?s1\<lparr>bu_next := n, bu_fades := fs\<rparr>"] own_cong[of "?s1\<lparr>bu_next := n, bu_fades := fs\<rparr>" s]
    by (simp_all add: skel_on_layers)
  then show ?thesis
    unfolding fade_out_def Let_def by (simp only: split: if_split) (use page_ok_reset in blast)
qed

lemma page_ok_drop: "page_ok s \<Longrightarrow> page_ok (drop_block t o' s)"
  by (auto simp: page_ok_def drop_blocked)

lemma block_ok_remove: "block_ok s \<Longrightarrow> block_ok (remove_block t ov s)"
proof -
  assume b: "block_ok s"
  let ?s = "drop_block t (ov block_defaults) s"
  have "layers_ok ?s" using b layers_ok_cong[of s ?s] by (simp add: block_ok_def)
  then have "own (layers_at t ?s) t ?s" by (rule own_layers_at)
  moreover have "page_ok ?s" using b page_ok_drop by (simp add: block_ok_def)
  ultimately have "page_ok (remove_block t ov s)"
    unfolding remove_block_def Let_def by (simp add: page_ok_fade_out page_ok_reset)
  then show ?thesis
    using b layers_ok_remove timers_ok_remove by (simp add: block_ok_def)
qed

lemma block_ok_cong:
  "block_ok s \<Longrightarrow> skel s' = skel s \<Longrightarrow> books s' = books s \<Longrightarrow> bu_fades s' = bu_fades s \<Longrightarrow> bu_next s \<le> bu_next s' \<Longrightarrow>
   block_ok s'"
  unfolding block_ok_def using layers_ok_cong timers_ok_cong page_ok_cong by metis

lemma block_ok_reset: "block_ok s \<Longrightarrow> own els t s \<Longrightarrow> block_ok (reset_block els h u t s)"
  unfolding block_ok_def using layers_ok_reset page_ok_reset timers_ok_cong[of s "reset_block els h u t s"] by simp

lemma set_count_fields [simp]:
  "skel (set_count g c s) = skel s" "books (set_count g c s) = books s" "bu_next (set_count g c s) = bu_next s"
  "bu_layers (set_count g c s) = bu_layers s" "bu_data (set_count g c s) = bu_data s" "bu_nodes (set_count g c s) = bu_nodes s" "bu_moved (set_count g c s) = bu_moved s"
  "bu_msie (set_count g c s) = bu_msie s"
  by (simp_all add: set_count_def)

lemma stop_layer_fields [simp]:
  "skel (stop_layer i f s) = skel s" "books (stop_layer i f s) = books s" "bu_next (stop_layer i f s) = bu_next s"
  "bu_fades (stop_layer i f s) = bu_fades s" "bu_data (stop_layer i f s) = bu_data s" "bu_nodes (stop_layer i f s) = bu_nodes s" "bu_moved (stop_layer i f s) = bu_moved s"
  "bu_msie (stop_layer i f s) = bu_msie s"
  by (simp_all add: stop_layer_def skel_on_layers)

lemma layers_ok_count:
  assumes "layers_ok s" shows "layers_ok (set_count g c s)"
proof -
  let ?f = "\<lambda>x. if fd_id x = g then x\<lparr>fd_count := c\<rparr> else x"
  have e: "fd_id (?f x) = fd_id x" "fd_els (?f x) = fd_els x" "fd_target (?f x) = fd_target x" for x by simp_all
  then have i: "map fd_id (map ?f fs) = map fd_id fs" for fs by (induction fs) simp_all
  have "\<forall>f \<in> set (map ?f (bu_fades s)). P f" if "\<forall>f \<in> set (bu_fades s). P f" "\<And>x. P x \<Longrightarrow> P (x\<lparr>fd_count := c\<rparr>)" for P
    using that by auto
  note all = this
  have fades: "bu_fades (set_count g c s) = map ?f (bu_fades s)" by (simp add: set_count_def)
  show ?thesis
    using assms unfolding layers_ok_def set_count_fields fades i by (intro conjI all) simp_all
qed

lemma fade_end_out:
  assumes "find (\<lambda>l. ly_id l = i) (bu_layers s) = Some l" "ly_anim l = FadingOut g"
    "find (\<lambda>f. fd_id f = g) (bu_fades s) = Some x"
  shows "fade_end i s =
    (if fd_count x - 1 = 0
     then reset_block (fd_els x) (fd_hist x) (fd_on_unblock x) (fd_target x) (set_count g (fd_count x - 1) (stop_layer i (\<lambda>_. False) s))
     else set_count g (fd_count x - 1) (stop_layer i (\<lambda>_. False) s))"
  using assms by (simp add: fade_end_def Let_def)

lemma block_ok_fade_end:
  assumes "block_ok s" shows "block_ok (fade_end i s)"
proof (cases "find (\<lambda>l. ly_id l = i) (bu_layers s)")
  case (Some l)
  note f = Some
  show ?thesis
  proof (cases "ly_anim l")
    case Still
    then show ?thesis using f assms by (simp add: fade_end_def)
  next
    case (FadingIn cb)
    then show ?thesis using f by (auto simp: fade_end_def intro: block_ok_cong[OF assms])
  next
    case (FadingOut g)
    let ?s1 = "stop_layer i (\<lambda>_. False) s"
    have 1: "block_ok ?s1" by (rule block_ok_cong[OF assms]) simp_all
    show ?thesis
    proof (cases "find (\<lambda>f. fd_id f = g) (bu_fades s)")
      case None
      then show ?thesis using f FadingOut 1 by (simp add: fade_end_def)
    next
      case (Some x)
      let ?s2 = "set_count g (fd_count x - 1) ?s1"
      have x: "x \<in> set (bu_fades s)" using Some by (metis find_Some_iff nth_mem)
      have 2: "block_ok ?s2"
        using 1 layers_ok_count[of ?s1 g "fd_count x - 1"] timers_ok_cong[of ?s1 ?s2] page_ok_cong[of ?s1 ?s2]
        by (simp add: block_ok_def)
      have "own (fd_els x) (fd_target x) ?s2"
        using own_fade[OF _ x] assms own_cong[of ?s2 s] by (simp add: block_ok_def)
      then show ?thesis
        unfolding fade_end_out[OF f FadingOut Some] using 2 block_ok_reset by (simp only: split: if_split) blast
    qed
  qed
qed (simp add: fade_end_def assms)

lemma cancel_twice:
  assumes "td_timeout (bu_data s t) = Some i"
  shows "cancel_timer t (s\<lparr>bu_timers := filter (\<lambda>(j, _). j \<noteq> i) (bu_timers s)\<rparr>) = cancel_timer t s"
proof -
  have "filter (\<lambda>x. (case x of (j, _) \<Rightarrow> j \<noteq> i) \<and> (case x of (j, _) \<Rightarrow> j \<noteq> i)) xs = filter (\<lambda>(j, _). j \<noteq> i) xs"
    for xs :: "(nat \<times> target \<times> bopts) list" by (rule filter_cong) auto
  then show ?thesis using assms by (simp add: cancel_timer_def)
qed

lemma timer_removes:
  assumes "timers_ok s" "find (\<lambda>(j, _). j = i) (bu_timers s) = Some (j, t, o')"
  shows "timer_fires i s = remove_block t (\<lambda>_. o') s"
proof -
  have "(i, t, o') \<in> set (bu_timers s)" "j = i"
    using assms(2) by (auto simp: find_Some_iff) (metis nth_mem)
  then have "td_timeout (bu_data s t) = Some i" using timers_okD(1)[OF assms(1)] by blast
  from cancel_twice[OF this] show ?thesis
    using assms(2) by (simp add: timer_fires_def remove_block_def drop_block_def)
qed

lemma block_ok_timer: "block_ok s \<Longrightarrow> block_ok (timer_fires i s)"
proof (cases "find (\<lambda>(j, _). j = i) (bu_timers s)")
  case (Some x)
  moreover assume "block_ok s"
  ultimately show ?thesis
    using timer_removes[of s i "fst x" "fst (snd x)" "snd (snd x)"] block_ok_remove by (simp add: block_ok_def)
qed (simp add: timer_fires_def)

lemma capture_fields:
  assumes "capture t m s = Some s'"
  shows "skel s' = skel s" "books s' = books s" "bu_fades s' = bu_fades s" "bu_next s' = bu_next s" "bu_msie s' = bu_msie s"
  using assms by (auto simp: capture_def capture_node_def Let_def split: message.splits option.splits if_splits)

lemma append_fields [simp]:
  "skel (append_message b m s) = skel s" "books (append_message b m s) = books s"
  "bu_fades (append_message b m s) = bu_fades s" "bu_next (append_message b m s) = bu_next s"
  "bu_timers (append_message b m s) = bu_timers s" "bu_page_block (append_message b m s) = bu_page_block s"
  "bu_data (append_message b m s) = bu_data s" "bu_msie (append_message b m s) = bu_msie s" "bu_layers (append_message b m s) = bu_layers s"
  by (auto simp: append_message_def Let_def split: message.split option.split)

lemma show_layer_fields [simp]:
  "skel (show_layer i a s) = skel s" "books (show_layer i a s) = books s" "bu_fades (show_layer i a s) = bu_fades s"
  "bu_next (show_layer i a s) = bu_next s" "bu_msie (show_layer i a s) = bu_msie s" "bu_nodes (show_layer i a s) = bu_nodes s" "bu_moved (show_layer i a s) = bu_moved s"
  "bu_data (show_layer i a s) = bu_data s" "bu_timers (show_layer i a s) = bu_timers s"
  "bu_page_block (show_layer i a s) = bu_page_block s" "bu_handlers (show_layer i a s) = bu_handlers s"
  by (simp_all add: show_layer_def skel_on_layers)

lemma show_layers_fields [simp]:
  "skel (show_layers i o' s) = skel s" "books (show_layers i o' s) = books s" "bu_fades (show_layers i o' s) = bu_fades s"
  "bu_next (show_layers i o' s) = bu_next s" "bu_msie (show_layers i o' s) = bu_msie s" "bu_nodes (show_layers i o' s) = bu_nodes s" "bu_moved (show_layers i o' s) = bu_moved s"
  "bu_data (show_layers i o' s) = bu_data s" "bu_timers (show_layers i o' s) = bu_timers s"
  "bu_page_block (show_layers i o' s) = bu_page_block s" "bu_handlers (show_layers i o' s) = bu_handlers s"
  by (simp_all add: show_layers_def Let_def)

lemma skel_make_layers:
  "bu_layers s = ls \<Longrightarrow> skel (s\<lparr>bu_layers := ls @ make_layers ie t o' i\<rparr>) =
   skel s @ [(i, (Shim, \<not> (ie \<or> bo_force_iframe o')), Some t), (i + 1, (Overlay, True), Some t),
     (i + 2, (Message, True), Some t)]"
  by (simp add: skel_def make_layers_def Let_def layer_kind_def)

text \<open>The part of \<open>install\<close> after the message has been captured, from a state where the target is free.\<close>

definition installed :: "target \<Rightarrow> bopts \<Rightarrow> bstate \<Rightarrow> bstate" where
  "installed t o' s2 =
     (let s3 = on_data t (\<lambda>d. d\<lparr>td_on_unblock := bo_on_unblock o'\<rparr>) s2;
          i = bu_next s3;
          s4 = s3\<lparr>bu_layers := bu_layers s3 @ make_layers (bu_msie s3) t o' i, bu_next := i + 3\<rparr>;
          s5 = show_layers i o' (append_message (i + 2) (bo_message o') s4);
          s6 = bind_block True t o' s5
      in if t = Window then s6\<lparr>bu_page_block := Some (i + 2)\<rparr> else s6)"

lemma install_eq:
  "install t ov s =
     (let o' = ov block_defaults in
      if bo_ignore_if_blocked o' \<and> td_blocked (bu_data s t) then s
      else
        let s1 = (if t = Window \<and> bu_page_block s \<noteq> None
                  then remove_block Window (\<lambda>d. d\<lparr>bo_fade_out := 0\<rparr>) s else s)
        in case capture t (bo_message o') s1 of
             None \<Rightarrow> log_event LTypeError (on_data t (\<lambda>d. d\<lparr>td_history := None\<rparr>) s1)
           | Some s2 \<Rightarrow> set_timer t o' (installed t o' s2))"
  unfolding install_def installed_def Let_def by (rule refl)

lemma installed_fields:
  "skel (installed t o' s) = skel s @ [(bu_next s, (Shim, \<not> (bu_msie s \<or> bo_force_iframe o')), Some t),
     (bu_next s + 1, (Overlay, True), Some t), (bu_next s + 2, (Message, True), Some t)]"
  "bu_fades (installed t o' s) = bu_fades s" "bu_next (installed t o' s) = bu_next s + 3"
  "bu_timers (installed t o' s) = bu_timers s"
  "bu_page_block (installed t o' s) = (if t = Window then Some (bu_next s + 2) else bu_page_block s)"
  "td_blocked (bu_data (installed t o' s) u) = (u = t \<or> td_blocked (bu_data s u))"
  "td_timeout (bu_data (installed t o' s) u) = td_timeout (bu_data s u)"
proof -
  let ?s3 = "on_data t (\<lambda>d. d\<lparr>td_on_unblock := bo_on_unblock o'\<rparr>) s"
  let ?s4 = "?s3\<lparr>bu_layers := bu_layers ?s3 @ make_layers (bu_msie ?s3) t o' (bu_next ?s3), bu_next := bu_next ?s3 + 3\<rparr>"
  let ?s5 = "show_layers (bu_next ?s3) o' (append_message (bu_next ?s3 + 2) (bo_message o') ?s4)"
  have b: "books ?s5 = books s" by simp
  have n: "bu_next ?s3 = bu_next s" by simp
  show "skel (installed t o' s) = skel s @ [(bu_next s, (Shim, \<not> (bu_msie s \<or> bo_force_iframe o')), Some t),
     (bu_next s + 1, (Overlay, True), Some t), (bu_next s + 2, (Message, True), Some t)]"
    unfolding installed_def Let_def by (simp add: skel_make_layers)
  show "td_blocked (bu_data (installed t o' s) u) = (u = t \<or> td_blocked (bu_data s u))"
    unfolding installed_def Let_def using books_eqD(4)[OF b, of u] by (simp add: bind_block_def Let_def)
  show "td_timeout (bu_data (installed t o' s) u) = td_timeout (bu_data s u)"
    unfolding installed_def Let_def using books_eqD(5)[OF b, of u] by simp
  show "bu_timers (installed t o' s) = bu_timers s" 
    "bu_page_block (installed t o' s) = (if t = Window then Some (bu_next s + 2) else bu_page_block s)"
    unfolding installed_def Let_def using books_eqD(1,2)[OF b] by simp_all
qed (simp_all add: installed_def Let_def)

lemma block_ok_installed:
  assumes "block_ok s" "\<not> td_blocked (bu_data s t)"
  shows "block_ok (installed t o' s)"
proof -
  have l: "layers_ok s" and ti: "timers_ok s" and pg: "page_ok s" using assms(1) by (simp_all add: block_ok_def)
  have "layers_ok (installed t o' s)"
    using l unfolding layers_ok_def installed_fields by (fastforce dest: less_trans)
  moreover have "timers_ok (installed t o' s)"
    using ti unfolding timers_ok_def installed_fields by fastforce
  moreover have "page_ok (installed t o' s)"
    using pg unfolding page_ok_def installed_fields by auto
  ultimately show ?thesis by (simp add: block_ok_def)
qed

lemma block_ok_set_timer:
  assumes "block_ok s" "td_blocked (bu_data s t)" "td_timeout (bu_data s t) = None"
  shows "block_ok (set_timer t o' s)"
proof (cases "bo_timeout o' = 0")
  case False
  have "layers_ok (set_timer t o' s)" "page_ok (set_timer t o' s)"
    using assms(1) False layers_ok_cong[of s "set_timer t o' s"] by (auto simp: set_timer_def block_ok_def page_ok_def)
  moreover have "timers_ok (set_timer t o' s)"
    using assms False by (fastforce simp: set_timer_def block_ok_def timers_ok_def less_Suc_eq)
  ultimately show ?thesis by (simp add: block_ok_def)
qed (simp add: set_timer_def assms)

lemma block_ok_install:
  assumes "block_ok s" "t \<noteq> Window \<Longrightarrow> \<not> td_blocked (bu_data s t) \<or> bo_ignore_if_blocked (ov block_defaults)"
  shows "block_ok (install t ov s)"
proof (cases "bo_ignore_if_blocked (ov block_defaults) \<and> td_blocked (bu_data s t)")
  case False
  define s1 where "s1 = (if t = Window \<and> bu_page_block s \<noteq> None then remove_block Window (\<lambda>d. d\<lparr>bo_fade_out := 0\<rparr>) s else s)"
  have ok1: "block_ok s1" using assms(1) block_ok_remove by (simp add: s1_def)
  have pg: "page_ok s" using assms(1) by (simp add: block_ok_def)
  have free: "\<not> td_blocked (bu_data s1 t)"
    using assms(2) False pg books_eqD(4)[OF remove_books, of Window _ s Window] drop_blocked[OF pg]
    by (auto simp: s1_def page_ok_def)
  show ?thesis
  proof (cases "capture t (bo_message (ov block_defaults)) s1")
    case None
    then have "install t ov s = log_event LTypeError (on_data t (\<lambda>d. d\<lparr>td_history := None\<rparr>) s1)"
      unfolding install_eq Let_def s1_def[symmetric] using False by (simp only: if_False option.case)
    then show ?thesis by (auto intro: block_ok_cong[OF ok1])
  next
    case (Some s2)
    note c = capture_fields[OF Some]
    have ok2: "block_ok s2" using block_ok_cong[OF ok1] c by simp
    have free2: "\<not> td_blocked (bu_data s2 t)" using free books_eqD(4)[OF c(2)] by simp
    then have "td_timeout (bu_data s2 t) = None"
      using timers_okD(2)[of s2 t] ok2 by (cases "td_timeout (bu_data s2 t)") (auto simp: block_ok_def)
    then have "block_ok (set_timer t (ov block_defaults) (installed t (ov block_defaults) s2))"
      by (intro block_ok_set_timer block_ok_installed ok2 free2) (simp_all add: installed_fields)
    then show ?thesis
      unfolding install_eq Let_def s1_def[symmetric] using False Some by (simp only: if_False option.case)
  qed
qed (simp add: install_eq assms)

lemma remove_frees: "page_ok s \<Longrightarrow> \<not> td_blocked (bu_data (remove_block t ov s) t)"
  using books_eqD(4)[OF remove_books, of t ov s t] drop_blocked by simp

lemma block_ok_block: "block_ok s \<Longrightarrow> block_ok (block_target t ov s)"
proof -
  assume ok: "block_ok s"
  show ?thesis
  proof (cases "t = Window")
    case True
    then show ?thesis using ok block_ok_install[of s Window ov] by (simp add: block_target_def)
  next
    case False
    define s1 where "s1 = (if bo_ignore_if_blocked (ov block_defaults) \<and> td_blocked (bu_data s t) then s
                  else remove_block t (\<lambda>d. d\<lparr>bo_fade_out := 0\<rparr>) s)"
    have ok1: "block_ok s1" using ok block_ok_remove by (simp add: s1_def)
    have free: "\<not> td_blocked (bu_data s1 t) \<or> bo_ignore_if_blocked (ov block_defaults)"
      using ok remove_frees by (auto simp: s1_def block_ok_def)
    define s2 where "s2 = (if bu_position s1 t = ''static''
                  then on_data t (\<lambda>d. d\<lparr>td_static := True\<rparr>) (s1\<lparr>bu_position := (bu_position s1)(t := ''relative'')\<rparr>)
                  else s1)"
    have "block_ok s2" by (rule block_ok_cong[OF ok1]) (simp_all add: s2_def)
    moreover have "td_blocked (bu_data s2 t) = td_blocked (bu_data s1 t)" by (simp add: s2_def)
    ultimately show ?thesis
      unfolding block_target_def Let_def s1_def[symmetric] s2_def[symmetric]
      using False free by (simp add: block_ok_install)
  qed
qed

lemma block_step_ok: "block_ok s \<Longrightarrow> block_ok (block_step e s)"
  by (cases e) (simp_all add: block_ok_block block_ok_remove block_ok_fade_end block_ok_timer)

interpretation blocking: invariant_machine block_step block_ok
  by unfold_locales (rule block_step_ok)

lemma fresh_page_ok: "block_ok (fresh_page ie nodes pos)"
  by (simp add: block_ok_def layers_ok_def timers_ok_def page_ok_def fresh_page_def skel_def)

lemma reachable_ok: "block_ok (run_events block_step es (fresh_page ie nodes pos))"
  by (rule blocking.run_keeps[OF fresh_page_ok])

end
