(* ===== verification/Block_Ends.thy ===== *)
theory Block_Ends
  imports Block_UI
begin

text \<open>
  What blocking and unblocking guarantee over time, on the model of \<open>Block_UI\<close>: every unblocking comes to
  an end, a message element comes back to its place, and a blocked page lets no event through. The
  last section holds three behaviours the plugin does not mean.
\<close>

section \<open>Every unblocking ends\<close>

definition anims :: "bstate \<Rightarrow> anim list" where
  "anims s = map ly_anim (bu_layers s)"

definition anims_ok :: "bstate \<Rightarrow> bool" where
  "anims_ok s \<longleftrightarrow> (\<forall>g. FadingOut g \<in> set (anims s) \<longrightarrow> g < bu_next s)"

lemma anims_on_layers: "(\<And>l. ly_anim (f l) = ly_anim l) \<Longrightarrow> anims (on_layers P f s) = anims s"
  by (simp add: anims_def on_layers_def if_distrib cong: if_cong)

lemma anims_update [simp]:
  "anims (s\<lparr>bu_nodes := a\<rparr>) = anims s" "anims (s\<lparr>bu_position := b\<rparr>) = anims s" "anims (s\<lparr>bu_page_block := c\<rparr>) = anims s"
  "anims (s\<lparr>bu_handlers := d\<rparr>) = anims s" "anims (s\<lparr>bu_timers := e\<rparr>) = anims s" "anims (s\<lparr>bu_fades := g\<rparr>) = anims s"
  "anims (s\<lparr>bu_next := n\<rparr>) = anims s" "anims (on_data t f s) = anims s" "anims (log_event x s) = anims s"
  "anims (log_opt_event y s) = anims s" "anims (set_count i j s) = anims s" "anims (restore_node h s) = anims s"
  "anims (bind_block b' t o' s) = anims s" "anims (cancel_timer t s) = anims s" "anims (append_message k m s) = anims s"
  "anims (s\<lparr>bu_nodes := a, bu_moved := w\<rparr>) = anims s"
  by (simp_all add: anims_def)

lemma anims_reset [simp]: "anims (reset_block els h u t s) = anims s"
  by (simp add: reset_block_def Let_def anims_on_layers split: option.split)

lemma anims_cursor [simp]: "anims (set_cursor c i s) = anims s"
  by (simp add: set_cursor_def anims_on_layers split: option.split)

lemma anims_drop [simp]: "anims (drop_block t o' s) = anims s"
  by (simp add: drop_block_def Let_def)

lemma anims_capture: "capture t m s = Some s' \<Longrightarrow> anims s' = anims s"
  by (auto simp: capture_def capture_node_def Let_def anims_def split: message.splits option.splits if_splits)

lemma anims_stop: "set (anims (stop_layer i f s)) \<subseteq> insert Still (set (anims s))"
  by (auto simp: anims_def stop_layer_def on_layers_def)

lemma anims_show: "set (anims (show_layer i a s)) \<subseteq> insert a (set (anims s))"
  by (auto simp: anims_def show_layer_def on_layers_def)

lemma anims_fade_out: "set (anims (fade_out els h u t s)) \<subseteq> insert Still (insert (FadingOut (bu_next s)) (set (anims s)))"
  by (auto simp: fade_out_def Let_def) (auto simp: anims_def on_layers_def)

lemma fade_end_anims: "set (anims (fade_end i s)) \<subseteq> insert Still (set (anims s))"
  using anims_stop[of i] by (auto simp: fade_end_def Let_def split: option.split anim.split)

lemma fade_end_next [simp]: "bu_next (fade_end i s) = bu_next s"
  by (simp add: fade_end_def Let_def split: option.split anim.split)

lemma remove_anims: "set (anims (remove_block t ov s)) \<subseteq> insert Still (insert (FadingOut (bu_next s)) (set (anims s)))"
  using anims_fade_out[of _ _ _ _ "drop_block t (ov block_defaults) s"] by (simp add: remove_block_def Let_def) blast

lemma remove_next: "bu_next (remove_block t ov s) = (if bo_fade_out (ov block_defaults) = 0 then bu_next s else Suc (bu_next s))"
  by (simp add: remove_block_def Let_def)

lemma anims_ok_remove: "anims_ok s \<Longrightarrow> anims_ok (remove_block t ov s)"
proof (cases "bo_fade_out (ov block_defaults) = 0")
  case True
  then show "anims_ok s \<Longrightarrow> ?thesis" by (simp add: anims_ok_def remove_block_def Let_def)
next
  case False
  then show "anims_ok s \<Longrightarrow> ?thesis"
    using remove_anims[of t ov s] by (fastforce simp: anims_ok_def remove_next dest: less_SucI)
qed

text \<open>\<open>keeps_fades s r\<close>: no layer fades out in \<open>r\<close> that did not in \<open>s\<close>.\<close>

definition keeps_fades :: "bstate \<Rightarrow> bstate \<Rightarrow> bool" where
  "keeps_fades s r \<longleftrightarrow> (\<forall>g. FadingOut g \<in> set (anims r) \<longrightarrow> FadingOut g \<in> set (anims s))"

lemma anims_ok_mono: "anims_ok s \<Longrightarrow> keeps_fades s s' \<Longrightarrow> bu_next s \<le> bu_next s' \<Longrightarrow> anims_ok s'"
  unfolding anims_ok_def keeps_fades_def by (blast dest: less_le_trans)

lemma keeps_fades_show:
  "keeps_fades s r \<Longrightarrow> keeps_fades s (show_layer j Still r)" "keeps_fades s r \<Longrightarrow> keeps_fades s (show_layer j (FadingIn cb) r)"
  unfolding keeps_fades_def using anims_show by blast+

lemma keeps_fades_same: "anims r = anims r' \<Longrightarrow> keeps_fades s r = keeps_fades s r'"
  by (simp add: keeps_fades_def)

lemma keeps_fades_refl: "keeps_fades s s"
  by (simp add: keeps_fades_def)

lemma keeps_fades_trans: "keeps_fades s r \<Longrightarrow> keeps_fades r q \<Longrightarrow> keeps_fades s q"
  by (simp add: keeps_fades_def)

lemma keeps_fades_layers: "keeps_fades s (show_layers i o' s)"
  unfolding show_layers_def Let_def
  by (auto intro: keeps_fades_show keeps_fades_refl simp: keeps_fades_same[OF anims_update(10)])

lemma keeps_fades_installed: "keeps_fades s (installed t o' s)"
proof -
  let ?s3 = "on_data t (\<lambda>d. d\<lparr>td_on_unblock := bo_on_unblock o'\<rparr>) s"
  let ?s4 = "?s3\<lparr>bu_layers := bu_layers ?s3 @ make_layers (bu_msie ?s3) t o' (bu_next ?s3), bu_next := bu_next ?s3 + 3\<rparr>"
  let ?s5 = "append_message (bu_next ?s3 + 2) (bo_message o') ?s4"
  have "keeps_fades s ?s5"
    by (auto simp: keeps_fades_def) (auto simp: anims_def make_layers_def Let_def)
  from keeps_fades_trans[OF this keeps_fades_layers]
  have "keeps_fades s (bind_block True t o' (show_layers (bu_next ?s3) o' ?s5))"
    by (simp only: keeps_fades_same[OF anims_update(13)])
  then show ?thesis
    unfolding installed_def Let_def by (simp only: keeps_fades_same[OF anims_update(3)] split: if_split) blast
qed

lemma set_timer_anims [simp]: "anims (set_timer t o' s) = anims s"
  by (simp add: set_timer_def)

lemma set_timer_next: "bu_next s \<le> bu_next (set_timer t o' s)"
  by (simp add: set_timer_def)

lemma anims_ok_install: "anims_ok s \<Longrightarrow> anims_ok (install t ov s)"
proof -
  assume ok: "anims_ok s"
  define s1 where "s1 = (if t = Window \<and> bu_page_block s \<noteq> None then remove_block Window (\<lambda>d. d\<lparr>bo_fade_out := 0\<rparr>) s else s)"
  have ok1: "anims_ok s1" using ok anims_ok_remove by (simp add: s1_def)
  have "anims_ok (set_timer t o' (installed t o' s2))" if "capture t m s1 = Some s2" for m s2 o'
  proof -
    have k: "keeps_fades s1 (installed t o' s2)"
      using keeps_fades_installed[of s2 t o'] anims_capture[OF that] by (simp add: keeps_fades_def)
    have "bu_next s1 \<le> bu_next (set_timer t o' (installed t o' s2))"
      using set_timer_next[of "installed t o' s2" t o'] capture_fields(4)[OF that] by (simp add: installed_fields)
    then show ?thesis
      using anims_ok_mono[OF ok1] k by (simp add: keeps_fades_def)
  qed
  moreover have "anims_ok (log_event x (on_data t f s1))" for x f
    using ok1 by (simp add: anims_ok_def)
  ultimately show ?thesis
    unfolding install_eq Let_def s1_def[symmetric] using ok by (auto split: option.split)
qed

lemma anims_ok_block: "anims_ok s \<Longrightarrow> anims_ok (block_target t ov s)"
proof (cases "t = Window")
  case False
  assume ok: "anims_ok s"
  define s1 where "s1 = (if bo_ignore_if_blocked (ov block_defaults) \<and> td_blocked (bu_data s t) then s
                else remove_block t (\<lambda>d. d\<lparr>bo_fade_out := 0\<rparr>) s)"
  have ok1: "anims_ok s1" using ok anims_ok_remove by (simp add: s1_def)
  define s2 where "s2 = (if bu_position s1 t = ''static''
                then on_data t (\<lambda>d. d\<lparr>td_static := True\<rparr>) (s1\<lparr>bu_position := (bu_position s1)(t := ''relative'')\<rparr>)
                else s1)"
  have "anims_ok s2" using ok1 by (simp add: s2_def anims_ok_def)
  then show ?thesis
    unfolding block_target_def Let_def s1_def[symmetric] s2_def[symmetric]
    using False by (simp add: anims_ok_install)
qed (simp add: block_target_def anims_ok_install)

lemma anims_ok_step: "block_ok s \<and> anims_ok s \<Longrightarrow> block_ok (block_step e s) \<and> anims_ok (block_step e s)"
proof (cases e)
  case (FadeEnd i)
  moreover assume ok: "block_ok s \<and> anims_ok s"
  ultimately show ?thesis
    using block_step_ok[of s e] fade_end_anims[of i s] fade_end_next[of i s]
    by (auto simp: anims_ok_def)
next
  case (TimerFires i)
  moreover assume ok: "block_ok s \<and> anims_ok s"
  moreover have "anims_ok (timer_fires i s)"
  proof (cases "find (\<lambda>(j, _). j = i) (bu_timers s)")
    case (Some x)
    then show ?thesis
      using ok timer_removes[of s i "fst x" "fst (snd x)" "snd (snd x)"] anims_ok_remove by (simp add: block_ok_def)
  qed (use ok in \<open>simp add: timer_fires_def\<close>)
  ultimately show ?thesis using block_step_ok[of s e] by simp
qed (use block_step_ok[of s e] in \<open>simp_all add: anims_ok_block anims_ok_remove\<close>)

interpretation fading: invariant_machine block_step "\<lambda>s. block_ok s \<and> anims_ok s"
  by unfold_locales (rule anims_ok_step)

lemma reachable_anims_ok: "anims_ok (run_events block_step es (fresh_page ie nodes pos))"
  using fading.run_keeps[of "fresh_page ie nodes pos" es] fresh_page_ok
  by (simp add: anims_ok_def fresh_page_def anims_def)

text \<open>The layers that a \<open>fadeOut\<close> still runs on.\<close>

definition fading_ids :: "nat \<Rightarrow> bstate \<Rightarrow> nat list" where
  "fading_ids g s = map ly_id (filter (\<lambda>l. ly_anim l = FadingOut g) (bu_layers s))"

lemma fading_on_layers:
  "(\<And>l. ly_id (f l) = ly_id l \<and> ly_anim (f l) = ly_anim l) \<Longrightarrow> fading_ids g (on_layers P f s) = fading_ids g s"
  by (simp add: fading_ids_def on_layers_def filter_map comp_def if_distrib cong: if_cong)

lemma fading_update [simp]:
  "fading_ids g (s\<lparr>bu_position := b\<rparr>) = fading_ids g s" "fading_ids g (on_data t d s) = fading_ids g s"
  "fading_ids g (log_opt_event y s) = fading_ids g s" "fading_ids g (set_count i j s) = fading_ids g s"
  "fading_ids g (restore_node h s) = fading_ids g s" "fading_ids g (s\<lparr>bu_next := n\<rparr>) = fading_ids g s"
  "fading_ids g (s\<lparr>bu_fades := fs\<rparr>) = fading_ids g s"
  by (simp_all add: fading_ids_def)

lemma fading_reset [simp]: "fading_ids g (reset_block els h u t s) = fading_ids g s"
  by (simp add: reset_block_def Let_def fading_on_layers split: option.split)

lemma fading_stop [simp]: "fading_ids g (stop_layer i f s) = filter (\<lambda>j. j \<noteq> i) (fading_ids g s)"
proof -
  have "map ly_id (filter (\<lambda>l. ly_anim l = FadingOut g)
      (map (\<lambda>l. if ly_id l = i then l\<lparr>ly_anim := Still, ly_shown := f l\<rparr> else l) ls)) =
    filter (\<lambda>j. j \<noteq> i) (map ly_id (filter (\<lambda>l. ly_anim l = FadingOut g) ls))" for ls
    by (induction ls) auto
  then show ?thesis by (simp add: fading_ids_def stop_layer_def on_layers_def)
qed

lemma fading_distinct: "layers_ok s \<Longrightarrow> distinct (fading_ids g s)"
  by (auto simp: fading_ids_def layers_ok_def skel_def comp_def distinct_map inj_on_def)

lemma fading_found:
  assumes "layers_ok s" "find (\<lambda>l. ly_id l = i) (bu_layers s) = Some l"
  shows "i \<in> set (fading_ids g s) \<longleftrightarrow> ly_anim l = FadingOut g"
proof -
  have l: "l \<in> set (bu_layers s)" "ly_id l = i" using assms(2) by (auto simp: find_Some_iff)
  have "inj_on ly_id (set (bu_layers s))"
    using assms(1) by (simp add: layers_ok_def skel_def comp_def distinct_map)
  then show ?thesis using l by (auto simp: fading_ids_def inj_on_def)
qed

lemma fading_not_found: "find (\<lambda>l. ly_id l = i) (bu_layers s) = None \<Longrightarrow> i \<notin> set (fading_ids g s)"
  by (auto simp: fading_ids_def find_None_iff)

lemma layers_at_reset:
  "layers_at u (reset_block els h f t s) =
   (if td_blocked (bu_data s t) then layers_at u s else filter (\<lambda>i. i \<notin> set els) (layers_at u s))"
proof -
  have "map fst (filter (\<lambda>(i, k, h). h = Some u) (detach E sk)) =
    filter (\<lambda>i. i \<notin> E) (map fst (filter (\<lambda>(i, k, h). h = Some u) sk))" for E and sk :: "(nat \<times> (kind \<times> bool) \<times> target option) list"
    by (induction sk) (auto simp: detach_def)
  then show ?thesis by (simp add: layers_at_skel reset_skel)
qed

lemma fade_end_books [simp]: "books (fade_end i s) = books s"
  by (simp add: fade_end_def Let_def split: option.split anim.split)

text \<open>
  \<open>ending g t I s\<close>: the target is free, and its layers are gone or belong to the running \<open>fadeOut\<close>
  \<open>g\<close>, whose counter is the number of layers it still runs on, all of them in \<open>I\<close>.
\<close>

definition group_runs :: "nat \<Rightarrow> target \<Rightarrow> nat set \<Rightarrow> bstate \<Rightarrow> fade \<Rightarrow> bool" where
  "group_runs g t I s x \<longleftrightarrow>
     x \<in> set (bu_fades s) \<and> fd_id x = g \<and> fd_target x = t \<and> set (layers_at t s) \<subseteq> set (fd_els x) \<and>
     fd_count x = length (fading_ids g s) \<and> fading_ids g s \<noteq> [] \<and> set (fading_ids g s) \<subseteq> I"

definition ending :: "nat \<Rightarrow> target \<Rightarrow> nat set \<Rightarrow> bstate \<Rightarrow> bool" where
  "ending g t I s \<longleftrightarrow> block_ok s \<and> \<not> td_blocked (bu_data s t) \<and> (layers_at t s = [] \<or> (\<exists>x. group_runs g t I s x))"

lemma fade_end_layers_at: "set (layers_at t (fade_end i s)) \<subseteq> set (layers_at t s)"
proof -
  have "layers_at t (stop_layer j f s) = layers_at t s" "layers_at t (set_count g c r) = layers_at t r"
    "layers_at t (log_opt_event y r) = layers_at t r" for j f g c r y
    by (simp_all add: layers_at_skel)
  then show ?thesis
    by (auto simp: fade_end_def Let_def layers_at_reset split: option.split anim.split)
qed

lemma find_fade:
  assumes "layers_ok s" "x \<in> set (bu_fades s)" shows "find (\<lambda>f. fd_id f = fd_id x) (bu_fades s) = Some x"
proof (cases "find (\<lambda>f. fd_id f = fd_id x) (bu_fades s)")
  case None
  then show ?thesis using assms(2) by (auto simp: find_None_iff)
next
  case (Some y)
  then have "y \<in> set (bu_fades s)" "fd_id y = fd_id x" by (auto simp: find_Some_iff)
  then show ?thesis using Some assms by (auto simp: layers_ok_def distinct_map inj_on_def)
qed

lemma length_filter_out:
  assumes "distinct xs" "i \<in> set xs" shows "length (filter (\<lambda>j. j \<noteq> i) xs) = length xs - 1"
proof -
  have "length (filter (\<lambda>j. j \<noteq> i) xs) = card (set xs - {i})"
    using assms(1) distinct_card[of "filter (\<lambda>j. j \<noteq> i) xs"] by (simp add: set_diff_eq)
  then show ?thesis using assms by (simp add: distinct_card)
qed

lemma filter_out_absent: "i \<notin> set xs \<Longrightarrow> filter (\<lambda>j. j \<noteq> i) xs = xs"
  by (induction xs) auto

lemma fade_end_other:
  assumes "layers_ok s" "i \<notin> set (fading_ids g s)" "x \<in> set (bu_fades s)" "fd_id x = g"
  shows "fading_ids g (fade_end i s) = fading_ids g s \<and> x \<in> set (bu_fades (fade_end i s))"
proof (cases "find (\<lambda>l. ly_id l = i) (bu_layers s)")
  case (Some l)
  note f = Some
  show ?thesis
  proof (cases "ly_anim l")
    case (FadingOut g')
    then have "g' \<noteq> g" using fading_found[OF assms(1) f, of g] assms(2) by auto
    then have "x \<in> set (bu_fades (set_count g' c (stop_layer i h s)))" for c h
      using assms(3,4) by (auto simp: set_count_def image_iff intro!: bexI[of _ x])
    then show ?thesis
      using f FadingOut assms(2,3)
      by (auto simp: fade_end_def Let_def filter_out_absent split: option.split)
  qed (use f assms in \<open>auto simp: fade_end_def filter_out_absent\<close>)
qed (use assms in \<open>simp add: fade_end_def\<close>)

lemma ending_step:
  assumes "ending g t I s" shows "ending g t (I - {i}) (fade_end i s)"
proof (cases "layers_at t s = []")
  case True
  then show ?thesis
    using assms fade_end_layers_at[of t i s] block_ok_fade_end[of s i] books_eqD(4)[OF fade_end_books, of i s t]
    by (simp add: ending_def)
next
  case False
  then obtain x where x: "group_runs g t I s x" using assms by (auto simp: ending_def)
  have ok: "block_ok s" "layers_ok s" "\<not> td_blocked (bu_data s t)" using assms by (simp_all add: ending_def block_ok_def)
  have base: "block_ok (fade_end i s)" "\<not> td_blocked (bu_data (fade_end i s) t)"
    using ok block_ok_fade_end books_eqD(4)[OF fade_end_books, of i s t] by simp_all
  have sub: "set (layers_at t (fade_end i s)) \<subseteq> set (fd_els x)"
    using fade_end_layers_at[of t i s] x by (auto simp: group_runs_def)
  show ?thesis
  proof (cases "i \<in> set (fading_ids g s)")
    case True
    then obtain l where l: "find (\<lambda>l. ly_id l = i) (bu_layers s) = Some l"
      using fading_not_found[of i s g] by (cases "find (\<lambda>l. ly_id l = i) (bu_layers s)") auto
    with True ok(2) have g: "ly_anim l = FadingOut g" using fading_found by blast
    have fx: "find (\<lambda>f. fd_id f = g) (bu_fades s) = Some x"
      using find_fade[OF ok(2)] x by (auto simp: group_runs_def)
    have len: "length (filter (\<lambda>j. j \<noteq> i) (fading_ids g s)) = fd_count x - 1"
      using length_filter_out[OF fading_distinct[OF ok(2)] True] x by (simp add: group_runs_def)
    note eq = fade_end_out[OF l g fx]
    show ?thesis
    proof (cases "fd_count x - 1 = 0")
      case True
      have "layers_at t (set_count g c (stop_layer i f s)) = layers_at t s" for c f by (simp add: layers_at_skel)
      with True have "layers_at t (fade_end i s) = []"
        using x ok(3) unfolding eq by (auto simp: layers_at_reset group_runs_def filter_empty_conv)
      then show ?thesis using base by (simp add: ending_def)
    next
      case False
      have "group_runs g t (I - {i}) (fade_end i s) (x\<lparr>fd_count := fd_count x - 1\<rparr>)"
        using False x len sub unfolding eq
        by (auto simp: group_runs_def set_count_def image_iff)
      then show ?thesis using base by (auto simp: ending_def)
    qed
  next
    case False
    have "x \<in> set (bu_fades s)" "fd_id x = g" using x by (simp_all add: group_runs_def)
    note other = fade_end_other[OF ok(2) False this]
    have "group_runs g t (I - {i}) (fade_end i s) x"
      using x sub False other unfolding group_runs_def by auto
    then show ?thesis using base by (auto simp: ending_def)
  qed
qed

lemma ending_run: "ending g t I s \<Longrightarrow> ending g t (I - set is) (run_events block_step (map FadeEnd is) s)"
proof (induction "is" arbitrary: I s)
  case (Cons i "is")
  from Cons.IH[OF ending_step[OF Cons.prems, of i]] show ?case
    by (simp add: Diff_insert2 [symmetric] set_diff_eq conj_ac)
qed simp

text \<open>The layers of a target that are on screen.\<close>

definition shown_at :: "target \<Rightarrow> bstate \<Rightarrow> nat list" where
  "shown_at t s = map ly_id (filter (\<lambda>l. ly_host l = Some t \<and> ly_shown l) (bu_layers s))"

lemma shown_on_layers:
  "(\<And>l. ly_id (f l) = ly_id l \<and> ly_host (f l) = ly_host l \<and> ly_shown (f l) = ly_shown l) \<Longrightarrow>
   shown_at t (on_layers P f s) = shown_at t s"
  by (simp add: shown_at_def on_layers_def filter_map comp_def if_distrib cong: if_cong)

lemma shown_cursor [simp]: "shown_at t (set_cursor c i s) = shown_at t s"
  by (simp add: set_cursor_def shown_on_layers split: option.split)

lemma shown_update [simp]:
  "shown_at t (bind_block b u o' s) = shown_at t s" "shown_at t (cancel_timer u s) = shown_at t s"
  "shown_at t (on_data u d s) = shown_at t s" "shown_at t (s\<lparr>bu_page_block := p\<rparr>) = shown_at t s"
  by (simp_all add: shown_at_def)

lemma shown_drop [simp]: "shown_at t (drop_block u o' s) = shown_at t s"
  by (simp add: drop_block_def Let_def)

lemma shown_own:
  assumes "layers_ok s"
  shows "map ly_id (filter (\<lambda>l. ly_id l \<in> set (layers_at t s) \<and> ly_shown l) (bu_layers s)) = shown_at t s"
proof -
  have "inj_on ly_id (set (bu_layers s))"
    using assms by (simp add: layers_ok_def skel_def comp_def distinct_map)
  then have "ly_id l \<in> set (layers_at t s) \<longleftrightarrow> ly_host l = Some t" if "l \<in> set (bu_layers s)" for l
    using that by (auto simp: layers_at_def inj_on_def)
  then show ?thesis by (auto simp: shown_at_def intro!: arg_cong[of _ _ "map ly_id"] filter_cong)
qed

lemma fading_start:
  assumes "\<And>l. l \<in> set (bu_layers s) \<Longrightarrow> ly_anim l \<noteq> FadingOut g"
  shows "fading_ids g (on_layers Q (\<lambda>l. l\<lparr>ly_anim := (if ly_shown l then FadingOut g else Still)\<rparr>) s) =
    map ly_id (filter (\<lambda>l. Q l \<and> ly_shown l) (bu_layers s))"
proof -
  have "map ly_id (filter (\<lambda>l. ly_anim l = FadingOut g)
      (map (\<lambda>l. if Q l then l\<lparr>ly_anim := (if ly_shown l then FadingOut g else Still)\<rparr> else l) ls)) =
    map ly_id (filter (\<lambda>l. Q l \<and> ly_shown l) ls)" if "\<forall>l \<in> set ls. ly_anim l \<noteq> FadingOut g" for ls
    using that by (induction ls) auto
  then show ?thesis using assms by (simp add: fading_ids_def on_layers_def)
qed

text \<open>Unblocking starts the end: at once, or with a \<open>fadeOut\<close> on the layers that are on screen.\<close>

lemma ending_start:
  assumes ok: "block_ok s" "anims_ok s"
    and cover: "set (shown_at t s) \<subseteq> I"
  shows "\<exists>g. ending g t I (remove_block t ov s)"
proof -
  let ?s = "drop_block t (ov block_defaults) s" and ?g = "bu_next s"
  let ?els = "layers_at t ?s"
  let ?hist = "td_history (bu_data s t)"
  let ?u = "if bo_on_unblock (ov block_defaults) = FNull then td_on_unblock (bu_data s t) else bo_on_unblock (ov block_defaults)"
  have ok1: "block_ok (remove_block t ov s)" using ok(1) by (rule block_ok_remove)
  have free: "\<not> td_blocked (bu_data (remove_block t ov s) t)" "\<not> td_blocked (bu_data ?s t)"
    using remove_frees drop_blocked ok(1) by (simp_all add: block_ok_def)
  have els: "?els = layers_at t s" by (rule layers_at_cong) simp
  have gone: "layers_at t (reset_block ?els h u t r) = []" if "skel r = skel s" "\<not> td_blocked (bu_data r t)" for h u r
    using that layers_at_cong[OF that(1), of t] by (simp add: layers_at_reset els filter_empty_conv)
  show ?thesis
  proof (cases "bo_fade_out (ov block_defaults) = 0")
    case True
    then have "layers_at t (remove_block t ov s) = []"
      using gone free(2) unfolding remove_block_def Let_def by simp
    then show ?thesis using ok1 free by (auto simp: ending_def)
  next
    case False
    let ?P = "\<lambda>l. ly_id l \<in> set ?els \<and> ly_shown l"
    let ?s1 = "on_layers (\<lambda>l. ly_id l \<in> set ?els) (\<lambda>l. l\<lparr>ly_anim := (if ly_shown l then FadingOut ?g else Still)\<rparr>) ?s"
    let ?x = "\<lparr>fd_id = ?g, fd_count = length (filter ?P (bu_layers ?s)), fd_els = ?els, fd_hist = ?hist,
      fd_on_unblock = ?u, fd_target = t\<rparr>"
    let ?s2 = "?s1\<lparr>bu_next := Suc ?g, bu_fades := bu_fades ?s1 @ [?x]\<rparr>"
    have sk: "skel ?s2 = skel s" by (simp add: skel_on_layers)
    have eq: "remove_block t ov s = (if ?els \<noteq> [] \<and> fd_count ?x = 0 then reset_block ?els ?hist ?u t ?s2 else ?s2)"
      using False unfolding remove_block_def fade_out_def Let_def by (simp only: fade.simps drop_fields if_False refl) simp
    have fresh: "ly_anim l \<noteq> FadingOut ?g" if "l \<in> set (bu_layers ?s)" for l
    proof
      assume "ly_anim l = FadingOut ?g"
      with that have "FadingOut ?g \<in> set (anims ?s)" unfolding anims_def set_map by (metis image_eqI)
      then show False using ok(2) by (auto simp: anims_ok_def)
    qed
    then have fad: "fading_ids ?g ?s2 = map ly_id (filter ?P (bu_layers ?s))"
      by (simp add: fading_start)
    show ?thesis
    proof (cases "?els \<noteq> [] \<and> fd_count ?x = 0")
      case True
      then have "layers_at t (remove_block t ov s) = []"
        using gone[OF sk] free(2) unfolding eq by simp
      then show ?thesis using ok1 free by (auto simp: ending_def)
    next
      case c: False
      have eq2: "remove_block t ov s = ?s2" unfolding eq by (rule if_not_P[OF c])
      show ?thesis
      proof (cases "?els = []")
        case True
        then have "layers_at t (remove_block t ov s) = []"
          using layers_at_cong[OF sk, of t] els eq2 by simp
        then show ?thesis using ok1 free by (auto simp: ending_def)
      next
        case False
        then have "fading_ids ?g ?s2 \<noteq> []" using c fad by simp
        moreover have "set (fading_ids ?g ?s2) \<subseteq> I"
          using cover shown_own[of ?s t] ok(1) layers_ok_cong[of s ?s] unfolding fad by (simp add: block_ok_def)
        ultimately have "group_runs ?g t I ?s2 ?x"
          using fad layers_at_cong[OF sk, of t] els by (simp add: group_runs_def)
        then show ?thesis using ok1 free eq2 by (auto simp: ending_def)
      qed
    qed
  qed
qed

lemma timer_event:
  assumes "block_ok s" "td_timeout (bu_data s t) = Some i"
  shows "\<exists>ov. timer_fires i s = remove_block t ov s"
proof -
  obtain o' where m: "(i, t, o') \<in> set (bu_timers s)"
    using timers_okD(2)[OF _ assms(2)] assms(1) by (auto simp: block_ok_def)
  then obtain j u p where f: "find (\<lambda>(j, _). j = i) (bu_timers s) = Some (j, u, p)"
    by (cases "find (\<lambda>(j, _). j = i) (bu_timers s)") (auto simp: find_None_iff)
  then have "(i, u, p) \<in> set (bu_timers s)" by (auto simp: find_Some_iff) (metis nth_mem)
  then have "u = t"
    using m assms(1) eq_key_imp_eq_value[of "bu_timers s" i "(u, p)" "(t, o')"] by (auto simp: block_ok_def timers_ok_def)
  then show ?thesis using timer_removes[OF _ f] assms(1) by (auto simp: block_ok_def)
qed

lemma ending_over:
  assumes "ending g t {} s"
  shows "layers_at t s = [] \<and> \<not> td_blocked (bu_data s t) \<and> td_timeout (bu_data s t) = None"
proof -
  have "layers_at t s = []" using assms by (auto simp: ending_def group_runs_def)
  moreover have "td_timeout (bu_data s t) = None"
    using assms timers_okD(2)[of s t] by (cases "td_timeout (bu_data s t)") (auto simp: ending_def block_ok_def)
  ultimately show ?thesis using assms by (simp add: ending_def)
qed

definition plain_nodes :: "nat \<Rightarrow> node" where
  "plain_nodes n = \<lparr>nd_place = InPage 0, nd_display = ''none'', nd_position = [], nd_css_hidden = False,
     nd_default_display = ''block''\<rparr>"

section \<open>A message element comes back\<close>

definition quiet :: "bstate \<Rightarrow> bool" where
  "quiet s \<longleftrightarrow> (\<forall>g. FadingOut g \<notin> set (anims s))"

definition move_back :: "history \<Rightarrow> nat list \<Rightarrow> nat list" where
  "move_back h moved = (if hi_parent h = Nowhere then moved else move_last (hi_el h) moved)"

definition put_back :: "history \<Rightarrow> (nat \<Rightarrow> node) \<Rightarrow> (nat \<Rightarrow> node)" where
  "put_back h nodes =
     nodes(hi_el h := (nodes (hi_el h))\<lparr>nd_display := hi_display h, nd_position := hi_position h,
       nd_place := (if hi_parent h = Nowhere then nd_place (nodes (hi_el h)) else hi_parent h)\<rparr>)"

lemma reset_nodes:
  "\<not> td_blocked (bu_data s t) \<Longrightarrow>
   bu_nodes (reset_block els (Some h) u t s) = put_back h (bu_nodes s) \<and>
   bu_moved (reset_block els (Some h) u t s) = move_back h (bu_moved s) \<and>
   td_history (bu_data (reset_block els (Some h) u t s) t) = None"
  by (simp add: reset_block_def Let_def put_back_def move_back_def restore_node_def)

text \<open>
  \<open>restoring g t h (N, M) I s\<close>: only \<open>fadeOut g\<close> runs, and either it is over and the elements are as in \<open>N\<close>,
  their order as in \<open>M\<close>, or putting back what it remembers makes them so; the layers it runs on are in \<open>I\<close>.
\<close>

definition restoring :: "nat \<Rightarrow> target \<Rightarrow> history \<Rightarrow> (nat \<Rightarrow> node) \<times> nat list \<Rightarrow> nat set \<Rightarrow> bstate \<Rightarrow> bool" where
  "restoring g t h N I s \<longleftrightarrow>
     layers_ok s \<and> set (fading_ids g s) \<subseteq> I \<and> \<not> td_blocked (bu_data s t) \<and> (\<forall>g'. FadingOut g' \<in> set (anims s) \<longrightarrow> g' = g) \<and>
     (if fading_ids g s = [] then (bu_nodes s, bu_moved s) = N \<and> td_history (bu_data s t) = None
      else (put_back h (bu_nodes s), move_back h (bu_moved s)) = N \<and>
        (\<exists>x \<in> set (bu_fades s). fd_id x = g \<and> fd_hist x = Some h \<and> fd_target x = t \<and> fd_count x = length (fading_ids g s)))"

lemma fade_end_quiet:
  assumes "\<And>l g. find (\<lambda>l. ly_id l = i) (bu_layers s) = Some l \<Longrightarrow> ly_anim l \<noteq> FadingOut g"
  shows "bu_nodes (fade_end i s) = bu_nodes s" "bu_moved (fade_end i s) = bu_moved s" "bu_data (fade_end i s) = bu_data s" "bu_fades (fade_end i s) = bu_fades s"
    "skel (fade_end i s) = skel s" "fading_ids g (fade_end i s) = filter (\<lambda>j. j \<noteq> i) (fading_ids g s) \<or>
       fading_ids g (fade_end i s) = fading_ids g s"
  using assms by (auto simp: fade_end_def split: option.split anim.split)

lemma fade_end_fading:
  assumes "layers_ok s" shows "set (fading_ids g (fade_end i s)) \<subseteq> set (fading_ids g s) - {i}"
proof (cases "find (\<lambda>l. ly_id l = i) (bu_layers s)")
  case None
  then show ?thesis using fading_not_found[OF None, of g] by (auto simp: fade_end_def)
next
  case (Some l)
  then show ?thesis
    using fading_found[OF assms Some, of g]
    by (auto simp: fade_end_def Let_def split: option.split anim.split)
qed

lemma restoring_step:
  assumes "restoring g t h N I s" shows "restoring g t h N (I - {i}) (fade_end i s)"
proof -
  have fi: "set (fading_ids g (fade_end i s)) \<subseteq> I - {i}"
    using fade_end_fading[of s g i] assms by (auto simp: restoring_def)
  have ok: "layers_ok s" "\<not> td_blocked (bu_data s t)" "\<And>g'. FadingOut g' \<in> set (anims s) \<Longrightarrow> g' = g"
    using assms by (auto simp: restoring_def)
  have an: "g' = g" if "FadingOut g' \<in> set (anims (fade_end i s))" for g'
    using that fade_end_anims[of i s] ok(3) by blast
  have bl: "\<not> td_blocked (bu_data (fade_end i s) t)" using ok(2) books_eqD(4)[OF fade_end_books, of i s t] by simp
  show ?thesis
  proof (cases "i \<in> set (fading_ids g s)")
    case True
    then obtain l where l: "find (\<lambda>l. ly_id l = i) (bu_layers s) = Some l"
      using fading_not_found[of i s g] by (cases "find (\<lambda>l. ly_id l = i) (bu_layers s)") auto
    with True ok(1) have g: "ly_anim l = FadingOut g" using fading_found by blast
    obtain x where x: "x \<in> set (bu_fades s)" "fd_id x = g" "fd_hist x = Some h" "fd_target x = t"
      "fd_count x = length (fading_ids g s)" "(put_back h (bu_nodes s), move_back h (bu_moved s)) = N"
      using assms True by (auto simp: restoring_def split: if_splits)
    then have fx: "find (\<lambda>f. fd_id f = g) (bu_fades s) = Some x" using find_fade[OF ok(1)] by blast
    have len: "length (filter (\<lambda>j. j \<noteq> i) (fading_ids g s)) = fd_count x - 1"
      using length_filter_out[OF fading_distinct[OF ok(1)] True] x(5) by simp
    note eq = fade_end_out[OF l g fx]
    have lo: "layers_ok (set_count g c (stop_layer i f s))" for c f
      by (intro layers_ok_count layers_ok_cong[OF ok(1)]) simp_all
    show ?thesis
    proof (cases "fd_count x - 1 = 0")
      case True
      then have "filter (\<lambda>j. j \<noteq> i) (fading_ids g s) = []" using len by simp
      then show ?thesis
        using True an bl ok(2) fi x reset_nodes[of "set_count g (fd_count x - 1) (stop_layer i (\<lambda>_. False) s)" t] lo layers_ok_reset
        unfolding restoring_def eq by simp
    next
      case False
      then have "filter (\<lambda>j. j \<noteq> i) (fading_ids g s) \<noteq> []" using len by auto
      moreover have "x\<lparr>fd_count := fd_count x - 1\<rparr> \<in> set (bu_fades (set_count g (fd_count x - 1) (stop_layer i (\<lambda>_. False) s)))"
        using x(1,2) by (auto simp: set_count_def)
      ultimately show ?thesis
        using False an bl x lo len fi unfolding restoring_def eq by (auto intro!: bexI[of _ "x\<lparr>fd_count := fd_count x - 1\<rparr>"])
    qed
  next
    case False
    have q: "ly_anim l \<noteq> FadingOut g'" if "find (\<lambda>l. ly_id l = i) (bu_layers s) = Some l" for l g'
    proof
      assume a: "ly_anim l = FadingOut g'"
      then have "FadingOut g' \<in> set (anims s)" using that by (auto simp: anims_def find_Some_iff) (metis nth_mem image_eqI)
      then show False using ok(3) fading_found[OF ok(1) that, of g] a False by simp
    qed
    note k = fade_end_quiet[of i s, OF q]
    have "fading_ids g (fade_end i s) = fading_ids g s"
      using k(6)[of g] filter_out_absent[OF False] by auto
    moreover have "layers_ok (fade_end i s)" by (rule layers_ok_cong[OF ok(1)]) (use k in simp_all)
    ultimately show ?thesis using assms an bl k fi by (simp add: restoring_def)
  qed
qed

lemma restoring_run: "restoring g t h N I s \<Longrightarrow> restoring g t h N (I - set is) (run_events block_step (map FadeEnd is) s)"
proof (induction "is" arbitrary: I s)
  case (Cons i "is")
  from Cons.IH[OF restoring_step[OF Cons.prems, of i]] show ?case
    by (simp add: Diff_insert2 [symmetric] set_diff_eq conj_ac)
qed simp

lemma quiet_run:
  assumes "quiet s"
  shows "let s' = run_events block_step (map FadeEnd is) s in
    quiet s' \<and> bu_nodes s' = bu_nodes s \<and> bu_moved s' = bu_moved s \<and> bu_data s' = bu_data s \<and> skel s' = skel s"
  using assms
proof (induction "is" arbitrary: s)
  case (Cons i "is")
  have q: "ly_anim l \<noteq> FadingOut g" if "find (\<lambda>l. ly_id l = i) (bu_layers s) = Some l" for l g
    using that Cons.prems by (auto simp: quiet_def anims_def find_Some_iff) (metis nth_mem image_eqI)
  have "quiet (fade_end i s)" using Cons.prems fade_end_anims[of i s] by (auto simp: quiet_def)
  from Cons.IH[OF this] show ?case using fade_end_quiet[of i s, OF q] by (simp add: Let_def)
qed (simp add: Let_def)

lemma fading_quiet: "quiet s \<Longrightarrow> fading_ids g s = []"
  by (force simp: quiet_def anims_def fading_ids_def filter_empty_conv)

lemma restoring_start:
  assumes ok: "block_ok s" and q: "quiet s" and h: "td_history (bu_data s t) = Some h" and ne: "layers_at t s \<noteq> []"
    and cover: "set (shown_at t s) \<subseteq> I"
  shows "restoring (bu_next s) t h (put_back h (bu_nodes s), move_back h (bu_moved s)) I (remove_block t ov s)"
proof -
  let ?s = "drop_block t (ov block_defaults) s" and ?g = "bu_next s"
  let ?els = "layers_at t ?s"
  let ?u = "if bo_on_unblock (ov block_defaults) = FNull then td_on_unblock (bu_data s t) else bo_on_unblock (ov block_defaults)"
  let ?N = "(put_back h (bu_nodes s), move_back h (bu_moved s))"
  have lo: "layers_ok (remove_block t ov s)" using layers_ok_remove ok by (simp add: block_ok_def)
  have free: "\<not> td_blocked (bu_data (remove_block t ov s) t)" "\<not> td_blocked (bu_data ?s t)"
    using remove_frees drop_blocked ok by (simp_all add: block_ok_def)
  have els: "?els = layers_at t s" by (rule layers_at_cong) simp
  have only: "g' = ?g" if "FadingOut g' \<in> set (anims (remove_block t ov s))" for g'
    using that remove_anims[of t ov s] q by (auto simp: quiet_def)
  have done': "restoring ?g t h ?N I (remove_block t ov s)"
    if "remove_block t ov s = reset_block ?els (Some h) ?u t r" "bu_nodes r = bu_nodes s" "bu_moved r = bu_moved s" "bu_data r = bu_data ?s"
      "fading_ids ?g r = []" for r
    using that lo free only reset_nodes[of r t ?els h ?u] by (simp add: restoring_def)
  show ?thesis
  proof (cases "bo_fade_out (ov block_defaults) = 0")
    case True
    have "remove_block t ov s = reset_block ?els (Some h) ?u t ?s"
      using True h unfolding remove_block_def Let_def by simp
    moreover have "fading_ids ?g ?s = []" using fading_quiet[of ?s] q by (simp add: quiet_def)
    ultimately show ?thesis by (intro done') simp_all
  next
    case False
    let ?P = "\<lambda>l. ly_id l \<in> set ?els \<and> ly_shown l"
    let ?s1 = "on_layers (\<lambda>l. ly_id l \<in> set ?els) (\<lambda>l. l\<lparr>ly_anim := (if ly_shown l then FadingOut ?g else Still)\<rparr>) ?s"
    let ?x = "\<lparr>fd_id = ?g, fd_count = length (filter ?P (bu_layers ?s)), fd_els = ?els, fd_hist = Some h,
      fd_on_unblock = ?u, fd_target = t\<rparr>"
    let ?s2 = "?s1\<lparr>bu_next := Suc ?g, bu_fades := bu_fades ?s1 @ [?x]\<rparr>"
    have eq: "remove_block t ov s = (if ?els \<noteq> [] \<and> fd_count ?x = 0 then reset_block ?els (Some h) ?u t ?s2 else ?s2)"
      using False h unfolding remove_block_def fade_out_def Let_def by (simp only: fade.simps drop_fields if_False refl) simp
    have "ly_anim l \<noteq> FadingOut ?g" if "l \<in> set (bu_layers ?s)" for l
    proof
      assume "ly_anim l = FadingOut ?g"
      with that have "FadingOut ?g \<in> set (anims ?s)" unfolding anims_def set_map by (metis image_eqI)
      then show False using q by (simp add: quiet_def)
    qed
    then have fad: "fading_ids ?g ?s2 = map ly_id (filter ?P (bu_layers ?s))"
      by (simp add: fading_start)
    show ?thesis
    proof (cases "fd_count ?x = 0")
      case True
      have "remove_block t ov s = reset_block ?els (Some h) ?u t ?s2"
        unfolding eq by (rule if_P) (use True ne els in simp)
      then show ?thesis by (rule done') (use True fad in simp_all)
    next
      case c: False
      have eq2: "remove_block t ov s = ?s2" unfolding eq by (rule if_not_P) (use c in simp)
      have "fading_ids ?g ?s2 \<noteq> []" "length (fading_ids ?g ?s2) = fd_count ?x" using c fad by simp_all
      moreover have "set (fading_ids ?g ?s2) \<subseteq> I"
        using cover shown_own[of ?s t] ok layers_ok_cong[of s ?s] unfolding fad by (simp add: block_ok_def)
      ultimately show ?thesis
        using lo free only unfolding restoring_def eq2 by simp
    qed
  qed
qed

text \<open>Blocking a target that is at rest, with an element of the page as the message.\<close>

lemma block_at_rest:
  assumes ok: "block_ok s" and q: "quiet s"
    and rest: "\<not> td_blocked (bu_data s t)" "td_history (bu_data s t) = None"
    and msg: "bo_message (ov block_defaults) \<in> {MElem n, MSet (Some n)}" "nd_place (bu_nodes s n) \<noteq> Nowhere"
  defines "h \<equiv> \<lparr>hi_el = n, hi_parent = nd_place (bu_nodes s n), hi_display = nd_display (bu_nodes s n),
    hi_position = nd_position (bu_nodes s n)\<rparr>"
  shows "put_back h (bu_nodes (block_target t ov s)) = bu_nodes s"
    and "move_back h (bu_moved (block_target t ov s)) = move_last n (bu_moved s)"
    and "td_history (bu_data (block_target t ov s) t) = Some h"
    and "quiet (block_target t ov s)" and "layers_at t (block_target t ov s) \<noteq> []"
proof -
  let ?o = "ov block_defaults"
  have inst: "bu_nodes (install t ov r) = (bu_nodes r)(n := show_node ((bu_nodes r n)\<lparr>nd_place := InLayer (bu_next r + 2)\<rparr>)) \<and>
      bu_moved (install t ov r) = move_last n (bu_moved r) \<and>
      td_history (bu_data (install t ov r) t) = Some h \<and> quiet (install t ov r) \<and> layers_at t (install t ov r) \<noteq> []"
    if r: "\<not> td_blocked (bu_data r t)" "t = Window \<Longrightarrow> bu_page_block r = None" "bu_nodes r = bu_nodes s" "bu_moved r = bu_moved s" "quiet r" for r
  proof -
    have c: "capture t (bo_message ?o) r = Some (capture_node t n r)"
      using msg r(3) by (auto simp: capture_def)
    have e: "install t ov r = set_timer t ?o (installed t ?o (capture_node t n r))"
    proof -
      have "(if t = Window \<and> bu_page_block r \<noteq> None then x else r) = r" for x using r(2) by auto
      then show ?thesis unfolding install_eq Let_def using r(1) c by simp
    qed
    have "anims (capture_node t n r) = anims r" by (simp add: capture_node_def anims_def Let_def)
    then have "quiet (install t ov r)"
      using r(5) keeps_fades_installed[of "capture_node t n r" t ?o] unfolding e by (auto simp: quiet_def keeps_fades_def)
    moreover have "skel (set_timer t ?o z) = skel z" for z by (simp add: set_timer_def)
    then have "layers_at t (install t ov r) \<noteq> []"
      unfolding e layers_at_skel by (simp add: installed_fields)
    moreover have "td_history (bu_data (install t ov r) t) = Some h"
      using r(3) unfolding e installed_def Let_def by (simp add: set_timer_def capture_node_def h_def Let_def)
    moreover have "bu_nodes (install t ov r) = (bu_nodes r)(n := show_node ((bu_nodes r n)\<lparr>nd_place := InLayer (bu_next r + 2)\<rparr>)) \<and>
        bu_moved (install t ov r) = move_last n (bu_moved r)"
      using msg unfolding e installed_def Let_def
      by (auto simp: set_timer_def capture_node_def append_message_def move_last_def Let_def)
    ultimately show ?thesis by simp
  qed
  let ?r = "if t = Window then s else (let s1 = remove_block t (\<lambda>d. d\<lparr>bo_fade_out := 0\<rparr>) s
     in if bu_position s1 t = ''static'' then on_data t (\<lambda>d. d\<lparr>td_static := True\<rparr>) (s1\<lparr>bu_position := (bu_position s1)(t := ''relative'')\<rparr>)
        else s1)"
  have b: "block_target t ov s = install t ov ?r"
    using rest(1) by (simp add: block_target_def Let_def)
  let ?s1 = "remove_block t (\<lambda>d. d\<lparr>bo_fade_out := 0\<rparr>) s"
  have n1: "bu_nodes ?s1 = bu_nodes s" "bu_moved ?s1 = bu_moved s" using rest(2) by (simp_all add: remove_block_def Let_def reset_block_def)
  have q1: "quiet ?s1" using q by (simp add: remove_block_def Let_def quiet_def)
  have "\<not> td_blocked (bu_data ?s1 t)" using remove_frees ok by (simp add: block_ok_def)
  moreover have "bu_page_block s = None" if "t = Window" using rest(1) ok that by (simp add: block_ok_def page_ok_def)
  ultimately have "\<not> td_blocked (bu_data ?r t)" "t = Window \<Longrightarrow> bu_page_block ?r = None" "bu_nodes ?r = bu_nodes s" "bu_moved ?r = bu_moved s" "quiet ?r"
    using rest(1) n1 q1 q by (cases "t = Window", simp_all add: Let_def quiet_def)+
  from inst[OF this]
  have i: "bu_nodes (block_target t ov s) = (bu_nodes s)(n := show_node ((bu_nodes s n)\<lparr>nd_place := InLayer (bu_next ?r + 2)\<rparr>))"
    "bu_moved (block_target t ov s) = move_last n (bu_moved s)"
    "td_history (bu_data (block_target t ov s) t) = Some h" "quiet (block_target t ov s)" "layers_at t (block_target t ov s) \<noteq> []"
    unfolding b using \<open>bu_nodes ?r = bu_nodes s\<close> \<open>bu_moved ?r = bu_moved s\<close> by metis+
  show "move_back h (bu_moved (block_target t ov s)) = move_last n (bu_moved s)"
    unfolding i(2) using msg(2) by (simp add: move_back_def move_last_def h_def)
  show "td_history (bu_data (block_target t ov s) t) = Some h" "quiet (block_target t ov s)" "layers_at t (block_target t ov s) \<noteq> []"
    by (rule i)+
  show "put_back h (bu_nodes (block_target t ov s)) = bu_nodes s"
    unfolding i(1) using msg(2) by (auto simp: put_back_def h_def show_node_def Let_def fun_eq_iff)
qed

text \<open>
  C28. A message element comes back. When nothing fades and the target is at rest, blocking it with an
  element of the page and unblocking it, with any options and with the fades ending in any
  order, brings it back into its parent, as the last child, with its display and position; every other
  element is where it was, in the order it had; and the target is free.
\<close>

theorem message_comes_back:
  fixes ie nodes pos es and "is" :: "nat list" and t :: target and ov :: override
  defines "s \<equiv> run_events block_step es (fresh_page ie nodes pos)"
  assumes "quiet s" "\<not> td_blocked (bu_data s t)" "td_history (bu_data s t) = None"
    and "bo_message (ov block_defaults) \<in> {MElem n, MSet (Some n)}" "nd_place (bu_nodes s n) \<noteq> Nowhere"
  defines "s1 \<equiv> run_events block_step (Block t ov # map FadeEnd is) s"
  assumes "set (shown_at t s1) \<subseteq> set js"
  shows "let s2 = run_events block_step (Unblock t ov' # map FadeEnd js) s1
    in bu_nodes s2 = bu_nodes s \<and> bu_moved s2 = filter (\<lambda>m. m \<noteq> n) (bu_moved s) @ [n] \<and> td_history (bu_data s2 t) = None \<and> layers_at t s2 = []"
proof -
  have ok: "block_ok s" using reachable_ok by (simp add: s_def)
  note b = block_at_rest[where n = n and ov = ov, OF ok assms(2-6), unfolded move_last_def]
  let ?h = "\<lparr>hi_el = n, hi_parent = nd_place (bu_nodes s n), hi_display = nd_display (bu_nodes s n),
    hi_position = nd_position (bu_nodes s n)\<rparr>"
  have s1: "quiet s1 \<and> bu_nodes s1 = bu_nodes (block_target t ov s) \<and>
      bu_moved s1 = bu_moved (block_target t ov s) \<and> bu_data s1 = bu_data (block_target t ov s) \<and>
      skel s1 = skel (block_target t ov s)"
    using quiet_run[OF b(4), of "is"] by (simp add: s1_def Let_def)
  have reach: "s1 = run_events block_step (es @ Block t ov # map FadeEnd is) (fresh_page ie nodes pos)"
    by (simp add: s1_def s_def run_events_append)
  have ok1: "block_ok s1" unfolding reach by (rule reachable_ok)
  have "restoring (bu_next s1) t ?h (put_back ?h (bu_nodes s1), move_back ?h (bu_moved s1)) (set js) (remove_block t ov' s1)"
    using restoring_start[OF ok1 _ _ _ assms(8), of ?h ov'] s1 b(3,5) layers_at_cong[of s1 "block_target t ov s" t] by simp
  then have r: "restoring (bu_next s1) t ?h (bu_nodes s, filter (\<lambda>m. m \<noteq> n) (bu_moved s) @ [n]) {} (run_events block_step (map FadeEnd js) (remove_block t ov' s1))"
    using restoring_run[of _ _ _ _ "set js" _ js] s1 b(1,2) by fastforce
  obtain g where "ending g t (set js) (remove_block t ov' s1)"
    using ending_start[OF ok1 _ assms(8)] reachable_anims_ok reach by metis
  from ending_run[OF this, of js] have e: "layers_at t (run_events block_step (map FadeEnd js) (remove_block t ov' s1)) = []"
    by (auto simp: ending_def group_runs_def)
  with r show ?thesis by (auto simp: restoring_def Let_def)
qed

theorem message_comes_back_witness:
  "let s = run_events block_step [] (fresh_page False plain_nodes (\<lambda>_. ''static''));
       s1 = run_events block_step (Block Window (\<lambda>d. d\<lparr>bo_message := MElem 7\<rparr>) # map FadeEnd [2, 1]) s;
       s2 = run_events block_step (Unblock Window id # map FadeEnd [2, 1]) s1
   in bu_nodes s2 = bu_nodes s \<and> bu_moved s2 = [7] \<and> td_history (bu_data s2 Window) = None \<and> layers_at Window s2 = []"
proof -
  let ?s = "run_events block_step [] (fresh_page False plain_nodes (\<lambda>_. ''static''))"
  have h: "quiet ?s" "\<not> td_blocked (bu_data ?s Window)" "td_history (bu_data ?s Window) = None"
    "nd_place (bu_nodes ?s 7) \<noteq> Nowhere"
    by (simp_all add: quiet_def anims_def fresh_page_def plain_nodes_def)
  have m: "bo_message ((\<lambda>d. d\<lparr>bo_message := MElem 7\<rparr>) block_defaults) \<in> {MElem 7, MSet (Some 7)}" by simp
  have "shown_at Window (run_events block_step (Block Window (\<lambda>d. d\<lparr>bo_message := MElem 7\<rparr>) # map FadeEnd [2, 1]) ?s) = [1, 2]"
    by code_simp
  then have c: "set (shown_at Window (run_events block_step (Block Window (\<lambda>d. d\<lparr>bo_message := MElem 7\<rparr>) # map FadeEnd [2, 1]) ?s))
      \<subseteq> set [2, 1]" by simp
  from message_comes_back[where ov' = id, OF h(1-3) m h(4) c] show ?thesis
    unfolding Let_def by (simp add: fresh_page_def)
qed

section \<open>Events on a blocked page\<close>

lemma handlers_set_timer [simp]: "bu_handlers (set_timer t o' s) = bu_handlers s" "bu_layers (set_timer t o' s) = bu_layers s"
  by (simp_all add: set_timer_def)

lemma installed_handlers:
  "bo_bind_events o' \<Longrightarrow> bo_show_overlay o' \<Longrightarrow> e \<in> set bound_events \<Longrightarrow> (e, o') \<in> set (bu_handlers (installed Window o' s))"
  by (simp add: installed_def bind_block_def Let_def)

lemma installed_box:
  "\<exists>l \<in> set (bu_layers (installed t o' s)). ly_is_div l \<and> ''blockUI'' \<in> set (ly_classes l) \<and> ly_host l = Some t"
proof -
  have "(bu_next s + 2, (Message, True), Some t) \<in> set (skel (installed t o' s))" by (simp add: installed_fields)
  then show ?thesis by (auto simp: skel_def layer_kind_def)
qed


definition demo_click :: ui_event where
  "demo_click = \<lparr>ev_type = ''mousedown'', ev_key = 0, ev_shift = False, ev_target = 3, ev_on_overlay = False,
     ev_message_classes = [''container''], ev_ancestors = [Elem 2, Window]\<rparr>"


lemma click_gets_through:
  "event_allowed [] (demo_click\<lparr>ev_type := ''click''\<rparr>) (block_step (Block Window id) (fresh_page False plain_nodes (\<lambda>_. ''static'')))"
  by code_simp

section \<open>What goes wrong\<close>

text \<open>
  Blocking again with the same message element while the first block still fades out takes the
  element from the old layers; when all is unblocked it is put back into a layer that is no longer
  in the document.
\<close>

lemma reblocked_message_lost:
  "let msg = (\<lambda>d. d\<lparr>bo_message := MElem 7\<rparr>);
       s = run_events block_step ([Block Window msg, Unblock Window id, Block Window msg] @ map FadeEnd [1, 2] @
             [Unblock Window id] @ map FadeEnd [5, 6]) (fresh_page False plain_nodes (\<lambda>_. ''static''))
   in nd_place (bu_nodes s 7) = InLayer 2 \<and> layers_at Window s = []"
  by code_simp

text \<open>
  An element unblocked by its timer keeps its \<open>onUnblock\<close> stored; blocking it again without one calls
  the old callback although nothing was unblocked.
\<close>

lemma stale_unblock_callback:
  "let s = run_events block_step ([Block (Elem 1) (\<lambda>d. d\<lparr>bo_timeout := 50, bo_on_unblock := FFun 9\<rparr>), TimerFires 3] @
             map FadeEnd [1, 2]) (fresh_page False plain_nodes (\<lambda>_. ''absolute''))
   in bu_log s = [LUnblock 9 (Elem 1)] \<and> bu_log (block_step (Block (Elem 1) id) s) = [LUnblock 9 (Elem 1), LUnblock 9 (Elem 1)]"
  by code_simp

text \<open>
  The note that an element was \<open>position: static\<close> is never dropped; positioned by the page in between, the
  element is static after the next block.
\<close>

lemma position_overwritten:
  "let s = run_events block_step ([Block (Elem 1) id, Unblock (Elem 1) id] @ map FadeEnd [1, 2])
             (fresh_page False plain_nodes (\<lambda>_. ''static''));
       s1 = s\<lparr>bu_position := (bu_position s)(Elem 1 := ''absolute'')\<rparr>
   in bu_position (run_events block_step ([Block (Elem 1) id, Unblock (Elem 1) id] @ map FadeEnd [4, 5, 6, 7]) s1) (Elem 1) = ''static''"
  by code_simp

end
