(* ===== verification/Block_Growl.thy ===== *)
theory Block_Growl
  imports Block_Ends "HOL-Library.Code_Target_Nat"
begin

text \<open>
  \<open>$.growlUI\<close> of \<open>jquery.blockUI.js\<close>: a short notice in a corner of the page, which is a page block without
  overlay, and the handlers that keep it while the mouse is over it. They look for every message
  box of the page, so they also meddle with the blocks of other elements.
\<close>

section \<open>The notice\<close>

definition growl_content :: "string option \<Rightarrow> string option \<Rightarrow> string" where
  "growl_content title msg =
     (let part = (\<lambda>tag t. case t of Some x \<Rightarrow> if x = [] then [] else ''<'' @ tag @ ''>'' @ x @ ''</'' @ tag @ ''>'' | None \<Rightarrow> [])
      in ''<div class=\"growlUI\">'' @ part ''h1'' title @ part ''h2'' msg @ ''</div>'')"

text \<open>
  \<open>callBlock\<close>: \<open>m\<close> is the element of the notice, \<open>timeout\<close> and \<open>on_close\<close> are the arguments of \<open>growlUI\<close>; \<open>fade_in\<close>
  and \<open>ms\<close> are the options given.
\<close>

definition call_block :: "nat \<Rightarrow> nat option \<Rightarrow> js_fun \<Rightarrow> nat option \<Rightarrow> nat option \<Rightarrow> override" where
  "call_block m timeout on_close fade_in ms =
     (\<lambda>d. (growl_options (MSet (Some m)) (if ms = None then timeout else ms) on_close d)
        \<lparr>bo_fade_in := (case fade_in of None \<Rightarrow> 700 | Some n \<Rightarrow> n)\<rparr>)"

text \<open>
  The page with its notices, and the boxes that have a \<open>fadeOut\<close> in their queue behind a fade that runs.
\<close>

record notice =
  no_el :: nat
  no_timeout :: "nat option"
  no_on_close :: js_fun

record growl_page =
  gr_block :: bstate
  gr_notices :: "notice list"
  gr_hiding :: "nat list"

section \<open>The mouse\<close>

text \<open>\<open>$('.blockMsg')\<close>: the message boxes in the document.\<close>

definition is_message :: "block_layer \<Rightarrow> bool" where
  "is_message l \<longleftrightarrow> ly_host l \<noteq> None \<and> ''blockMsg'' \<in> set (ly_classes l)"

definition fading_in :: "block_layer \<Rightarrow> bool" where
  "fading_in l = (case ly_anim l of FadingIn _ \<Rightarrow> True | _ \<Rightarrow> False)"

text \<open>
  \<open>fadeOut\<close> without a callback is a \<open>fadeOut\<close> that nobody waits for: its number is new, and no fade has it.
\<close>

definition hide_plainly :: "(block_layer \<Rightarrow> bool) \<Rightarrow> bstate \<Rightarrow> bstate" where
  "hide_plainly P s =
     (on_layers P (\<lambda>l. l\<lparr>ly_anim := FadingOut (bu_next s)\<rparr>) s)\<lparr>bu_next := Suc (bu_next s)\<rparr>"

text \<open>
  \<open>stop()\<close> drops the animation that runs, and with it what should follow its end; what is queued behind it
  begins. \<open>fadeTo\<close> shows a hidden box.
\<close>

definition show_messages :: "growl_page \<Rightarrow> growl_page" where
  "show_messages g =
     (let s = gr_block g;
          s1 = hide_plainly (\<lambda>l. is_message l \<and> ly_id l \<in> set (gr_hiding g)) s;
          s2 = on_layers (\<lambda>l. is_message l \<and> ly_id l \<notin> set (gr_hiding g))
                 (\<lambda>l. l\<lparr>ly_shown := True, ly_anim := FadingIn None\<rparr>) s1
      in g\<lparr>gr_block := s2, gr_hiding := []\<rparr>)"

definition hide_messages :: "growl_page \<Rightarrow> growl_page" where
  "hide_messages g =
     (let s = gr_block g
      in g\<lparr>gr_block := hide_plainly (\<lambda>l. is_message l \<and> ly_shown l \<and> ly_anim l = Still) s,
           gr_hiding := gr_hiding g @ map ly_id (filter (\<lambda>l. is_message l \<and> fading_in l) (bu_layers s))\<rparr>)"

text \<open>After a step of the page: a box whose fade has ended begins what was queued; a queue that \<open>stop\<close> cut is gone.\<close>

definition settle_queue :: "growl_page \<Rightarrow> growl_page" where
  "settle_queue g =
     (let due = (\<lambda>l. ly_id l \<in> set (gr_hiding g) \<and> ly_shown l \<and> ly_anim l = Still)
      in g\<lparr>gr_block := hide_plainly due (gr_block g),
           gr_hiding := filter (\<lambda>i. \<exists>l \<in> set (bu_layers (gr_block g)). ly_id l = i \<and> fading_in l) (gr_hiding g)\<rparr>)"

datatype growl_event = Page block_event | Growl notice | MouseOver nat | MouseOut nat

definition notice_of :: "nat \<Rightarrow> growl_page \<Rightarrow> notice option" where
  "notice_of m g = find (\<lambda>n. no_el n = m) (gr_notices g)"

fun growl_step :: "growl_event \<Rightarrow> growl_page \<Rightarrow> growl_page" where
  "growl_step (Page e) g = settle_queue (g\<lparr>gr_block := block_step e (gr_block g)\<rparr>)"
| "growl_step (Growl n) g =
     settle_queue
       (g\<lparr>gr_block := install Window (call_block (no_el n) (no_timeout n) (no_on_close n) None None) (gr_block g),
          gr_notices := gr_notices g @ [n]\<rparr>)"
| "growl_step (MouseOver m) g =
     (case notice_of m g of
        None \<Rightarrow> g
      | Some n \<Rightarrow> show_messages
          (g\<lparr>gr_block := install Window (call_block m (no_timeout n) (no_on_close n) (Some 0) (Some 30000)) (gr_block g)\<rparr>))"
| "growl_step (MouseOut m) g = (if notice_of m g = None then g else hide_messages g)"

definition growl_start :: "bstate \<Rightarrow> growl_page" where
  "growl_start s = \<lparr>gr_block = s, gr_notices = [], gr_hiding = []\<rparr>"

section \<open>What notices keep\<close>

lemma hide_plainly_fields [simp]:
  "skel (hide_plainly P s) = skel s" "books (hide_plainly P s) = books s" "bu_fades (hide_plainly P s) = bu_fades s"
  "bu_next (hide_plainly P s) = Suc (bu_next s)" "bu_data (hide_plainly P s) = bu_data s"
  by (simp_all add: hide_plainly_def skel_on_layers)

definition page_fine :: "bstate \<Rightarrow> bool" where
  "page_fine s \<longleftrightarrow> block_ok s \<and> anims_ok s"

lemma fine_hide:
  assumes "page_fine s" shows "page_fine (hide_plainly P s)"
proof -
  have "block_ok (hide_plainly P s)"
    using assms block_ok_cong[of s "hide_plainly P s"] by (simp add: page_fine_def)
  moreover have "anims_ok (hide_plainly P s)"
    using assms by (fastforce simp: page_fine_def anims_ok_def anims_def hide_plainly_def on_layers_def less_Suc_eq split: if_splits)
  ultimately show ?thesis by (simp add: page_fine_def)
qed

lemma fine_show:
  assumes "page_fine s" shows "page_fine (on_layers P (\<lambda>l. l\<lparr>ly_shown := True, ly_anim := FadingIn None\<rparr>) s)"
    (is "page_fine ?s")
proof -
  have "block_ok ?s" using assms block_ok_cong[of s ?s] by (simp add: page_fine_def skel_on_layers)
  moreover have "anims_ok ?s"
    using assms by (fastforce simp: page_fine_def anims_ok_def anims_def on_layers_def split: if_splits)
  ultimately show ?thesis by (simp add: page_fine_def)
qed

lemma fine_install: "page_fine s \<Longrightarrow> page_fine (install Window ov s)"
  using block_ok_install[of s Window ov] anims_ok_install[of s Window ov] by (simp add: page_fine_def)

lemma fine_step: "page_fine s \<Longrightarrow> page_fine (block_step e s)"
  unfolding page_fine_def by (rule anims_ok_step)

lemma growl_step_fine: "page_fine (gr_block g) \<Longrightarrow> page_fine (gr_block (growl_step e g))"
  by (cases e)
    (auto simp: settle_queue_def show_messages_def hide_messages_def Let_def fine_hide fine_show fine_install fine_step
       split: option.split)

interpretation growling: invariant_machine growl_step "\<lambda>g. page_fine (gr_block g)"
  by unfold_locales (rule growl_step_fine)

lemma reachable_fine: "page_fine (gr_block (run_events growl_step es (growl_start (fresh_page ie nodes pos))))"
proof (rule growling.run_keeps)
  have "anims_ok (fresh_page ie nodes pos)" by (simp add: anims_ok_def fresh_page_def anims_def)
  then show "page_fine (gr_block (growl_start (fresh_page ie nodes pos)))"
    by (simp add: growl_start_def page_fine_def fresh_page_ok)
qed

lemma ending_hide:
  assumes "ending g t I s" "\<And>l. P l \<Longrightarrow> ly_anim l = Still"
  shows "ending g t I (hide_plainly P s)"
proof -
  have at: "layers_at t (hide_plainly P s) = layers_at t s" by (rule layers_at_cong) simp
  have "group_runs g t I (hide_plainly P s) x" if x: "group_runs g t I s x" for x
  proof -
    have "g < bu_next s" using assms(1) x by (auto simp: ending_def block_ok_def layers_ok_def group_runs_def)
    then have "map ly_id (filter (\<lambda>l. ly_anim l = FadingOut g) (map (\<lambda>l. if P l then l\<lparr>ly_anim := FadingOut (bu_next s)\<rparr> else l) ls)) =
      map ly_id (filter (\<lambda>l. ly_anim l = FadingOut g) ls)" for ls
      using assms(2) by (induction ls) auto
    then have "fading_ids g (hide_plainly P s) = fading_ids g s"
      by (simp add: fading_ids_def hide_plainly_def on_layers_def)
    then show ?thesis using x by (simp add: group_runs_def at)
  qed
  moreover have "block_ok (hide_plainly P s)"
    using assms(1) block_ok_cong[of s "hide_plainly P s"] by (simp add: ending_def)
  ultimately show ?thesis using assms(1) by (auto simp: ending_def at)
qed

lemma ending_settle: "ending g t I (gr_block p) \<Longrightarrow> ending g t I (gr_block (settle_queue p))"
  by (auto simp: settle_queue_def Let_def intro: ending_hide)

lemma ending_growl_run:
  "ending g t I (gr_block p) \<Longrightarrow>
   ending g t (I - set is) (gr_block (run_events growl_step (map (\<lambda>i. Page (FadeEnd i)) is) p))"
proof (induction "is" arbitrary: I p)
  case (Cons i "is")
  have "ending g t (I - {i}) (gr_block (growl_step (Page (FadeEnd i)) p))"
    using ending_step[OF Cons.prems, of i] by (simp add: ending_settle)
  from Cons.IH[OF this] show ?case
    by (simp add: Diff_insert2 [symmetric] set_diff_eq conj_ac)
qed simp

text \<open>
  C27. Unblocking is never stuck. After any history of blocking, unblocking, notices, timers, fades and a mouse
  that comes and goes over the notices, unblocking a target, by a call or by its timer, frees it, and once the fades of its
  layers that were on screen have ended, in any order and among ends of other fades, none of its
  layers is left in the document.
\<close>

theorem unblock_clears_target:
  fixes ie nodes pos es
  defines "p \<equiv> run_events growl_step es (growl_start (fresh_page ie nodes pos))"
  assumes "e = Unblock t ov \<or> (\<exists>i. e = TimerFires i \<and> td_timeout (bu_data (gr_block p) t) = Some i)"
    and "set (shown_at t (gr_block p)) \<subseteq> set is"
  shows "let s' = gr_block (run_events growl_step (map (\<lambda>i. Page (FadeEnd i)) is) (growl_step (Page e) p))
    in layers_at t s' = [] \<and> \<not> td_blocked (bu_data s' t) \<and> td_timeout (bu_data s' t) = None"
proof -
  let ?s = "gr_block p"
  have ok: "block_ok ?s" "anims_ok ?s" using reachable_fine by (simp_all add: p_def page_fine_def)
  obtain ov' where step: "block_step e ?s = remove_block t ov' ?s"
    using assms(2) timer_event[OF ok(1)] by (metis block_step.simps(2,4))
  obtain g where "ending g t (set is) (remove_block t ov' ?s)"
    using ending_start[OF ok assms(3)] by blast
  then have "ending g t (set is) (gr_block (growl_step (Page e) p))" by (simp add: step ending_settle)
  from ending_growl_run[OF this, of "is"] have "ending g t {} (gr_block (run_events growl_step
      (map (\<lambda>i. Page (FadeEnd i)) is) (growl_step (Page e) p)))" by simp
  from ending_over[OF this] show ?thesis by (simp add: Let_def)
qed

text \<open>
  An element blocked with a timer while a notice comes under the mouse, blocked again, and unblocked by the second timer.
\<close>

definition demo_notice :: notice where
  "demo_notice = \<lparr>no_el = 7, no_timeout = None, no_on_close = FFun 5\<rparr>"

definition demo_notices :: "growl_event list" where
  "demo_notices = [Page (Block (Elem 1) (\<lambda>d. d\<lparr>bo_timeout := 50\<rparr>)), Growl demo_notice, MouseOver 7, MouseOut 7,
     Page (Block (Elem 1) (\<lambda>d. d\<lparr>bo_timeout := 70\<rparr>))]"

definition plain_page :: growl_page where
  "plain_page = growl_start (fresh_page False plain_nodes (\<lambda>_. ''static''))"
theorem unblock_clears_target_witness:
  "let p = run_events growl_step demo_notices plain_page;
       s' = gr_block (run_events growl_step (map (\<lambda>i. Page (FadeEnd i)) [12, 17, 18]) (growl_step (Page (TimerFires 19)) p))
   in layers_at (Elem 1) s' = [] \<and> \<not> td_blocked (bu_data s' (Elem 1)) \<and> td_timeout (bu_data s' (Elem 1)) = None"
proof -
  have "td_timeout (bu_data (gr_block (run_events growl_step demo_notices plain_page)) (Elem 1)) = Some 19"
    by code_simp
  then have t: "TimerFires 19 = Unblock (Elem 1) id \<or> (\<exists>i. TimerFires 19 = TimerFires i \<and>
      td_timeout (bu_data (gr_block (run_events growl_step demo_notices plain_page)) (Elem 1)) = Some i)"
    by simp
  have "shown_at (Elem 1) (gr_block (run_events growl_step demo_notices plain_page)) = [17, 18]"
    by code_simp
  then have "set (shown_at (Elem 1) (gr_block (run_events growl_step demo_notices plain_page))) \<subseteq> set [12, 17, 18]" by simp
  from unblock_clears_target[OF t[unfolded plain_page_def] this[unfolded plain_page_def]] show ?thesis
    unfolding Let_def plain_page_def .
qed

section \<open>What goes wrong\<close>

text \<open>
  The mouse over the notice unblocks the page to block it again, so the function that should be told
  when the notice is closed is called while it is shown.
\<close>

lemma close_called_under_mouse:
  "let s = gr_block (run_events growl_step [Growl demo_notice, MouseOver 7] plain_page)
   in bu_log s = [LUnblock 5 Window] \<and> td_blocked (bu_data s Window) \<and> shown_at Window s = [7]"
  by code_simp

text \<open>
  The mouse over a notice stops the fades of all messages. An element that is being unblocked keeps its layers for
  ever: its message is shown again, although the element is free.
\<close>

definition elem_blocked :: "growl_event list" where
  "elem_blocked = [Page (Block (Elem 1) id), Page (FadeEnd 1), Page (FadeEnd 2)]"

lemma mouse_stops_unblocking:
  "let s = gr_block (run_events growl_step (elem_blocked @ [Growl demo_notice, Page (Unblock (Elem 1) id), MouseOver 7,
             Page (FadeEnd 1), Page (FadeEnd 2)]) plain_page)
   in \<not> td_blocked (bu_data s (Elem 1)) \<and> layers_at (Elem 1) s = [0, 1, 2] \<and> shown_at (Elem 1) s = [2] \<and>
     filter (\<lambda>l. ly_host l = Some (Elem 1) \<and> ly_anim l \<noteq> Still) (bu_layers s) = []"
  by code_simp

text \<open>The mouse that leaves a notice hides the messages of blocked elements, which stay blocked.\<close>

lemma mouse_hides_other_messages:
  "let s = gr_block (run_events growl_step (elem_blocked @ [Growl demo_notice, MouseOut 7, Page (FadeEnd 2)]) plain_page)
   in td_blocked (bu_data s (Elem 1)) \<and> shown_at (Elem 1) s = [1]"
  by code_simp

end
