(* ===== verification/Block_Legacy.thy ===== *)
theory Block_Legacy
  imports Block_UI
begin

text \<open>
  The parts of \<open>jquery.blockUI.js\<close> that look at the browser: what it concludes from the user agent, the style
  expressions it gives the layers in Internet Explorer 6 and in quirks mode, dragging, centering,
  the first focus and the reflow after unblocking. A style expression is kept as what the browser computes
  from the measures of the page.
\<close>

section \<open>The browser\<close>

text \<open>The regular expressions \<open>/MSIE/\<close>, \<open>/MSIE 6.0/\<close> and \<open>/^https/i\<close>; a dot stands for any character of a line.\<close>

definition char_matches :: "char \<Rightarrow> char \<Rightarrow> bool" where
  "char_matches p c \<longleftrightarrow> p = c \<or> p = CHR ''.'' \<and> c \<noteq> CHR 0x0A \<and> c \<noteq> CHR 0x0D"

fun pattern_begins :: "string \<Rightarrow> string \<Rightarrow> bool" where
  "pattern_begins [] s = True"
| "pattern_begins (p # ps) [] = False"
| "pattern_begins (p # ps) (c # s) = (char_matches p c \<and> pattern_begins ps s)"

fun pattern_found :: "string \<Rightarrow> string \<Rightarrow> bool" where
  "pattern_found p [] = (p = [])"
| "pattern_found p (c # s) = (pattern_begins p (c # s) \<or> pattern_found p s)"

definition msie :: "string \<Rightarrow> bool" where
  "msie agent = pattern_found ''MSIE'' agent"

definition ie6 :: "string \<Rightarrow> bool" where
  "ie6 agent \<longleftrightarrow> pattern_found ''MSIE 6.0'' agent \<and> \<not> pattern_found ''MSIE 8.0'' agent"

definition iframe_src :: "string \<Rightarrow> string" where
  "iframe_src href = (if pattern_begins ''https'' (to_lower href) then ''javascript:false'' else ''about:blank'')"

text \<open>\<open>sz\<close>: a measure of the style, 0 if it is a word.\<close>

definition sz :: "string \<Rightarrow> int" where
  "sz style = (case parse_int style of Some n \<Rightarrow> n | None \<Rightarrow> 0)"

section \<open>Style expressions\<close>

datatype expr = PageHeight int | ParentHeight | PageWidth | ParentWidth | ZeroMinus int | PageMiddle | BelowScroll int

datatype style_setting = Fixed string | Computed expr

text \<open>What the page measures: the root element, the body, the element blocked and the layer itself.\<close>

record measures =
  me_box_model :: bool
  me_root_width :: int
  me_root_height :: int
  me_root_scroll :: int
  me_body_width :: int
  me_body_height :: int
  me_body_scroll :: int
  me_body_scroll_height :: int
  me_body_offset_height :: int
  me_parent_height :: int
  me_parent_width :: int
  me_own_height :: int

text \<open>The value of an expression: a number, or a text in pixels; the last is in half pixels.\<close>

datatype expr_value = Plain int | Px int | HalfPx int

definition scrolled :: "measures \<Rightarrow> int" where
  "scrolled m = (if me_root_scroll m \<noteq> 0 then me_root_scroll m else me_body_scroll m)"

fun eval_expr :: "measures \<Rightarrow> expr \<Rightarrow> expr_value" where
  "eval_expr m (PageHeight hack) =
     Px (max (me_body_scroll_height m) (me_body_offset_height m) - (if me_box_model m then 0 else hack))"
| "eval_expr m ParentHeight = Px (me_parent_height m)"
| "eval_expr m PageWidth =
     (if me_box_model m \<and> me_root_width m \<noteq> 0 then Plain (me_root_width m) else Px (me_body_width m))"
| "eval_expr m ParentWidth = Px (me_parent_width m)"
| "eval_expr m (ZeroMinus n) = Plain (0 - n)"
| "eval_expr m PageMiddle =
     HalfPx ((if me_root_height m \<noteq> 0 then me_root_height m else me_body_height m) - me_own_height m + 2 * scrolled m)"
| "eval_expr m (BelowScroll dist) = Px (scrolled m + dist)"

text \<open>When expressions are used at all, and when the page is stretched.\<close>

definition uses_expressions :: "bool \<Rightarrow> bool \<Rightarrow> bool \<Rightarrow> bool \<Rightarrow> bool" where
  "uses_expressions six set_expr box_model objects \<longleftrightarrow> six \<or> set_expr \<and> (\<not> box_model \<or> objects)"

definition stretches_body :: "bool \<Rightarrow> bool \<Rightarrow> bool \<Rightarrow> bool" where
  "stretches_body full allow box_model \<longleftrightarrow> full \<and> allow \<and> box_model"

text \<open>\<open>fixT\<close> and \<open>fixL\<close>: only for elements with a border, in Internet Explorer 6 or quirks mode.\<close>

definition border_fix :: "bool \<Rightarrow> bool \<Rightarrow> bool \<Rightarrow> string \<Rightarrow> int option" where
  "border_fix six box_model full width =
     (if (six \<or> \<not> box_model) \<and> \<not> full \<and> sz width \<noteq> 0 then Some (sz width) else None)"

definition layer_settings ::
  "nat \<Rightarrow> bool \<Rightarrow> bool \<Rightarrow> string \<Rightarrow> int \<Rightarrow> int option \<Rightarrow> int option \<Rightarrow> (string \<times> style_setting) list" where
  "layer_settings i full center_y css_top hack fix_t fix_l =
     (''position'', Fixed ''absolute'') #
     (if i < 2 then
        [(''height'', Computed (if full then PageHeight hack else ParentHeight)),
         (''width'', Computed (if full then PageWidth else ParentWidth))] @
        (case fix_l of None \<Rightarrow> [] | Some l \<Rightarrow> [(''left'', Computed (ZeroMinus l))]) @
        (case fix_t of None \<Rightarrow> [] | Some t \<Rightarrow> [(''top'', Computed (ZeroMinus t))])
      else if center_y then (if full then [(''top'', Computed PageMiddle)] else []) @ [(''marginTop'', Fixed ''0'')]
      else if full then [(''top'', Computed (BelowScroll (if css_top = [] then 0 else sz css_top)))]
      else [])"

text \<open>The settings of the three layers.\<close>

definition expressions ::
  "bool \<Rightarrow> bool \<Rightarrow> bool \<Rightarrow> bool \<Rightarrow> string \<Rightarrow> int \<Rightarrow> string \<Rightarrow> string \<Rightarrow> (string \<times> style_setting) list list" where
  "expressions six box_model full center_y css_top hack border_top border_left =
     map (\<lambda>i. layer_settings i full center_y css_top hack (border_fix six box_model full border_top)
                (border_fix six box_model full border_left)) [0, 1, 2]"

section \<open>Dragging, centering, focus, reflow\<close>

text \<open>Handle and exceptions of a themed message that can be dragged.\<close>

definition drag_options :: "bool \<Rightarrow> bool \<Rightarrow> bool \<Rightarrow> (string \<times> string) option" where
  "drag_options theme draggable plugin =
     (if theme \<and> draggable \<and> plugin then Some (''.ui-dialog-titlebar'', ''li'') else None)"

text \<open>A box of size \<open>(w, h)\<close> in a parent of size \<open>(pw, ph)\<close>: its \<open>left\<close> and \<open>top\<close>.\<close>

definition center :: "bool \<Rightarrow> bool \<Rightarrow> int \<times> int \<Rightarrow> int \<times> int \<Rightarrow> string \<times> string \<Rightarrow> int option \<times> int option" where
  "center x y p el border =
     (center_pos x (fst p) (fst el) (sz (fst border)), center_pos y (snd p) (snd el) (sz (snd border)))"

text \<open>
  The end of \<open>install\<close>: a block of the page remembers its elements that can have the focus, and the first has it 20
  ms later unless the page was freed meanwhile (\<open>still\<close>); the box of an element is centered.
\<close>

definition first_focus :: "target \<Rightarrow> bool \<Rightarrow> bool \<Rightarrow> nat list \<Rightarrow> nat option" where
  "first_focus t focus_input still els = (if t = Window \<and> focus_input \<and> still then focus_element False els else None)"

text \<open>The widths the body gets one after the other.\<close>

definition reflow :: "int \<Rightarrow> string \<Rightarrow> string list" where
  "reflow w css = [show_int (w - 1) @ ''px'', show_int w @ ''px'', css]"

section \<open>Properties\<close>

text \<open>
  In Internet Explorer 6 the shim and the overlay of an element begin at the outer edge of its borders and have its
  outer size, so they cover it whatever its borders are.
\<close>

lemma expressions_cover_element:
  assumes "i < 2"
  shows "map_of (expressions True box False center_y css_top hack bt bl ! i) ''height'' = Some (Computed ParentHeight)"
    and "map_of (expressions True box False center_y css_top hack bt bl ! i) ''width'' = Some (Computed ParentWidth)"
    and "map_of (expressions True box False center_y css_top hack bt bl ! i) ''left'' =
      (if sz bl = 0 then None else Some (Computed (ZeroMinus (sz bl))))"
    and "map_of (expressions True box False center_y css_top hack bt bl ! i) ''top'' =
      (if sz bt = 0 then None else Some (Computed (ZeroMinus (sz bt))))"
  using assms by (auto simp: expressions_def layer_settings_def border_fix_def less_2_cases_iff)

text \<open>
  A box that fits is as far from the outer left edge of its parent as from the right one (\<open>l\<close> is in half pixels and
  counts from within the border); it never begins before the parent.
\<close>

lemma center_bounds:
  assumes "center True y (pw, ph) (w, h) (bl, bt) = (Some l, t)"
  shows "0 \<le> l" "w + 2 * sz bl \<le> pw \<Longrightarrow> l + 2 * sz bl = pw - w"
  using assms by (auto simp: center_def center_pos_def Let_def split: if_splits)

text \<open>
  Without centering, the place of the message is read as a number of pixels, also when it is given in percent as the
  default is.
\<close>

lemma percent_read_as_pixels:
  "eval_expr m (BelowScroll (sz ''40%'')) = Px (scrolled m + 40)"
  "map_of (expressions True box True False ''40%'' hack bt bl ! 2) ''top'' = Some (Computed (BelowScroll 40))"
proof -
  have "sz ''40%'' = 40" by code_simp
  then show "eval_expr m (BelowScroll (sz ''40%'')) = Px (scrolled m + 40)"
    "map_of (expressions True box True False ''40%'' hack bt bl ! 2) ''top'' = Some (Computed (BelowScroll 40))"
    by (simp_all add: expressions_def layer_settings_def)
qed

end
