(* ===== verification/Panel_Size.thy ===== *)
theory Panel_Size
  imports Plugins
begin

text \<open>
  The size of one collapsible panel of \<open>public/js/bootstrap.js\<close>. \<open>Collapse\<close> has the panels of a page and their classes;
  here are the inline sizes that \<open>show\<close> and \<open>hide\<close> set, and the places where reading a size makes the
  browser compute styles. A transition starts there or at the end of the script, if the panel has the class
  \<open>collapsing\<close> and its size goes from one length to another.
\<close>

section \<open>The panel\<close>

datatype css_size = SizeUnset | SizeAuto | SizePx nat

text \<open>
  The panel's classes and inline sizes, the size of its content in either direction, the computed sizes (\<open>None\<close> when not
  displayed), the transition that was started last, whether the object is transitioning, and the handlers for the
  end of the transition with the direction they close over.
\<close>

record sized =
  sz_classes :: classes
  sz_inline :: "string \<Rightarrow> css_size"
  sz_content :: "string \<Rightarrow> nat"
  sz_computed :: "string \<Rightarrow> css_size option"
  sz_started :: "(nat \<times> nat) option"
  sz_trans :: bool
  sz_waiting :: "(bool \<times> string) list"
  sz_support :: bool

definition collapse_defaults :: js_opts where
  "collapse_defaults = [(''toggle'', VBool True)]"

definition dimension :: "sized \<Rightarrow> string" where
  "dimension e = (if has_class ''width'' (sz_classes e) then ''width'' else ''height'')"

definition set_size :: "string \<Rightarrow> css_size \<Rightarrow> sized \<Rightarrow> sized" where
  "set_size d v e = e\<lparr>sz_inline := (sz_inline e)(d := v)\<rparr>"

text \<open>What the style sheet makes of the classes: \<open>collapsing\<close> has no height, \<open>collapse\<close> without \<open>in\<close> is not displayed.\<close>

definition computed_size :: "string \<Rightarrow> sized \<Rightarrow> css_size option" where
  "computed_size d e =
     (if has_class ''collapse'' (sz_classes e) \<and> \<not> has_class ''in'' (sz_classes e) then None
      else Some (case sz_inline e d of
          SizeUnset \<Rightarrow> if has_class ''collapsing'' (sz_classes e) \<and> d = ''height'' then SizePx 0 else SizeAuto
        | v \<Rightarrow> v))"

text \<open>
  The browser computes the styles, and starts a transition where one length has replaced another. The style sheet
  gives \<open>collapsing\<close> a transition of the height only.
\<close>

definition compute_styles :: "sized \<Rightarrow> sized" where
  "compute_styles e =
     e\<lparr>sz_computed := (\<lambda>d. computed_size d e),
       sz_started := (case (sz_computed e ''height'', computed_size ''height'' e) of
           (Some (SizePx a), Some (SizePx b)) \<Rightarrow>
             if a \<noteq> b \<and> has_class ''collapsing'' (sz_classes e) then Some (a, b) else sz_started e
         | _ \<Rightarrow> sz_started e)\<rparr>"

text \<open>\<open>$element.height()\<close> and \<open>width()\<close>, and \<open>scrollHeight\<close> and \<open>scrollWidth\<close>.\<close>

definition rendered_size :: "string \<Rightarrow> sized \<Rightarrow> nat" where
  "rendered_size d e = (case computed_size d e of Some (SizePx n) \<Rightarrow> n | Some SizeAuto \<Rightarrow> sz_content e d | _ \<Rightarrow> 0)"

definition scroll_size :: "string \<Rightarrow> sized \<Rightarrow> nat" where
  "scroll_size d e = max (sz_content e d) (rendered_size d e)"

definition edit_classes :: "(classes \<Rightarrow> classes) \<Rightarrow> sized \<Rightarrow> sized" where
  "edit_classes f e = e\<lparr>sz_classes := f (sz_classes e)\<rparr>"

section \<open>Operations\<close>

definition shown_size :: "string \<Rightarrow> sized \<Rightarrow> sized" where
  "shown_size d e =
     (set_size d SizeAuto (edit_classes (\<lambda>c. add_class ''in'' (remove_class ''collapsing'' c)) e))\<lparr>sz_trans := False\<rparr>"

definition hidden_size :: "sized \<Rightarrow> sized" where
  "hidden_size e =
     edit_classes (\<lambda>c. add_class ''collapse'' (remove_class ''collapsing'' c)) (e\<lparr>sz_trans := False\<rparr>)"

definition show_size :: "bool \<Rightarrow> sized \<Rightarrow> sized" where
  "show_size prevented e =
     (if sz_trans e \<or> has_class ''in'' (sz_classes e) \<or> prevented then e
      else
        let d = dimension e;
            e1 = set_size d (SizePx 0) (edit_classes (\<lambda>c. add_class ''collapsing'' (remove_class ''collapse'' c)) e);
            e2 = e1\<lparr>sz_trans := True\<rparr>
        in if \<not> sz_support e then shown_size d e2
           else
             let e3 = compute_styles (e2\<lparr>sz_waiting := sz_waiting e2 @ [(True, d)]\<rparr>)
             in set_size d (SizePx (scroll_size d e3)) e3)"

definition hide_size :: "bool \<Rightarrow> sized \<Rightarrow> sized" where
  "hide_size prevented e =
     (if sz_trans e \<or> \<not> has_class ''in'' (sz_classes e) \<or> prevented then e
      else
        let d = dimension e;
            e1 = compute_styles (set_size d (SizePx (rendered_size d e)) e);
            e2 = edit_classes (\<lambda>c. remove_class ''in'' (remove_class ''collapse'' (add_class ''collapsing'' c))) e1;
            e3 = e2\<lparr>sz_trans := True\<rparr>
        in if \<not> sz_support e then hidden_size e3
           else (set_size d (SizePx 0) e3)\<lparr>sz_waiting := sz_waiting e3 @ [(False, d)]\<rparr>)"

text \<open>The end of a transition, real or emulated, runs the handlers that wait for it once.\<close>

definition size_transition_end :: "sized \<Rightarrow> sized" where
  "size_transition_end e =
     foldl (\<lambda>e (sh, d). if sh then shown_size d e else hidden_size e) (e\<lparr>sz_waiting := []\<rparr>) (sz_waiting e)"

text \<open>Each event ends with the browser computing the styles.\<close>

datatype size_event = ShowSize bool | HideSize bool | ToggleSize bool | SizeEnd | ContentChanges nat nat

fun size_step :: "size_event \<Rightarrow> sized \<Rightarrow> sized" where
  "size_step (ShowSize p) e = compute_styles (show_size p e)"
| "size_step (HideSize p) e = compute_styles (hide_size p e)"
| "size_step (ToggleSize p) e =
     compute_styles (if has_class ''in'' (sz_classes e) then hide_size p e else show_size p e)"
| "size_step SizeEnd e = compute_styles (size_transition_end e)"
| "size_step (ContentChanges w h) e = compute_styles (e\<lparr>sz_content := (sz_content e)(''width'' := w, ''height'' := h)\<rparr>)"

text \<open>\<open>new Collapse(element, options)\<close>: toggled at once unless the options say otherwise.\<close>

definition new_sized :: "js_opts \<Rightarrow> bool \<Rightarrow> sized \<Rightarrow> sized" where
  "new_sized given prevented e =
     (let e1 = e\<lparr>sz_trans := False\<rparr>
      in if opt_on ''toggle'' (extend_opts collapse_defaults given) then size_step (ToggleSize prevented) e1 else e1)"

section \<open>Properties\<close>

text \<open>
  Either nothing runs, and an open panel has no length of its own, or one handler waits for the end.
\<close>

definition open_plain :: "sized \<Rightarrow> bool" where
  "open_plain e \<longleftrightarrow>
     (has_class ''in'' (sz_classes e) \<longrightarrow>
        \<not> has_class ''collapsing'' (sz_classes e) \<and> sz_inline e (dimension e) \<in> {SizeUnset, SizeAuto})"

definition sized_ok :: "sized \<Rightarrow> bool" where
  "sized_ok e \<longleftrightarrow>
     (if sz_trans e then \<not> has_class ''in'' (sz_classes e) \<and> (\<exists>sh. sz_waiting e = [(sh, dimension e)])
      else sz_waiting e = [] \<and> open_plain e)"

lemma sized_fields [simp]:
  "sz_classes (compute_styles e) = sz_classes e" "sz_inline (compute_styles e) = sz_inline e"
  "sz_content (compute_styles e) = sz_content e" "sz_trans (compute_styles e) = sz_trans e"
  "sz_waiting (compute_styles e) = sz_waiting e" "sz_support (compute_styles e) = sz_support e"
  "sz_computed (compute_styles e) d = computed_size d e"
  "sz_classes (set_size d v e) = sz_classes e" "sz_inline (set_size d v e) = (sz_inline e)(d := v)"
  "sz_content (set_size d v e) = sz_content e" "sz_trans (set_size d v e) = sz_trans e"
  "sz_waiting (set_size d v e) = sz_waiting e" "sz_support (set_size d v e) = sz_support e"
  "sz_computed (set_size d v e) = sz_computed e" "sz_computed (edit_classes f e) = sz_computed e"
  "sz_classes (edit_classes f e) = f (sz_classes e)" "sz_inline (edit_classes f e) = sz_inline e"
  "sz_content (edit_classes f e) = sz_content e" "sz_trans (edit_classes f e) = sz_trans e"
  "sz_waiting (edit_classes f e) = sz_waiting e" "sz_support (edit_classes f e) = sz_support e"
  by (simp_all add: compute_styles_def set_size_def edit_classes_def)

lemma sized_ok_compute [simp]: "sized_ok (compute_styles e) = sized_ok e"
  by (simp add: sized_ok_def open_plain_def dimension_def)

lemmas sized_defs = sized_ok_def open_plain_def dimension_def shown_size_def hidden_size_def Let_def

lemma sized_ok_show: "sized_ok e \<Longrightarrow> sized_ok (show_size p e)"
  by (auto simp: show_size_def sized_defs)

lemma sized_ok_hide: "sized_ok e \<Longrightarrow> sized_ok (hide_size p e)"
  by (auto simp: hide_size_def sized_defs)

lemma sized_ok_end: "sized_ok e \<Longrightarrow> sized_ok (size_transition_end e)"
  by (auto simp: size_transition_end_def sized_defs split: if_splits)

lemma sized_ok_step: "sized_ok e \<Longrightarrow> sized_ok (size_step v e)"
  by (cases v) (auto simp: sized_ok_show sized_ok_hide sized_ok_end, auto simp: sized_defs split: if_splits)

interpretation sizing: invariant_machine size_step sized_ok
  by unfold_locales (rule sized_ok_step)

text \<open>
  Whatever happens, a panel that is open and at rest has the size of its content, also when the content has
  changed since.
\<close>

lemma open_panel_fits_content:
  assumes "sized_ok e" "e' = run_events size_step es e"
    and "\<not> sz_trans e'" "has_class ''in'' (sz_classes e')"
  shows "rendered_size (dimension e') e' = sz_content e' (dimension e')"
  using sizing.run_keeps[OF assms(1), of es] assms(2-4)
  by (auto simp: sized_ok_def open_plain_def rendered_size_def computed_size_def)

text \<open>
  Where the browser has transitions and the panel is not empty, closing starts one from its size to nothing, and
  opening one from nothing to its size; both depend on the browser computing the styles in between.
\<close>

lemma closing_starts_transition:
  assumes "sized_ok e" "\<not> sz_trans e" "has_class ''in'' (sz_classes e)" "\<not> has_class ''width'' (sz_classes e)"
    and "sz_support e" "sz_content e ''height'' > 0"
  shows "sz_started (size_step (HideSize False) e) = Some (sz_content e ''height'', 0)"
  using assms open_panel_fits_content[OF assms(1), of e "[]"]
  by (simp add: hide_size_def dimension_def Let_def compute_styles_def computed_size_def set_size_def edit_classes_def)

lemma opening_starts_transition:
  assumes "\<not> sz_trans e" "\<not> has_class ''in'' (sz_classes e)" "\<not> has_class ''width'' (sz_classes e)"
    and "sz_support e" "sz_content e ''height'' > 0"
  shows "sz_started (size_step (ShowSize False) e) = Some (0, sz_content e ''height'')"
  using assms
  by (simp add: show_size_def dimension_def Let_def compute_styles_def computed_size_def set_size_def edit_classes_def
      scroll_size_def rendered_size_def)

end
