(* ===== verification/Hash_Table.thy ===== *)
theory Hash_Table
  imports JS_Prelude
begin

text \<open>
  The hash table of the file-box programs (\<open>mp5/src/hash.c\<close>): an array of chains, each a list of codes with
  what they stand for. The array that \<open>malloc\<close> has not given yet is the empty list; \<open>mem\<close> says whether
  \<open>malloc\<close> succeeds. A table is compared with a finite map from codes, and the interface \<open>code_table\<close> states
  what its clients rely on.
\<close>

section \<open>The code\<close>

type_synonym 'v chain = "(int \<times> 'v) list"
type_synonym 'v hash = "'v chain list"

text \<open>The remainder of C has the sign of the dividend.\<close>

definition c_rem :: "int \<Rightarrow> int \<Rightarrow> int" where
  "c_rem a b = sgn a * (\<bar>a\<bar> mod \<bar>b\<bar>)"

definition hash_pos :: "nat \<Rightarrow> int \<Rightarrow> nat" where
  "hash_pos n code = nat (let pos = c_rem code (int n) in if pos < 0 then int n + pos else pos)"

definition init_hash :: "bool \<Rightarrow> int \<Rightarrow> 'v hash \<Rightarrow> bool \<times> 'v hash" where
  "init_hash mem n h = (if n \<le> 0 \<or> h \<noteq> [] \<or> \<not> mem then (False, h) else (True, replicate (nat n) []))"

text \<open>A new node goes to the end of its chain; \<open>None\<close> is the return of 0 for a code that is there.\<close>

fun put_chain :: "'v \<Rightarrow> int \<Rightarrow> 'v chain \<Rightarrow> 'v chain option" where
  "put_chain v c [] = Some [(c, v)]"
| "put_chain v c ((d, w) # ch) = (if d = c then None else map_option (Cons (d, w)) (put_chain v c ch))"

definition put_into_hash :: "bool \<Rightarrow> 'v hash \<Rightarrow> 'v \<Rightarrow> int \<Rightarrow> bool \<times> 'v hash" where
  "put_into_hash mem h v c =
     (let pos = hash_pos (length h) c
      in case put_chain v c (h ! pos) of
           Some ch \<Rightarrow> if mem then (True, h[pos := ch]) else (False, h)
         | None \<Rightarrow> (False, h))"

fun find_chain :: "int \<Rightarrow> 'v chain \<Rightarrow> 'v option" where
  "find_chain c [] = None"
| "find_chain c ((d, v) # ch) = (if d = c then Some v else find_chain c ch)"

definition get_from_hash :: "'v hash \<Rightarrow> int \<Rightarrow> 'v option" where
  "get_from_hash h c = find_chain c (h ! hash_pos (length h) c)"

text \<open>A node behind another is unlinked; for the first one the whole chain is given up.\<close>

fun unlink_node :: "int \<Rightarrow> 'v chain \<Rightarrow> ('v \<times> 'v chain) option" where
  "unlink_node c [] = None"
| "unlink_node c ((d, v) # ch) =
     (if d = c then Some (v, ch) else map_option (\<lambda>(w, rest). (w, (d, v) # rest)) (unlink_node c ch))"

definition del_from_hash :: "'v hash \<Rightarrow> int \<Rightarrow> 'v option \<times> 'v hash" where
  "del_from_hash h c =
     (let pos = hash_pos (length h) c
      in case h ! pos of
           [] \<Rightarrow> (None, h)
         | (d, v) # ch \<Rightarrow>
             if d = c then (Some v, h[pos := []])
             else (case unlink_node c ch of
                 None \<Rightarrow> (None, h)
               | Some (w, rest) \<Rightarrow> (Some w, h[pos := (d, v) # rest])))"

text \<open>The end of a table; what is freed with it.\<close>

definition clean_hash :: "'v hash \<Rightarrow> 'v hash" where
  "clean_hash h = []"

definition destroy_hash :: "'v hash \<Rightarrow> 'v list \<times> 'v hash" where
  "destroy_hash h = (map snd (concat h), [])"

text \<open>Writing through the pointer that \<open>get_from_hash\<close> gave.\<close>

definition change_in_hash :: "('v \<Rightarrow> 'v) \<Rightarrow> 'v hash \<Rightarrow> int \<Rightarrow> 'v hash" where
  "change_in_hash f h c =
     (let pos = hash_pos (length h) c in h[pos := map (\<lambda>(d, v). (d, if d = c then f v else v)) (h ! pos)])"

section \<open>The contract\<close>

locale code_table =
  fixes ok :: "'t \<Rightarrow> bool"
    and look :: "'t \<Rightarrow> int \<Rightarrow> 'v option"
    and add :: "'t \<Rightarrow> 'v \<Rightarrow> int \<Rightarrow> 't"
    and change :: "('v \<Rightarrow> 'v) \<Rightarrow> 't \<Rightarrow> int \<Rightarrow> 't"
  assumes ok_add: "ok h \<Longrightarrow> ok (add h v c)"
    and ok_change: "ok h \<Longrightarrow> ok (change f h c)"
    and look_add: "ok h \<Longrightarrow> look h c = None \<Longrightarrow> look (add h v c) d = (if d = c then Some v else look h d)"
    and look_change: "ok h \<Longrightarrow> look (change f h c) d = (if d = c then map_option f (look h c) else look h d)"
begin

text \<open>Adding where nothing is and changing where something is: what clients do to store.\<close>

lemma store_look:
  assumes "ok h"
  shows "look (case look h c of None \<Rightarrow> add h v c | Some w \<Rightarrow> change f h c) d =
    (if d = c then Some (case look h c of None \<Rightarrow> v | Some w \<Rightarrow> f w) else look h d)"
  using assms by (auto simp: look_add look_change split: option.split)

lemma store_ok: "ok h \<Longrightarrow> ok (case look h c of None \<Rightarrow> add h v c | Some w \<Rightarrow> change f h c)"
  by (simp add: ok_add ok_change split: option.split)

end

section \<open>Tables as maps\<close>

definition hash_ok :: "'v hash \<Rightarrow> bool" where
  "hash_ok h \<longleftrightarrow> h \<noteq> [] \<and>
     (\<forall>i < length h. distinct (map fst (h ! i)) \<and> (\<forall>c \<in> set (map fst (h ! i)). hash_pos (length h) c = i))"

definition hash_map :: "'v hash \<Rightarrow> (int \<rightharpoonup> 'v)" where
  "hash_map h = map_of (concat h)"

lemma hash_pos_mod:
  assumes "0 < n" shows "hash_pos n code = nat (code mod int n)"
proof (cases "code \<ge> 0")
  case True
  then have "c_rem code (int n) = code mod int n" by (simp add: c_rem_def sgn_if)
  moreover have "\<not> code mod int n < 0" using assms pos_mod_sign[of "int n" code] by linarith
  ultimately show ?thesis by (simp add: hash_pos_def Let_def)
next
  case False
  define m where "m = (- code) mod int n"
  have m: "0 \<le> m" "m < int n" using assms by (simp_all add: m_def)
  have "code mod int n = (if m = 0 then 0 else int n - m)"
    using zmod_zminus1_eq_if[of "- code" "int n"] by (simp add: m_def)
  moreover have "c_rem code (int n) = - m" using False assms by (simp add: c_rem_def sgn_if m_def)
  ultimately show ?thesis using m by (simp add: hash_pos_def Let_def)
qed

lemma hash_pos_less [simp]: "0 < n \<Longrightarrow> hash_pos n code < n"
  by (simp add: hash_pos_mod nat_less_iff)

lemma find_chain_map: "find_chain c ch = map_of ch c"
  by (induction c ch rule: find_chain.induct) auto

lemma hash_okD:
  assumes "hash_ok h"
  shows "0 < length h" "i < length h \<Longrightarrow> distinct (map fst (h ! i))"
    "i < length h \<Longrightarrow> c \<in> fst ` set (h ! i) \<Longrightarrow> hash_pos (length h) c = i"
  using assms by (auto simp: hash_ok_def)

lemma get_is_map: "hash_ok h \<Longrightarrow> get_from_hash h c = hash_map h c"
proof -
  assume ok: "hash_ok h"
  let ?p = "hash_pos (length h) c"
  have p: "?p < length h" using hash_okD(1)[OF ok] by simp
  have "map_of (concat xs) c = None" if "\<forall>x \<in> set xs. c \<notin> fst ` set x" for xs :: "'a chain list"
    using that by (force simp: map_of_eq_None_iff)
  moreover have "\<forall>x \<in> set (take ?p h). c \<notin> fst ` set x"
  proof
    fix x assume "x \<in> set (take ?p h)"
    then obtain i where "i < ?p" "x = h ! i" by (auto simp: in_set_conv_nth)
    then show "c \<notin> fst ` set x" using hash_okD(3)[OF ok, of i c] p by auto
  qed
  moreover have "\<forall>x \<in> set (drop (Suc ?p) h). c \<notin> fst ` set x"
  proof
    fix x assume "x \<in> set (drop (Suc ?p) h)"
    then obtain i where "i < length (drop (Suc ?p) h)" "x = drop (Suc ?p) h ! i" by (metis in_set_conv_nth)
    then have "Suc ?p + i < length h" "x = h ! (Suc ?p + i)" by simp_all
    then show "c \<notin> fst ` set x" using hash_okD(3)[OF ok, of "Suc ?p + i" c] by auto
  qed
  ultimately have "map_of (concat (take ?p h @ h ! ?p # drop (Suc ?p) h)) c = map_of (h ! ?p) c"
    by (simp add: map_add_def split: option.split)
  then show ?thesis
    using id_take_nth_drop[OF p] by (simp add: get_from_hash_def find_chain_map hash_map_def)
qed

text \<open>Every change is of one chain.\<close>

lemma hash_ok_update:
  assumes "hash_ok h" "distinct (map fst ch)" "fst ` set ch \<subseteq> insert c (fst ` set (h ! hash_pos (length h) c))"
  shows "hash_ok (h[hash_pos (length h) c := ch])"
proof -
  let ?p = "hash_pos (length h) c"
  have p: "?p < length h" using hash_okD(1)[OF assms(1)] by simp
  have ch: "hash_pos (length h) d = ?p" if "d \<in> fst ` set ch" for d
    using that assms(3) hash_okD(3)[OF assms(1) p, of d] by blast
  have "distinct (map fst (h[?p := ch] ! i)) \<and> (\<forall>d \<in> fst ` set (h[?p := ch] ! i). hash_pos (length h) d = i)"
    if i: "i < length h" for i
  proof (cases "i = ?p")
    case True
    have "h[?p := ch] ! i = ch" unfolding True by (rule nth_list_update_eq[OF p])
    then show ?thesis using assms(2) ch True by (simp only: ball_simps) blast
  next
    case False
    then have "h[?p := ch] ! i = h ! i" by simp
    then show ?thesis using hash_okD(2,3)[OF assms(1) i] by (simp only:) blast
  qed
  then show ?thesis
    using assms(1) by (simp add: hash_ok_def)
qed

lemma hash_map_update:
  assumes "hash_ok h" "distinct (map fst ch)" "fst ` set ch \<subseteq> insert c (fst ` set (h ! hash_pos (length h) c))"
  shows "hash_map (h[hash_pos (length h) c := ch]) d =
    (if hash_pos (length h) d = hash_pos (length h) c then map_of ch d else hash_map h d)"
proof -
  let ?p = "hash_pos (length h) c"
  have "?p < length h" using hash_okD(1)[OF assms(1)] by simp
  then have "get_from_hash (h[?p := ch]) d = (if hash_pos (length h) d = ?p then map_of ch d else get_from_hash h d)"
    by (simp add: get_from_hash_def find_chain_map)
  then show ?thesis by (simp only: get_is_map[OF assms(1)] get_is_map[OF hash_ok_update[OF assms]])
qed

lemma put_chain_Some: "put_chain v c ch = Some ch' \<longleftrightarrow> c \<notin> fst ` set ch \<and> ch' = ch @ [(c, v)]"
  by (induction v c ch arbitrary: ch' rule: put_chain.induct) auto

lemma unlink_Some:
  "distinct (map fst ch) \<Longrightarrow> unlink_node c ch = Some (v, ch') \<Longrightarrow>
   map_of ch c = Some v \<and> distinct (map fst ch') \<and> fst ` set ch' = fst ` set ch - {c} \<and> map_of ch' = (map_of ch)(c := None)"
proof (induction c ch arbitrary: v ch' rule: unlink_node.induct)
  case (2 c d w ch)
  show ?case
  proof (cases "d = c")
    case True
    then show ?thesis using 2(2,3) by (auto simp: map_of_eq_None_iff fun_eq_iff)
  next
    case False
    then obtain rest where r: "unlink_node c ch = Some (v, rest)" "ch' = (d, w) # rest" using 2(3) by auto
    with 2(1)[OF False _ r(1)] 2(2) False show ?thesis by (auto simp: fun_upd_twist)
  qed
qed simp

lemma unlink_None: "unlink_node c ch = None \<longleftrightarrow> c \<notin> fst ` set ch"
  by (induction c ch rule: unlink_node.induct) auto
section \<open>The operations on maps\<close>

lemma init_hash_ok: "init_hash mem n h = (True, h') \<Longrightarrow> hash_ok h' \<and> hash_map h' = Map.empty"
  by (auto simp: init_hash_def hash_ok_def hash_map_def split: if_splits)

lemma put_present: "hash_ok h \<Longrightarrow> hash_map h c \<noteq> None \<Longrightarrow> put_into_hash mem h v c = (False, h)"
proof -
  assume a: "hash_ok h" "hash_map h c \<noteq> None"
  have "put_chain v c (h ! hash_pos (length h) c) = None"
  proof (rule ccontr)
    assume "put_chain v c (h ! hash_pos (length h) c) \<noteq> None"
    then have "c \<notin> fst ` set (h ! hash_pos (length h) c)" by (auto simp: put_chain_Some)
    then have "map_of (h ! hash_pos (length h) c) c = None" by (simp add: map_of_eq_None_iff)
    then show False using a(2) get_is_map[OF a(1), of c] by (simp add: get_from_hash_def find_chain_map)
  qed
  then show ?thesis by (simp add: put_into_hash_def Let_def)
qed

lemma put_absent:
  assumes "hash_ok h" "hash_map h c = None"
  shows "fst (put_into_hash True h v c)" "hash_ok (snd (put_into_hash mem h v c))"
    "hash_map (snd (put_into_hash True h v c)) = (hash_map h)(c \<mapsto> v)"
proof -
  let ?p = "hash_pos (length h) c" let ?ch = "h ! ?p @ [(c, v)]"
  have p: "?p < length h" using hash_okD(1)[OF assms(1)] by simp
  have new: "c \<notin> fst ` set (h ! ?p)"
    using assms(2) get_is_map[OF assms(1), of c] by (simp add: get_from_hash_def find_chain_map map_of_eq_None_iff)
  have ch: "distinct (map fst ?ch)" "fst ` set ?ch \<subseteq> insert c (fst ` set (h ! ?p))"
    using new hash_okD(2)[OF assms(1) p] by auto
  have eq: "put_into_hash mem h v c = (mem, if mem then h[?p := ?ch] else h)" for mem
    using new by (simp add: put_into_hash_def Let_def put_chain_Some[THEN iffD2])
  show "fst (put_into_hash True h v c)" "hash_ok (snd (put_into_hash mem h v c))"
    using hash_ok_update[OF assms(1) ch] assms(1) by (simp_all add: eq)
  show "hash_map (snd (put_into_hash True h v c)) = (hash_map h)(c \<mapsto> v)"
  proof
    fix d
    have "map_of (xs @ [(c, v)]) d = (if d = c then Some v else map_of xs d)" if "c \<notin> fst ` set xs" for xs
      using that by (induction xs) auto
    note this[OF new]
    moreover have "hash_map h d = map_of (h ! ?p) d" if "hash_pos (length h) d = ?p"
      using get_is_map[OF assms(1), of d] that by (simp add: get_from_hash_def find_chain_map)
    ultimately show "hash_map (snd (put_into_hash True h v c)) d = ((hash_map h)(c \<mapsto> v)) d"
      using hash_map_update[OF assms(1) ch, of d] by (auto simp: eq)
  qed
qed

lemma change_ok:
  assumes "hash_ok h"
  shows "hash_ok (change_in_hash f h c)" "hash_map (change_in_hash f h c) = (hash_map h)(c := map_option f (hash_map h c))"
proof -
  let ?p = "hash_pos (length h) c" let ?ch = "map (\<lambda>(d, v). (d, if d = c then f v else v)) (h ! ?p)"
  have p: "?p < length h" using hash_okD(1)[OF assms] by simp
  have keys: "map fst ?ch = map fst (h ! ?p)" by (simp add: comp_def split_beta)
  have ch: "distinct (map fst ?ch)" "fst ` set ?ch \<subseteq> insert c (fst ` set (h ! ?p))"
    using hash_okD(2)[OF assms p] arg_cong[OF keys, of set] unfolding keys by auto
  show "hash_ok (change_in_hash f h c)"
    using hash_ok_update[OF assms ch] by (simp add: change_in_hash_def Let_def)
  show "hash_map (change_in_hash f h c) = (hash_map h)(c := map_option f (hash_map h c))"
  proof
    fix d
    have "map_of (map (\<lambda>(d, v). (d, if d = c then f v else v)) xs) d =
      (if d = c then map_option f (map_of xs c) else map_of xs d)" for xs
      by (induction xs) auto
    moreover have "hash_map h d = map_of (h ! ?p) d" if "hash_pos (length h) d = ?p"
      using get_is_map[OF assms, of d] that by (simp add: get_from_hash_def find_chain_map)
    ultimately show "hash_map (change_in_hash f h c) d = ((hash_map h)(c := map_option f (hash_map h c))) d"
      using hash_map_update[OF assms ch, of d] by (auto simp: change_in_hash_def Let_def)
  qed
qed

text \<open>
  Deleting gives what was stored. It removes the one code from the map if the code is not the first of a
  chain with more; otherwise it removes every code of the chain.
\<close>

definition loses_chain :: "'v hash \<Rightarrow> int \<Rightarrow> bool" where
  "loses_chain h c \<longleftrightarrow>
     (case h ! hash_pos (length h) c of (d, v) # ch \<Rightarrow> d = c \<and> ch \<noteq> [] | [] \<Rightarrow> False)"

lemma del_ok:
  assumes "hash_ok h"
  shows "fst (del_from_hash h c) = hash_map h c" "hash_ok (snd (del_from_hash h c))"
    "hash_map (snd (del_from_hash h c)) d =
      (if d = c \<or> loses_chain h c \<and> hash_pos (length h) d = hash_pos (length h) c then None else hash_map h d)"
proof -
  let ?p = "hash_pos (length h) c"
  have p: "?p < length h" using hash_okD(1)[OF assms] by simp
  note dist = hash_okD(2)[OF assms p]
  have at: "hash_map h e = map_of (h ! ?p) e" if "hash_pos (length h) e = ?p" for e
    using get_is_map[OF assms, of e] that by (simp add: get_from_hash_def find_chain_map)
  have upd: "hash_ok (h[?p := ch'])" "hash_map (h[?p := ch']) d = (if hash_pos (length h) d = ?p then map_of ch' d else hash_map h d)"
    if "distinct (map fst ch')" "fst ` set ch' \<subseteq> fst ` set (h ! ?p)" for ch'
    using hash_ok_update[OF assms that(1), of c] hash_map_update[OF assms that(1), of c d] that(2) by blast+
  have "fst (del_from_hash h c) = hash_map h c \<and> hash_ok (snd (del_from_hash h c)) \<and> hash_map (snd (del_from_hash h c)) d =
      (if d = c \<or> loses_chain h c \<and> hash_pos (length h) d = ?p then None else hash_map h d)"
  proof (cases "h ! ?p")
    case Nil
    then show ?thesis using at[of c] assms by (simp add: del_from_hash_def Let_def loses_chain_def)
  next
    case (Cons x ch)
    obtain e v where x: "x = (e, v)" by (cases x)
    show ?thesis
    proof (cases "e = c")
      case True
      have "del_from_hash h c = (Some v, h[?p := []])" using Cons x True by (simp add: del_from_hash_def Let_def)
      moreover have "loses_chain h c \<longleftrightarrow> ch \<noteq> []" using Cons x True by (simp add: loses_chain_def)
      moreover have "map_of (h ! ?p) d = None" if "ch = []" "d \<noteq> c" using Cons x True that by simp
      ultimately show ?thesis using upd[of "[]"] at[of c] at[of d] Cons x True by auto
    next
      case False
      have nl: "\<not> loses_chain h c" using Cons x False by (simp add: loses_chain_def)
      show ?thesis
      proof (cases "unlink_node c ch")
        case None
        then have "del_from_hash h c = (None, h)" using Cons x False by (simp add: del_from_hash_def Let_def)
        moreover have "hash_map h c = None"
          using None at[of c] Cons x False by (simp add: unlink_None map_of_eq_None_iff)
        ultimately show ?thesis using nl assms by simp
      next
        case (Some wr)
        obtain w rest where wr: "wr = (w, rest)" by (cases wr)
        have dch: "distinct (map fst ch)" "e \<notin> fst ` set ch" using dist Cons x by simp_all
        note u = unlink_Some[OF dch(1) Some[unfolded wr]]
        have "del_from_hash h c = (Some w, h[?p := (e, v) # rest])"
          using Cons x False Some wr by (simp add: del_from_hash_def Let_def)
        moreover have "distinct (map fst ((e, v) # rest))" "fst ` set ((e, v) # rest) \<subseteq> fst ` set (h ! ?p)"
          using u dch(2) Cons x by auto
        ultimately show ?thesis
          using upd[of "(e, v) # rest"] at[of c] at[of d] Cons x False nl u by auto
      qed
    qed
  qed
  then show "fst (del_from_hash h c) = hash_map h c" "hash_ok (snd (del_from_hash h c))"
    "hash_map (snd (del_from_hash h c)) d =
      (if d = c \<or> loses_chain h c \<and> hash_pos (length h) d = hash_pos (length h) c then None else hash_map h d)" by blast+
qed

interpretation table: code_table hash_ok get_from_hash "\<lambda>h v c. snd (put_into_hash True h v c)" change_in_hash
proof
  fix h :: "'v hash" and c d :: int and v :: 'v and f :: "'v \<Rightarrow> 'v"
  assume ok: "hash_ok h"
  show ok1: "hash_ok (snd (put_into_hash True h v c))"
    using put_absent(2)[OF ok] put_present[OF ok] ok by (cases "hash_map h c") auto
  show ok2: "hash_ok (change_in_hash f h c)" by (rule change_ok[OF ok])
  show "get_from_hash (snd (put_into_hash True h v c)) d = (if d = c then Some v else get_from_hash h d)"
    if "get_from_hash h c = None"
    using that put_absent(3)[OF ok, of c v] by (simp add: get_is_map ok ok1)
  show "get_from_hash (change_in_hash f h c) d = (if d = c then map_option f (get_from_hash h c) else get_from_hash h d)"
    by (simp add: get_is_map ok ok2 change_ok(2)[OF ok])
qed

text \<open>A table with two codes in one chain: deleting the first loses the second.\<close>

lemma deleting_first_loses_second:
  "let h = snd (put_into_hash True (snd (put_into_hash True (replicate 100 []) ''first'' 1)) ''second'' 101)
   in get_from_hash h 101 = Some ''second'' \<and> get_from_hash (snd (del_from_hash h 1)) 101 = None"
  by (simp add: put_into_hash_def get_from_hash_def del_from_hash_def hash_pos_def c_rem_def Let_def)

end
