(* ===== verification/Port_Register.thy ===== *)
theory Port_Register
  imports Hash_Table Node_Buffer "HOL-Library.Code_Target_Nat"
begin

text \<open>
  The port register (\<open>mp5/src/port_register.c\<close>), the service that \<open>register.js\<close> and the file-box servers ask for
  a port: booking a port under a name, looking a name up, and the cleaning when nobody asks. What is printed
  is left out. \<open>bindable p\<close> says whether \<open>bind\<close> succeeds for a port, that is, whether no server has it.
\<close>

section \<open>State\<close>

definition default_register_port :: int where
  "default_register_port = 2500"

definition port_reserve_size :: nat where
  "port_reserve_size = 512"

record registration =
  rn_name :: string
  rn_port :: int

record registry =
  rg_table :: "registration hash"
  rg_reserve :: "bool list"

section \<open>Operations\<close>

text \<open>\<open>char\<close> is signed on the machines the programs are built for, and the code of a name wraps at 32 bits.\<close>

definition char_int :: "char \<Rightarrow> int" where
  "char_int c = (let n = int (of_char c) in if n \<ge> 128 then n - 256 else n)"

definition code_word :: "string \<Rightarrow> 32 word" where
  "code_word name = foldl (\<lambda>code c. code * 256 + word_of_int (char_int c)) 0 name"

definition get_hash_code :: "string \<Rightarrow> int" where
  "get_hash_code name = sint (code_word name)"

fun first_free :: "bool list \<Rightarrow> nat option" where
  "first_free [] = None"
| "first_free (used # us) = (if used then map_option Suc (first_free us) else Some 0)"

definition get_next_port :: "bool list \<Rightarrow> int \<times> bool list" where
  "get_next_port us =
     (case first_free us of None \<Rightarrow> (-1, us) | Some i \<Rightarrow> (int i + default_register_port + 1, us[i := True]))"

text \<open>
  \<open>mem\<close> says whether \<open>malloc\<close> gives a record and a node. The result of \<open>put_into_hash\<close> is not looked at.
\<close>

definition book_port :: "bool \<times> bool \<Rightarrow> string \<Rightarrow> registry \<Rightarrow> int \<times> registry" where
  "book_port mem name s =
     (let code = get_hash_code name;
          (port, us) = get_next_port (rg_reserve s);
          s1 = s\<lparr>rg_reserve := us\<rparr>
      in if port = -1 then (-1, s)
         else
           (case get_from_hash (rg_table s) code of
              None \<Rightarrow>
                if \<not> fst mem then (-1, s1)
                else (port, s1\<lparr>rg_table := snd (put_into_hash (snd mem) (rg_table s) \<lparr>rn_name = name, rn_port = port\<rparr> code)\<rparr>)
            | Some r \<Rightarrow> (port, s1\<lparr>rg_table := change_in_hash (\<lambda>r. r\<lparr>rn_port := port\<rparr>) (rg_table s) code\<rparr>)))"

definition get_port :: "string \<Rightarrow> registry \<Rightarrow> int" where
  "get_port name s = (case get_from_hash (rg_table s) (get_hash_code name) of None \<Rightarrow> -1 | Some r \<Rightarrow> rn_port r)"

text \<open>
  The two reads of a request, the second of at most 512 bytes; nothing is read from a connection that the client has
  closed. A client that sends less and waits holds the register up, which is not modelled. \<open>None\<close> is the return
  without an answer.
\<close>

record port_request =
  pq_mem :: "bool \<times> bool"
  pq_act :: "char option"
  pq_rest :: string

definition handle_request :: "port_request \<Rightarrow> registry \<Rightarrow> byte list option \<times> registry" where
  "handle_request q s =
     (let buf = take 512 (pq_rest q) in
      case pq_act q of
        None \<Rightarrow> (None, s)
      | Some act \<Rightarrow>
          if buf = [] then (None, s)
          else if act = CHR ''0'' then (let (port, s1) = book_port (pq_mem q) buf s in (Some (le32_bytes port), s1))
          else if act = CHR ''1'' then (Some (le32_bytes (get_port buf s)), s)
          else (None, s))"

text \<open>Ports that somebody has are reserved, the others are not.\<close>

definition check_port_reserve :: "(int \<Rightarrow> bool) \<Rightarrow> registry \<Rightarrow> registry" where
  "check_port_reserve bindable s =
     s\<lparr>rg_reserve := map (\<lambda>i. \<not> bindable (int i + default_register_port + 1)) [0..<port_reserve_size]\<rparr>"

text \<open>
  The chain is walked as it was, though deleting may give it up; a record whose port nobody has is deleted.
\<close>

definition clean_node :: "(int \<Rightarrow> bool) \<Rightarrow> registry \<Rightarrow> int \<times> registration \<Rightarrow> registry" where
  "clean_node bindable s n =
     (if bindable (rn_port (snd n))
      then s\<lparr>rg_reserve := (rg_reserve s)[nat (rn_port (snd n) - 1 - default_register_port) := False],
             rg_table := snd (del_from_hash (rg_table s) (fst n))\<rparr>
      else s)"

definition clean_port_reserve :: "(int \<Rightarrow> bool) \<Rightarrow> registry \<Rightarrow> registry" where
  "clean_port_reserve bindable s =
     check_port_reserve bindable
       (foldl (\<lambda>s i. foldl (clean_node bindable) s (rg_table s ! i)) s [0..<length (rg_table s)])"

text \<open>The server: a request, or five seconds without one.\<close>

datatype register_event = Asked port_request | Silence "int \<Rightarrow> bool"

fun register_step :: "register_event \<Rightarrow> registry \<Rightarrow> registry" where
  "register_step (Asked q) s = snd (handle_request q s)"
| "register_step (Silence bindable) s = clean_port_reserve bindable s"

definition register_start :: "(int \<Rightarrow> bool) \<Rightarrow> registry" where
  "register_start bindable =
     check_port_reserve bindable
       \<lparr>rg_table = snd (init_hash True 100 []), rg_reserve = replicate port_reserve_size False\<rparr>"

section \<open>Codes of names\<close>

text \<open>Only the last four characters of a name count.\<close>

lemma code_word_append4:
  assumes "length t = 4" shows "code_word (u @ t) = code_word t"
proof -
  obtain a b c d where t: "t = [a, b, c, d]"
    using assms by (auto simp: length_Suc_conv numeral_eq_Suc)
  have z: "(4294967296 :: 32 word) = 0" by simp
  have "foldl (\<lambda>code c. code * 256 + word_of_int (char_int c)) w t =
    ((word_of_int (char_int a) * 256 + word_of_int (char_int b)) * 256 + word_of_int (char_int c)) * 256 +
      word_of_int (char_int d)" for w :: "32 word"
    by (simp add: t algebra_simps z)
  then show ?thesis by (simp add: code_word_def)
qed

lemma get_hash_code_last_four:
  "length t = 4 \<Longrightarrow> get_hash_code (u @ t) = get_hash_code (v @ t)"
  by (simp add: get_hash_code_def code_word_append4)

section \<open>What the register keeps\<close>

definition port_ok :: "int \<Rightarrow> bool" where
  "port_ok p \<longleftrightarrow> 2501 \<le> p \<and> p \<le> 3012"

definition registry_ok :: "registry \<Rightarrow> bool" where
  "registry_ok s \<longleftrightarrow> hash_ok (rg_table s) \<and> length (rg_reserve s) = 512 \<and>
     (\<forall>c r. get_from_hash (rg_table s) c = Some r \<longrightarrow> port_ok (rn_port r))"

lemma first_free_Some: "first_free us = Some i \<Longrightarrow> i < length us \<and> \<not> us ! i"
  by (induction us arbitrary: i rule: first_free.induct) (auto split: if_splits)

lemma first_free_None: "first_free us = None \<longleftrightarrow> list_all id us"
  by (induction us rule: first_free.induct) auto

lemma next_port:
  assumes "get_next_port us = (p, us')" "length us = 512"
  shows "p = -1 \<and> us' = us \<and> list_all id us \<or>
    port_ok p \<and> \<not> us ! nat (p - 2501) \<and> us' = us[nat (p - 2501) := True]"
proof (cases "first_free us")
  case None
  then show ?thesis using assms(1) first_free_None[of us] by (simp add: get_next_port_def)
next
  case (Some i)
  then show ?thesis
    using assms first_free_Some[OF Some] by (auto simp: get_next_port_def default_register_port_def port_ok_def)
qed

lemma put_no_memory: "snd (put_into_hash False h v c) = h"
  by (simp add: put_into_hash_def Let_def split: option.split)

text \<open>What a booking changes: the port's mark, and what its own code stands for.\<close>

lemma book_port_effect:
  assumes ok: "registry_ok s" and b: "book_port mem name s = (p, s1)"
  shows "registry_ok s1"
    and "d \<noteq> get_hash_code name \<Longrightarrow> get_from_hash (rg_table s1) d = get_from_hash (rg_table s) d"
    and "p \<noteq> -1 \<Longrightarrow> snd mem \<Longrightarrow> \<exists>r. get_from_hash (rg_table s1) (get_hash_code name) = Some r \<and> rn_port r = p"
    and "p \<noteq> -1 \<Longrightarrow> port_ok p \<and> \<not> rg_reserve s ! nat (p - 2501) \<and> rg_reserve s1 = (rg_reserve s)[nat (p - 2501) := True]"
    and "p = -1 \<longleftrightarrow> list_all id (rg_reserve s) \<or> get_from_hash (rg_table s) (get_hash_code name) = None \<and> \<not> fst mem"
    and "\<forall>i. rg_reserve s ! i \<longrightarrow> rg_reserve s1 ! i"
proof -
  let ?c = "get_hash_code name" let ?t = "rg_table s"
  obtain q us where n: "get_next_port (rg_reserve s) = (q, us)" by fastforce
  have h: "hash_ok ?t" and len: "length (rg_reserve s) = 512" and ports: "\<And>c r. get_from_hash ?t c = Some r \<Longrightarrow> port_ok (rn_port r)"
    using ok by (auto simp: registry_ok_def)
  note np = next_port[OF n len]
  let ?put = "\<lambda>m. snd (put_into_hash m ?t \<lparr>rn_name = name, rn_port = q\<rparr> ?c)"
  let ?change = "change_in_hash (\<lambda>r. r\<lparr>rn_port := q\<rparr>) ?t ?c"
  have put: "hash_ok (?put m)" "get_from_hash (?put True) d = (if d = ?c then Some \<lparr>rn_name = name, rn_port = q\<rparr> else get_from_hash ?t d)"
    if "get_from_hash ?t ?c = None" for m d
    using that table.ok_add[OF h] table.look_add[OF h] h by (cases m; simp add: put_no_memory)+
  have ch: "hash_ok ?change" "get_from_hash ?change d = (if d = ?c then map_option (\<lambda>r. r\<lparr>rn_port := q\<rparr>) (get_from_hash ?t ?c) else get_from_hash ?t d)" for d
    using table.ok_change[OF h] table.look_change[OF h] by simp_all
  consider (full) "q = -1" "p = -1" "s1 = s"
    | (no_memory) "q \<noteq> -1" "get_from_hash ?t ?c = None" "\<not> fst mem" "p = -1" "s1 = s\<lparr>rg_reserve := us\<rparr>"
    | (new) "q \<noteq> -1" "get_from_hash ?t ?c = None" "fst mem" "p = q" "s1 = s\<lparr>rg_reserve := us, rg_table := ?put (snd mem)\<rparr>"
    | (again) r where "q \<noteq> -1" "get_from_hash ?t ?c = Some r" "p = q" "s1 = s\<lparr>rg_reserve := us, rg_table := ?change\<rparr>"
    using b n by (cases "get_from_hash ?t ?c") (auto simp: book_port_def Let_def split: if_splits)
  note case_rule = this
  have mark: "port_ok q" "\<not> rg_reserve s ! nat (q - 2501)" "us = (rg_reserve s)[nat (q - 2501) := True]" if "q \<noteq> -1"
    using np that by auto
  have free: "\<not> list_all id (rg_reserve s)" if "q \<noteq> -1"
    using mark[OF that] len by (auto simp: list_all_length port_ok_def intro!: exI[of _ "nat (q - 2501)"])
  have full: "list_all id (rg_reserve s)" if "q = -1"
    using np that by (auto simp: port_ok_def)
  show "registry_ok s1"
    by (cases rule: case_rule; cases "snd mem")
      (use ok h len ports put ch mark in \<open>auto simp: registry_ok_def put_no_memory split: if_splits\<close>)
  show "d \<noteq> ?c \<Longrightarrow> get_from_hash (rg_table s1) d = get_from_hash ?t d"
    by (cases rule: case_rule; cases "snd mem") (auto simp: put ch put_no_memory)
  show "p \<noteq> -1 \<Longrightarrow> snd mem \<Longrightarrow> \<exists>r. get_from_hash (rg_table s1) ?c = Some r \<and> rn_port r = p"
    by (cases rule: case_rule) (auto simp: put ch)
  show "p \<noteq> -1 \<Longrightarrow> port_ok p \<and> \<not> rg_reserve s ! nat (p - 2501) \<and> rg_reserve s1 = (rg_reserve s)[nat (p - 2501) := True]"
    by (cases rule: case_rule) (use mark in auto)
  show "p = -1 \<longleftrightarrow> list_all id (rg_reserve s) \<or> get_from_hash ?t ?c = None \<and> \<not> fst mem"
    by (cases rule: case_rule) (use full free in auto)
  show "\<forall>i. rg_reserve s ! i \<longrightarrow> rg_reserve s1 ! i"
  proof (intro allI impI)
    fix i assume i: "rg_reserve s ! i"
    have "us ! i" if "q \<noteq> -1"
      using mark[OF that] i nth_list_update_neq[of "nat (q - 2501)" i "rg_reserve s" True]
      by (cases "i = nat (q - 2501)") simp_all
    then show "rg_reserve s1 ! i" using i by (cases rule: case_rule) auto
  qed
qed

lemma handle_request_ok: "registry_ok s \<Longrightarrow> registry_ok (snd (handle_request q s))"
  by (auto simp: handle_request_def Let_def split_beta split: option.split
      intro: book_port_effect(1)[OF _ prod.collapse[symmetric]])

lemma check_ok: "hash_ok (rg_table s) \<Longrightarrow> (\<And>c r. get_from_hash (rg_table s) c = Some r \<Longrightarrow> port_ok (rn_port r)) \<Longrightarrow>
    registry_ok (check_port_reserve bindable s)"
  by (auto simp: registry_ok_def check_port_reserve_def port_reserve_size_def)

lemma clean_node_ok:
  assumes "registry_ok s" shows "registry_ok (clean_node bindable s n)"
proof -
  have h: "hash_ok (rg_table s)" using assms by (simp add: registry_ok_def)
  show ?thesis
    using assms del_ok[OF h, of "fst n"]
    by (auto simp: registry_ok_def clean_node_def get_is_map split: if_splits)
qed

lemma clean_ok: "registry_ok s \<Longrightarrow> registry_ok (clean_port_reserve bindable s)"
proof -
  assume ok: "registry_ok s"
  have chain: "registry_ok (foldl (clean_node bindable) r ns)" if "registry_ok r" for r ns
    using that by (induction ns arbitrary: r) (auto intro: clean_node_ok)
  have "registry_ok (foldl (\<lambda>s i. foldl (clean_node bindable) s (rg_table s ! i)) r is)" if "registry_ok r" for r "is"
    using that by (induction "is" arbitrary: r) (auto intro: chain)
  from this[OF ok] show ?thesis unfolding clean_port_reserve_def by (intro check_ok) (auto simp: registry_ok_def)
qed

lemma register_step_ok: "registry_ok s \<Longrightarrow> registry_ok (register_step e s)"
  by (cases e) (simp_all add: handle_request_ok clean_ok)

interpretation registering: invariant_machine register_step registry_ok
  by unfold_locales (rule register_step_ok)

lemma start_ok: "registry_ok (register_start bindable)"
proof -
  have i: "hash_ok (snd (init_hash True 100 []) :: registration hash)" "hash_map (snd (init_hash True 100 []) :: registration hash) = Map.empty"
    using init_hash_ok[of True 100 "[]" "snd (init_hash True 100 []) :: registration hash"] by (simp_all add: init_hash_def)
  then show ?thesis unfolding register_start_def by (intro check_ok) (simp_all add: get_is_map)
qed

lemma reachable_registry: "registry_ok (run_events register_step es (register_start bindable))"
  by (rule registering.run_keeps[OF start_ok])

section \<open>Ports are given once\<close>

text \<open>The ports that requests get by booking.\<close>

definition booked_name :: "port_request \<Rightarrow> string option" where
  "booked_name q = (if pq_act q = Some CHR ''0'' \<and> pq_rest q \<noteq> [] then Some (take 512 (pq_rest q)) else None)"

definition given :: "port_request \<Rightarrow> registry \<Rightarrow> int list" where
  "given q s =
     (case booked_name q of None \<Rightarrow> [] | Some name \<Rightarrow> (let p = fst (book_port (pq_mem q) name s) in if p = -1 then [] else [p]))"

fun ports_given :: "port_request list \<Rightarrow> registry \<Rightarrow> int list" where
  "ports_given [] s = []"
| "ports_given (q # qs) s = given q s @ ports_given qs (snd (handle_request q s))"

lemma handle_books:
  "snd (handle_request q s) = (case booked_name q of Some name \<Rightarrow> snd (book_port (pq_mem q) name s) | None \<Rightarrow> s)"
  by (auto simp: handle_request_def booked_name_def Let_def split_beta split: option.split)

lemma ports_given_free:
  "registry_ok s \<Longrightarrow> distinct (ports_given qs s) \<and> (\<forall>p \<in> set (ports_given qs s). port_ok p \<and> \<not> rg_reserve s ! nat (p - 2501))"
proof (induction qs arbitrary: s)
  case (Cons q qs)
  let ?s1 = "snd (handle_request q s)"
  have ok1: "registry_ok ?s1" using Cons.prems by (rule handle_request_ok)
  note IH = Cons.IH[OF ok1]
  show ?case
  proof (cases "booked_name q")
    case None
    then show ?thesis using IH by (simp add: given_def handle_books)
  next
    case (Some name)
    obtain p s1 where b: "book_port (pq_mem q) name s = (p, s1)" by fastforce
    have s1: "?s1 = s1" using Some b by (simp add: handle_books)
    note eff = book_port_effect[OF Cons.prems b]
    show ?thesis
    proof (cases "p = -1")
      case True
      then show ?thesis using IH eff(6) Some b by (auto simp: given_def s1)
    next
      case False
      then have new: "port_ok p" "\<not> rg_reserve s ! nat (p - 2501)" "rg_reserve s1 ! nat (p - 2501)"
        using eff(4) Cons.prems by (auto simp: registry_ok_def port_ok_def)
      then have "p \<notin> set (ports_given qs s1)" using IH by (auto simp: s1)
      then show ?thesis using IH eff(6) new False Some b by (auto simp: given_def s1)
    qed
  qed
qed simp
lemma clean_reserve:
  assumes "2501 \<le> p" "p \<le> 3012"
  shows "rg_reserve (clean_port_reserve bindable s) ! nat (p - 2501) \<longleftrightarrow> \<not> bindable p"
proof -
  have "nat (p - 2501) < 512" "int (nat (p - 2501)) + default_register_port + 1 = p"
    using assms by (simp_all add: default_register_port_def)
  then show ?thesis by (simp add: clean_port_reserve_def check_port_reserve_def port_reserve_size_def)
qed

text \<open>
  C36. Ports are given once. Whatever happened before, from a cleaning on until the next, whoever asks
  for what in whatever order, no port is booked twice, every booked port is one of the 512 after the register's own,
  and nobody had it at the cleaning.
\<close>

theorem ports_given_once:
  "let s = clean_port_reserve bindable (run_events register_step es (register_start b0))
   in distinct (ports_given qs s) \<and> set (ports_given qs s) \<subseteq> {p. 2501 \<le> p \<and> p \<le> 3012 \<and> bindable p}"
proof -
  let ?s = "clean_port_reserve bindable (run_events register_step es (register_start b0))"
  have "registry_ok ?s" by (rule clean_ok) (rule reachable_registry)
  from ports_given_free[OF this, of qs] show ?thesis
    by (auto simp: Let_def port_ok_def clean_reserve)
qed

text \<open>A booking fails only when all ports are taken or there is no memory for a new name.\<close>

lemma booking_fails:
  "fst (book_port mem name (run_events register_step es (register_start b0))) = -1 \<longleftrightarrow>
   list_all id (rg_reserve (run_events register_step es (register_start b0))) \<or>
   get_port name (run_events register_step es (register_start b0)) = -1 \<and> \<not> fst mem"
proof -
  let ?s = "run_events register_step es (register_start b0)"
  note ok = reachable_registry[of es b0]
  have "get_port name ?s = -1 \<longleftrightarrow> get_from_hash (rg_table ?s) (get_hash_code name) = None"
  proof (cases "get_from_hash (rg_table ?s) (get_hash_code name)")
    case (Some r)
    then have "port_ok (rn_port r)" using ok unfolding registry_ok_def by blast
    then show ?thesis using Some by (simp add: get_port_def port_ok_def)
  qed (simp add: get_port_def)
  then show ?thesis using book_port_effect(5)[OF ok prod.collapse[symmetric], of mem name] by simp
qed

section \<open>A booked port is found\<close>

lemma others_keep_look:
  assumes "registry_ok s" "\<forall>q \<in> set qs. \<forall>n. booked_name q = Some n \<longrightarrow> get_hash_code n \<noteq> c"
  shows "get_from_hash (rg_table (run_events register_step (map Asked qs) s)) c = get_from_hash (rg_table s) c"
  using assms
proof (induction qs arbitrary: s)
  case (Cons q qs)
  have "get_from_hash (rg_table (snd (handle_request q s))) c = get_from_hash (rg_table s) c"
    using book_port_effect(2)[OF Cons.prems(1) prod.collapse[symmetric], of c _ "pq_mem q"] Cons.prems(2)
    by (auto simp: handle_books split: option.split)
  then show ?case using Cons.IH[OF handle_request_ok[OF Cons.prems(1), of q]] Cons.prems(2) by simp
qed simp

text \<open>
  \<open>server_start\<close> and \<open>client_start\<close> of \<open>connect.c\<close> up to the port they go on with: both send an action and a name and
  read an integer in the byte order of the machine. When the register hangs up, the integer stays unread.
\<close>

datatype assigned = Assigned int | NotAssigned | Unread

definition ask_register :: "bool \<times> bool \<Rightarrow> char \<Rightarrow> string \<Rightarrow> registry \<Rightarrow> assigned \<times> registry" where
  "ask_register mem act name s =
     (let (answer, s1) = handle_request \<lparr>pq_mem = mem, pq_act = Some act, pq_rest = name\<rparr> s
      in (case answer of
            None \<Rightarrow> Unread
          | Some bs \<Rightarrow> (case read_int32_be (rev bs) of
                None \<Rightarrow> Unread
              | Some p \<Rightarrow> if p = -1 then NotAssigned else Assigned p), s1))"

definition server_start_c :: "bool \<times> bool \<Rightarrow> string \<Rightarrow> registry \<Rightarrow> assigned \<times> registry" where
  "server_start_c mem user s = ask_register mem CHR ''0'' user s"

definition client_start_c :: "string \<Rightarrow> registry \<Rightarrow> assigned" where
  "client_start_c user s = fst (ask_register (True, True) CHR ''1'' user s)"

lemma read_le_port: "-1 \<le> p \<Longrightarrow> p \<le> 3012 \<Longrightarrow> read_int32_be (rev (le32_bytes p)) = Some p"
  by (simp add: le32_bytes_def read_int32_be_bytes)

lemma server_assigned:
  assumes ok: "registry_ok s" and a: "server_start_c mem user s = (Assigned p, s1)"
  shows "user \<noteq> [] \<and> book_port mem (take 512 user) s = (p, s1) \<and> p \<noteq> -1"
proof -
  have ne: "user \<noteq> []" using a by (auto simp: server_start_c_def ask_register_def handle_request_def)
  obtain q s2 where b: "book_port mem (take 512 user) s = (q, s2)" by fastforce
  have "-1 \<le> q" "q \<le> 3012" using book_port_effect(4)[OF ok b] by (cases "q = -1"; simp add: port_ok_def)+
  then show ?thesis using a ne b
    by (auto simp: server_start_c_def ask_register_def handle_request_def Let_def read_le_port split: if_splits)
qed


definition everything_free :: "int \<Rightarrow> bool" where
  "everything_free p \<longleftrightarrow> True"

lemma start_tables:
  "rg_table (register_start everything_free) = replicate 100 []"
  "rg_reserve (register_start everything_free) = replicate 512 False"
  by (simp_all add: register_start_def check_port_reserve_def init_hash_def everything_free_def port_reserve_size_def
      map_replicate_const)

lemma first_free_new [simp]:
  "0 < n \<Longrightarrow> first_free (replicate n False) = Some 0" "1 < n \<Longrightarrow> first_free ((replicate n False)[0 := True]) = Some 1"
proof -
  show "first_free (replicate n False) = Some 0" if "0 < n" using that by (cases n) simp_all
  show "first_free ((replicate n False)[0 := True]) = Some 1" if "1 < n"
    using less_imp_Suc_add[OF that] by auto
qed

definition book_request :: "string \<Rightarrow> port_request" where
  "book_request name = \<lparr>pq_mem = (True, True), pq_act = Some CHR ''0'', pq_rest = name\<rparr>"


text \<open>What bookings do to the tables.\<close>

lemma book_new:
  assumes "get_from_hash (rg_table s) (get_hash_code name) = None" "first_free (rg_reserve s) = Some i"
    and "name \<noteq> []" "length name \<le> 512"
  shows "register_step (Asked (book_request name)) s =
    s\<lparr>rg_reserve := (rg_reserve s)[i := True],
      rg_table := snd (put_into_hash True (rg_table s) \<lparr>rn_name = name, rn_port = int i + 2501\<rparr> (get_hash_code name))\<rparr>"
  using assms
  by (simp add: handle_request_def book_request_def book_port_def get_next_port_def default_register_port_def Let_def add.commute)

lemma book_again:
  assumes "get_from_hash (rg_table s) (get_hash_code name) = Some r" "first_free (rg_reserve s) = Some i"
    and "name \<noteq> []" "length name \<le> 512"
  shows "register_step (Asked (book_request name)) s =
    s\<lparr>rg_reserve := (rg_reserve s)[i := True],
      rg_table := change_in_hash (\<lambda>r. r\<lparr>rn_port := int i + 2501\<rparr>) (rg_table s) (get_hash_code name)\<rparr>"
  using assms
  by (simp add: handle_request_def book_request_def book_port_def get_next_port_def default_register_port_def Let_def add.commute)

lemma start_registry: "register_start everything_free = \<lparr>rg_table = replicate 100 [], rg_reserve = replicate 512 False\<rparr>"
  using start_tables by (cases "register_start everything_free") simp

section \<open>What goes wrong\<close>

text \<open>
  Names are told apart by their last four characters only: booking for one gives everybody who asks for the other the
  new port.
\<close>

lemma names_share_port:
  "let s1 = run_events register_step (map Asked [book_request ''alexander'', book_request ''leander'']) (register_start everything_free)
   in get_port ''alexander'' s1 = 2502 \<and> get_port ''leander'' s1 = 2502"
proof -
  let ?table = "\<lambda>p. (replicate 100 [])[30 := [(1852073330, \<lparr>rn_name = ''alexander'', rn_port = p\<rparr>)]]"
  have code: "get_hash_code ''alexander'' = 1852073330" "get_hash_code ''leander'' = 1852073330" by code_simp+
  have pos: "hash_pos 100 1852073330 = 30" by code_simp
  have "register_step (Asked (book_request ''alexander'')) (register_start everything_free) =
      \<lparr>rg_table = ?table 2501, rg_reserve = (replicate 512 False)[0 := True]\<rparr>"
    unfolding start_registry
    by (subst book_new[where i = 0]) (simp_all add: code pos get_from_hash_def put_into_hash_def Let_def)
  moreover have "register_step (Asked (book_request ''leander'')) \<lparr>rg_table = ?table 2501, rg_reserve = (replicate 512 False)[0 := True]\<rparr> =
      \<lparr>rg_table = ?table 2502, rg_reserve = (replicate 512 False)[0 := True, 1 := True]\<rparr>"
    by (subst book_again[where i = 1]) (simp_all add: code pos get_from_hash_def change_in_hash_def Let_def)
  ultimately show ?thesis
    by (simp add: Let_def get_port_def get_from_hash_def code pos del: register_step.simps)
qed

text \<open>Cleaning a table of which one chain alone is in use.\<close>

lemma clean_skip: "\<forall>i \<in> set is. rg_table s ! i = [] \<Longrightarrow> foldl (\<lambda>s i. foldl (clean_node b) s (rg_table s ! i)) s is = s"
  by (induction "is") simp_all

lemma clean_one_chain:
  assumes "rg_table s = (replicate n [])[i := ch]" "i < n"
    and "rg_table (foldl (clean_node b) s ch) = (replicate n [])[i := ch']"
  shows "clean_port_reserve b s = check_port_reserve b (foldl (clean_node b) s ch)"
proof -
  have "[0..<n] = [0..<i] @ [i..<n]" using upt_add_eq_append[of 0 i "n - i"] assms(2) by simp
  then have "[0..<n] = [0..<i] @ i # [Suc i..<n]" using upt_conv_Cons[OF assms(2)] by simp
  moreover have "foldl (\<lambda>s i. foldl (clean_node b) s (rg_table s ! i)) s [0..<i] = s"
    using assms(1,2) by (intro clean_skip) simp
  moreover have "foldl (\<lambda>s i. foldl (clean_node b) s (rg_table s ! i)) (foldl (clean_node b) s ch) [Suc i..<n] =
      foldl (clean_node b) s ch"
    using assms(3) by (intro clean_skip) simp
  ultimately show ?thesis using assms(1,2) by (simp add: clean_port_reserve_def)
qed

text \<open>Two names whose codes share a chain.\<close>

lemma bob_and_dan: "get_hash_code ''bob'' = 6451042" "get_hash_code ''dan'' = 6578542"
  by code_simp+

lemma bob_and_dan_chain: "hash_pos 100 6451042 = 42" "hash_pos 100 6578542 = 42"
  by code_simp+

lemma bob_booked:
  "register_step (Asked (book_request ''bob'')) (register_start everything_free) =
   \<lparr>rg_table = (replicate 100 [])[42 := [(6451042, \<lparr>rn_name = ''bob'', rn_port = 2501\<rparr>)]],
    rg_reserve = (replicate 512 False)[0 := True]\<rparr>"
  unfolding start_registry
  by (subst book_new[where i = 0])
    (simp_all add: bob_and_dan bob_and_dan_chain get_from_hash_def put_into_hash_def Let_def)

lemma dan_booked:
  "register_step (Asked (book_request ''dan''))
     \<lparr>rg_table = (replicate 100 [])[42 := [(6451042, \<lparr>rn_name = ''bob'', rn_port = 2501\<rparr>)]],
      rg_reserve = (replicate 512 False)[0 := True]\<rparr> =
   \<lparr>rg_table = (replicate 100 [])[42 := [(6451042, \<lparr>rn_name = ''bob'', rn_port = 2501\<rparr>),
                                         (6578542, \<lparr>rn_name = ''dan'', rn_port = 2502\<rparr>)]],
    rg_reserve = (replicate 512 False)[0 := True, 1 := True]\<rparr>"
  by (subst book_new[where i = 1])
    (simp_all add: bob_and_dan bob_and_dan_chain get_from_hash_def put_into_hash_def Let_def)

text \<open>
  When the server of the first has ended, cleaning forgets the second as well, though its server runs.
\<close>

lemma cleaning_forgets_running_server:
  "let s1 = run_events register_step (map Asked [book_request ''bob'', book_request ''dan'']) (register_start everything_free)
   in get_port ''dan'' s1 = 2502 \<and> get_port ''dan'' (clean_port_reserve (\<lambda>p. p \<noteq> 2502) s1) = -1"
proof -
  let ?s = "run_events register_step (map Asked [book_request ''bob'', book_request ''dan'']) (register_start everything_free)"
  let ?b = "\<lambda>p. p \<noteq> (2502 :: int)"
  let ?ch = "[(6451042, \<lparr>rn_name = ''bob'', rn_port = 2501\<rparr>), (6578542, \<lparr>rn_name = ''dan'', rn_port = 2502\<rparr>)]"
  have s: "?s = \<lparr>rg_table = (replicate 100 [])[42 := ?ch], rg_reserve = (replicate 512 False)[0 := True, 1 := True]\<rparr>"
    unfolding list.map run_events.simps bob_booked dan_booked ..
  have t: "rg_table (foldl (clean_node ?b) ?s ?ch) = (replicate 100 [])[42 := []]"
    by (simp add: s clean_node_def del_from_hash_def bob_and_dan_chain del: list.map run_events.simps)
  have "clean_port_reserve ?b ?s = check_port_reserve ?b (foldl (clean_node ?b) ?s ?ch)"
    by (rule clean_one_chain[OF _ _ t]) (simp_all add: s del: list.map run_events.simps)
  then have "rg_table (clean_port_reserve ?b ?s) = (replicate 100 [])[42 := []]"
    using t by (simp add: check_port_reserve_def)
  then show ?thesis
    by (simp add: s Let_def get_port_def get_from_hash_def bob_and_dan bob_and_dan_chain del: list.map run_events.simps)
qed

text \<open>
  A booked port that its server has not bound yet is free again after a cleaning, and is given to the next who books:
  both then try to bind it.
\<close>

lemma unbound_port_given_again:
  "let s1 = register_step (Asked (book_request ''bob'')) (register_start everything_free);
       s2 = clean_port_reserve everything_free s1
   in get_port ''bob'' s1 = 2501 \<and> fst (book_port (True, True) ''dan'' s2) = 2501"
proof -
  let ?s = "register_step (Asked (book_request ''bob'')) (register_start everything_free)"
  have "rg_reserve (clean_port_reserve everything_free ?s) = replicate 512 False"
    by (simp add: clean_port_reserve_def check_port_reserve_def port_reserve_size_def everything_free_def map_replicate_const
        del: register_step.simps)
  then have "fst (book_port (True, True) ''dan'' (clean_port_reserve everything_free ?s)) = 2501"
    by (simp add: book_port_def get_next_port_def default_register_port_def Let_def del: register_step.simps
        split: option.split)
  moreover have "get_port ''bob'' ?s = 2501"
    by (simp add: bob_booked get_port_def get_from_hash_def bob_and_dan bob_and_dan_chain del: register_step.simps)
  ultimately show ?thesis by (simp add: Let_def del: register_step.simps)
qed

end
