(* ===== verification/Web_Pages.thy ===== *)
theory Web_Pages
  imports Web_Api Connect_Utils
begin

text \<open>
  The two pages of the web tool. \<open>views/choose.ejs\<close> as the text the template renders, with the
  escaping \<open>ejs\<close> applies to every \<open><%= %>\<close>, and what goes on the wire when the callback of
  \<open>choose\<close> renders twice. The script of \<open>views/index.ejs\<close> as a machine: a chart of twenty
  points and one poll of \<open>/api/threads_active\<close> at a time, the next one second after a reply.
\<close>

section \<open>The escaping of ejs\<close>

text \<open>The lookahead \<open>#?[a-zA-Z0-9]+;\<close> after an ampersand.\<close>

definition is_alnum :: "char \<Rightarrow> bool" where
  "is_alnum c \<longleftrightarrow> is_upper c \<or> is_lower c \<or> is_digit c"

definition ejs_entity_ahead :: "string \<Rightarrow> bool" where
  "ejs_entity_ahead s =
     (let u = (if starts_with ''#'' s then tl s else s)
      in takeWhile is_alnum u \<noteq> [] \<and> starts_with '';'' (dropWhile is_alnum u))"

fun ejs_escape_amp :: "string \<Rightarrow> string" where
  "ejs_escape_amp [] = []"
| "ejs_escape_amp (c # cs) =
     (if c = CHR ''&'' \<and> \<not> ejs_entity_ahead cs then ''&amp;'' @ ejs_escape_amp cs
      else c # ejs_escape_amp cs)"

definition ejs_escape :: "string \<Rightarrow> string" where
  "ejs_escape html =
     replace_char CHR 0x22 ''&quot;''
       (replace_char CHR 0x27 ''&#39;''
         (replace_char CHR ''>'' ''&gt;''
           (replace_char CHR ''<'' ''&lt;'' (ejs_escape_amp html))))"

lemma ejs_escape_no_markup:
  "set (ejs_escape s) \<inter> {CHR ''<'', CHR ''>'', CHR 0x27, CHR 0x22} = {}"
  unfolding ejs_escape_def replace_char_def by (auto split: if_splits)

text \<open>Text without markup and ampersands is shown as it is; a text that spells an entity is not.\<close>

lemma ejs_escape_amp_plain: "CHR ''&'' \<notin> set s \<Longrightarrow> ejs_escape_amp s = s"
  by (induction s) auto

lemma ejs_escape_plain:
  "set s \<inter> {CHR ''&'', CHR ''<'', CHR ''>'', CHR 0x27, CHR 0x22} = {} \<Longrightarrow> ejs_escape s = s"
  by (simp add: ejs_escape_def ejs_escape_amp_plain replace_char_absent)

lemma ejs_escape_keeps_entities: "ejs_escape ''a&lt;b'' = ejs_escape ''a<b''"
  by code_simp

section \<open>choose.ejs\<close>

definition lf :: "string list \<Rightarrow> string" where
  "lf ls = concat (map (\<lambda>l. l @ ''\<newline>'') ls)"

definition dq :: "string \<Rightarrow> string" where
  "dq s = [CHR 0x22] @ s @ [CHR 0x22]"

definition choose_head :: string where
  "choose_head = lf
     [''<!DOCTYPE html>'', ''<html>'', ''<head>'',
      ''<meta charset='' @ dq ''utf-8'' @ ''></meta>'',
      ''<link rel='' @ dq ''stylesheet'' @ '' type='' @ dq ''text/css'' @ '' href='' @ dq ''css/reset.css'' @ ''></link>'',
      ''<link rel='' @ dq ''stylesheet'' @ '' type='' @ dq ''text/css'' @ '' href='' @ dq ''css/bootstrap.css'' @ ''></link>'',
      ''<script src='' @ dq ''js/jquery.min.js'' @ ''></script>'',
      ''<script src='' @ dq ''js/bootstrap.js'' @ ''></script>'',
      ''</head>'', ''<body>'',
      ''<div class='' @ dq ''container'' @ ''>'',
      ''<div class='' @ dq ''row'' @ ''>'',
      ''  <div class='' @ dq ''col-md-12'' @ ''>'',
      ''    <h1>Choose a server</h1>'']"

definition choose_row :: "nat \<Rightarrow> string \<times> string \<Rightarrow> string" where
  "choose_row i e = lf
     ['''',
      ''        <tr>'',
      ''          <td>'',
      ''            <input type='' @ dq ''radio'' @ '' name='' @ dq ''pid'' @ '' value='' @ dq (ejs_escape (fst e)) @
        '' id='' @ dq (''pid'' @ ejs_escape (show_nat i)) @ ''></input>'',
      ''            <label for='' @ dq (''pid'' @ ejs_escape (show_nat i)) @ ''>'' @ ejs_escape (fst e) @ ''</label>'',
      ''          </td>'',
      ''          <td><label for='' @ dq (''pid'' @ ejs_escape (show_nat i)) @ ''>'' @ ejs_escape (snd e) @ ''</label></td>'',
      ''        </tr>''] @ ''      ''"

fun choose_rows :: "nat \<Rightarrow> (string \<times> string) list \<Rightarrow> string" where
  "choose_rows i [] = []"
| "choose_rows i (e # es) = choose_row i e @ choose_rows (Suc i) es"

definition choose_foot :: string where
  "choose_foot = lf
     ['''', ''  </div><!-- col-md-12 -->'', ''</div><!-- row -->'', ''</div>'', ''</body>'', ''</html>'']"

text \<open>\<open>None\<close> when the template throws (\<open>pids.length\<close> of \<open>null\<close>). An empty error is falsy.\<close>

definition choose_page :: "string option \<Rightarrow> (string \<times> string) list option \<Rightarrow> string option" where
  "choose_page error pids =
     (if error \<noteq> None \<and> error \<noteq> Some [] then
        Some (choose_head @ ''  '' @
          lf ['''', ''    <div class='' @ dq ''alert alert-danger'' @ ''>'',
              ''      <p>'' @ ejs_escape (the error) @ ''</p>'',
              ''    </div><!-- alert -->''] @ ''  '' @ choose_foot)
      else map_option (\<lambda>es.
        choose_head @ ''  '' @
          lf ['''', ''    <form method='' @ dq ''POST'' @ '' action='' @ dq ''/choose'' @ ''>'',
              ''      <table class='' @ dq ''table table-striped table-bordered table-hover'' @ ''>''] @
          ''      '' @ choose_rows 0 es @
          lf ['''', ''      </table>'', ''      <input type='' @ dq ''submit'' @ ''></input>'', ''    </form>''] @
          ''  '' @ choose_foot) pids)"section \<open>What goes on the wire\<close>

text \<open>
  The announced \<open>Content-Length\<close> and the body of an answered exchange; of a
  mixed answer the length is that of the first page.
\<close>

fun choose_body :: "response \<Rightarrow> string option" where
  "choose_body (RenderChoose error pids) = choose_page error pids"
| "choose_body _ = None"

fun on_wire :: "exchange \<Rightarrow> (nat \<times> string) option" where
  "on_wire Unanswered = None"
| "on_wire (Answered r) = map_option (\<lambda>b. (byte_length b, b)) (choose_body r)"
| "on_wire (MixedAnswer r r') =
     (case (choose_body r, choose_body r') of
        (Some b, Some b') \<Rightarrow> Some (byte_length b, b')
      | _ \<Rightarrow> None)"

lemma length_lf [simp]: "length (lf ls) = sum_list (map (\<lambda>l. Suc (length l)) ls)"
  by (induction ls) (simp_all add: lf_def)

lemma lf_Cons: "lf (l # ls) = l @ ''\<newline>'' @ lf ls"
  by (simp add: lf_def)

lemma no_server_ascii: "map_option ascii_text (choose_page (Some ''ps error'') None) = Some True"
  by code_simp

text \<open>
  When \<open>ps\<close> finds no server, \<open>grep\<close> fails and the listing is empty: the body says that no server
  was found and is eighteen bytes longer than announced. A client that honours the length never
  sees the end of the page, the last mark of \<open></div>\<close> and the two closing tags.
\<close>

lemma no_server_page_overruns:
  "\<exists>n body. on_wire (exchange_of (choose_callback True [])) = Some (n, body) \<and>
     length body = n + 18 \<and> choose_page (Some ''cannot find csiebox_server'') (Some []) = Some body \<and>
     drop n body = ''>\<newline></body>\<newline></html>\<newline>''"
proof -
  have e: "ejs_escape ''ps error'' = ''ps error''"
    "ejs_escape ''cannot find csiebox_server'' = ''cannot find csiebox_server''"
    by (rule ejs_escape_plain, simp)+
  have c: "hd (choose_callback False []) = RenderChoose (Some ''cannot find csiebox_server'') (Some [])"
    by (simp add: choose_callback_def choose_line_def trim_str_def Let_def)
  have f: "choose_foot = (lf ['''', ''  </div><!-- col-md-12 -->'', ''</div><!-- row -->''] @ ''</div'') @
      ''>\<newline></body>\<newline></html>\<newline>''"
    by (simp add: choose_foot_def lf_def)
  have b: "choose_page (Some ''cannot find csiebox_server'') (Some []) =
      Some (choose_head @ ''  '' @
        lf ['''', ''    <div class='' @ dq ''alert alert-danger'' @ ''>'',
            ''      <p>cannot find csiebox_server</p>'', ''    </div><!-- alert -->''] @ ''  '' @ choose_foot)"
    (is "_ = Some ?b")
    by (simp add: choose_page_def e)
  obtain b0 where b0: "choose_page (Some ''ps error'') None = Some b0" "length ?b = length b0 + 18"
    by (simp add: choose_page_def e)
  obtain pre where pre: "?b = pre @ ''>\<newline></body>\<newline></html>\<newline>''"
    unfolding f by simp
  have "byte_length b0 = length b0"
    by (rule byte_length_ascii) (use b0(1) no_server_ascii in auto)
  have "length pre = length b0"
    using b0(2) unfolding pre by simp
  then have "drop (length b0) ?b = ''>\<newline></body>\<newline></html>\<newline>''"
    unfolding pre by simp
  then show ?thesis
    using b b0 c \<open>byte_length b0 = length b0\<close> by (auto simp: choose_answers_twice_on_error)
qed

section \<open>The chart of index.ejs\<close>

text \<open>
  \<open>c_waiting\<close>: a poll is in flight; \<open>c_timer\<close>: the next poll is due in a second. A point is a
  time and a value, \<open>null\<close> when the reply has neither an error nor a value.
\<close>

record chart =
  c_points :: "(int \<times> int option) list"
  c_waiting :: bool
  c_timer :: bool
  c_polls :: nat
  c_alerts :: "string list"

datatype chart_event = PollAnswered int api_reply | PollLost | PollDue

text \<open>\<open>series.addPoint\<close> with \<open>shift\<close>: the point goes in by its time, the first one out.\<close>

definition insert_point :: "int \<times> 'y \<Rightarrow> (int \<times> 'y) list \<Rightarrow> (int \<times> 'y) list" where
  "insert_point p ps =
     (let later = (\<lambda>q. fst p < fst q)
      in rev (dropWhile later (rev ps)) @ p # rev (takeWhile later (rev ps)))"

definition add_point :: "int \<times> 'y \<Rightarrow> (int \<times> 'y) list \<Rightarrow> (int \<times> 'y) list" where
  "add_point p ps = tl (insert_point p ps)"

definition chart_load :: "int \<Rightarrow> chart" where
  "chart_load t =
     \<lparr>c_points = map (\<lambda>i. (t + i * 1000, Some 0)) [-19..0],
      c_waiting = True, c_timer = False, c_polls = 1, c_alerts = []\<rparr>"

fun chart_step :: "chart_event \<Rightarrow> chart \<Rightarrow> chart" where
  "chart_step (PollAnswered now r) c =
     (if \<not> c_waiting c then c
      else case r of
        Failure msg \<Rightarrow>
          if msg \<noteq> [] then c\<lparr>c_waiting := False, c_alerts := c_alerts c @ [msg]\<rparr>
          else c\<lparr>c_waiting := False, c_timer := True, c_points := add_point (now, None) (c_points c)\<rparr>
      | Success n \<Rightarrow>
          c\<lparr>c_waiting := False, c_timer := True, c_points := add_point (now, Some n) (c_points c)\<rparr>)"
| "chart_step PollLost c = c\<lparr>c_waiting := False\<rparr>"
| "chart_step PollDue c =
     (if c_timer c then c\<lparr>c_timer := False, c_waiting := True, c_polls := Suc (c_polls c)\<rparr> else c)"
text \<open>The times of the chart stay sorted whatever the clock does; the window stays twenty wide.\<close>

lemma insert_point_split:
  "\<exists>early late. ps = early @ late \<and> insert_point p ps = early @ p # late \<and>
     (\<forall>q \<in> set late. fst p < fst q) \<and> (early \<noteq> [] \<longrightarrow> fst (last early) \<le> fst p)"
proof -
  let ?l = "\<lambda>q. fst p < fst q"
  have "ps = rev (dropWhile ?l (rev ps)) @ rev (takeWhile ?l (rev ps))"
    by (simp flip: rev_append)
  moreover have "fst (last (rev (dropWhile ?l (rev ps)))) \<le> fst p" if "dropWhile ?l (rev ps) \<noteq> []"
    using hd_dropWhile[OF that] that by (simp add: last_rev not_less)
  ultimately show ?thesis
    by - (rule exI[of _ "rev (dropWhile ?l (rev ps))"], rule exI[of _ "rev (takeWhile ?l (rev ps))"],
      auto simp: insert_point_def Let_def dest: set_takeWhileD)
qed

lemma sorted_insert_point:
  assumes "sorted (map fst ps)"
  shows "sorted (map fst (insert_point p ps))"
proof -
  obtain early late where s: "ps = early @ late" "insert_point p ps = early @ p # late"
    "\<forall>q \<in> set late. fst p < fst q" "early \<noteq> [] \<longrightarrow> fst (last early) \<le> fst p"
    using insert_point_split by blast
  have early: "\<forall>q \<in> set early. fst q \<le> fst p"
  proof (cases early rule: rev_cases)
    case (snoc xs x)
    then show ?thesis using s assms by (auto simp: sorted_append)
  qed simp
  then show ?thesis
    using s(1,3) assms unfolding s(2) by (fastforce simp: sorted_append less_imp_le)
qed

lemma length_insert_point: "length (insert_point p ps) = Suc (length ps)"
  using insert_point_split[of ps p] by auto

lemma add_point_keeps:
  "sorted (map fst ps) \<Longrightarrow> sorted (map fst (add_point p ps)) \<and> length (add_point p ps) = length ps"
  using sorted_insert_point[of ps p] length_insert_point[of p ps]
  by (simp add: add_point_def map_tl sorted_tl)

lemma add_point_latest:
  assumes "ps \<noteq> []" "\<forall>q \<in> set ps. fst q \<le> fst p"
  shows "add_point p ps = tl ps @ [p]"
proof -
  have "takeWhile (\<lambda>q. fst p < fst q) (rev ps) = []" "dropWhile (\<lambda>q. fst p < fst q) (rev ps) = rev ps"
    using assms by (cases "rev ps"; force simp: not_less)+
  then show ?thesis using assms(1) by (simp add: add_point_def insert_point_def)
qed

definition chart_inv :: "chart \<Rightarrow> bool" where
  "chart_inv c \<longleftrightarrow>
     length (c_points c) = 20 \<and> sorted (map fst (c_points c)) \<and> \<not> (c_waiting c \<and> c_timer c) \<and>
     (c_alerts c \<noteq> [] \<longrightarrow> \<not> c_waiting c \<and> \<not> c_timer c) \<and> length (c_alerts c) \<le> 1"

lemma chart_step_inv: "chart_inv c \<Longrightarrow> chart_inv (chart_step e c)"
  by (cases e) (auto simp: chart_inv_def add_point_keeps split: api_reply.splits)

interpretation chart_machine: invariant_machine chart_step chart_inv
  by unfold_locales (rule chart_step_inv)

lemma chart_load_inv: "chart_inv (chart_load t)"
  by (simp add: chart_inv_def chart_load_def upto.simps)

text \<open>
  Over every order of events the chart has twenty points in the order of their times, never two
  polls on the way, and no message box but the one after which it stops.
\<close>

lemma chart_always: "chart_inv (run_events chart_step es (chart_load t))"
  by (rule chart_machine.run_keeps[OF chart_load_inv])

text \<open>An error, or a poll the server does not answer, ends the polling for good.\<close>

lemma chart_stopped_stays:
  "\<not> c_waiting c \<Longrightarrow> \<not> c_timer c \<Longrightarrow> run_events chart_step es c = c"
proof (induction es)
  case (Cons e es)
  have "chart_step e c = c" using Cons.prems by (cases e) auto
  then show ?case using Cons by simp
qed simp

definition poll_round :: "int \<times> int \<Rightarrow> chart_event list" where
  "poll_round r = [PollAnswered (fst r) (Success (snd r)), PollDue]"

lemma chart_rounds:
  assumes "c_waiting c" "\<not> c_timer c" "length (c_points c) = 20" "sorted (map fst (c_points c))"
    and "sorted (map fst rs)" "\<forall>r \<in> set rs. \<forall>q \<in> set (c_points c). fst q \<le> fst r"
  shows "run_events chart_step (concat (map poll_round rs)) c =
    c\<lparr>c_points := drop (length rs) (c_points c @ map (\<lambda>(now, n). (now, Some n)) rs),
      c_polls := c_polls c + length rs\<rparr>"
  using assms
proof (induction rs arbitrary: c)
  case Nil
  then show ?case by simp
next
  case (Cons r rs)
  obtain now n where r: "r = (now, n)" by fastforce
  let ?c = "c\<lparr>c_points := tl (c_points c) @ [(now, Some n)], c_polls := Suc (c_polls c)\<rparr>"
  have ne: "c_points c \<noteq> []" using Cons.prems(3) by auto
  have "add_point (now, Some n) (c_points c) = tl (c_points c) @ [(now, Some n)]"
    using Cons.prems(6) r by (intro add_point_latest[OF ne]) auto
  then have step: "run_events chart_step (poll_round r) c = ?c"
    using Cons.prems r by (simp add: poll_round_def)
  have tl: "set (tl (c_points c)) \<subseteq> set (c_points c)" by (cases "c_points c") auto
  have "run_events chart_step (concat (map poll_round rs)) ?c =
      ?c\<lparr>c_points := drop (length rs) (c_points ?c @ map (\<lambda>(now, n). (now, Some n)) rs),
         c_polls := c_polls ?c + length rs\<rparr>"
  proof (rule Cons.IH)
    show "sorted (map fst (c_points ?c))"
      using Cons.prems(4,6) r tl by (auto simp: sorted_append map_tl[symmetric] sorted_tl simp del: map_tl)
        (fastforce simp: map_tl sorted_tl)
    show "\<forall>r \<in> set rs. \<forall>q \<in> set (c_points ?c). fst q \<le> fst r"
      using Cons.prems(5,6) r subsetD[OF tl] by fastforce
  qed (use Cons.prems ne in auto)
  moreover have "drop (length rs) (c_points ?c @ map (\<lambda>(now, n). (now, Some n)) rs) =
      drop (length (r # rs)) (c_points c @ map (\<lambda>(now, n). (now, Some n)) (r # rs))"
    using ne by (cases "c_points c") (simp_all add: r)
  ultimately show ?case
    using step by (simp add: run_events_append del: drop_append)
qed

text \<open>
  C38. While the server answers and the clock of the browser does not run backwards, the chart shows
  the last twenty values, the zeros it starts with first, and a new poll is always under way.
\<close>

theorem chart_shows_last_replies:
  assumes "sorted (map fst rs)" "\<forall>r \<in> set rs. t \<le> fst r"
  shows "run_events chart_step (concat (map poll_round rs)) (chart_load t) =
    \<lparr>c_points = drop (length rs) (map (\<lambda>i. (t + i * 1000, Some 0)) [-19..0] @ map (\<lambda>(now, n). (now, Some n)) rs),
     c_waiting = True, c_timer = False, c_polls = Suc (length rs), c_alerts = []\<rparr>"
proof -
  have "run_events chart_step (concat (map poll_round rs)) (chart_load t) =
    (chart_load t)\<lparr>c_points := drop (length rs) (c_points (chart_load t) @ map (\<lambda>(now, n). (now, Some n)) rs),
      c_polls := c_polls (chart_load t) + length rs\<rparr>"
  proof (rule chart_rounds)
    show "length (c_points (chart_load t)) = 20" "sorted (map fst (c_points (chart_load t)))"
      using chart_load_inv by (auto simp: chart_inv_def)
    show "\<forall>r \<in> set rs. \<forall>q \<in> set (c_points (chart_load t)). fst q \<le> fst r"
      using assms(2) by (fastforce simp: chart_load_def)
  qed (use assms in \<open>auto simp: chart_load_def\<close>)
  then show ?thesis by (simp add: chart_load_def)
qed

theorem chart_shows_last_replies_witness:
  "c_points (run_events chart_step (concat (map poll_round [(20500, 3), (21600, 5)])) (chart_load 20000)) =
   map (\<lambda>i. (20000 + i * 1000, Some 0)) [-17..0] @ [(20500, Some 3), (21600, Some 5)]"
  using chart_shows_last_replies[of "[(20500, 3), (21600, 5)]" 20000] by (simp add: upto.simps)

text \<open>
  The chart and the endpoint together: a poll whose fifo opens in time adds the counter the
  server wrote; one that times out shows a message and is the last.
\<close>

lemma chart_takes_counter:
  assumes "0 \<le> n" "n < 2 ^ 31" "c_waiting c"
  shows "chart_step (PollAnswered now
           (hd (replies (run_events (api_step buf0) (FifoOpened (ReadBytes (be32_bytes n)) # es) api_wait)))) c =
         c\<lparr>c_waiting := False, c_timer := True, c_points := add_point (now, Some n) (c_points c)\<rparr>"
proof -
  have "hd (replies (run_events (api_step buf0) (FifoOpened (ReadBytes (be32_bytes n)) # es) api_wait)) = Success n"
    using assms(1,2) read_int32_be_bytes[of n]
    by (simp add: api_done_stays api_wait_def fifo_reply_def read_int32_be_def be32_val_def be32_bytes_def)
  then show ?thesis using assms(3) by simp
qed

lemma chart_stops_at_timeout:
  assumes "c_waiting c" "c_alerts c = []" "\<not> c_timer c"
  shows "run_events chart_step
           (PollAnswered now (hd (replies (run_events (api_step buf0) (TimerFires # es) api_wait))) # fs) c =
         c\<lparr>c_waiting := False, c_alerts := [''open timeout'']\<rparr>"
proof -
  have "hd (replies (run_events (api_step buf0) es s)) = hd (replies s)" if "replies s \<noteq> []" for s
    using that
  proof (induction es arbitrary: s)
    case (Cons e es)
    then show ?case by (cases e) auto
  qed simp
  then show ?thesis
    using assms by (simp add: api_wait_def chart_stopped_stays)
qed

end
