(* ===== verification/Box_Config.thy ===== *)
theory Box_Config
  imports Web_Api
begin

text \<open>
  The files the file-box server and the web tool share: the configuration (\<open>parse_arg\<close> of
  \<open>csiebox_server.c\<close>, which \<open>helper.js\<close> reads too), the account file, and the name of the fifo
  through which the server tells the web tool how many clients it has. Files are their contents.
  \<open>None\<close> at the outside of a result means that the C program writes outside its buffers.
\<close>

section \<open>C strings\<close>

definition c_str :: "string \<Rightarrow> string" where
  "c_str s = takeWhile (\<lambda>c. c \<noteq> CHR 0x00) s"

definition c_space :: "char \<Rightarrow> bool" where
  "c_space c \<longleftrightarrow> (of_char c :: nat) \<in> {9, 10, 11, 12, 13, 32}"

definition path_max :: nat where
  "path_max = 4096"

text \<open>\<open>getdelim\<close>: what is read, the delimiter included, and what is left.\<close>

definition read_delim :: "char \<Rightarrow> string \<Rightarrow> string \<times> string" where
  "read_delim d s =
     (let rest = dropWhile (\<lambda>c. c \<noteq> d) s
      in (takeWhile (\<lambda>c. c \<noteq> d) s @ take 1 rest, drop 1 rest))"

text \<open>
  \<open>strncpy(dst, val, vallen)\<close> on a buffer that holds a string: without a null in \<open>val\<close> the end of
  what was there stays.
\<close>

definition strncpy_onto :: "string \<Rightarrow> string \<Rightarrow> string" where
  "strncpy_onto val old = (if CHR 0x00 \<in> set val then c_str val else val @ drop (length val) old)"

definition copy_path :: "string \<Rightarrow> string \<Rightarrow> string option" where
  "copy_path val old =
     (if length val \<le> path_max \<and> length (strncpy_onto val old) < path_max
      then Some (strncpy_onto val old) else None)"

definition c_atoi :: "string \<Rightarrow> int" where
  "c_atoi s =
     (let number = (\<lambda>cs. case parse_nat_prefix cs of None \<Rightarrow> 0 | Some n \<Rightarrow> int n);
          v = (case dropWhile c_space s of
                 [] \<Rightarrow> 0
               | c # cs \<Rightarrow> if c = CHR ''-'' then - number cs
                          else if c = CHR ''+'' then number cs else number (c # cs))
      in to_signed32 (v mod 2 ^ 32))"

section \<open>The configuration as the server reads it\<close>

record server_arg =
  sa_path :: string
  sa_account_path :: string
  sa_thread_num :: int
  sa_run_path :: string

definition no_arg :: server_arg where
  "no_arg = \<lparr>sa_path = [], sa_account_path = [], sa_thread_num = 0, sa_run_path = []\<rparr>"

definition store_key :: "string \<Rightarrow> string \<Rightarrow> server_arg \<times> bool list \<Rightarrow> (server_arg \<times> bool list) option" where
  "store_key k v st =
     (let (arg, acc) = st; key = c_str k in
      if key = ''path'' then
        (if length v \<le> path_max
         then map_option (\<lambda>p. (arg\<lparr>sa_path := p\<rparr>, acc[0 := True])) (copy_path v (sa_path arg))
         else Some st)
      else if key = ''account_path'' then
        (if length v \<le> path_max
         then map_option (\<lambda>p. (arg\<lparr>sa_account_path := p\<rparr>, acc[1 := True])) (copy_path v (sa_account_path arg))
         else Some st)
      else if key = ''thread_num'' then Some (arg\<lparr>sa_thread_num := c_atoi v\<rparr>, acc[2 := True])
      else if key = ''run_path'' then
        (case copy_path v (sa_run_path arg) of
           None \<Rightarrow> None
         | Some p \<Rightarrow>
             if length p + 1 < path_max then Some (arg\<lparr>sa_run_path := p @ ''/''\<rparr>, acc[3 := True]) else None)
      else Some st)"

text \<open>
  The loop: a key up to the next \<open>=\<close>, its value up to the end of the line, the last byte of both
  cut. When nothing follows the key, \<open>getline\<close> returns \<open>-1\<close> and the null is written two bytes
  before the buffer.
\<close>

function parse_loop :: "string \<Rightarrow> server_arg \<times> bool list \<Rightarrow> (server_arg \<times> bool list) option" where
  "parse_loop text st =
     (let (k, s) = read_delim CHR ''='' text in
      if length k \<le> 1 then Some st
      else
        let (v, rest) = read_delim CHR ''\<newline>'' s in
        if v = [] then None
        else
          case store_key (butlast k) (butlast v) st of
            None \<Rightarrow> None
          | Some st' \<Rightarrow> parse_loop rest st')"
  by auto

lemma length_read_delim: "length (fst (read_delim d s)) + length (snd (read_delim d s)) = length s"
proof -
  have "length (takeWhile (\<lambda>c. c \<noteq> d) s) + length (dropWhile (\<lambda>c. c \<noteq> d) s) = length s"
    by (simp flip: length_append)
  then show ?thesis
    by (cases "dropWhile (\<lambda>c. c \<noteq> d) s") (auto simp: read_delim_def Let_def simp del: dropWhile_eq_Nil_conv)
qed

lemma read_delim_shorter: "(k, s) = read_delim d t \<Longrightarrow> length k + length s = length t"
  using length_read_delim[of d t] by (metis fst_conv snd_conv)

termination parse_loop
  by (relation "measure (\<lambda>(t, _). length t)") (force dest!: read_delim_shorter)+

declare parse_loop.simps [simp del]

text \<open>\<open>None\<close> inside: the server prints its usage and does not start.\<close>

definition parse_arg :: "nat \<Rightarrow> string option \<Rightarrow> server_arg option option" where
  "parse_arg argc opened =
     (if argc > 3 \<or> argc < 1 then Some None
      else case opened of
        None \<Rightarrow> Some None
      | Some text \<Rightarrow>
          map_option (\<lambda>(arg, acc). if list_all id acc then Some arg else None)
            (parse_loop text (no_arg, replicate 4 False)))"

section \<open>Accounts\<close>

text \<open>\<open>strtok(line, ",")\<close> and its next call: the fields that are not empty.\<close>

definition account_fields :: "string \<Rightarrow> string list" where
  "account_fields line = filter (\<lambda>f. f \<noteq> []) (split_on CHR '','' (c_str line))"

function get_account_info :: "string \<Rightarrow> string \<Rightarrow> string option" where
  "get_account_info text user =
     (let (l, rest) = read_delim CHR ''\<newline>'' text in
      if length l \<le> 1 then None
      else
        case account_fields (butlast l) of
          u # passwd # _ \<Rightarrow> if u = user then Some passwd else get_account_info rest user
        | _ \<Rightarrow> get_account_info rest user)"
  by auto

termination get_account_info
  by (relation "measure (\<lambda>(t, _). length t)") (force dest!: read_delim_shorter)+

declare get_account_info.simps [simp del]

text \<open>The password of the account, digested, is what the client sends. A missing account fails too.\<close>

definition login_ok :: "(string \<Rightarrow> 'h) \<Rightarrow> string option \<Rightarrow> string \<Rightarrow> 'h \<Rightarrow> bool" where
  "login_ok md5 accounts user h =
     (case accounts of
        None \<Rightarrow> False
      | Some text \<Rightarrow> (case get_account_info text (c_str user) of None \<Rightarrow> False | Some passwd \<Rightarrow> md5 passwd = h))"

section \<open>The fifo\<close>

text \<open>
  \<open>fscanf("%s")\<close> on the pid file; then the last three letters of \<open>csiebox_server.pid\<close> give way to
  it. Without the file the server exits (\<open>Some None\<close>); a name that does not fit \<open>fifo_path\<close> or a process
  id that does not fit \<open>pid[32]\<close> overruns the buffer.
\<close>

definition scan_word :: "string \<Rightarrow> string" where
  "scan_word text = takeWhile (\<lambda>c. \<not> c_space c) (dropWhile c_space text)"

definition pid_file :: "server_arg \<Rightarrow> string" where
  "pid_file arg = sa_run_path arg @ ''csiebox_server.pid''"

text \<open>
  \<open>daemonize\<close> (with \<open>-d\<close>) writes that file, over a buffer of 64 bytes for its name; the file can be made.
  It uses the configuration, so it is taken to run after \<open>csiebox_server_init\<close> (\<open>main\<close> names it before,
  with a variable that is not declared there, and does not compile as it stands).
\<close>

definition daemon_pid_text :: "server_arg \<Rightarrow> int \<Rightarrow> string option" where
  "daemon_pid_text arg pid = (if length (pid_file arg) < 64 then Some (show_int pid) else None)"

definition pid_size :: nat where
  "pid_size = 32"

definition server_fifo :: "server_arg \<Rightarrow> string option \<Rightarrow> string option option" where
  "server_fifo arg pid_text =
     (if length (pid_file arg) \<ge> path_max then None
      else case pid_text of
        None \<Rightarrow> Some None
      | Some text \<Rightarrow>
          let pid = scan_word text;
              fifo = take (length (pid_file arg) - 3) (pid_file arg) @ c_str pid
          in if length pid < pid_size \<and> length fifo < path_max then Some (Some fifo) else None)"

section \<open>Both programs read the same file\<close>

definition cfg_text :: "(string \<times> string) list \<Rightarrow> string" where
  "cfg_text kvs = concat (map (\<lambda>kv. cfg_line kv @ ''\<newline>'') kvs)"

text \<open>An entry the server reads whole: its value may hold \<open>=\<close>.\<close>

definition entry_ok :: "string \<times> string \<Rightarrow> bool" where
  "entry_ok kv \<longleftrightarrow>
     fst kv \<noteq> [] \<and> CHR ''='' \<notin> set (fst kv) \<and> CHR ''\<newline>'' \<notin> set (snd kv) \<and>
     CHR 0x00 \<notin> set (fst kv) \<and> CHR 0x00 \<notin> set (snd kv) \<and> length (snd kv) + 1 < path_max"

lemma read_delim_at: "d \<notin> set a \<Longrightarrow> read_delim d (a @ d # b) = (a @ [d], b)"
proof -
  assume "d \<notin> set a"
  then have "\<And>x. x \<in> set a \<Longrightarrow> x \<noteq> d" by blast
  then have "takeWhile (\<lambda>c. c \<noteq> d) (a @ d # b) = a" "dropWhile (\<lambda>c. c \<noteq> d) (a @ d # b) = d # b"
    by (simp_all add: takeWhile_append2 dropWhile_append2)
  then show ?thesis by (simp only: read_delim_def Let_def) simp
qed

lemma parse_loop_line:
  assumes "entry_ok kv"
  shows "parse_loop (cfg_line kv @ CHR ''\<newline>'' # rest) st =
    (case store_key (fst kv) (snd kv) st of None \<Rightarrow> None | Some st' \<Rightarrow> parse_loop rest st')"
  using assms
  by (subst parse_loop.simps) (simp add: entry_ok_def cfg_line_def read_delim_at)

lemma c_str_id: "CHR 0x00 \<notin> set s \<Longrightarrow> c_str s = s"
  unfolding c_str_def by (subst takeWhile_eq_all_conv) auto

lemma copy_path_fresh: "CHR 0x00 \<notin> set v \<Longrightarrow> length v < path_max \<Longrightarrow> copy_path v [] = Some v"
  by (simp add: copy_path_def strncpy_onto_def)

text \<open>A state of the loop in which the keys of \<open>ks\<close> are still to be read.\<close>

definition unread :: "string set \<Rightarrow> server_arg \<Rightarrow> bool" where
  "unread ks arg \<longleftrightarrow>
     (''path'' \<in> ks \<longrightarrow> sa_path arg = []) \<and> (''account_path'' \<in> ks \<longrightarrow> sa_account_path arg = []) \<and>
     (''run_path'' \<in> ks \<longrightarrow> sa_run_path arg = [])"

definition or_old :: "'a \<Rightarrow> 'a option \<Rightarrow> 'a" where
  "or_old old new = (case new of None \<Rightarrow> old | Some v \<Rightarrow> v)"

lemma or_old_simps [simp]: "or_old old None = old" "or_old old (Some v) = v"
  by (simp_all add: or_old_def)

definition read_all :: "(string \<times> string) list \<Rightarrow> server_arg \<Rightarrow> server_arg" where
  "read_all kvs arg =
     \<lparr>sa_path = or_old (sa_path arg) (map_of kvs ''path''),
      sa_account_path = or_old (sa_account_path arg) (map_of kvs ''account_path''),
      sa_thread_num = or_old (sa_thread_num arg) (map_option c_atoi (map_of kvs ''thread_num'')),
      sa_run_path = or_old (sa_run_path arg) (map_option (\<lambda>v. v @ ''/'') (map_of kvs ''run_path''))\<rparr>"

definition accept_keys :: "string list" where
  "accept_keys = [''path'', ''account_path'', ''thread_num'', ''run_path'']"

definition seen_all :: "string set \<Rightarrow> bool list \<Rightarrow> bool list" where
  "seen_all ks acc = map (\<lambda>(a, k). a \<or> k \<in> ks) (zip acc accept_keys)"

lemma length4: "length xs = 4 \<Longrightarrow> \<exists>a b c d. xs = [a, b, c, d]"
  by (auto simp: length_Suc_conv eval_nat_numeral)

lemma store_key_fresh:
  assumes "entry_ok (k, v)" "unread {k} arg" "length acc = 4"
  shows "store_key k v (arg, acc) = Some (read_all [(k, v)] arg, seen_all {k} acc)"
proof -
  obtain a b c d where acc: "acc = [a, b, c, d]" using length4[OF assms(3)] by blast
  have v: "CHR 0x00 \<notin> set v" "length v + 1 < path_max" and k: "c_str k = k"
    using assms(1) by (simp_all add: entry_ok_def c_str_id)
  consider "k = ''path''" | "k = ''account_path''" | "k = ''thread_num''" | "k = ''run_path''"
    | "k \<notin> set accept_keys"
    by (auto simp: accept_keys_def)
  then show ?thesis
    using assms(2) v k copy_path_fresh[OF v(1)]
    by cases (auto simp: acc store_key_def unread_def read_all_def seen_all_def accept_keys_def)
qed

lemma parse_loop_entries:
  assumes "list_all entry_ok kvs" "distinct (map fst kvs)" "unread (fst ` set kvs) arg" "length acc = 4"
  shows "parse_loop (cfg_text kvs) (arg, acc) = Some (read_all kvs arg, seen_all (fst ` set kvs) acc)"
  using assms
proof (induction kvs arbitrary: arg acc)
  case Nil
  obtain a b c d where "acc = [a, b, c, d]" using length4[OF Nil.prems(4)] by blast
  then show ?case
    by (subst parse_loop.simps) (simp add: cfg_text_def read_delim_def read_all_def seen_all_def accept_keys_def)
next
  case (Cons kv kvs)
  obtain k v where kv: "kv = (k, v)" by fastforce
  obtain a b c d where acc: "acc = [a, b, c, d]" using length4[OF Cons.prems(4)] by blast
  have fresh: "store_key k v (arg, acc) = Some (read_all [(k, v)] arg, seen_all {k} acc)"
    using Cons.prems kv by (intro store_key_fresh) (auto simp: unread_def)
  have "unread (fst ` set kvs) (read_all [(k, v)] arg)"
    using Cons.prems(2,3) kv by (auto simp: unread_def read_all_def)
  moreover have "length (seen_all {k} acc) = 4" by (simp add: seen_all_def acc accept_keys_def)
  ultimately have "parse_loop (cfg_text kvs) (read_all [(k, v)] arg, seen_all {k} acc) =
      Some (read_all kvs (read_all [(k, v)] arg), seen_all (fst ` set kvs) (seen_all {k} acc))"
    using Cons.prems Cons.IH by simp
  moreover have "read_all kvs (read_all [(k, v)] arg) = read_all (kv # kvs) arg"
  proof -
    have "map_of kvs k = None" using Cons.prems(2) kv by (simp add: map_of_eq_None_iff)
    then show ?thesis using kv by (auto simp: read_all_def)
  qed
  moreover have "seen_all (fst ` set kvs) (seen_all {k} acc) = seen_all (fst ` set (kv # kvs)) acc"
    using kv by (auto simp: seen_all_def acc accept_keys_def)
  ultimately show ?case
    using Cons.prems(1) parse_loop_line[of kv "cfg_text kvs" "(arg, acc)"] kv fresh
    by (simp add: cfg_text_def)
qed

text \<open>
  A file of distinct keys that has the four the server wants is read with exactly its values, the
  \<open>run_path\<close> with a slash; without one of them the server does not start.
\<close>

lemma server_reads_config:
  assumes "list_all entry_ok kvs" "distinct (map fst kvs)" "argc = 2 \<or> argc = 3"
  shows "parse_arg argc (Some (cfg_text kvs)) =
    Some (if set accept_keys \<subseteq> fst ` set kvs then Some (read_all kvs no_arg) else None)"
proof -
  have "parse_loop (cfg_text kvs) (no_arg, replicate 4 False) =
      Some (read_all kvs no_arg, seen_all (fst ` set kvs) (replicate 4 False))"
    using assms by (intro parse_loop_entries) (auto simp: unread_def no_arg_def)
  then show ?thesis
    using assms(3) by (auto simp: parse_arg_def seen_all_def accept_keys_def eval_nat_numeral)
qed
lemma cfg_text_show: "kvs \<noteq> [] \<Longrightarrow> cfg_text kvs = show_cfg kvs @ ''\<newline>''"
proof (induction kvs)
  case (Cons kv kvs)
  then show ?case by (cases kvs) (simp_all add: cfg_text_def show_cfg_def)
qed simp

lemma trim_right_newline:
  assumes "s \<noteq> []" "\<not> is_space (hd s)" "\<not> is_space (last s)"
  shows "trim_str (s @ ''\<newline>'') = s"
proof -
  have "dropWhile is_space (s @ ''\<newline>'') = s @ ''\<newline>''"
    using assms by (cases s) auto
  moreover have "dropWhile is_space (rev s) = rev s"
    using assms by (cases s rule: rev_cases) auto
  ultimately show ?thesis by (simp add: trim_str_def is_space_def)
qed

lemma show_cfg_ends:
  assumes "kvs \<noteq> []" "list_all entry_ok kvs"
  shows "show_cfg kvs \<noteq> [] \<and> hd (show_cfg kvs) = hd (fst (hd kvs)) \<and> last (show_cfg kvs) = last (cfg_line (last kvs))"
  using assms
proof (induction kvs)
  case (Cons kv kvs)
  then show ?case
    by (cases kvs) (auto simp: show_cfg_def cfg_line_def entry_ok_def)
qed simp


definition shipped_cfg :: "(string \<times> string) list" where
  "shipped_cfg = [(''path'', ''../sdir''), (''account_path'', ''../config/account''),
                  (''thread_num'', ''16''), (''run_path'', ''/tmp2'')]"


lemma daemon_overruns_name: "length (sa_run_path arg) \<ge> 46 \<Longrightarrow> daemon_pid_text arg pid = None"
  by (simp add: daemon_pid_text_def pid_file_def)

text \<open>
  A \<open>run_path\<close> of 4090 letters is accepted and then overruns \<open>fifo_path\<close>: the server appends the name of
  the pid file without asking for its length.
\<close>

lemma long_run_path_overruns:
  assumes "length (sa_run_path arg) = 4091" shows "server_fifo arg pid_text = None"
  using assms by (simp add: server_fifo_def pid_file_def path_max_def)

lemma long_run_path_is_accepted:
  "store_key ''run_path'' (replicate 4090 CHR ''d'') (no_arg, acc) =
   Some (no_arg\<lparr>sa_run_path := replicate 4090 CHR ''d'' @ ''/''\<rparr>, acc[3 := True])"
  by (simp add: store_key_def copy_path_def strncpy_onto_def no_arg_def path_max_def c_str_def)

text \<open>
  They read a different directory when the last line does not end (the server cuts a letter) or
  when the name holds \<open>=\<close> (the tool cuts it there).
\<close>

lemma unfinished_line_read_differently:
  "map_option (sa_run_path \<circ> fst) (parse_loop ''run_path=/tmp2'' (no_arg, replicate 4 False)) = Some ''/tmp/'' \<and>
   map_of (read_cfg ''run_path=/tmp2'') ''run_path'' = Some (Some ''/tmp2'')"
  by code_simp

lemma equals_sign_read_differently:
  "map_option (sa_run_path \<circ> fst) (parse_loop ''run_path=/a=b\<newline>'' (no_arg, replicate 4 False)) = Some ''/a=b/'' \<and>
   map_of (read_cfg ''run_path=/a=b\<newline>'') ''run_path'' = Some (Some ''/a'')"
  by code_simp

text \<open>A key with nothing after it makes the server write before its buffer.\<close>

lemma dangling_key_is_undefined: "parse_arg 2 (Some ''path='') = None"
  by code_simp
section \<open>The account file as a map\<close>

definition account_ok :: "string \<times> string \<Rightarrow> bool" where
  "account_ok up \<longleftrightarrow>
     fst up \<noteq> [] \<and> snd up \<noteq> [] \<and> (\<forall>c \<in> set (fst up @ snd up). c \<notin> {CHR '','', CHR ''\<newline>'', CHR 0x00})"

definition account_text :: "(string \<times> string) list \<Rightarrow> string" where
  "account_text ups = concat (map (\<lambda>(u, p). u @ '','' @ p @ ''\<newline>'') ups)"

text \<open>A user logs in with the password of the first line that has the name, and with no other.\<close>

lemma get_account_info_lookup:
  "list_all account_ok ups \<Longrightarrow> get_account_info (account_text ups) user = map_of ups user"
proof (induction ups)
  case Nil
  show ?case by (subst get_account_info.simps) (simp add: account_text_def read_delim_def)
next
  case (Cons up ups)
  obtain u p where up: "up = (u, p)" by fastforce
  let ?l = "u @ CHR '','' # p"
  have ok: "u \<noteq> []" "p \<noteq> []" "CHR '','' \<notin> set u" "CHR '','' \<notin> set p" "CHR ''\<newline>'' \<notin> set ?l" "CHR 0x00 \<notin> set ?l"
    using Cons.prems up by (auto simp: account_ok_def)
  have whole: "account_text (up # ups) = ?l @ CHR ''\<newline>'' # account_text ups"
    by (simp add: account_text_def up)
  have line: "read_delim CHR ''\<newline>'' (account_text (up # ups)) = (?l @ [CHR ''\<newline>''], account_text ups)"
    unfolding whole using read_delim_at[OF ok(5)] by simp
  have butlast: "butlast (?l @ [CHR ''\<newline>'']) = ?l" by (rule butlast_snoc)
  have fields: "account_fields ?l = [u, p]"
    unfolding account_fields_def c_str_id[OF ok(6)] split_on_append_sep[OF ok(3)] split_on_no_sep[OF ok(4)]
    using ok by simp
  show ?case
    unfolding get_account_info.simps[of "account_text (up # ups)"] line Let_def prod.case butlast fields
    using Cons up ok by simp
qed

lemma login_needs_password:
  assumes "list_all account_ok ups" "CHR 0x00 \<notin> set user"
  shows "login_ok md5 (Some (account_text ups)) user h \<longleftrightarrow> (\<exists>p. map_of ups user = Some p \<and> md5 p = h)"
  using assms by (simp add: login_ok_def c_str_id get_account_info_lookup split: option.splits)

text \<open>An empty line ends the search: accounts after it do not exist.\<close>

lemma empty_line_hides_accounts: "get_account_info ''a,1\<newline>\<newline>b,2\<newline>'' ''b'' = None"
  by code_simp

end
