(* ===== verification/File_Transfer.thy ===== *)
theory File_Transfer
  imports Node_Buffer
begin

text \<open>
  How the file box moves the contents of a file: \<open>send_file\<close> of \<open>send.c\<close>, and the loop that
  server and client receive it with, over \<open>send_message\<close> and \<open>recv_message\<close> of
  \<open>csiebox_common.c\<close>. A connection is the list of bytes the other side sends before it closes;
  structures are laid out as on a 64-bit little-endian machine. The server catches signals (one for every
  question of the web tool), and a \<open>send\<close> or \<open>recv\<close> that has moved some bytes when a signal is caught
  returns with these: \<open>caught k\<close> is the number of bytes the \<open>k\<close>-th call of a transfer had moved then (\<open>None\<close>:
  no signal). One that has moved nothing yet is started again.
\<close>

section \<open>Numbers and messages\<close>

fun le_bytes :: "nat \<Rightarrow> nat \<Rightarrow> byte list" where
  "le_bytes 0 n = []"
| "le_bytes (Suc k) n = of_nat n # le_bytes k (n div 256)"

fun le_val :: "byte list \<Rightarrow> nat" where
  "le_val [] = 0"
| "le_val (b # bs) = unat b + 256 * le_val bs"

lemma length_le_bytes [simp]: "length (le_bytes k n) = k"
  by (induction k arbitrary: n) auto

lemma le_val_bytes: "le_val (le_bytes k n) = n mod 256 ^ k"
proof (induction k arbitrary: n)
  case (Suc k)
  have "n mod (256 * 256 ^ k) = 256 * (n div 256 mod 256 ^ k) + n mod 256"
    by (rule mod_mult2_eq)
  then show ?case
    using Suc by (simp add: unat_of_nat)
qed simp

definition chunk_max :: nat where
  "chunk_max = 1048576"

definition file_header_size :: nat where
  "file_header_size = 24"

text \<open>
  \<open>csiebox_protocol_file\<close>: magic, operation and status, the client, the length of the rest of the
  header, and after padding the number of bytes that follow.
\<close>

definition file_header :: "nat \<Rightarrow> byte list" where
  "file_header n = [0x90, 0x02, 0, 0, 0, 0, 0, 0] @ le_bytes 4 12 @ [0, 0, 0, 0] @ le_bytes 8 n"

definition header_datalen :: "byte list \<Rightarrow> nat" where
  "header_datalen req = le_val (take 8 (drop 16 req))"

lemma header_datalen: "n < 256 ^ 8 \<Longrightarrow> header_datalen (file_header n) = n"
  by (simp add: header_datalen_def file_header_def le_val_bytes)

lemma length_file_header [simp]: "length (file_header n) = file_header_size"
  by (simp add: file_header_def file_header_size_def)

type_synonym cuts = "nat \<Rightarrow> nat option"

definition moved_bytes :: "nat option \<Rightarrow> nat \<Rightarrow> nat" where
  "moved_bytes caught len = (case caught of Some c \<Rightarrow> if 0 < c \<and> c < len then c else len | None \<Rightarrow> len)"

definition whole_calls :: "cuts \<Rightarrow> bool" where
  "whole_calls caught \<longleftrightarrow> (\<forall>k. caught k = None \<or> caught k = Some 0)"

lemma whole_moved [simp]: "whole_calls caught \<Longrightarrow> moved_bytes (caught k) len = len"
proof -
  assume "whole_calls caught"
  then have "caught k = None \<or> caught k = Some 0" by (simp add: whole_calls_def)
  then show ?thesis by (auto simp: moved_bytes_def)
qed

text \<open>
  \<open>recv\<close> with \<open>MSG_WAITALL\<close>: the bytes that came are over the first of the buffer; fewer come when
  the other side has closed or a signal was caught. The result says whether all came, and nobody looks at it;
  nor does anybody at the one of \<open>send_message\<close>, whose remaining bytes are never sent.
\<close>

definition recv_message :: "nat option \<Rightarrow> nat \<Rightarrow> byte list \<Rightarrow> byte list \<Rightarrow> bool \<times> byte list \<times> byte list" where
  "recv_message caught len buf stream =
     (if len = 0 then (False, buf, stream)
      else let got = take (moved_bytes caught len) stream
           in (length got = len, got @ drop (length got) buf, drop (length got) stream))"

definition send_message :: "nat option \<Rightarrow> byte list \<Rightarrow> byte list" where
  "send_message caught message = take (moved_bytes caught (length message)) message"

lemma whole_send [simp]: "whole_calls caught \<Longrightarrow> send_message (caught k) message = message"
  by (simp add: send_message_def)

section \<open>Sending\<close>

text \<open>\<open>fread\<close> of at most a chunk, its header, its bytes, until a chunk is not full.\<close>

function send_file_c :: "cuts \<Rightarrow> nat \<Rightarrow> byte list \<Rightarrow> byte list" where
  "send_file_c caught k data =
     (let buf = take chunk_max data; num = length buf
      in send_message (caught k) (file_header num) @ send_message (caught (k + 1)) buf @
         (if num = chunk_max then send_file_c caught (k + 2) (drop chunk_max data) else []))"
  by auto

termination send_file_c
  by (relation "measure (\<lambda>(_, _, data). length data)") (auto simp: chunk_max_def)

declare send_file_c.simps [simp del]

section \<open>Receiving\<close>

text \<open>
  \<open>None\<close>: the loop does not end. \<open>Some None\<close>: a length above the buffer's, which is overrun.
  Otherwise the file that was written and what is left in the connection.
\<close>

partial_function (option) recv_file ::
  "cuts \<Rightarrow> nat \<Rightarrow> byte list \<Rightarrow> byte list \<Rightarrow> byte list \<Rightarrow> byte list \<Rightarrow> (byte list \<times> byte list) option option" where
  "recv_file caught k req buf written stream =
     (let (_, req1, stream1) = recv_message (caught k) file_header_size req stream;
          len = header_datalen req1
      in if len > chunk_max then Some None
         else
           let (_, buf1, stream2) = recv_message (caught (k + 1)) len buf stream1;
               written1 = written @ take len buf1
           in if len = chunk_max then recv_file caught (k + 2) req1 buf1 written1 stream2
              else Some (Some (written1, stream2)))"

lemma recv_chunk:
  assumes "whole_calls caught" "length req = file_header_size" "length chunk \<le> chunk_max" "length buf = chunk_max"
  shows "recv_file caught k req buf written (file_header (length chunk) @ chunk @ rest) =
    (if length chunk = chunk_max then recv_file caught (k + 2) (file_header chunk_max) chunk (written @ chunk) rest
     else Some (Some (written @ chunk, rest)))"
proof -
  have small: "length chunk < 256 ^ 8"
    using assms(3) by (simp add: chunk_max_def)
  have req: "recv_message (caught k) file_header_size req (file_header (length chunk) @ chunk @ rest) =
      (True, file_header (length chunk), chunk @ rest)"
    using assms(1,2) by (simp add: recv_message_def file_header_size_def)
  have chunk: "snd (recv_message (caught (k + 1)) (length chunk) buf (chunk @ rest)) = (chunk @ drop (length chunk) buf, rest)"
    using assms(1) by (simp add: recv_message_def)
  then obtain ok where "recv_message (caught (k + 1)) (length chunk) buf (chunk @ rest) = (ok, chunk @ drop (length chunk) buf, rest)"
    by (metis prod.collapse)
  then show ?thesis
    using assms by (subst recv_file.simps) (simp add: req header_datalen[OF small])
qed

text \<open>
  C40. When no call of the sender or the receiver is cut short by a signal, the receiver writes exactly the file
  that was sent and leaves what follows it, for every length: a file of full chunks is closed by an empty
  one.
\<close>

theorem file_transfer_round_trip:
  assumes "whole_calls sent" "whole_calls caught" "length req = file_header_size" "length buf = chunk_max"
  shows "recv_file caught 0 req buf [] (send_file_c sent 0 data @ rest) = Some (Some (data, rest))"
proof -
  have "recv_file caught k req buf written (send_file_c sent j data @ rest) = Some (Some (written @ data, rest))" for k j written
    using assms
  proof (induction sent j data arbitrary: k req buf written rule: send_file_c.induct)
    case (1 sent j data)
    let ?chunk = "take chunk_max data"
    have chunk: "recv_file caught k req buf written (send_file_c sent j data @ rest) =
        (if length ?chunk = chunk_max
         then recv_file caught (k + 2) (file_header chunk_max) ?chunk (written @ ?chunk) (send_file_c sent (j + 2) (drop chunk_max data) @ rest)
         else Some (Some (written @ ?chunk, rest)))"
      using recv_chunk[OF 1(3,4) _ 1(5), of ?chunk k written "(if length ?chunk = chunk_max then send_file_c sent (j + 2) (drop chunk_max data) else []) @ rest"] 1(2)
      by (subst send_file_c.simps) (auto simp: Let_def min_def)
    show ?case
    proof (cases "length ?chunk = chunk_max")
      case True
      then show ?thesis
        using 1(1)[OF refl refl True 1(2,3), of "file_header chunk_max" ?chunk "k + 2" "written @ ?chunk"] chunk by simp
    next
      case False
      then have "?chunk = data" by (simp add: min_def split: if_splits)
      then show ?thesis using chunk False by simp
    qed
  qed
  from this[of 0 "[]" 0] show ?thesis by simp
qed

definition no_signal :: cuts where
  "no_signal k = None"

theorem file_transfer_round_trip_witness:
  "recv_file no_signal 0 (replicate file_header_size 0) (replicate chunk_max 0) [] (send_file_c no_signal 0 [104, 105] @ [7]) =
   Some (Some ([104, 105], [7]))"
  by (rule file_transfer_round_trip) (simp_all add: whole_calls_def no_signal_def)

section \<open>When a signal comes in between\<close>

text \<open>
  The web tool asks the server for its clients while a file comes in, and the \<open>recv\<close> of a chunk returns
  with \<open>c\<close> bytes: the rest of the chunk in the file is what was in the buffer, and the bytes that were not
  taken are read as the next header.
\<close>

lemma poll_corrupts_upload:
  assumes "length req = file_header_size" "length buf = chunk_max" "length chunk < chunk_max"
    and "caught k = None" "caught (k + 1) = Some c" "0 < c" "c < length chunk"
  shows "recv_file caught k req buf written (file_header (length chunk) @ chunk @ rest) =
    Some (Some (written @ take c chunk @ take (length chunk - c) (drop c buf), drop c chunk @ rest))"
proof -
  have small: "length chunk < 256 ^ 8"
    using assms(3) by (simp add: chunk_max_def)
  have req: "recv_message (caught k) file_header_size req (file_header (length chunk) @ chunk @ rest) =
      (True, file_header (length chunk), chunk @ rest)"
    using assms(1,4) by (simp add: recv_message_def file_header_size_def moved_bytes_def)
  have chunk: "recv_message (caught (k + 1)) (length chunk) buf (chunk @ rest) = (False, take c chunk @ drop c buf, drop c chunk @ rest)"
    using assms(5-7) by (auto simp: recv_message_def moved_bytes_def Let_def min_def)
  then show ?thesis
    using assms(2,3,6,7) by (subst recv_file.simps) (simp add: req chunk header_datalen[OF small] min_def del: One_nat_def add_Suc_right)
qed

text \<open>The same for a file on its way to a client: the bytes after the signal are never sent.\<close>

lemma poll_shortens_download:
  assumes "length data < chunk_max" "sent 0 = None" "sent 1 = Some c" "0 < c" "c < length data"
  shows "send_file_c sent 0 data = file_header (length data) @ take c data"
  using assms by (subst send_file_c.simps) (simp add: Let_def send_message_def moved_bytes_def)

section \<open>When the sender is gone\<close>

text \<open>
  When the connection ends right after a full chunk, the old header and the old chunk stay in their
  buffers: the receiver writes the same chunk for ever.
\<close>

lemma closed_connection_is_no_end:
  assumes "header_datalen req = chunk_max"
  shows "recv_file caught k req buf written [] = None"
proof -
  have "\<not> (header_datalen req = chunk_max \<and> stream = [])" if "recv_file caught k req buf written stream = Some r" for stream r
  proof (rule recv_file.raw_induct[where P = "\<lambda>caught k req buf written stream r. \<not> (header_datalen req = chunk_max \<and> stream = [])", OF _ that])
    fix f caught k req buf written stream r
    assume "\<And>caught k req buf written stream r. f caught k req buf written stream = Some r \<Longrightarrow>
        \<not> (header_datalen req = chunk_max \<and> stream = [])"
      and "(let (_, req1, stream1) = recv_message (caught k) file_header_size req stream; len = header_datalen req1
        in if chunk_max < len then Some None
           else let (_, buf1, stream2) = recv_message (caught (k + 1)) len buf stream1; written1 = written @ take len buf1
                in if len = chunk_max then f caught (k + 2) req1 buf1 written1 stream2 else Some (Some (written1, stream2))) = Some r"
    then show "\<not> (header_datalen req = chunk_max \<and> stream = [])"
      by (auto simp: recv_message_def chunk_max_def file_header_size_def split: if_splits) blast
  qed
  then show ?thesis
    using assms by (cases "recv_file caught k req buf written []") auto
qed

lemma interrupted_transfer_never_ends:
  assumes "whole_calls caught" "length req = file_header_size" "length buf = chunk_max" "length chunk = chunk_max"
  shows "recv_file caught k req buf [] (file_header chunk_max @ chunk) = None"
proof -
  have "header_datalen (file_header chunk_max) = chunk_max"
    by (rule header_datalen) (simp add: chunk_max_def)
  then show ?thesis
    using recv_chunk[OF assms(1,2) _ assms(3), of chunk k "[]" "[]"] closed_connection_is_no_end assms(4) by simp
qed

text \<open>The length of a chunk is taken as it comes: a longer one is written past the buffer.\<close>

lemma oversized_chunk_overruns:
  assumes "whole_calls caught" "length req = file_header_size" "chunk_max < n" "n < 256 ^ 8"
  shows "recv_file caught k req buf written (file_header n @ rest) = Some None"
proof -
  have "recv_message (caught k) file_header_size req (file_header n @ rest) = (True, file_header n, rest)"
    using assms(1,2) by (simp add: recv_message_def file_header_size_def)
  then show ?thesis
    using assms by (subst recv_file.simps) (simp add: header_datalen[OF assms(4)])
qed

end
