(* ===== verification/Box_Server.thy ===== *)
theory Box_Server
  imports Box_Config File_Transfer
begin

text \<open>
  \<open>csiebox_server.c\<close>: the loop that serves the clients of the file box, and the handler that
  writes the number of clients to the fifo of the web tool. One event is one descriptor the loop
  finds readable, the end of the request it is working on, one result of \<open>accept\<close>, or a signal, which may
  come in the middle of a request. What the operations do to files is not modelled, only what they need
  of the client and where they leave their buffers.
\<close>

section \<open>State\<close>

text \<open>
  \<open>Deaf\<close>: the main thread has called \<open>pthread_exit\<close> while threads of the pool live on, so the
  process is there and handles signals. \<open>Undefined\<close>: a null pointer has been followed or a buffer
  left.
\<close>

datatype box_status = Serving | Deaf | Exited | Undefined

text \<open>
  The request that is under way: a login whose client is entered and not yet counted, a hang-up that is
  counted off and whose client is still entered, or an operation.
\<close>

datatype under_way = CountsIn | LogsOut nat | Operates

record box_state =
  bx_status :: box_status
  bx_watched :: "nat list"
  bx_clients :: "nat \<rightharpoonup> string"
  bx_num :: "32 word"
  bx_busy :: "under_way option"
  bx_answers :: "(nat \<times> bool) list"
  bx_written :: "byte list list"

definition box_start :: box_state where
  "box_start = \<lparr>bx_status = Serving, bx_watched = [], bx_clients = (\<lambda>_. None), bx_num = 0, bx_busy = None,
                bx_answers = [], bx_written = []\<rparr>"

text \<open>The digest, the account file, the directory of the accounts, and whether the pool's threads live.\<close>

record 'h box_env =
  be_md5 :: "string \<Rightarrow> 'h"
  be_accounts :: "string option"
  be_path :: string
  be_pooled :: bool

text \<open>
  What follows the header of an operation: the length it announces and the bytes that came; the paths as
  they came (with their ends), whether arrays of the lengths announced for them fit on the stack, and
  what is then received for the file: its chunks by the lengths in their headers (for a file that can be
  opened for writing or not), or the target of a link by its length.
\<close>

datatype op_file = NoFile | WritesFile bool "nat list" | MakesLink nat

record op_body =
  ob_announced :: nat
  ob_got :: nat
  ob_paths :: "string list"
  ob_fits :: bool
  ob_file :: op_file

text \<open>
  What a readable connection holds. \<open>Login\<close> has the bytes of its body that came, no account when these are not
  as many as announced, and whether the home directory can be opened. A connection that ends, or gives less
  than a header before a signal is caught, hangs up.
\<close>

datatype 'h box_request =
    BadMagic
  | Login nat "(string \<times> 'h) option" bool
  | Operation nat op_body
  | HangUp

text \<open>
  How a request ends: it finishes; it sends on a connection the other side has closed, and \<open>SIGPIPE\<close> ends the
  process; or sending the files of a home directory leaves the tables for hard links.
\<close>

datatype request_end = Finishes | BrokenPipe | LeavesTables

datatype accept_error = ENFILE | EAGAIN | EINTR | OtherErrno

datatype 'h box_event =
    Accepted nat
  | AcceptFails accept_error
  | Readable nat "'h box_request"
  | Ends request_end
  | Usr1
  | Terminate

section \<open>Handling\<close>

definition user_len_max :: nat where
  "user_len_max = 30"

text \<open>The room after the header in the structures of a login and of the operations 1, 3 and 5.\<close>

definition login_room :: nat where
  "login_room = 48"

definition op_room :: "nat \<Rightarrow> nat" where
  "op_room n = (if n = 1 then 164 else if n = 3 then 8 else 4)"

definition home_len :: "'h box_env \<Rightarrow> string \<Rightarrow> nat" where
  "home_len env user = length (be_path env) + 1 + length user"

text \<open>\<open>login\<close>: the answer and, when the password fits, the new client of the connection.\<close>

definition box_login :: "'h box_env \<Rightarrow> nat \<Rightarrow> string \<times> 'h \<Rightarrow> box_state \<Rightarrow> box_state" where
  "box_login env fd req s =
     (let user = c_str (fst req) in
      if Option.bind (be_accounts env) (\<lambda>t. get_account_info t user) \<noteq> None \<and> length user \<ge> user_len_max
      then s\<lparr>bx_status := Undefined\<rparr>
      else if login_ok (be_md5 env) (be_accounts env) user (snd req)
      then s\<lparr>bx_clients := (bx_clients s)(fd \<mapsto> user), bx_answers := bx_answers s @ [(fd, True)],
             bx_status := (if home_len env user < path_max then bx_status s else Undefined)\<rparr>
      else s\<lparr>bx_answers := bx_answers s @ [(fd, False)]\<rparr>)"

definition box_logout :: "nat \<Rightarrow> box_state \<Rightarrow> box_state" where
  "box_logout fd s =
     s\<lparr>bx_clients := (bx_clients s)(fd := None), bx_watched := filter (\<lambda>f. f \<noteq> fd) (bx_watched s)\<rparr>"

text \<open>The chunks of a file are received until one is not full; a longer one than the buffer overruns it.\<close>

definition chunk_overruns :: "nat list \<Rightarrow> bool" where
  "chunk_overruns lens = (case dropWhile (\<lambda>n. n = chunk_max) lens of [] \<Rightarrow> False | n # _ \<Rightarrow> n > chunk_max)"

fun file_overruns :: "op_file \<Rightarrow> bool" where
  "file_overruns NoFile = False"
| "file_overruns (WritesFile opens lens) = (\<not> opens \<or> chunk_overruns lens)"
| "file_overruns (MakesLink n) = (n > chunk_max)"

text \<open>
  Whether an operation leaves its buffers: its structure, the stack, or \<open>filepath\<close>, which holds the home
  directory, a slash and the path. Paths are read when the structure came whole.
\<close>

definition op_overruns :: "'h box_env \<Rightarrow> nat \<Rightarrow> string \<Rightarrow> op_body \<Rightarrow> bool" where
  "op_overruns env n user b \<longleftrightarrow>
     home_len env user + 1 \<ge> path_max \<or> ob_got b > op_room n \<or>
     ob_got b = ob_announced b \<and>
       (\<not> ob_fits b \<or> (\<exists>p \<in> set (ob_paths b). home_len env user + 1 + length (c_str p) \<ge> path_max) \<or>
        n = 1 \<and> file_overruns (ob_file b))"

text \<open>
  \<open>handle_request\<close>, up to the count. After \<open>login\<close>, whatever its answer, the home directory of the connection's
  client is opened and read, and the client counted. The operations on files (1, 3 and 5) begin
  with the home directory too; of others only the header is read.
\<close>

fun box_handle :: "'h box_env \<Rightarrow> nat \<Rightarrow> 'h box_request \<Rightarrow> box_state \<Rightarrow> box_state" where
  "box_handle env fd BadMagic s = s\<lparr>bx_status := (if be_pooled env then Deaf else Exited)\<rparr>"
| "box_handle env fd (Login got req opens) s =
     (if got > login_room then s\<lparr>bx_status := Undefined\<rparr>
      else
        let s1 = (case req of None \<Rightarrow> s | Some r \<Rightarrow> box_login env fd r s) in
        if bx_status s1 = Undefined \<or> bx_clients s1 fd = None \<or> \<not> opens then s1\<lparr>bx_status := Undefined\<rparr>
        else s1\<lparr>bx_busy := Some CountsIn\<rparr>)"
| "box_handle env fd (Operation n b) s =
     (if n \<in> {1, 3, 5} then
        (case bx_clients s fd of
           None \<Rightarrow> s\<lparr>bx_status := Undefined\<rparr>
         | Some user \<Rightarrow> if op_overruns env n user b then s\<lparr>bx_status := Undefined\<rparr> else s\<lparr>bx_busy := Some Operates\<rparr>)
      else s)"
| "box_handle env fd HangUp s = s\<lparr>bx_num := bx_num s - 1, bx_busy := Some (LogsOut fd)\<rparr>"

text \<open>The rest of the request: the login is counted, the hang-up logged out.\<close>

definition box_ends :: "request_end \<Rightarrow> under_way \<Rightarrow> box_state \<Rightarrow> box_state" where
  "box_ends r u s =
     (let s1 = s\<lparr>bx_busy := None\<rparr> in
      case r of
        BrokenPipe \<Rightarrow> (case u of LogsOut fd \<Rightarrow> s | _ \<Rightarrow> s1\<lparr>bx_status := Exited\<rparr>)
      | LeavesTables \<Rightarrow> (if u = CountsIn then s1\<lparr>bx_status := Undefined\<rparr> else s)
      | Finishes \<Rightarrow>
          (case u of CountsIn \<Rightarrow> s1\<lparr>bx_num := bx_num s + 1\<rparr> | LogsOut fd \<Rightarrow> box_logout fd s1 | Operates \<Rightarrow> s1))"

text \<open>\<open>sig_usr\<close> writes the number in network order.\<close>

definition sig_usr :: "box_state \<Rightarrow> box_state" where
  "sig_usr s = s\<lparr>bx_written := bx_written s @ [be32_bytes (uint (bx_num s))]\<rparr>"

definition fd_setsize :: nat where
  "fd_setsize = 1024"

text \<open>
  The loop. Descriptors below 4 are watched but never looked at, and one that does not fit an \<open>fd_set\<close>
  overruns it; only three errors of \<open>accept\<close> are survived. While a request is under way the loop waits for
  it. A signal reaches any thread at any time.
\<close>

definition idle :: "box_state \<Rightarrow> bool" where
  "idle s \<longleftrightarrow> bx_status s = Serving \<and> bx_busy s = None"

fun box_step :: "'h box_env \<Rightarrow> 'h box_event \<Rightarrow> box_state \<Rightarrow> box_state" where
  "box_step env (Accepted fd) s =
     (if idle s \<and> fd \<notin> set (bx_watched s)
      then (if fd < fd_setsize then s\<lparr>bx_watched := bx_watched s @ [fd]\<rparr> else s\<lparr>bx_status := Undefined\<rparr>) else s)"
| "box_step env (AcceptFails e) s =
     (if idle s \<and> e = OtherErrno then s\<lparr>bx_status := Exited\<rparr> else s)"
| "box_step env (Readable fd q) s =
     (if idle s \<and> fd \<in> set (bx_watched s) \<and> 4 \<le> fd then box_handle env fd q s else s)"
| "box_step env (Ends r) s =
     (case bx_busy s of None \<Rightarrow> s | Some u \<Rightarrow> if bx_status s = Serving then box_ends r u s else s)"
| "box_step env Usr1 s =
     (if bx_status s = Serving \<or> bx_status s = Deaf then sig_usr s else s)"
| "box_step env Terminate s =
     (if bx_status s = Serving \<or> bx_status s = Deaf then s\<lparr>bx_status := Exited\<rparr> else s)"

text \<open>
  Whatever happens, a client is a watched connection, none is watched twice, and a hang-up under way is one
  of a watched connection.
\<close>

definition box_inv :: "box_state \<Rightarrow> bool" where
  "box_inv s \<longleftrightarrow> dom (bx_clients s) \<subseteq> set (bx_watched s) \<and> distinct (bx_watched s)"

lemma box_login_inv: "box_inv s \<Longrightarrow> fd \<in> set (bx_watched s) \<Longrightarrow> box_inv (box_login env fd r s)"
  by (auto simp: box_inv_def box_login_def Let_def)

lemma box_login_watched [simp]: "bx_watched (box_login env fd r s) = bx_watched s"
  by (simp add: box_login_def Let_def)

lemma box_handle_inv:
  assumes "box_inv s" "fd \<in> set (bx_watched s)"
  shows "box_inv (box_handle env fd q s)"
proof (cases q)
  case (Login got req opens)
  have "box_inv (case req of None \<Rightarrow> s | Some r \<Rightarrow> box_login env fd r s)"
    using assms box_login_inv by (auto split: option.splits)
  then show ?thesis using assms(1) by (simp add: Login Let_def box_inv_def)
qed (use assms in \<open>auto simp: box_inv_def split: option.splits\<close>)

lemma box_ends_inv: "box_inv s \<Longrightarrow> box_inv (box_ends r u s)"
  by (auto simp: box_inv_def box_ends_def box_logout_def Let_def split: request_end.split under_way.split)

lemma box_step_inv: "box_inv s \<Longrightarrow> box_inv (box_step env e s)"
proof (cases e)
  case (Readable fd q)
  then show "box_inv s \<Longrightarrow> ?thesis" using box_handle_inv by fastforce
next
  case (Ends r)
  then show "box_inv s \<Longrightarrow> ?thesis" using box_ends_inv by (auto split: option.split)
qed (auto simp: box_inv_def sig_usr_def)

interpretation box_machine: invariant_machine "box_step env" box_inv
  by unfold_locales (rule box_step_inv)

lemma box_start_inv: "box_inv box_start"
  by (simp add: box_inv_def box_start_def)

section \<open>The counter\<close>

text \<open>
  An event as the server expects it: a connection that logs in once, with its password, before
  anything else, keeps to the sizes of the server's buffers, and ends only after that.
\<close>

fun polite_event :: "'h box_env \<Rightarrow> 'h box_event \<Rightarrow> box_state \<Rightarrow> bool" where
  "polite_event env (Accepted fd) s = (4 \<le> fd \<and> fd < fd_setsize)"
| "polite_event env (AcceptFails e) s = (e \<noteq> OtherErrno)"
| "polite_event env (Readable fd (Login got (Some (user, h)) opens)) s =
     (bx_clients s fd = None \<and> got \<le> login_room \<and> login_ok (be_md5 env) (be_accounts env) user h \<and>
      length (c_str user) < user_len_max \<and> home_len env (c_str user) < path_max \<and> opens)"
| "polite_event env (Readable fd (Operation n b)) s =
     (case bx_clients s fd of None \<Rightarrow> False | Some user \<Rightarrow> \<not> op_overruns env n user b)"
| "polite_event env (Readable fd HangUp) s = (bx_clients s fd \<noteq> None)"
| "polite_event env (Ends r) s = (r = Finishes)"
| "polite_event env Usr1 s = True"
| "polite_event env _ s = False"

fun polite :: "'h box_env \<Rightarrow> 'h box_event list \<Rightarrow> box_state \<Rightarrow> bool" where
  "polite env [] s = True"
| "polite env (e # es) s = (polite_event env e s \<and> polite env es (box_step env e s))"

text \<open>The client of a login or a hang-up under way is entered and not in the count.\<close>

definition uncounted :: "box_state \<Rightarrow> nat" where
  "uncounted s = (case bx_busy s of Some CountsIn \<Rightarrow> 1 | Some (LogsOut fd) \<Rightarrow> 1 | _ \<Rightarrow> 0)"

definition busy_ok :: "box_state \<Rightarrow> bool" where
  "busy_ok s \<longleftrightarrow>
     (case bx_busy s of Some CountsIn \<Rightarrow> bx_clients s \<noteq> (\<lambda>_. None) | Some (LogsOut fd) \<Rightarrow> bx_clients s fd \<noteq> None | _ \<Rightarrow> True)"

definition counted :: "box_state \<Rightarrow> bool" where
  "counted s \<longleftrightarrow> box_inv s \<and> bx_status s = Serving \<and> busy_ok s \<and>
     bx_num s + of_nat (uncounted s) = of_nat (card (dom (bx_clients s)))"

lemma c_str_c_str [simp]: "c_str (c_str s) = c_str s"
  unfolding c_str_def by (metis set_takeWhileD takeWhile_eq_all_conv)

lemma login_ok_c_str [simp]: "login_ok md5 accounts (c_str user) h = login_ok md5 accounts user h"
  by (simp add: login_ok_def split: option.splits)

lemma polite_login:
  assumes "bx_status s = Serving" "got \<le> login_room" "login_ok (be_md5 env) (be_accounts env) user h"
    and "length (c_str user) < user_len_max" "home_len env (c_str user) < path_max"
  shows "box_handle env fd (Login got (Some (user, h)) True) s =
    s\<lparr>bx_clients := (bx_clients s)(fd \<mapsto> c_str user), bx_busy := Some CountsIn, bx_answers := bx_answers s @ [(fd, True)]\<rparr>"
  using assms by (simp add: box_login_def)

lemma dom_fun_upd_none: "dom (m(k := None)) = dom m - {k}"
  by auto

lemma counted_finite: "counted s \<Longrightarrow> finite (dom (bx_clients s))"
  by (auto simp: counted_def box_inv_def intro: finite_subset)

lemma counted_ends:
  assumes "counted s" "bx_busy s = Some u"
  shows "counted (box_ends Finishes u s)"
proof -
  have inv: "box_inv (box_ends Finishes u s)" using assms(1) box_ends_inv by (simp add: counted_def)
  show ?thesis
  proof (cases u)
    case (LogsOut fd)
    then have "fd \<in> dom (bx_clients s)" using assms by (auto simp: counted_def busy_ok_def)
    then have "card (dom (bx_clients s)) = Suc (card (dom (bx_clients s) - {fd}))"
      using card_Suc_Diff1[OF counted_finite[OF assms(1)], of fd] by simp
    then show ?thesis
      using assms inv LogsOut
      by (simp add: counted_def box_ends_def box_logout_def dom_fun_upd_none uncounted_def busy_ok_def add.commute)
  qed (use assms inv in \<open>simp_all add: counted_def box_ends_def uncounted_def busy_ok_def Let_def\<close>)
qed

lemma counted_handle:
  assumes "counted s" "bx_busy s = None" "polite_event env (Readable fd q) s" "fd \<in> set (bx_watched s)"
  shows "counted (box_handle env fd q s)"
proof -
  have inv: "box_inv (box_handle env fd q s)" using assms(1,4) by (intro box_handle_inv) (simp_all add: counted_def)
  have s: "bx_status s = Serving" "bx_num s = of_nat (card (dom (bx_clients s)))"
    using assms(1,2) by (simp_all add: counted_def uncounted_def)
  show ?thesis
  proof (cases q)
    case (Login got req opens)
    then obtain user h where p: "req = Some (user, h)" "bx_clients s fd = None" "got \<le> login_room" "opens"
      "login_ok (be_md5 env) (be_accounts env) user h" "length (c_str user) < user_len_max" "home_len env (c_str user) < path_max"
      using assms(3) by (cases req) auto
    have "card (insert fd (dom (bx_clients s))) = Suc (card (dom (bx_clients s)))"
      using counted_finite[OF assms(1)] p(2) by (simp add: domIff)
    then show ?thesis
      using s inv p(1,4) unfolding Login p(1) counted_def
      by (simp add: polite_login[OF s(1) p(3,5,6,7)] uncounted_def busy_ok_def add.commute del: box_handle.simps)
  next
    case (Operation n b)
    then show ?thesis
      using s inv assms(2,3) by (auto simp: counted_def uncounted_def busy_ok_def split: option.splits)
  next
    case HangUp
    then show ?thesis
      using s inv assms(3) by (simp add: counted_def uncounted_def busy_ok_def)
  qed (use assms(3) in simp)
qed

lemma counted_step:
  assumes "counted s" "polite_event env e s"
  shows "counted (box_step env e s)"
proof (cases e)
  case (Accepted fd)
  then show ?thesis
    using assms box_step_inv[of s env e]
    by (auto simp: counted_def uncounted_def busy_ok_def split: option.splits under_way.splits)
next
  case (AcceptFails e)
  then show ?thesis using assms by auto
next
  case (Readable fd q)
  then show ?thesis using assms counted_handle[OF assms(1)] by (auto simp: idle_def)
next
  case (Ends r)
  then show ?thesis using assms counted_ends[OF assms(1)] by (auto split: option.split)
next
  case Usr1
  then show ?thesis
    using assms box_step_inv[of s env e]
    by (auto simp: counted_def uncounted_def busy_ok_def sig_usr_def split: option.splits under_way.splits)
qed (use assms in simp_all)

lemma counted_run: "counted s \<Longrightarrow> polite env es s \<Longrightarrow> counted (run_events (box_step env) es s)"
  by (induction es arbitrary: s) (auto simp: counted_step)

lemma to_signed32_uint: "to_signed32 (uint (w :: 32 word)) = sint w"
proof -
  have u: "0 \<le> uint w" "uint w < 2 ^ 32"
    using uint_range_size[of w] by (simp_all add: word_size)
  have "sint w = take_bit 32 (uint w) - 2 ^ 32 * of_bool (bit (uint w) 31)"
    by (simp add: sint_uint signed_take_bit_eq_take_bit_minus)
  moreover have "take_bit 32 (uint w) = uint w"
    using u by (simp add: take_bit_int_eq_self)
  moreover have "bit (uint w) 31 \<longleftrightarrow> 2 ^ 31 \<le> uint w"
  proof (cases "2 ^ 31 \<le> uint w")
    case True
    then have "uint w div 2 ^ 31 = 1" using u by (intro int_div_pos_eq[of _ _ _ "uint w - 2 ^ 31"]) simp_all
    then show ?thesis using True by (simp add: bit_iff_odd)
  next
    case False
    then show ?thesis using u by (simp add: bit_iff_odd)
  qed
  ultimately show ?thesis by (simp add: to_signed32_def)
qed

text \<open>What the web tool makes of the four bytes is the counter, its sign included.\<close>

lemma sig_usr_reply:
  "replies (run_events (api_step buf0) (FifoOpened (ReadBytes (last (bx_written (sig_usr s)))) # es) api_wait) =
   [Success (sint (bx_num s))]"
proof -
  let ?bs = "be32_bytes (uint (bx_num s))"
  have "length ?bs = 4" by (simp add: be32_bytes_def)
  moreover have "uint (bx_num s) mod 2 ^ 32 = uint (bx_num s)"
    using uint_range_size[of "bx_num s"] by (simp add: word_size)
  ultimately have "read_int32_be ?bs = Some (sint (bx_num s))"
    by (simp only: read_int32_be_def be32_val_bytes to_signed32_uint) simp
  moreover have "length ?bs = 4" by (simp add: be32_bytes_def)
  ultimately have "fifo_reply buf0 (ReadBytes ?bs) = Success (sint (bx_num s))"
    by (simp add: fifo_reply_def Let_def read_int32_be_def be32_val_def)
  then show ?thesis
    by (simp add: sig_usr_def api_done_stays api_wait_def)
qed

lemma uncounted_le: "counted s \<Longrightarrow> uncounted s \<le> card (dom (bx_clients s))"
proof -
  assume c: "counted s"
  have "uncounted s = 0 \<or> uncounted s = 1 \<and> dom (bx_clients s) \<noteq> {}"
    using c by (auto simp: counted_def busy_ok_def uncounted_def split: option.splits under_way.splits)
  then show ?thesis using counted_finite[OF c] by (auto simp: Suc_le_eq card_gt_0_iff)
qed

lemma client_count_reply:
  assumes "polite env es box_start"
    and "s = run_events (box_step env) es box_start"
    and "card (dom (bx_clients s)) < 2 ^ 31"
  shows "replies (run_events (api_step buf0)
           (FifoOpened (ReadBytes (last (bx_written (box_step env Usr1 s)))) # fs) api_wait) =
         [Success (int (card (dom (bx_clients s)) - uncounted s))]"
proof -
  have "counted box_start"
    by (simp add: counted_def box_start_inv) (simp add: box_start_def uncounted_def busy_ok_def)
  then have c: "counted s" using counted_run[OF _ assms(1)] by (simp add: assms(2))
  let ?n = "card (dom (bx_clients s)) - uncounted s"
  have "bx_num s = of_nat (card (dom (bx_clients s))) - of_nat (uncounted s)"
    using c by (simp add: counted_def algebra_simps)
  then have s: "bx_status s = Serving" "bx_num s = of_nat ?n"
    using c uncounted_le[OF c] by (simp_all add: counted_def of_nat_diff)
  have "sint (of_nat ?n :: 32 word) = int ?n"
    using assms(3) by (simp add: to_signed32_uint[symmetric] to_signed32_def unsigned_of_nat take_bit_nat_eq_self)
  then show ?thesis
    using s sig_usr_reply[of buf0 s fs] by simp
qed


definition demo_body :: op_body where
  "demo_body = \<lparr>ob_announced = 164, ob_got = 164, ob_paths = [''notes''], ob_fits = True, ob_file = WritesFile True [12]\<rparr>"

definition two_clients :: "string box_event list" where
  "two_clients =
     [Accepted 4, Readable 4 (Login 48 (Some (''user'', ''123'')) True), Ends Finishes, Accepted 5,
      Readable 4 (Operation 1 demo_body), Ends Finishes,
      Readable 5 (Login 48 (Some (''laba'', ''456'')) True), Usr1, Ends Finishes]"

definition demo_env :: "string box_env" where
  "demo_env = \<lparr>be_md5 = id, be_accounts = Some ''user,123\<newline>laba,456\<newline>'', be_path = ''../sdir'', be_pooled = True\<rparr>"

lemma demo_logins:
  "login_ok (be_md5 demo_env) (be_accounts demo_env) ''user'' ''123''"
  "login_ok (be_md5 demo_env) (be_accounts demo_env) ''laba'' ''456''"
  by code_simp+

lemmas demo_box_defs = two_clients_def box_start_def box_login_def Let_def user_len_max_def c_str_def idle_def
  login_room_def home_len_def path_max_def fd_setsize_def op_overruns_def op_room_def demo_body_def
  chunk_overruns_def chunk_max_def box_ends_def sig_usr_def

lemma demo_env_path [simp]: "be_path demo_env = ''../sdir''"
  by (simp add: demo_env_def)

lemma two_clients_polite: "polite demo_env two_clients box_start"
  using demo_logins by (simp add: demo_box_defs)

lemma two_clients_logged_in:
  "bx_clients (run_events (box_step demo_env) two_clients box_start) = [4 \<mapsto> ''user'', 5 \<mapsto> ''laba'']"
  "bx_busy (run_events (box_step demo_env) two_clients box_start) = None"
  "bx_status (run_events (box_step demo_env) two_clients box_start) = Serving"
  "4 \<in> set (bx_watched (run_events (box_step demo_env) two_clients box_start))"
  using demo_logins by (simp_all add: demo_box_defs)


text \<open>
  A signal in the middle of the second login finds one client in the number: the second is entered and not
  yet counted.
\<close>

lemma login_under_way_is_not_counted:
  "let s = run_events (box_step demo_env) (take 7 two_clients) box_start
   in card (dom (bx_clients s)) = 2 \<and> bx_num s = 1 \<and> uncounted s = 1"
proof -
  have "bx_clients (run_events (box_step demo_env) (take 7 two_clients) box_start) = [4 \<mapsto> ''user'', 5 \<mapsto> ''laba'']"
    "bx_num (run_events (box_step demo_env) (take 7 two_clients) box_start) = 1"
    "bx_busy (run_events (box_step demo_env) (take 7 two_clients) box_start) = Some CountsIn"
    using demo_logins by (simp_all add: demo_box_defs)
  then show ?thesis by (simp add: uncounted_def)
qed

text \<open>A connection that ends without a login is taken off the number all the same: the page says \<open>-1\<close>.\<close>

lemma visitor_makes_count_negative:
  "replies (run_events (api_step buf0) (FifoOpened (ReadBytes (last (bx_written (box_step env Usr1
      (run_events (box_step env) [Accepted 4, Readable 4 HangUp, Ends Finishes] box_start))))) # fs) api_wait) =
   [Success (- 1)]"
  using sig_usr_reply[of buf0 "box_start\<lparr>bx_num := - 1\<rparr>" fs]
  by (simp add: box_start_def box_logout_def sig_usr_def idle_def fd_setsize_def box_ends_def)

section \<open>Who becomes a client\<close>

text \<open>
  Over every sequence of events, of polite clients or not, the client of a connection is an account
  for which that connection has sent the digest of its password.
\<close>

lemma box_login_clients:
  "bx_clients (box_login env fd r s) f = Some u \<Longrightarrow>
   bx_clients s f = Some u \<or> f = fd \<and> u = c_str (fst r) \<and> login_ok (be_md5 env) (be_accounts env) (fst r) (snd r)"
  by (auto simp: box_login_def Let_def split: if_splits)

lemma box_ends_clients: "bx_clients (box_ends r w s) f = Some u \<Longrightarrow> bx_clients s f = Some u"
  by (auto simp: box_ends_def box_logout_def Let_def split: request_end.splits under_way.splits if_splits)

lemma box_step_clients:
  assumes "bx_clients (box_step env e s) f = Some u"
  shows "bx_clients s f = Some u \<or>
    (\<exists>got user h opens. e = Readable f (Login got (Some (user, h)) opens) \<and> u = c_str user \<and>
       login_ok (be_md5 env) (be_accounts env) user h)"
proof (cases e)
  case (Readable fd q)
  show ?thesis
  proof (cases q)
    case (Login got req opens)
    then show ?thesis
      using assms Readable box_login_clients[of env fd _ s f u]
      by (cases req) (fastforce simp: Let_def split: if_splits)+
  qed (use assms Readable in \<open>auto split: if_splits option.splits\<close>)
next
  case (Ends r)
  then show ?thesis using assms box_ends_clients[of r _ s f u] by (auto split: option.splits if_splits)
qed (use assms in \<open>auto simp: sig_usr_def split: if_splits\<close>)

theorem clients_sent_their_password:
  assumes "bx_clients (run_events (box_step env) es box_start) fd = Some u"
  shows "\<exists>got user h opens. Readable fd (Login got (Some (user, h)) opens) \<in> set es \<and> c_str user = u \<and>
           login_ok (be_md5 env) (be_accounts env) user h"
  using assms
proof (induction es rule: rev_induct)
  case Nil
  then show ?case by (simp add: box_start_def)
next
  case (snoc e es)
  then show ?case
    using box_step_clients[of env e "run_events (box_step env) es box_start" fd u]
    by (auto simp: run_events_append)
qed

theorem clients_sent_their_password_witness:
  "\<exists>got user h opens. Readable 5 (Login got (Some (user, h)) opens) \<in> set two_clients \<and> c_str user = ''laba'' \<and>
     login_ok (be_md5 demo_env) (be_accounts demo_env) user h"
  by (rule clients_sent_their_password) (simp add: two_clients_logged_in)

section \<open>How the server stops serving\<close>

text \<open>
  A first login with a wrong name or password is answered and then takes the server down: the home
  directory of a client that is not there is read.
\<close>

lemma failed_login_kills_server:
  assumes "idle s" "fd \<in> set (bx_watched s)" "4 \<le> fd" "bx_clients s fd = None" "got \<le> login_room"
    and "\<not> login_ok (be_md5 env) (be_accounts env) user h"
    and "Option.bind (be_accounts env) (\<lambda>t. get_account_info t (c_str user)) = None \<or> length (c_str user) < user_len_max"
  shows "box_step env (Readable fd (Login got (Some (user, h)) opens)) s =
    s\<lparr>bx_status := Undefined, bx_answers := bx_answers s @ [(fd, False)]\<rparr>"
  using assms by (auto simp: box_login_def Let_def)

text \<open>
  Every client that is logged in can take it down: with a body longer than the structure it is received into,
  or with a path that does not fit.
\<close>

lemma long_body_kills_server:
  assumes "idle s" "fd \<in> set (bx_watched s)" "4 \<le> fd" "bx_clients s fd = Some user" "n \<in> {1, 3, 5}" "ob_got b > op_room n"
  shows "box_step env (Readable fd (Operation n b)) s = s\<lparr>bx_status := Undefined\<rparr>"
  using assms by (auto simp: op_overruns_def)

text \<open>
  One byte that is not the magic number ends the main thread. With a pool the process stays and
  answers signals, but no connection is ever served again and the number never changes.
\<close>

lemma deaf_box_step:
  assumes "bx_status s \<in> {Deaf, Exited, Undefined}"
  shows "bx_status (box_step env e s) \<in> {Deaf, Exited, Undefined} \<and>
    bx_clients (box_step env e s) = bx_clients s \<and>
    bx_num (box_step env e s) = bx_num s \<and>
    bx_answers (box_step env e s) = bx_answers s"
  using assms by (cases e) (auto simp: sig_usr_def idle_def split: option.split)

theorem wrong_magic_silences_server:
  assumes "idle s" "fd \<in> set (bx_watched s)" "4 \<le> fd" "be_pooled env"
    and "t = run_events (box_step env) (Readable fd BadMagic # es) s" "Terminate \<notin> set es"
  shows "bx_status t = Deaf \<and> bx_answers t = bx_answers s \<and> bx_clients t = bx_clients s \<and>
    bx_num (box_step env Usr1 t) = bx_num s \<and>
    bx_written (box_step env Usr1 t) = bx_written t @ [be32_bytes (uint (bx_num s))]"
proof -
  have "bx_status u = Deaf \<longrightarrow>
      bx_status (run_events (box_step env) es u) = Deaf \<and>
      bx_answers (run_events (box_step env) es u) = bx_answers u \<and>
      bx_clients (run_events (box_step env) es u) = bx_clients u \<and>
      bx_num (run_events (box_step env) es u) = bx_num u" for u
    using assms(6)
  proof (induction es arbitrary: u)
    case (Cons e es)
    then show ?case by (cases e) (auto simp: sig_usr_def idle_def split: option.split)
  qed simp
  from this[of "s\<lparr>bx_status := Deaf\<rparr>"] show ?thesis
    using assms(1-5) by (simp add: sig_usr_def)
qed

theorem wrong_magic_silences_server_witness:
  "bx_status (run_events (box_step demo_env)
     [Readable 4 BadMagic, Accepted 6, Readable 5 HangUp, Usr1]
     (run_events (box_step demo_env) two_clients box_start)) = Deaf"
proof -
  have "idle (run_events (box_step demo_env) two_clients box_start)" "be_pooled demo_env"
    by (simp_all add: idle_def two_clients_logged_in) (simp add: demo_env_def)
  then show ?thesis
    using wrong_magic_silences_server[OF _ _ _ _ refl, of _ 4 demo_env "[Accepted 6, Readable 5 HangUp, Usr1]"] two_clients_logged_in(4)
    by simp
qed

text \<open>A client that logs in again is counted again.\<close>

lemma second_login_counts_twice:
  assumes "idle s" "fd \<in> set (bx_watched s)" "4 \<le> fd" "bx_clients s fd = Some u" "got \<le> login_room"
    and "login_ok (be_md5 env) (be_accounts env) user h" "length (c_str user) < user_len_max" "home_len env (c_str user) < path_max"
  defines "t \<equiv> run_events (box_step env) [Readable fd (Login got (Some (user, h)) True), Ends Finishes] s"
  shows "bx_num t = bx_num s + 1 \<and> dom (bx_clients t) = dom (bx_clients s)"
  using assms(1-4) polite_login[OF _ assms(5-8), of s fd]
  by (auto simp: t_def idle_def box_ends_def simp del: box_handle.simps)

end
