(* ===== verification/Thread_Pool.thy ===== *)
theory Thread_Pool
  imports JS_Prelude
begin

text \<open>
  \<open>thread_pool.c\<close>, the pool of worker threads the file-box server makes. The fields of the pool are
  only touched under its lock, so a step is one critical section of one thread, and the scheduler
  picks the thread: the machine is a relation. The ring buffer of tasks is a bounded queue, whose
  laws are a locale.
\<close>

section \<open>The pool\<close>

datatype shutdown = Open | Immediate | Graceful

record 'a pool =
  tp_queue :: "'a list"
  tp_head :: nat
  tp_tail :: nat
  tp_count :: nat
  tp_shutdown :: shutdown
  tp_started :: nat
  tp_threads :: nat

definition max_threads :: int where
  "max_threads = 64"

definition max_queue :: int where
  "max_queue = 65536"

text \<open>
  \<open>mem\<close>: memory and the lock are there; \<open>made\<close>: how many threads can be made; \<open>fresh\<close>: what the
  unwritten slots hold. When a thread cannot be made the pool is destroyed again.
\<close>

definition threadpool_create :: "bool \<Rightarrow> nat \<Rightarrow> (nat \<Rightarrow> 'a) \<Rightarrow> int \<Rightarrow> int \<Rightarrow> 'a pool option" where
  "threadpool_create mem made fresh thread_count queue_size =
     (if thread_count \<le> 0 \<or> thread_count > max_threads \<or> queue_size \<le> 0 \<or> queue_size > max_queue then None
      else if \<not> mem \<or> made < nat thread_count then None
      else Some \<lparr>tp_queue = map fresh [0..<nat queue_size], tp_head = 0, tp_tail = 0, tp_count = 0,
                 tp_shutdown = Open, tp_started = nat thread_count, tp_threads = nat thread_count\<rparr>)"

definition threadpool_invalid :: int where "threadpool_invalid = -1"
definition threadpool_queue_full :: int where "threadpool_queue_full = -3"
definition threadpool_shutdown :: int where "threadpool_shutdown = -4"

definition threadpool_add :: "'a option \<Rightarrow> 'a pool \<Rightarrow> int \<times> 'a pool" where
  "threadpool_add task p =
     (case task of
        None \<Rightarrow> (threadpool_invalid, p)
      | Some x \<Rightarrow>
          if tp_count p = length (tp_queue p) then (threadpool_queue_full, p)
          else if tp_shutdown p \<noteq> Open then (threadpool_shutdown, p)
          else (0, p\<lparr>tp_queue := (tp_queue p)[tp_tail p := x],
                     tp_tail := (tp_tail p + 1) mod length (tp_queue p), tp_count := tp_count p + 1\<rparr>))"

text \<open>One turn of a worker that has the lock: the wait loop, the end or the next task.\<close>

datatype 'a turn = Sleeps | Ends | Takes 'a

definition worker_turn :: "'a pool \<Rightarrow> 'a turn \<times> 'a pool" where
  "worker_turn p =
     (if tp_count p = 0 \<and> tp_shutdown p = Open then (Sleeps, p)
      else if tp_shutdown p = Immediate \<or> tp_shutdown p = Graceful \<and> tp_count p = 0
      then (Ends, p\<lparr>tp_started := tp_started p - 1\<rparr>)
      else (Takes (tp_queue p ! tp_head p),
            p\<lparr>tp_head := (tp_head p + 1) mod length (tp_queue p), tp_count := tp_count p - 1\<rparr>))"

definition begin_shutdown :: "bool \<Rightarrow> 'a pool \<Rightarrow> 'a pool" where
  "begin_shutdown graceful p = p\<lparr>tp_shutdown := (if graceful then Graceful else Immediate)\<rparr>"

definition threadpool_free :: "'a pool \<Rightarrow> int" where
  "threadpool_free p = (if tp_started p > 0 then -1 else 0)"

section \<open>The ring as a bounded queue\<close>

locale bounded_queue =
  fixes items :: "'q \<Rightarrow> 'a list"
    and ok :: "'q \<Rightarrow> bool"
    and room :: "'q \<Rightarrow> bool"
    and put :: "'a \<Rightarrow> 'q \<Rightarrow> 'q"
    and front :: "'q \<Rightarrow> 'a"
    and drop_front :: "'q \<Rightarrow> 'q"
  assumes put_ok: "ok q \<Longrightarrow> room q \<Longrightarrow> ok (put x q)"
    and put_items: "ok q \<Longrightarrow> room q \<Longrightarrow> items (put x q) = items q @ [x]"
    and drop_ok: "ok q \<Longrightarrow> items q \<noteq> [] \<Longrightarrow> ok (drop_front q)"
    and front_items: "ok q \<Longrightarrow> items q \<noteq> [] \<Longrightarrow> items q = front q # items (drop_front q)"
begin

lemma put_conserves: "ok q \<Longrightarrow> room q \<Longrightarrow> gone @ items q = all \<Longrightarrow> gone @ items (put x q) = all @ [x]"
  by (simp add: put_items)

lemma drop_conserves:
  "ok q \<Longrightarrow> items q \<noteq> [] \<Longrightarrow> gone @ items q = all \<Longrightarrow> (gone @ [front q]) @ items (drop_front q) = all"
  using front_items[of q] by simp

end

definition queued :: "'a pool \<Rightarrow> 'a list" where
  "queued p = map (\<lambda>i. tp_queue p ! ((tp_head p + i) mod length (tp_queue p))) [0..<tp_count p]"

definition ring_ok :: "'a pool \<Rightarrow> bool" where
  "ring_ok p \<longleftrightarrow>
     tp_head p < length (tp_queue p) \<and> tp_count p \<le> length (tp_queue p) \<and>
     tp_tail p = (tp_head p + tp_count p) mod length (tp_queue p)"

definition ring_room :: "'a pool \<Rightarrow> bool" where
  "ring_room p \<longleftrightarrow> tp_count p \<noteq> length (tp_queue p) \<and> tp_shutdown p = Open"

definition ring_put :: "'a \<Rightarrow> 'a pool \<Rightarrow> 'a pool" where
  "ring_put x p = snd (threadpool_add (Some x) p)"

definition ring_drop :: "'a pool \<Rightarrow> 'a pool" where
  "ring_drop p = p\<lparr>tp_head := (tp_head p + 1) mod length (tp_queue p), tp_count := tp_count p - 1\<rparr>"

lemma mod_wrap: "h < n \<Longrightarrow> i \<le> n \<Longrightarrow> (h + i) mod n = (if h + i < n then h + i else h + i - n)" for n :: nat
  by (auto simp: mod_if)

lemma mod_add_inj: "h < n \<Longrightarrow> i < n \<Longrightarrow> j < n \<Longrightarrow> (h + i) mod n = (h + j) mod n \<Longrightarrow> i = j" for n :: nat
  by (auto simp: mod_wrap split: if_splits)

lemma queued_Nil [simp]: "queued p = [] \<longleftrightarrow> tp_count p = 0"
  by (simp add: queued_def)

lemma length_queued [simp]: "length (queued p) = tp_count p"
  by (simp add: queued_def)

lemma ring_put_simps:
  assumes "ring_room p"
  shows "tp_queue (ring_put x p) = (tp_queue p)[tp_tail p := x]" "tp_head (ring_put x p) = tp_head p"
    "tp_tail (ring_put x p) = (tp_tail p + 1) mod length (tp_queue p)" "tp_count (ring_put x p) = tp_count p + 1"
  using assms by (simp_all add: ring_put_def threadpool_add_def ring_room_def)

interpretation ring: bounded_queue queued ring_ok ring_room ring_put "\<lambda>p. tp_queue p ! tp_head p" ring_drop
proof unfold_locales
  fix p :: "'a pool" and x
  assume ok: "ring_ok p" and room: "ring_room p"
  let ?n = "length (tp_queue p)"
  have lt: "tp_count p < ?n" using ok room by (simp add: ring_ok_def ring_room_def)
  show "ring_ok (ring_put x p)"
    using ok lt by (simp add: ring_ok_def ring_put_simps[OF room] mod_Suc_eq)
  have "(tp_queue p)[tp_tail p := x] ! ((tp_head p + i) mod ?n) = tp_queue p ! ((tp_head p + i) mod ?n)"
    if "i < tp_count p" for i
  proof -
    have "(tp_head p + i) mod ?n \<noteq> tp_tail p"
      using that lt ok mod_add_inj[of "tp_head p" ?n i "tp_count p"] by (auto simp: ring_ok_def)
    then show ?thesis by simp
  qed
  moreover have "tp_tail p < ?n" using ok lt mod_less_divisor[of ?n] by (metis gr_zeroI not_less_zero ring_ok_def)
  ultimately show "queued (ring_put x p) = queued p @ [x]"
    using ok by (simp add: queued_def ring_put_simps[OF room] ring_ok_def)
next
  fix p :: "'a pool"
  assume ok: "ring_ok p" and ne: "queued p \<noteq> []"
  let ?n = "length (tp_queue p)"
  have shift: "((tp_head p + 1) mod ?n + i) mod ?n = (tp_head p + Suc i) mod ?n" for i
    by (simp add: mod_add_left_eq)
  obtain c where c: "tp_count p = Suc c" using ne by (cases "tp_count p") auto
  have "(tp_head p + 1) mod ?n < ?n"
    using ok mod_less_divisor[of ?n] by (metis gr_zeroI not_less_zero ring_ok_def)
  then show "ring_ok (ring_drop p)"
    using ok c shift[of c] by (simp add: ring_ok_def ring_drop_def)
  have "[0..<Suc c] = 0 # map Suc [0..<c]"
    by (simp add: map_Suc_upt upt_conv_Cons del: upt_Suc)
  then show "queued p = tp_queue p ! tp_head p # queued (ring_drop p)"
    using ok c shift by (simp add: queued_def ring_drop_def ring_ok_def del: upt_Suc)
qed

section \<open>The machine\<close>

text \<open>
  A worker is about to take the lock (at the top of its loop or woken in it), asleep on the
  condition, at work on a task outside the lock, or gone. \<open>ps_held\<close>: the lock is held for good.
  \<open>ps_accepted\<close> and \<open>ps_taken\<close> list the tasks as they were added and as work on them began.
\<close>

datatype 'a worker = Ready | Asleep | Working 'a | Gone

datatype destroyer = Nobody | Joining | Freed

record 'a pool_state =
  ps_pool :: "'a pool"
  ps_workers :: "'a worker list"
  ps_destroyer :: destroyer
  ps_held :: bool
  ps_accepted :: "'a list"
  ps_taken :: "'a list"

definition pool_start :: "'a pool \<Rightarrow> 'a pool_state" where
  "pool_start p = \<lparr>ps_pool = p, ps_workers = replicate (tp_threads p) Ready, ps_destroyer = Nobody,
                   ps_held = False, ps_accepted = [], ps_taken = []\<rparr>"

definition take_turn :: "nat \<Rightarrow> 'a pool_state \<Rightarrow> 'a pool_state" where
  "take_turn i s =
     (case worker_turn (ps_pool s) of
        (Sleeps, p) \<Rightarrow> s\<lparr>ps_pool := p, ps_workers := (ps_workers s)[i := Asleep]\<rparr>
      | (Ends, p) \<Rightarrow> s\<lparr>ps_pool := p, ps_workers := (ps_workers s)[i := Gone]\<rparr>
      | (Takes x, p) \<Rightarrow> s\<lparr>ps_pool := p, ps_workers := (ps_workers s)[i := Working x], ps_taken := ps_taken s @ [x]\<rparr>)"

definition wake :: "nat \<Rightarrow> 'a pool_state \<Rightarrow> 'a pool_state" where
  "wake j s = s\<lparr>ps_workers := (ps_workers s)[j := Ready]\<rparr>"

definition wake_all :: "'a pool_state \<Rightarrow> 'a pool_state" where
  "wake_all s = s\<lparr>ps_workers := map (\<lambda>w. case w of Asleep \<Rightarrow> Ready | _ \<Rightarrow> w) (ps_workers s)\<rparr>"

definition add_task :: "'a \<Rightarrow> 'a pool_state \<Rightarrow> 'a pool_state" where
  "add_task x s =
     (let (err, p) = threadpool_add (Some x) (ps_pool s)
      in s\<lparr>ps_pool := p, ps_accepted := (if err = 0 then ps_accepted s @ [x] else ps_accepted s)\<rparr>)"

text \<open>
  One critical section, one wake-up or one end of a task. A signal wakes a sleeper if there is one;
  sleepers may wake by themselves. A second \<open>threadpool_destroy\<close> leaves the loop with the lock.
\<close>

inductive pool_step :: "'a pool_state \<Rightarrow> 'a pool_state \<Rightarrow> bool" where
  turn: "i < length (ps_workers s) \<Longrightarrow> ps_workers s ! i = Ready \<Longrightarrow> \<not> ps_held s \<Longrightarrow> pool_step s (take_turn i s)"
| spurious: "i < length (ps_workers s) \<Longrightarrow> ps_workers s ! i = Asleep \<Longrightarrow> pool_step s (wake i s)"
| task_done: "i < length (ps_workers s) \<Longrightarrow> ps_workers s ! i = Working x \<Longrightarrow> pool_step s (wake i s)"
| add_signal: "\<not> ps_held s \<Longrightarrow> ps_destroyer s \<noteq> Freed \<Longrightarrow> fst (threadpool_add (Some x) (ps_pool s)) = 0 \<Longrightarrow>
     i < length (ps_workers s) \<Longrightarrow> ps_workers s ! i = Asleep \<Longrightarrow> pool_step s (wake i (add_task x s))"
| add_quiet: "\<not> ps_held s \<Longrightarrow> ps_destroyer s \<noteq> Freed \<Longrightarrow>
     fst (threadpool_add (Some x) (ps_pool s)) \<noteq> 0 \<or> Asleep \<notin> set (ps_workers s) \<Longrightarrow> pool_step s (add_task x s)"
| destroy: "\<not> ps_held s \<Longrightarrow> tp_shutdown (ps_pool s) = Open \<Longrightarrow>
     pool_step s (wake_all (s\<lparr>ps_pool := begin_shutdown graceful (ps_pool s), ps_destroyer := Joining\<rparr>))"
| destroy_again: "\<not> ps_held s \<Longrightarrow> ps_destroyer s = Joining \<Longrightarrow> pool_step s (s\<lparr>ps_held := True\<rparr>)"
| joined: "ps_destroyer s = Joining \<Longrightarrow> set (ps_workers s) \<subseteq> {Gone} \<Longrightarrow> \<not> ps_held s \<Longrightarrow>
     threadpool_free (ps_pool s) = 0 \<Longrightarrow> pool_step s (s\<lparr>ps_destroyer := Freed\<rparr>)"

inductive pool_reachable :: "'a pool \<Rightarrow> 'a pool_state \<Rightarrow> bool" for p where
  start: "pool_reachable p (pool_start p)"
| step: "pool_reachable p s \<Longrightarrow> pool_step s t \<Longrightarrow> pool_reachable p t"
lemmas pool_machine_defs = take_turn_def worker_turn_def wake_def wake_all_def add_task_def begin_shutdown_def

section \<open>Tasks\<close>

text \<open>Tasks are begun in the order they were accepted, each at most once.\<close>

definition data_inv :: "'a pool_state \<Rightarrow> bool" where
  "data_inv s \<longleftrightarrow> ring_ok (ps_pool s) \<and> ps_taken s @ queued (ps_pool s) = ps_accepted s"

lemma queued_cong [simp]:
  "queued (p\<lparr>tp_shutdown := sd\<rparr>) = queued p" "queued (p\<lparr>tp_started := n\<rparr>) = queued p"
  "ring_ok (p\<lparr>tp_shutdown := sd\<rparr>) = ring_ok p" "ring_ok (p\<lparr>tp_started := n\<rparr>) = ring_ok p"
  by (simp_all add: queued_def ring_ok_def)

lemma threadpool_add_ok: "fst (threadpool_add (Some x) p) = 0 \<longleftrightarrow> ring_room p"
  by (auto simp: threadpool_add_def ring_room_def threadpool_queue_full_def threadpool_shutdown_def)

lemma threadpool_add_refused: "\<not> ring_room p \<Longrightarrow> snd (threadpool_add (Some x) p) = p"
  by (auto simp: threadpool_add_def ring_room_def)

lemma add_task_eq:
  "add_task x s = (if ring_room (ps_pool s)
     then s\<lparr>ps_pool := ring_put x (ps_pool s), ps_accepted := ps_accepted s @ [x]\<rparr> else s)"
  using threadpool_add_ok[of x "ps_pool s"] threadpool_add_refused[of "ps_pool s" x]
  by (auto simp: add_task_def ring_put_def split_beta)

lemma worker_turn_takes:
  "worker_turn p = (Takes x, q) \<Longrightarrow> tp_count p \<noteq> 0 \<and> tp_shutdown p \<noteq> Immediate \<and> x = tp_queue p ! tp_head p \<and> q = ring_drop p"
  by (cases "tp_shutdown p") (auto simp: worker_turn_def ring_drop_def split: if_splits)

lemma data_inv_add: "data_inv s \<Longrightarrow> data_inv (add_task x s)"
  using ring.put_ok[of "ps_pool s" x] ring.put_conserves[of "ps_pool s" "ps_taken s" "ps_accepted s" x]
  by (simp add: data_inv_def add_task_eq)

lemma data_inv_turn: "data_inv s \<Longrightarrow> data_inv (take_turn i s)"
proof (cases "worker_turn (ps_pool s)")
  case (Pair t p)
  assume s: "data_inv s"
  show ?thesis
  proof (cases t)
    case (Takes x)
    with Pair worker_turn_takes[of "ps_pool s" x p] have "tp_count (ps_pool s) \<noteq> 0"
      "x = tp_queue (ps_pool s) ! tp_head (ps_pool s)" "p = ring_drop (ps_pool s)"
      by simp_all
    then show ?thesis
      using s Pair Takes ring.drop_ok[of "ps_pool s"] ring.drop_conserves[of "ps_pool s" "ps_taken s" "ps_accepted s"]
      by (simp add: data_inv_def take_turn_def)
  qed (use s Pair in \<open>auto simp: data_inv_def take_turn_def worker_turn_def split: if_splits\<close>)
qed

lemma data_inv_wake [simp]: "data_inv (wake i s) = data_inv s"
  by (simp add: data_inv_def wake_def)

lemma data_inv_step: "pool_step s t \<Longrightarrow> data_inv s \<Longrightarrow> data_inv t"
  by (induction rule: pool_step.induct)
    (auto simp: data_inv_turn data_inv_add, auto simp: data_inv_def wake_all_def begin_shutdown_def)

section \<open>Workers\<close>

definition tally :: "('w \<Rightarrow> bool) \<Rightarrow> 'w list \<Rightarrow> nat" where
  "tally P ws = length (filter P ws)"

lemma tally_update:
  "i < length ws \<Longrightarrow> tally P (ws[i := w]) + of_bool (P (ws ! i)) = tally P ws + of_bool (P w)"
proof (induction ws arbitrary: i)
  case (Cons v ws)
  then show ?case by (cases i) (auto simp: tally_def)
qed simp

lemma tally_pos: "i < length ws \<Longrightarrow> P (ws ! i) \<Longrightarrow> 0 < tally P ws"
  by (auto simp: tally_def filter_empty_conv)

text \<open>
  The number of threads is right; workers end only in a shutdown, and in a graceful one only when
  no task is left; in a shutdown nobody sleeps. While somebody sleeps, there is for each waiting
  task a worker that is awake and not yet at work: no wake-up is lost.
\<close>

definition worker_inv :: "'a pool_state \<Rightarrow> bool" where
  "worker_inv s \<longleftrightarrow>
     tp_started (ps_pool s) = tally (\<lambda>w. w \<noteq> Gone) (ps_workers s) \<and>
     (tp_shutdown (ps_pool s) = Open \<longleftrightarrow> ps_destroyer s = Nobody) \<and>
     (tp_shutdown (ps_pool s) \<noteq> Open \<longrightarrow> Asleep \<notin> set (ps_workers s)) \<and>
     (Gone \<in> set (ps_workers s) \<longrightarrow>
        tp_shutdown (ps_pool s) = Immediate \<or> tp_shutdown (ps_pool s) = Graceful \<and> tp_count (ps_pool s) = 0) \<and>
     (Asleep \<in> set (ps_workers s) \<longrightarrow> tp_count (ps_pool s) \<le> tally (\<lambda>w. w = Ready) (ps_workers s)) \<and>
     (ps_destroyer s = Freed \<longrightarrow> set (ps_workers s) \<subseteq> {Gone})"

lemma set_update_other: "w \<noteq> v \<Longrightarrow> w \<in> set (ws[i := v]) \<Longrightarrow> w \<in> set ws"
  using set_update_subset_insert[of ws i v] by auto

lemma worker_inv_wake:
  assumes "worker_inv s" "i < length (ps_workers s)" "ps_workers s ! i \<noteq> Gone" "ps_workers s ! i \<noteq> Ready"
  shows "worker_inv (wake i s)"
proof -
  have "tally (\<lambda>w. w \<noteq> Gone) ((ps_workers s)[i := Ready]) = tally (\<lambda>w. w \<noteq> Gone) (ps_workers s)"
    "tally (\<lambda>w. w = Ready) ((ps_workers s)[i := Ready]) = Suc (tally (\<lambda>w. w = Ready) (ps_workers s))"
    using tally_update[OF assms(2), of "\<lambda>w. w \<noteq> Gone" Ready] tally_update[OF assms(2), of "\<lambda>w. w = Ready" Ready] assms
    by simp_all
  moreover have "ps_destroyer s \<noteq> Freed"
    using assms(1,3) subsetD[OF _ nth_mem[OF assms(2)], of "{Gone}"] unfolding worker_inv_def by blast
  ultimately show ?thesis
    using assms(1) set_update_other[of Gone Ready "ps_workers s" i] set_update_other[of Asleep Ready "ps_workers s" i]
    by (auto simp: worker_inv_def wake_def)
qed

lemma tp_simps [simp]:
  "tp_shutdown (ring_put x p) = tp_shutdown p" "tp_started (ring_put x p) = tp_started p"
  "tp_shutdown (ring_drop p) = tp_shutdown p" "tp_started (ring_drop p) = tp_started p"
  "tp_count (ring_drop p) = tp_count p - 1"
  by (auto simp: ring_put_def threadpool_add_def ring_drop_def)

lemma worker_inv_turn:
  assumes inv: "worker_inv s" and i: "i < length (ps_workers s)" "ps_workers s ! i = Ready"
  shows "worker_inv (take_turn i s)"
proof -
  let ?p = "ps_pool s" and ?ws = "ps_workers s"
  have alive: "tally (\<lambda>w. w \<noteq> Gone) (?ws[i := w]) + 1 = tally (\<lambda>w. w \<noteq> Gone) ?ws + of_bool (w \<noteq> Gone)"
    and ready: "w \<noteq> Ready \<Longrightarrow> tally (\<lambda>w. w = Ready) (?ws[i := w]) + 1 = tally (\<lambda>w. w = Ready) ?ws" for w
    using tally_update[OF i(1), of "\<lambda>w. w \<noteq> Gone" w] tally_update[OF i(1), of "\<lambda>w. w = Ready" w] i(2) by simp_all
  have notfreed: "ps_destroyer s \<noteq> Freed"
    using inv i subsetD[OF _ nth_mem[OF i(1)], of "{Gone}"] unfolding worker_inv_def by auto
  show ?thesis
  proof (cases "worker_turn ?p")
    case (Pair t q)
    show ?thesis
    proof (cases t)
      case Sleeps
      then have "tp_count ?p = 0" "tp_shutdown ?p = Open" "q = ?p"
        using Pair by (auto simp: worker_turn_def split: if_splits)
      then show ?thesis
        using inv Pair Sleeps alive[of Asleep] set_update_other[of Gone Asleep ?ws i] notfreed
        by (auto simp: worker_inv_def take_turn_def)
    next
      case Ends
      then have e: "tp_shutdown ?p = Immediate \<or> tp_shutdown ?p = Graceful \<and> tp_count ?p = 0"
        "q = ?p\<lparr>tp_started := tp_started ?p - 1\<rparr>"
        using Pair by (auto simp: worker_turn_def split: if_splits)
      then show ?thesis
        using inv Pair Ends alive[of Gone] set_update_other[of Asleep Gone ?ws i] notfreed
        by (auto simp: worker_inv_def take_turn_def)
    next
      case (Takes x)
      then have e: "tp_count ?p \<noteq> 0" "tp_shutdown ?p \<noteq> Immediate" "q = ring_drop ?p"
        using Pair worker_turn_takes[of ?p x q] by simp_all
      then show ?thesis
        using inv Pair Takes alive[of "Working x"] ready[of "Working x"] notfreed
          set_update_other[of Asleep "Working x" ?ws i] set_update_other[of Gone "Working x" ?ws i]
        by (auto simp: worker_inv_def take_turn_def)
    qed
  qed
qed

text \<open>A task is added: a sleeper is woken for it, or there is none.\<close>

lemma worker_inv_add_signal:
  assumes inv: "worker_inv s" and room: "ring_room (ps_pool s)"
    and i: "i < length (ps_workers s)" "ps_workers s ! i = Asleep"
  shows "worker_inv (wake i (add_task x s))"
proof -
  let ?ws = "ps_workers s"
  have "tally (\<lambda>w. w \<noteq> Gone) (?ws[i := Ready]) = tally (\<lambda>w. w \<noteq> Gone) ?ws"
    "tally (\<lambda>w. w = Ready) (?ws[i := Ready]) = Suc (tally (\<lambda>w. w = Ready) ?ws)"
    using tally_update[OF i(1), of "\<lambda>w. w \<noteq> Gone" Ready] tally_update[OF i(1), of "\<lambda>w. w = Ready" Ready] i(2)
    by simp_all
  moreover have "tp_shutdown (ps_pool s) = Open" using room by (simp add: ring_room_def)
  moreover have "Asleep \<in> set ?ws" using i by (metis nth_mem)
  ultimately show ?thesis
    using inv room set_update_other[of Gone Ready ?ws i]
    by (auto simp: worker_inv_def wake_def add_task_eq ring_put_simps)
qed

lemma worker_inv_add_quiet:
  assumes "worker_inv s" "\<not> ring_room (ps_pool s) \<or> Asleep \<notin> set (ps_workers s)"
  shows "worker_inv (add_task x s)"
  using assms by (auto simp: worker_inv_def add_task_eq ring_room_def)

lemma worker_inv_destroy:
  assumes "worker_inv s" "tp_shutdown (ps_pool s) = Open"
  shows "worker_inv (wake_all (s\<lparr>ps_pool := begin_shutdown graceful (ps_pool s), ps_destroyer := Joining\<rparr>))"
proof -
  have "tally (\<lambda>w. w \<noteq> Gone) (map (\<lambda>w. case w of Asleep \<Rightarrow> Ready | _ \<Rightarrow> w) ws) = tally (\<lambda>w. w \<noteq> Gone) ws" for ws :: "'a worker list"
    by (induction ws) (auto simp: tally_def split: worker.splits)
  then show ?thesis
    using assms by (auto simp: worker_inv_def wake_all_def begin_shutdown_def split: worker.splits)
qed

lemma worker_inv_step: "pool_step s t \<Longrightarrow> worker_inv s \<Longrightarrow> worker_inv t"
proof (induction rule: pool_step.induct)
  case (add_quiet s x)
  then show ?case using worker_inv_add_quiet[of s x] by (simp add: threadpool_add_ok)
next
  case (joined s)
  then show ?case by (auto simp: worker_inv_def)
qed (auto simp: worker_inv_turn worker_inv_wake worker_inv_add_signal threadpool_add_ok worker_inv_destroy,
     auto simp: worker_inv_def)

section \<open>What holds of every pool\<close>

lemma created_pool:
  assumes "threadpool_create mem made fresh n m = Some p"
  shows "ring_ok p \<and> queued p = [] \<and> tp_shutdown p = Open \<and> tp_started p = tp_threads p \<and> 0 < tp_threads p"
  using assms by (auto simp: threadpool_create_def ring_ok_def split: if_splits)

lemma length_workers_step: "pool_step s t \<Longrightarrow> length (ps_workers t) = length (ps_workers s)"
  by (induction rule: pool_step.induct)
    (auto simp: take_turn_def wake_def add_task_eq wake_all_def split: prod.splits turn.splits)

lemma reachable_inv:
  assumes "threadpool_create mem made fresh n m = Some p" "pool_reachable p s"
  shows "data_inv s \<and> worker_inv s \<and> length (ps_workers s) = tp_threads p"
  using assms(2)
proof (induction rule: pool_reachable.induct)
  case start
  have "tally (\<lambda>w. w \<noteq> Gone) (replicate k (Ready :: 'a worker)) = k" for k
    by (simp add: tally_def)
  then show ?case
    using created_pool[OF assms(1)] by (simp add: data_inv_def worker_inv_def pool_start_def)
next
  case (step s t)
  then show ?case using data_inv_step worker_inv_step length_workers_step by metis
qed

text \<open>
  C23. Whatever the scheduler does, the tasks that were begun are the first of those accepted, in order
  and each once; the others are waiting. When a graceful shutdown has freed the pool all were begun.
\<close>

theorem tasks_begin_once_in_order:
  assumes "threadpool_create mem made fresh n m = Some p" "pool_reachable p s"
  shows "ps_taken s @ queued (ps_pool s) = ps_accepted s \<and>
    (ps_destroyer s = Freed \<and> tp_shutdown (ps_pool s) = Graceful \<longrightarrow> ps_taken s = ps_accepted s)"
proof -
  have inv: "data_inv s" "worker_inv s" "length (ps_workers s) = tp_threads p"
    using reachable_inv[OF assms] by simp_all
  then have "ps_workers s \<noteq> []" using created_pool[OF assms(1)] by auto
  then have "Gone \<in> set (ps_workers s)" if "ps_destroyer s = Freed"
    using inv(2) that by (cases "ps_workers s") (auto simp: worker_inv_def)
  then have "queued (ps_pool s) = []" if "ps_destroyer s = Freed" "tp_shutdown (ps_pool s) = Graceful"
    using inv(2) that by (auto simp: worker_inv_def)
  then show ?thesis using inv(1) unfolding data_inv_def by (metis append_Nil2)
qed

text \<open>
  C39. A worker that sleeps leaves no task alone: for every waiting task another worker is awake and has
  not begun one. The memory is freed only after the last worker has left the lock.
\<close>

theorem no_wakeup_is_lost:
  assumes "threadpool_create mem made fresh n m = Some p" "pool_reachable p s"
  shows "(Asleep \<in> set (ps_workers s) \<longrightarrow> tp_count (ps_pool s) \<le> tally (\<lambda>w. w = Ready) (ps_workers s)) \<and>
    (ps_destroyer s = Freed \<longrightarrow> set (ps_workers s) \<subseteq> {Gone})"
  using reachable_inv[OF assms] by (simp add: worker_inv_def)

section \<open>Shutting down\<close>

fun weight :: "'a worker \<Rightarrow> nat" where
  "weight Gone = 0" | "weight Ready = 1" | "weight Asleep = 1" | "weight (Working x) = 2"

definition work_left :: "'a pool_state \<Rightarrow> nat" where
  "work_left s = 2 * tp_count (ps_pool s) + sum_list (map weight (ps_workers s))"

lemma sum_weight_update:
  "i < length ws \<Longrightarrow> sum_list (map weight (ws[i := w])) + weight (ws ! i) = sum_list (map weight ws) + weight w"
proof (induction ws arbitrary: i)
  case (Cons v ws)
  then show ?case by (cases i) auto
qed simp

definition joining :: "'a pool_state \<Rightarrow> bool" where
  "joining s \<longleftrightarrow> ps_destroyer s = Joining \<and> \<not> ps_held s"

text \<open>
  What the pool does by itself: a worker takes its turn, a task ends, the destroyer has joined all. Nobody
  adds a task or destroys the pool, and nobody who sleeps wakes up without a signal.
\<close>

inductive own_step :: "'a pool_state \<Rightarrow> 'a pool_state \<Rightarrow> bool" where
  own_turn: "i < length (ps_workers s) \<Longrightarrow> ps_workers s ! i = Ready \<Longrightarrow> \<not> ps_held s \<Longrightarrow> own_step s (take_turn i s)"
| own_done: "i < length (ps_workers s) \<Longrightarrow> ps_workers s ! i = Working x \<Longrightarrow> own_step s (wake i s)"
| own_joined: "ps_destroyer s = Joining \<Longrightarrow> set (ps_workers s) \<subseteq> {Gone} \<Longrightarrow> \<not> ps_held s \<Longrightarrow>
     threadpool_free (ps_pool s) = 0 \<Longrightarrow> own_step s (s\<lparr>ps_destroyer := Freed\<rparr>)"

inductive_cases own_stepE: "own_step s t"

lemma own_pool_step: "own_step s t \<Longrightarrow> pool_step s t"
  by (induction rule: own_step.induct) (auto intro: pool_step.intros)

text \<open>While the destroyer joins, every other step changes nothing, a second \<open>threadpool_destroy\<close> apart.\<close>

lemma joining_steps:
  assumes "pool_step s t" "worker_inv s" "joining s"
  shows "own_step s t \<or> t = s \<or> ps_held t"
  using assms
proof (induction rule: pool_step.induct)
  case (spurious i s)
  then have "Asleep \<in> set (ps_workers s)" by (metis nth_mem)
  then show ?case using spurious.prems by (auto simp: worker_inv_def joining_def)
next
  case (add_signal s x i)
  then have "ring_room (ps_pool s)" by (simp add: threadpool_add_ok)
  then show ?case using add_signal.prems by (auto simp: worker_inv_def joining_def ring_room_def)
next
  case (add_quiet s x)
  then have "\<not> ring_room (ps_pool s)" by (auto simp: worker_inv_def joining_def ring_room_def)
  then show ?case by (simp add: add_task_eq)
next
  case (destroy s graceful)
  then show ?case by (auto simp: worker_inv_def joining_def)
qed (auto intro: own_step.intros)

definition steps_left :: "'a pool_state \<Rightarrow> nat" where
  "steps_left s = work_left s + (if ps_destroyer s = Freed then 0 else 1)"

lemma turn_work:
  assumes "worker_inv s" "joining s" "i < length (ps_workers s)" "ps_workers s ! i = Ready"
  shows "work_left (take_turn i s) < work_left s \<and> joining (take_turn i s)"
proof -
  have down: "tp_shutdown (ps_pool s) \<noteq> Open" using assms(1,2) by (auto simp: worker_inv_def joining_def)
  obtain t q where t: "worker_turn (ps_pool s) = (t, q)" by fastforce
  show ?thesis
  proof (cases t)
    case Sleeps
    then show ?thesis using t down by (auto simp: worker_turn_def split: if_splits)
  next
    case Ends
    then have "q = (ps_pool s)\<lparr>tp_started := tp_started (ps_pool s) - 1\<rparr>"
      using t by (auto simp: worker_turn_def split: if_splits)
    then show ?thesis
      using t Ends assms(2,4) sum_weight_update[OF assms(3), of Gone]
      by (simp add: take_turn_def work_left_def joining_def)
  next
    case (Takes x)
    then show ?thesis
      using t worker_turn_takes[of "ps_pool s" x q] assms(2,4) sum_weight_update[OF assms(3), of "Working x"]
      by (cases "tp_count (ps_pool s)") (simp_all add: take_turn_def work_left_def joining_def)
  qed
qed

lemma done_work:
  assumes "joining s" "i < length (ps_workers s)" "ps_workers s ! i = Working x"
  shows "work_left (wake i s) < work_left s \<and> joining (wake i s)"
  using assms sum_weight_update[OF assms(2), of Ready] by (simp add: wake_def work_left_def joining_def)

lemma own_step_counts:
  assumes "own_step s t" "worker_inv s" "joining s"
  shows "steps_left t < steps_left s \<and> worker_inv t \<and> (joining t \<or> ps_destroyer t = Freed)"
proof -
  have "worker_inv t" using worker_inv_step own_pool_step assms(1,2) by blast
  moreover from assms have "steps_left t < steps_left s \<and> (joining t \<or> ps_destroyer t = Freed)"
  proof (induction rule: own_step.induct)
    case (own_turn i s)
    then show ?case using turn_work[of s i] by (simp add: steps_left_def joining_def)
  next
    case (own_done i s x)
    then show ?case using done_work[of s i x] by (simp add: steps_left_def joining_def)
  qed (simp add: steps_left_def work_left_def)
  ultimately show ?thesis by blast
qed

lemma freed_stops: "ps_destroyer s = Freed \<Longrightarrow> worker_inv s \<Longrightarrow> \<not> own_step s t"
  by (auto elim!: own_stepE simp: worker_inv_def dest!: nth_mem)

lemma own_run:
  assumes "(own_step ^^ k) s t" "worker_inv s" "joining s"
  shows "k + steps_left t \<le> steps_left s \<and> worker_inv t \<and> (joining t \<or> ps_destroyer t = Freed)"
  using assms(1)
proof (induction k arbitrary: t)
  case 0
  then show ?case using assms(2,3) by simp
next
  case (Suc k)
  then obtain u where u: "(own_step ^^ k) s u" "own_step u t" by auto
  then have "joining u" using Suc.IH[OF u(1)] freed_stops by blast
  then show ?case using Suc.IH[OF u(1)] own_step_counts[OF u(2)] by auto
qed

lemma joining_goes_on:
  assumes "worker_inv s" "joining s" shows "\<exists>t. own_step s t"
proof (cases "set (ps_workers s) \<subseteq> {Gone}")
  case True
  then have "tally (\<lambda>w. w \<noteq> Gone) (ps_workers s) = 0"
    by (auto simp: tally_def filter_empty_conv)
  then have "threadpool_free (ps_pool s) = 0"
    using assms(1) by (simp add: worker_inv_def threadpool_free_def)
  then show ?thesis
    using own_joined[of s] True assms(2) by (auto simp: joining_def)
next
  case False
  then obtain i where i: "i < length (ps_workers s)" "ps_workers s ! i \<noteq> Gone"
    by (metis in_set_conv_nth insertI1 subsetI)
  moreover have "Asleep \<notin> set (ps_workers s)" using assms by (auto simp: worker_inv_def joining_def)
  ultimately have "ps_workers s ! i = Ready \<or> (\<exists>x. ps_workers s ! i = Working x)"
    by (cases "ps_workers s ! i") (auto dest: nth_mem)
  then show ?thesis using i(1) assms(2) own_turn[of i s] own_done[of i s] by (auto simp: joining_def)
qed

text \<open>
  C22. Once \<open>threadpool_destroy\<close> has been called and as long as it is not called again, nothing in the pool
  waits for ever, whatever the scheduler does and without a sleeper that wakes up by itself: the pool
  makes at most as many steps of its own as \<open>steps_left\<close> counts (two for each waiting task, two for each worker
  on a task, one for each other worker that is not gone, one for the destroyer), and when it can make no
  more it is freed.
\<close>

theorem shutdown_finishes:
  assumes "threadpool_create mem made fresh n m = Some p" "pool_reachable p s"
    and "ps_destroyer s = Joining" "\<not> ps_held s" "(own_step ^^ k) s t"
  shows "k \<le> steps_left s \<and> ((\<exists>u. own_step t u) \<or> ps_destroyer t = Freed)"
proof -
  have "worker_inv s" "joining s" using reachable_inv[OF assms(1,2)] assms(3,4) by (simp_all add: joining_def)
  from own_run[OF assms(5) this] show ?thesis using joining_goes_on by auto
qed

text \<open>A second call leaves the lock taken, and then nothing ever frees the pool.\<close>

lemma second_destroy_hangs:
  assumes "pool_step\<^sup>*\<^sup>* s t" "ps_held s" "ps_destroyer s = Joining" "tp_shutdown (ps_pool s) \<noteq> Open"
  shows "ps_destroyer t = Joining \<and> ps_held t"
proof -
  have "ps_destroyer t = Joining \<and> ps_held t \<and> tp_shutdown (ps_pool t) \<noteq> Open"
    using assms
  proof (induction rule: rtranclp_induct)
    case (step t u)
    then show ?case
      by (auto elim!: pool_step.cases simp: wake_def)
  qed simp
  then show ?thesis by simp
qed

section \<open>A pool at work\<close>

definition demo_pool :: "nat pool" where
  "demo_pool = the (threadpool_create True 1 (\<lambda>_. 0) 1 2)"

lemma demo_created: "threadpool_create True 1 (\<lambda>_. 0) 1 2 = Some demo_pool"
  by (simp add: demo_pool_def threadpool_create_def max_threads_def max_queue_def)

definition demo_asleep :: "nat pool_state" where
  "demo_asleep = take_turn 0 (pool_start demo_pool)"

lemma demo_asleep_reachable: "pool_reachable demo_pool demo_asleep"
proof -
  have "pool_step (pool_start demo_pool) demo_asleep"
    unfolding demo_asleep_def by (rule pool_step.turn) (simp_all add: pool_start_def demo_pool_def threadpool_create_def max_threads_def max_queue_def)
  then show ?thesis using pool_reachable.start pool_reachable.step by blast
qed

lemma demo_asleep_workers: "ps_workers demo_asleep = [Asleep]" "tp_count (ps_pool demo_asleep) = 0"
  "tp_shutdown (ps_pool demo_asleep) = Open" "\<not> ps_held demo_asleep" "ps_destroyer demo_asleep = Nobody"
  "length (tp_queue (ps_pool demo_asleep)) = 2"
  by (simp_all add: demo_asleep_def take_turn_def worker_turn_def pool_start_def demo_pool_def
      threadpool_create_def max_threads_def max_queue_def)

definition demo_woken :: "nat pool_state" where
  "demo_woken = wake 0 (add_task 7 demo_asleep)"

lemma demo_woken_reachable: "pool_reachable demo_pool demo_woken"
proof -
  have "pool_step demo_asleep demo_woken"
    unfolding demo_woken_def using demo_asleep_workers
    by (intro pool_step.add_signal) (simp_all add: threadpool_add_def)
  then show ?thesis using demo_asleep_reachable pool_reachable.step by blast
qed

theorem tasks_begin_once_in_order_witness:
  "ps_taken demo_woken @ queued (ps_pool demo_woken) = ps_accepted demo_woken"
  using tasks_begin_once_in_order[OF demo_created demo_woken_reachable] by simp

theorem no_wakeup_is_lost_witness:
  "tp_count (ps_pool demo_asleep) \<le> tally (\<lambda>w. w = Ready) (ps_workers demo_asleep)"
  using no_wakeup_is_lost[OF demo_created demo_asleep_reachable] by (simp add: demo_asleep_workers)

definition demo_joining :: "nat pool_state" where
  "demo_joining = wake_all (demo_woken\<lparr>ps_pool := begin_shutdown True (ps_pool demo_woken), ps_destroyer := Joining\<rparr>)"

lemma demo_joining_reachable: "pool_reachable demo_pool demo_joining"
proof -
  have "pool_step demo_woken demo_joining"
    unfolding demo_joining_def using demo_asleep_workers
    by (intro pool_step.destroy) (simp_all add: demo_woken_def wake_def add_task_eq)
  then show ?thesis using demo_woken_reachable pool_reachable.step by blast
qed

theorem shutdown_finishes_witness:
  "(\<exists>u. own_step demo_joining u) \<or> ps_destroyer demo_joining = Freed"
proof -
  have "ps_destroyer demo_joining = Joining" "\<not> ps_held demo_joining"
    using demo_asleep_workers by (simp_all add: demo_joining_def demo_woken_def wake_all_def wake_def add_task_eq)
  moreover have "(own_step ^^ 0) demo_joining demo_joining" by simp
  ultimately show ?thesis using shutdown_finishes[OF demo_created demo_joining_reachable] by blast
qed

end
