(* ===== verification/Express_Response.thy ===== *)
theory Express_Response
  imports Static_Files Crc32 Web_Pages
begin

text \<open>
  The part of express's \<open>response.js\<close> the application uses: \<open>send\<close>, \<open>json\<close>, \<open>location\<close> and
  \<open>redirect\<close>, over the response of \<open>Connect_Utils\<close>, with the \<open>setHeader\<close> of connect's \<open>patch.js\<close>
  and the \<open>end\<close> that the session middleware puts in the way of the first end. It shows what becomes
  of a handler that sends twice. \<open>None\<close> is the exception for a header that is set too late. \<open>Set-Cookie\<close>, which may be
  repeated, is set by the session middleware alone, when the headers are rendered at the end.
\<close>

section \<open>State\<close>

text \<open>
  \<open>rp_hook\<close>: the session's \<open>end\<close> is in place; \<open>rp_saving\<close>: the bodies whose original \<open>end\<close> follows when the
  session is saved. \<open>rv_cookie\<close> is the cookie the session middleware sends with the headers, if any.
\<close>

record express_reply =
  rp_res :: http_res
  rp_charset :: "string option"
  rp_hook :: bool
  rp_saving :: "string option list"

record request_view =
  rv_method :: string
  rv_headers :: "string obj"
  rv_session :: bool
  rv_cookie :: "string option"
  rv_original_url :: string
  rv_app_path :: string

definition new_reply :: "bool \<Rightarrow> express_reply" where
  "new_reply hook = \<lparr>rp_res = fresh_res, rp_charset = None, rp_hook = hook, rp_saving = []\<rparr>"

definition res_get :: "string \<Rightarrow> express_reply \<Rightarrow> string option" where
  "res_get field s = map_of (hr_headers (rp_res s)) (to_lower field)"

definition res_set :: "string \<Rightarrow> string \<Rightarrow> express_reply \<Rightarrow> express_reply option" where
  "res_set field val s =
     (if hr_ended (rp_res s) then None
      else
        let v = (case rp_charset s of
                   Some c \<Rightarrow> if to_lower field = ''content-type'' then val @ ''; charset='' @ c else val
                 | None \<Rightarrow> val)
        in Some (s\<lparr>rp_res := set_header field v (rp_res s)\<rparr>))"

text \<open>\<open>end\<close>: the one of node does nothing a second time; the session's puts it back and saves first.\<close>

definition header_listener :: "request_view \<Rightarrow> http_res \<Rightarrow> http_res" where
  "header_listener rv res = (case rv_cookie rv of None \<Rightarrow> res | Some v \<Rightarrow> set_header ''Set-Cookie'' v res)"

definition node_end :: "request_view \<Rightarrow> string option \<Rightarrow> express_reply \<Rightarrow> express_reply" where
  "node_end rv body s =
     (if hr_ended (rp_res s) then s else s\<lparr>rp_res := end_with body (header_listener rv (rp_res s))\<rparr>)"

definition res_end :: "request_view \<Rightarrow> string option \<Rightarrow> express_reply \<Rightarrow> express_reply" where
  "res_end rv body s =
     (if \<not> rp_hook s then node_end rv body s
      else if \<not> rv_session rv then node_end rv body (s\<lparr>rp_hook := False\<rparr>)
      else s\<lparr>rp_hook := False, rp_saving := rp_saving s @ [body]\<rparr>)"

definition session_saved :: "request_view \<Rightarrow> express_reply \<Rightarrow> express_reply" where
  "session_saved rv s = (case rp_saving s of [] \<Rightarrow> s | b # bs \<Rightarrow> node_end rv b (s\<lparr>rp_saving := bs\<rparr>))"

section \<open>send\<close>

definition body_etag :: "string \<Rightarrow> string" where
  "body_etag body = [CHR 0x22] @ show_int (crc32_signed (utf8_bytes body) None) @ [CHR 0x22]"

definition default_type :: "(string \<Rightarrow> string) \<Rightarrow> string \<Rightarrow> express_reply \<Rightarrow> express_reply option" where
  "default_type mime ty s =
     (if res_get ''Content-Type'' s \<noteq> None then Some s
      else res_set ''Content-Type'' (mime ty)
        (s\<lparr>rp_charset := (case rp_charset s of None \<Rightarrow> Some ''utf-8'' | Some c \<Rightarrow> Some c)\<rparr>))"

definition req_fresh :: "(string \<Rightarrow> int option) \<Rightarrow> request_view \<Rightarrow> express_reply \<Rightarrow> bool" where
  "req_fresh date rv s =
     (let st = hr_status (rp_res s)
      in rv_method rv \<in> {''GET'', ''HEAD''} \<and> (200 \<le> st \<and> st < 300 \<or> st = 304) \<and>
         fresh date (rv_headers rv) (hr_headers (rp_res s)))"

definition strip_headers :: "express_reply \<Rightarrow> express_reply" where
  "strip_headers s =
     s\<lparr>rp_res := (rp_res s)\<lparr>hr_headers :=
        obj_del ''transfer-encoding'' (obj_del ''content-length'' (obj_del ''content-type'' (hr_headers (rp_res s))))\<rparr>\<rparr>"

definition res_send ::
  "(string \<Rightarrow> string) \<Rightarrow> (string \<Rightarrow> int option) \<Rightarrow> bool \<Rightarrow> request_view \<Rightarrow> string \<Rightarrow> express_reply \<Rightarrow> express_reply option" where
  "res_send mime date etags rv body s =
     (case default_type mime ''html'' s of
        None \<Rightarrow> None
      | Some s1 \<Rightarrow>
          let len = (if res_get ''Content-Length'' s1 = None then Some (byte_length body) else None) in
          case (case len of None \<Rightarrow> Some s1 | Some n \<Rightarrow> res_set ''Content-Length'' (show_nat n) s1) of
            None \<Rightarrow> None
          | Some s2 \<Rightarrow>
              let tag = (etags \<and> (case len of None \<Rightarrow> False | Some n \<Rightarrow> n > 1024) \<and> rv_method rv = ''GET'' \<and>
                         res_get ''ETag'' s2 = None) in
              case (if tag then res_set ''ETag'' (body_etag body) s2 else Some s2) of
                None \<Rightarrow> None
              | Some s3 \<Rightarrow>
                  let s4 = (if req_fresh date rv s3 then s3\<lparr>rp_res := (rp_res s3)\<lparr>hr_status := 304\<rparr>\<rparr> else s3);
                      gone = hr_status (rp_res s4) \<in> {204, 304}
                  in if gone \<and> hr_ended (rp_res s4) then None
                     else
                       let s5 = (if gone then strip_headers s4 else s4)
                       in Some (res_end rv (if rv_method rv = ''HEAD'' then None else Some (if gone then [] else body)) s5))"

text \<open>\<open>json\<close>, with the text of the object as an argument.\<close>

definition res_json ::
  "(string \<Rightarrow> string) \<Rightarrow> (string \<Rightarrow> int option) \<Rightarrow> bool \<Rightarrow> request_view \<Rightarrow> string \<Rightarrow> express_reply \<Rightarrow> express_reply option" where
  "res_json mime date etags rv text s =
     (let s1 = s\<lparr>rp_charset := (case rp_charset s of None \<Rightarrow> Some ''utf-8'' | Some c \<Rightarrow> Some c)\<rparr> in
      case (if res_get ''Content-Type'' s1 \<noteq> None then Some s1
            else res_set ''Content-Type'' ''application/json'' s1) of
        None \<Rightarrow> None
      | Some s2 \<Rightarrow> res_send mime date etags rv text s2)"

definition content_type :: "(string \<Rightarrow> string) \<Rightarrow> string \<Rightarrow> express_reply \<Rightarrow> express_reply option" where
  "content_type mime ty s = res_set ''Content-Type'' (if CHR ''/'' \<in> set ty then ty else mime ty) s"

section \<open>redirect\<close>

definition location_of :: "request_view \<Rightarrow> string \<Rightarrow> string" where
  "location_of rv url =
     (let referrer = (case map_of (rv_headers rv) ''referrer'' of
                        Some (c # cs) \<Rightarrow> c # cs
                      | _ \<Rightarrow> (case map_of (rv_headers rv) ''referer'' of Some (c # cs) \<Rightarrow> c # cs | _ \<Rightarrow> ''/''));
          u = (if url = ''back'' then referrer else url)
      in if find_sub ''://'' u = None \<and> \<not> starts_with ''//'' u then
           (if starts_with ''.'' u then
              let path = hd (split_on CHR ''?'' (rv_original_url rv))
              in path @ (if path \<noteq> [] \<and> last path = CHR ''/'' then [] else ''/'') @ u
            else if \<not> starts_with ''/'' u then rv_app_path rv @ ''/'' @ u
            else u)
         else u)"

definition express_escape :: "string \<Rightarrow> string" where
  "express_escape html =
     replace_char CHR ''>'' ''&gt;''
       (replace_char CHR ''<'' ''&lt;''
         (replace_char CHR 0x22 ''&quot;'' (replace_char CHR ''&'' ''&amp;'' html)))"

text \<open>What \<open>format\<close> picks from the request's \<open>Accept\<close>, which is an argument here.\<close>

datatype redirect_form = AsText | AsHtml | AsNothing

definition redirect_body :: "(string \<Rightarrow> string) \<Rightarrow> string \<Rightarrow> redirect_form \<Rightarrow> string \<Rightarrow> string" where
  "redirect_body enc phrase form url =
     (case form of
        AsText \<Rightarrow> phrase @ ''. Redirecting to '' @ enc url
      | AsHtml \<Rightarrow>
          ''<p>'' @ phrase @ ''. Redirecting to <a href='' @ dq (express_escape url) @ ''>'' @
          express_escape url @ ''</a></p>''
      | AsNothing \<Rightarrow> [])"

definition res_redirect ::
  "(string \<Rightarrow> string) \<Rightarrow> (string \<Rightarrow> string) \<Rightarrow> string \<Rightarrow> redirect_form \<Rightarrow> request_view \<Rightarrow> string \<Rightarrow> express_reply \<Rightarrow> express_reply option" where
  "res_redirect mime enc phrase form rv url s =
     (let loc = location_of rv url;
          body = redirect_body enc phrase form loc;
          vary = (case res_get ''Vary'' s of
                    Some (c # cs) \<Rightarrow> if ''Accept'' \<in> set (split_list (c # cs)) then c # cs else join_with '', '' (split_list (c # cs) @ [''Accept''])
                  | _ \<Rightarrow> ''Accept'')
      in Option.bind (res_set ''Location'' loc s) (\<lambda>s1.
         Option.bind (res_set ''Vary'' vary s1) (\<lambda>s2.
         Option.bind (case form of
                        AsText \<Rightarrow> res_set ''Content-Type'' (mime ''text'' @ ''; charset=UTF-8'') s2
                      | AsHtml \<Rightarrow> res_set ''Content-Type'' (mime ''html'' @ ''; charset=UTF-8'') s2
                      | AsNothing \<Rightarrow> Some s2) (\<lambda>s3.
         map_option (\<lambda>s4. res_end rv (if rv_method rv = ''HEAD'' then None else Some body)
                            (s4\<lparr>rp_res := (rp_res s4)\<lparr>hr_status := 302\<rparr>\<rparr>))
           (res_set ''Content-Length'' (show_nat (byte_length body)) s3)))))"

section \<open>Sending once and twice\<close>

lemma header_names [simp]:
  "to_lower ''Content-Type'' = ''content-type''" "to_lower ''Content-Length'' = ''content-length''"
  "to_lower ''ETag'' = ''etag''" "to_lower ''Set-Cookie'' = ''set-cookie''"
  by code_simp+

definition unconditional :: "request_view \<Rightarrow> bool" where
  "unconditional rv \<longleftrightarrow> map_of (rv_headers rv) ''if-none-match'' = None \<and> map_of (rv_headers rv) ''if-modified-since'' = None"

lemma unconditional_not_fresh: "unconditional rv \<Longrightarrow> \<not> req_fresh date rv s"
  by (auto simp: unconditional_def req_fresh_def fresh_def header_def Let_def)

definition page_headers :: "(string \<Rightarrow> string) \<Rightarrow> bool \<Rightarrow> request_view \<Rightarrow> string \<Rightarrow> string obj" where
  "page_headers mime etags rv body =
     [(''content-type'', mime ''html'' @ ''; charset=utf-8''), (''content-length'', show_nat (byte_length body))] @
     (if etags \<and> byte_length body > 1024 \<and> rv_method rv = ''GET'' then [(''etag'', body_etag body)] else [])"

definition cookie_header :: "request_view \<Rightarrow> string obj" where
  "cookie_header rv = (case rv_cookie rv of None \<Rightarrow> [] | Some v \<Rightarrow> [(''set-cookie'', v)])"

lemma rendered_page:
  "header_listener rv (fresh_res\<lparr>hr_headers := page_headers mime etags rv' b\<rparr>) =
   fresh_res\<lparr>hr_headers := page_headers mime etags rv' b @ cookie_header rv\<rparr>"
  by (cases "rv_cookie rv") (simp_all add: header_listener_def cookie_header_def set_header_def page_headers_def)

lemma res_send_first:
  assumes "unconditional rv" "rv_method rv \<noteq> ''HEAD''"
  shows "res_send mime date etags rv body (new_reply hook) =
    Some (res_end rv (Some body) \<lparr>rp_res = fresh_res\<lparr>hr_headers := page_headers mime etags rv body\<rparr>,
      rp_charset = Some ''utf-8'', rp_hook = hook, rp_saving = []\<rparr>)"
  using assms unconditional_not_fresh[OF assms(1)]
  by (simp add: res_send_def default_type_def res_get_def res_set_def new_reply_def fresh_res_def page_headers_def set_header_def)

text \<open>A later send keeps the type and the length that are there.\<close>

lemma res_send_again:
  assumes "unconditional rv" "rv_method rv \<noteq> ''HEAD''"
    and "res_get ''Content-Type'' s \<noteq> None" "res_get ''Content-Length'' s \<noteq> None" "hr_status (rp_res s) = 200"
  shows "res_send mime date etags rv body s = Some (res_end rv (Some body) s)"
  using assms unconditional_not_fresh[OF assms(1)]
  by (auto simp: res_send_def default_type_def)

text \<open>Sent once, a page goes out with its own length, at once or when the session is saved.\<close>

lemma send_once_goes_out:
  assumes "unconditional rv" "rv_method rv \<noteq> ''HEAD''"
  shows "\<exists>s. res_send mime date etags rv body (new_reply hook) = Some s \<and>
    rp_res (session_saved rv s) = end_with (Some body) (fresh_res\<lparr>hr_headers := page_headers mime etags rv body @ cookie_header rv\<rparr>)"
  using res_send_first[OF assms, of mime date etags body hook]
  by (auto simp: res_end_def node_end_def session_saved_def rendered_page) (simp_all add: fresh_res_def)

lemma send_twice:
  assumes "unconditional rv" "rv_method rv \<noteq> ''HEAD''" "rv_session rv"
  shows "\<exists>s1 s2. res_send mime date etags rv b1 (new_reply True) = Some s1 \<and>
    res_send mime date etags rv b2 s1 = Some s2 \<and>
    rp_res s2 = end_with (Some b2) (fresh_res\<lparr>hr_headers := page_headers mime etags rv b1 @ cookie_header rv\<rparr>) \<and>
    rp_res (session_saved rv s2) = rp_res s2"
proof -
  let ?s1 = "\<lparr>rp_res = fresh_res\<lparr>hr_headers := page_headers mime etags rv b1\<rparr>,
      rp_charset = Some ''utf-8'', rp_hook = False, rp_saving = [Some b1]\<rparr>"
  have s1: "res_send mime date etags rv b1 (new_reply True) = Some ?s1"
    using res_send_first[OF assms(1,2), of mime date etags b1 True] assms(3) by (simp add: res_end_def)
  have "res_send mime date etags rv b2 ?s1 = Some (res_end rv (Some b2) ?s1)"
    by (rule res_send_again[OF assms(1,2)]) (simp_all add: res_get_def page_headers_def fresh_res_def)
  then show ?thesis
    using s1 by (auto simp: res_end_def node_end_def session_saved_def rendered_page) (simp_all add: fresh_res_def end_with_def)
qed

text \<open>
  C8. A page sent twice before the session is saved, as the answer to a request that is not HEAD and has no
  conditions: the second body goes out under the headers of the first, its length in bytes and its tag
  among them, with the session's cookie; nothing is raised, and saving the session changes nothing any more.
\<close>

theorem second_page_under_first_headers:
  assumes "unconditional rv" "rv_method rv \<noteq> ''HEAD''" "rv_session rv"
  shows "\<exists>s1 s2. res_send mime date etags rv b1 (new_reply True) = Some s1 \<and>
    res_send mime date etags rv b2 s1 = Some s2 \<and>
    rp_res s2 = end_with (Some b2) (fresh_res\<lparr>hr_headers := page_headers mime etags rv b1 @ cookie_header rv\<rparr>) \<and>
    rp_res (session_saved rv s2) = rp_res s2"
  using assms by (rule send_twice)

definition demo_view :: request_view where
  "demo_view = \<lparr>rv_method = ''GET'', rv_headers = [], rv_session = True, rv_cookie = Some ''connect.sid=s%3Aa'', rv_original_url = ''/choose'', rv_app_path = []\<rparr>"

theorem second_page_under_first_headers_witness:
  "\<exists>s1 s2. res_send (\<lambda>_. ''text/html'') (\<lambda>_. None) True demo_view ''ab'' (new_reply True) = Some s1 \<and>
    res_send (\<lambda>_. ''text/html'') (\<lambda>_. None) True demo_view ''abcd'' s1 = Some s2 \<and>
    rp_res s2 = end_with (Some ''abcd'')
      (fresh_res\<lparr>hr_headers := page_headers (\<lambda>_. ''text/html'') True demo_view ''ab'' @ cookie_header demo_view\<rparr>) \<and>
    rp_res (session_saved demo_view s2) = rp_res s2"
  by (rule second_page_under_first_headers) (simp_all add: demo_view_def unconditional_def)

text \<open>So the mixed answer of the page without servers is what the two calls put on the wire.\<close>

lemma mixed_answer_is_sent:
  assumes "unconditional rv" "rv_method rv \<noteq> ''HEAD''" "rv_session rv"
    and "choose_body r = Some b1" "choose_body r' = Some b2"
  shows "\<exists>s1 s2 n. res_send mime date etags rv b1 (new_reply True) = Some s1 \<and>
    res_send mime date etags rv b2 s1 = Some s2 \<and> on_wire (MixedAnswer r r') = Some (n, b2) \<and>
    hr_body (rp_res s2) = Some b2 \<and> res_get ''Content-Length'' s2 = Some (show_nat n)"
  using send_twice[OF assms(1-3), of mime date etags b1 b2] assms(4,5)
  by (fastforce simp: end_with_def res_get_def page_headers_def)

text \<open>
  A reply of \<open>threads_active\<close> that comes after the first has gone out raises nothing and changes
  nothing: the type and the length are there, and \<open>end\<close> has been.
\<close>

lemma late_reply_is_ignored:
  assumes "rv_method rv = ''POST''" "hr_ended (rp_res s)" "\<not> rp_hook s" "hr_status (rp_res s) = 200"
    and "res_get ''Content-Type'' s \<noteq> None" "res_get ''Content-Length'' s \<noteq> None"
  shows "\<exists>s'. res_json mime date etags rv text s = Some s' \<and> rp_res s' = rp_res s \<and> rp_saving s' = rp_saving s"
proof -
  have "\<not> req_fresh date rv t" for t using assms(1) by (simp add: req_fresh_def)
  then show ?thesis
    using assms by (auto simp: res_json_def res_send_def default_type_def res_get_def res_end_def node_end_def)
qed

section \<open>Redirects of the application\<close>

text \<open>The application redirects to paths from the root, which stay as they are.\<close>

lemma location_absolute: "starts_with ''/'' url \<Longrightarrow> url \<noteq> ''back'' \<Longrightarrow> location_of rv url = url"
  by (cases url) (auto simp: location_of_def Let_def)

lemma express_escape_no_markup: "set (express_escape s) \<inter> {CHR ''<'', CHR ''>'', CHR 0x22} = {}"
  unfolding express_escape_def replace_char_def by (auto split: if_splits)

end
