(* ===== verification/Spec2Isabelle.thy ===== *)
theory Spec2Isabelle
  imports Web_Server Plugin_Registry Transitions Popover Cookies Connect_Dispatch Redis_Queue Redis_Stream Session_Middleware
    Carousel Collapse Modal Scroll_Widgets Tooltip Menus Express_Router Block_Growl Block_Legacy Panel_Size Port_Register Web_Pages
    Box_Server Thread_Pool File_Transfer Express_Response
begin

text \<open>
  A verification development for the web tool of SP2016 (\<open>src/MP5_tool-master/web\<close>).

  The program is an express application (\<open>app.js\<close>) that shows the state of a local file-box server:
  \<open>register.js\<close> asks a port register for a port, \<open>helper.js\<close> finds a server's configuration,
  \<open>controller.js\<close> renders the pages and remembers the chosen server in the session, \<open>api.js\<close> reads
  the thread counter of the server from a fifo. Requests go through connect's dispatcher
  (\<open>proto.js\<close>), the cookie parser, the session middleware with its memory store and express's
  router; the pages run the jQuery plugins of \<open>public/js/bootstrap.js\<close>. The packages under
  \<open>node_modules\<close> that carry the requests are part of the repository and are modelled from their source.

  Theories, in the order of the imports:

  \<^item> \<open>JS_Prelude\<close>, \<open>Node_Path\<close>, \<open>Node_Buffer\<close>, \<open>JS_Uri\<close>: what the source uses of the language and of
    node (split, join, indexOf, trim, parseInt, own properties of objects as association lists,
    \<open>path.normalize\<close>, big-endian reads, \<open>encodeURIComponent\<close> and \<open>decodeURIComponent\<close>), with the
    algebraic facts the components share.
  \<^item> \<open>Web_Helper\<close>, \<open>Web_Controller\<close>, \<open>Web_Api\<close>: \<open>helper.js\<close>, \<open>controller.js\<close>, \<open>api.js\<close> and
    \<open>register.js\<close>. A handler is a function from the request, the session and the results of the
    calls it makes (processes, files) to the list of its answers; \<open>threads_active\<close> is a machine over
    timer and file events, since its answers depend on their order.
  \<^item> \<open>Web_Pages\<close>: the two views. The text of the list of servers, with the escaping of \<open>ejs\<close>, and what
    a client receives when it is rendered twice; and the script of the front page, a chart that polls
    the thread counter, as a machine over replies and its timer.
  \<^item> \<open>Express_Response\<close>: \<open>send\<close>, \<open>json\<close>, \<open>location\<close> and \<open>redirect\<close> of \<open>response.js\<close> over the session's deferred
    \<open>end\<close>; it shows what is left of a handler that answers twice, which \<open>Web_Pages\<close> and \<open>Web_Api\<close> take
    for granted.
  \<^item> \<open>Cookies\<close>, \<open>Connect_Utils\<close>, \<open>Connect_Dispatch\<close>: \<open>cookie\<close>, \<open>cookie-signature\<close>, \<open>cookieParser.js\<close>,
    \<open>connect/lib/utils.js\<close>, \<open>proto.js\<close>. The dispatcher runs an arbitrary stack of layers and logs the
    URL and error each one is given.
  \<^item> \<open>Session_Cookie\<close>, \<open>Session_Store\<close>, \<open>Crc32\<close>, \<open>Session_Middleware\<close>: \<open>middleware/session/*.js\<close>,
    \<open>session.js\<close> and \<open>buffer-crc32\<close>. A store is a locale; the memory store interprets it. Sessions pass
    through JSON on their way: what becomes of a value there is an argument, so a session comes back
    with the data JSON gives, and \<open>Web_App\<close> has the instance for a chosen server (\<open>json_proc\<close>: an id that is
    no number turns null, keys without a value are lost).
  \<^item> \<open>Express_Router\<close>: \<open>router/index.js\<close>, \<open>route.js\<close> and the pattern compiler of \<open>utils.js\<close>.
  \<^item> \<open>Query_String\<close>, \<open>Body_Parser\<close>, \<open>Static_Files\<close>: the packages \<open>qs\<close> and \<open>raw-body\<close> with \<open>json.js\<close>, \<open>urlencoded.js\<close>
    and \<open>bodyParser.js\<close>, and \<open>static.js\<close> with \<open>send\<close>, \<open>fresh\<close> and \<open>range-parser\<close>. A body is a sequence of
    events of a stream; a file system is a function from paths.
  \<^item> \<open>Redis_Queue\<close>, \<open>Redis_Parser\<close>, \<open>Redis_Stream\<close>: the command queue and the reply parser of the redis
    client; the queue refines a first-in first-out locale, and the parser is compared with an encoder.
  \<^item> \<open>Web_App\<close>, \<open>Web_Server\<close>: \<open>app.js\<close> itself. In the first its settings, its stack of middleware and its
    routes are values, \<open>app_request\<close> takes a request with its form's fields through session, router and
    handler, and following the redirects of the answers is a partial function whose end is proved. The
    second has the whole server: \<open>serve\<close> takes a request as it comes from the network through every
    middleware of the stack (query, icon, body, method, cookies, session, router, files, errors), and
    \<open>server_step\<close> is the server over time, with requests that wait for a thread counter. A query or body
    whose names reach an object that all objects inherit from (\<open>writes_prototypes\<close>) takes the program
    out of the model: from then on the step is a parameter, and the statements are about runs of
    other requests (\<open>harmless\<close>). A locale states
    what a rule about sessions has to satisfy for all of these to keep it; the typing of the store and the
    isolation of sessions are its two interpretations. \<open>serve_is_app\<close> connects the two theories.
  \<^item> \<open>Hash_Table\<close>, \<open>Port_Register\<close>: \<open>hash.c\<close>, \<open>port_register.c\<close> and \<open>connect.c\<close> of \<open>mp5\<close>, the service that
    \<open>register.js\<close> and the file-box servers ask for ports. The table implements a map from codes (a
    locale says what the register relies on) except that deletion can lose a chain; the register is a
    machine over requests and cleanings.
  \<^item> \<open>Box_Config\<close>, \<open>Box_Server\<close>: the file-box server of \<open>csiebox_server.c\<close>, as far as the web tool shows
    it. The first reads the configuration, the account file and the pid file the way the C code
    does, byte by byte and with its buffers, and compares the result with \<open>read_cfg\<close> and
    \<open>fifo_path\<close> of the tool; the second is the machine over connections and signals that keeps the
    number of clients. A signal can come in the middle of a login or a hang-up, and an operation whose
    request is too long leaves its buffer and ends the machine.
  \<^item> \<open>Thread_Pool\<close>: \<open>thread_pool.c\<close>. Its operations are functions on the pool, each one critical section;
    an inductive relation lets any thread take the next one. The ring of tasks interprets a locale
    of bounded queues.
  \<^item> \<open>File_Transfer\<close>: the chunks in which \<open>send.c\<close> sends a file and the loop that receives them, a
    \<open>partial_function\<close> because it need not end. A call that a signal cuts short moves fewer bytes; the
    round trip is for whole calls, and lemmas show what a poll of the web tool does to the others.
  \<^item> \<open>Dom\<close>, \<open>Transitions\<close>, \<open>Carousel\<close>, \<open>Collapse\<close>, \<open>Modal\<close>, \<open>Scroll_Widgets\<close>, \<open>Tooltip\<close>, \<open>Menus\<close>: the plugins
    of \<open>bootstrap.js\<close>. Elements carry lists of class names; a plugin's object is a record; user
    actions, ends of transitions and timers are events, and a step function treats each.
  \<^item> \<open>Plugins\<close>, \<open>Popover\<close>: how pages reach the plugins. The functions \<open>$.fn.x\<close> with their options and methods
    called by name (a locale states what they have in common), the handlers of links with \<open>data-\<close>
    attributes, and the objects of tooltip and popover with delegation and destruction.
  \<^item> \<open>Panel_Size\<close>: the sizes of one collapsible panel and what makes its transitions start.
  \<^item> \<open>Plugin_Registry\<close>: what loading \<open>bootstrap.js\<close> leaves in a page, its functions and handlers, and
    that \<open>noConflict\<close> gives the names back.
  \<^item> \<open>Block_UI\<close>, \<open>Block_Ends\<close>, \<open>Block_Growl\<close>, \<open>Block_Legacy\<close>: \<open>jquery.blockUI.js\<close>. The first has the page with its elements, layers, fades and
    timers and the operations on it with their invariants; the second what follows from them for
    the end of a block, for the message element and for the events of a blocked page; the third adds
    the notices of \<open>growlUI\<close> and their mouse handlers, and shows that unblocking still ends; the last has
    what depends on the browser.

  What is shown: a server chosen by the bytes of a form is on the page the same browser asks for later,
  whose chart shows the last twenty counters,
  through the whole server and whatever it does for others in between; requests of others leave a
  session alone; only two things end the process (each as long as no request writes to the
  properties that all objects inherit); sessions survive from one request to the next, and a cookie whose signature does not
  fit never reaches the store; layers and routes run in order, once, by arity and with the original
  URL; cookies, configurations, sessions, query strings and redis replies round-trip through their text forms,
  the last for any cutting of the stream into packets; no request reads a file whose path does not
  begin with the public directory's, and no body exceeds its limit; the table-driven checksum is the bitwise
  one; ports are given once and found again; the
  web tool asks the fifo that the server made, and gets the number of clients as long as they log in
  properly; tasks of the pool are begun in order and once, no wake-up is lost and a shutdown finishes; files
  arrive as they were sent when no signal cuts a call short; the plugins keep their invariants over every sequence of events, completions of transitions
  run once, and a blocked page is freed with nothing left; and the places where the code does not
  do what it is meant to are lemmas too.

  Bounds: one pair of definitions has fuel, \<open>parse_result\<close> and \<open>parse_items\<close> of the redis parser, for the depth of
  nested replies. The parser gives it the length of its buffer, which is enough because each level takes
  bytes of it; \<open>replies_survive_chunking\<close> shows the replies, so the fuel never ran out. The other loops are
  structural or have a length measure, like the route dispatcher on the routes that are left. A browser
  following redirects and the receiver of a file are \<open>partial_function\<close>s into options; the first is
  shown to end, the second to return the file, and not to end when the sender is gone.

  Not modelled: \<open>highcharts.js\<close>, \<open>exporting.js\<close> and \<open>jquery\<close> (minified third-party
  code, except adding a point to a chart), style sheets, the compiler of templates, regular expression engines, HMAC, JSON text and random identifiers
  (parameters, with the laws the code relies on as hypotheses), what the process does once a request has
  written to the prototypes of all objects (a parameter without any law), forms of several parts, tables of media
  types, sockets and the buffers of streams, middleware that \<open>app.js\<close> does not use; of the
  C programs what they do to directories, links, locks and metadata, the client of the file box and
  failures of locks; third-party code that the program does not reach.
\<close>

section \<open>The web tool and the port register\<close>

text \<open>A message as the register reads it: one byte, then the rest.\<close>

definition as_request :: "bool \<times> bool \<Rightarrow> string \<Rightarrow> port_request" where
  "as_request mem msg = \<lparr>pq_mem = mem, pq_act = (case msg of [] \<Rightarrow> None | c # _ \<Rightarrow> Some c), pq_rest = drop 1 msg\<rparr>"

text \<open>The reply that \<open>Web_Api\<close> assumes, with booking and looking up as parameters, is the register's.\<close>

lemma register_replies:
  "fst (handle_request (as_request mem msg) s) =
   port_reply (\<lambda>n. fst (book_port mem (take 512 n) s)) (\<lambda>n. get_port (take 512 n) s) msg"
  by (cases msg) (auto simp: handle_request_def as_request_def port_reply_def Let_def split_beta)

text \<open>So the web tool never gets a port from it, whatever the register has been asked before.\<close>

lemma web_tool_never_registers:
  "reg_log (run_events reg_step (register_events (fst (handle_request (as_request mem (register_request user))
     (run_events register_step es (register_start bindable))))) reg_init) = [RegisterFail]"
  unfolding register_replies by (rule register_rejected_by_port_register)

section \<open>The chart and the file-box server\<close>

text \<open>
  A poll of the front page adds the number of clients the server has at that moment (less one whose login or
  hang-up is under way), as long as they keep to the protocol and the fifo opens in time.
\<close>

lemma chart_gets_client_count:
  assumes "polite env es box_start"
    and "s = run_events (box_step env) es box_start"
    and "card (dom (bx_clients s)) < 2 ^ 31" "c_waiting c"
  shows "chart_step (PollAnswered now (hd (replies (run_events (api_step buf0)
           (FifoOpened (ReadBytes (last (bx_written (box_step env Usr1 s)))) # fs) api_wait)))) c =
         c\<lparr>c_waiting := False, c_timer := True,
           c_points := add_point (now, Some (int (card (dom (bx_clients s)) - uncounted s))) (c_points c)\<rparr>"
  unfolding client_count_reply[OF assms(1-3)] using assms(4) by simp

end
